(* ===== verification/Prelude.thy ===== *)
theory Prelude
  imports Main "HOL-Library.Word"
begin

text \<open>
  Shared vocabulary of the development: the machine integer types of the source, the
  \<open>?\<close> operator of Rust as \<open>and_then\<close> on a sum type, slices of byte arrays, the
  bisection search of the standard library's slices, and the generic facts on lists and
  words that the component theories use. Nothing here models a file of the repository:
  these are the parts of the Rust language and of its standard library that the modelled
  code relies on.
\<close>

named_theorems codec_simps
  \<open>evaluation rules of the field and packet decoders at a known offset of a byte stream\<close>

named_theorems no_panic
  \<open>facts that an operation never ends in a panic\<close>

section \<open>Machine integers\<close>

type_synonym u8 = "8 word"
type_synonym u16 = "16 word"
type_synonym u32 = "32 word"
type_synonym u64 = "64 word"

text \<open>
  A \<open>usize\<close> is a 64 bit offset or length. Every \<open>usize\<close> of the modelled code is the
  length of a vector held in memory, an offset into one, or the sum of such a length and a
  \<open>u32\<close>, far below \<open>2 ^ 64\<close>, so it is modelled as a natural number.
\<close>

type_synonym usize = nat

type_synonym bytes = "u8 list"

section \<open>Early return\<close>

text \<open>\<open>and_then m f\<close> is \<open>f(m?)\<close>: an error (or a panic) of \<open>m\<close> ends the caller.\<close>

definition and_then :: "'e + 'a \<Rightarrow> ('a \<Rightarrow> 'e + 'b) \<Rightarrow> 'e + 'b" where
  "and_then m f = (case m of Inl e \<Rightarrow> Inl e | Inr x \<Rightarrow> f x)"

lemma and_then_Inl [simp]: "and_then (Inl e) f = Inl e"
  by (simp add: and_then_def)

lemma and_then_Inr [simp]: "and_then (Inr x) f = f x"
  by (simp add: and_then_def)

lemma and_then_cong [fundef_cong]:
  "\<lbrakk>m = m'; \<And>x. m' = Inr x \<Longrightarrow> f x = g x\<rbrakk> \<Longrightarrow> and_then m f = and_then m' g"
  by (simp add: and_then_def split: sum.split)

lemma and_then_eq_Inr: "and_then m f = Inr y \<longleftrightarrow> (\<exists>x. m = Inr x \<and> f x = Inr y)"
  by (cases m) auto

lemma and_then_eq_Inl: "and_then m f = Inl e \<longleftrightarrow> m = Inl e \<or> (\<exists>x. m = Inr x \<and> f x = Inl e)"
  by (cases m) auto

lemma and_then_assoc: "and_then (and_then m f) g = and_then m (\<lambda>x. and_then (f x) g)"
  by (cases m) auto

lemma and_then_InrE:
  assumes "and_then m f = Inr y"
  obtains x where "m = Inr x" and "f x = Inr y"
  using assms by (cases m) auto

section \<open>Lists\<close>

lemma drop_append_at [simp]: "n = length xs \<Longrightarrow> drop n (xs @ ys) = ys"
  by simp

lemma take_append_at [simp]: "n = length xs \<Longrightarrow> take n (xs @ ys) = xs"
  by simp

lemma list_all2_len: "list_all2 P xs ys \<Longrightarrow> length xs = length ys"
  by (rule list_all2_lengthD)

section \<open>Binary search in a sorted slice\<close>

text \<open>
  \<open>slice::binary_search_by\<close>: \<open>Inr i\<close> is \<open>Ok(i)\<close>, an index that compares equal, and
  \<open>Inl i\<close> is \<open>Err(i)\<close>, the index where the key would be inserted. The loop keeps the
  bounds \<open>left\<close> and \<open>right\<close> and looks at the middle, as the library does.
\<close>

function bisect :: "'k::linorder \<Rightarrow> 'k list \<Rightarrow> nat \<Rightarrow> nat \<Rightarrow> nat + nat" where
  "bisect key ks left right =
     (if left < right
      then let mid = left + (right - left) div 2; k = ks ! mid
           in if k < key then bisect key ks (Suc mid) right
              else if key < k then bisect key ks left mid
              else Inr mid
      else Inl left)"
  by pat_completeness auto
termination
  by (relation "measure (\<lambda>(key, ks, left, right). right - left)") auto

declare bisect.simps [simp del]

definition binary_search :: "'k::linorder \<Rightarrow> 'k list \<Rightarrow> nat + nat" where
  "binary_search key ks = bisect key ks 0 (length ks)"

lemma bisect_Inr:
  "\<lbrakk>bisect key ks left right = Inr i; right \<le> length ks\<rbrakk> \<Longrightarrow> left \<le> i \<and> i < right \<and> ks ! i = key"
proof (induction key ks left right rule: bisect.induct)
  case (1 key ks left right)
  let ?mid = "left + (right - left) div 2"
  show ?case
  proof (cases "left < right")
    case True
    note step = "1.prems"(1) [unfolded bisect.simps [of key ks left right]]
    consider "ks ! ?mid < key" | "key < ks ! ?mid" | "ks ! ?mid = key" by force
    then show ?thesis
    proof cases
      case 1
      then have "bisect key ks (Suc ?mid) right = Inr i" using step True by (simp add: Let_def)
      with "1.IH"(1) [OF True refl refl 1] "1.prems"(2) show ?thesis by simp
    next
      case 2
      then have "bisect key ks left ?mid = Inr i" using step True
        by (auto simp: Let_def split: if_splits)
      moreover have "?mid < right" using True by simp
      moreover have "\<not> ks ! ?mid < key" using 2 by simp
      ultimately show ?thesis using "1.IH"(2) [OF True refl refl _ 2] "1.prems"(2) by simp
    next
      case 3
      then show ?thesis using step True by (simp add: Let_def)
    qed
  next
    case False
    with "1.prems"(1) show ?thesis by (simp add: bisect.simps)
  qed
qed

lemma bisect_Inl:
  "\<lbrakk>bisect key ks left right = Inl i; sorted ks; right \<le> length ks; left \<le> right;
    \<forall>j<left. ks ! j < key; \<forall>j<length ks. right \<le> j \<longrightarrow> key < ks ! j\<rbrakk>
   \<Longrightarrow> i \<le> length ks \<and> (\<forall>j<i. ks ! j < key) \<and> (\<forall>j<length ks. i \<le> j \<longrightarrow> key < ks ! j)"
proof (induction key ks left right rule: bisect.induct)
  case (1 key ks left right)
  let ?mid = "left + (right - left) div 2"
  show ?case
  proof (cases "left < right")
    case True
    then have mid: "?mid < right" "?mid < length ks" using "1.prems"(3) by auto
    note step = "1.prems"(1) [unfolded bisect.simps [of key ks left right]]
    consider "ks ! ?mid < key" | "key < ks ! ?mid" | "ks ! ?mid = key" by force
    then show ?thesis
    proof cases
      case 1
      then have eq: "bisect key ks (Suc ?mid) right = Inl i" using step True by (simp add: Let_def)
      have "ks ! j < key" if "j < Suc ?mid" for j
        using that mid(2) sorted_nth_mono [OF "1.prems"(2), of j ?mid] 1 by simp
      with "1.IH"(1) [OF True refl refl 1 eq] "1.prems" mid show ?thesis by simp
    next
      case 2
      then have eq: "bisect key ks left ?mid = Inl i" using step True
        by (auto simp: Let_def split: if_splits)
      have up: "key < ks ! j" if "?mid \<le> j" "j < length ks" for j
        using that sorted_nth_mono [OF "1.prems"(2), of ?mid j] 2 by simp
      have nl: "\<not> ks ! ?mid < key" using 2 by simp
      from "1.IH"(2) [OF True refl refl nl 2 eq] "1.prems" mid up show ?thesis by simp
    next
      case 3
      then show ?thesis using step True by (simp add: Let_def)
    qed
  next
    case False
    with "1.prems" show ?thesis by (simp add: bisect.simps)
  qed
qed

lemma binary_search_Inr:
  "binary_search key ks = Inr i \<Longrightarrow> i < length ks \<and> ks ! i = key"
  using bisect_Inr [of key ks 0 "length ks" i] by (simp add: binary_search_def)

lemma binary_search_Inl:
  "\<lbrakk>binary_search key ks = Inl i; sorted ks\<rbrakk>
   \<Longrightarrow> i \<le> length ks \<and> (\<forall>j<i. ks ! j < key) \<and> (\<forall>j<length ks. i \<le> j \<longrightarrow> key < ks ! j)"
  using bisect_Inl [of key ks 0 "length ks" i] by (simp add: binary_search_def)

lemma binary_search_Inl_notin:
  assumes "binary_search key ks = Inl i" and "sorted ks"
  shows "key \<notin> set ks"
proof
  assume "key \<in> set ks"
  then obtain j where "j < length ks" and "ks ! j = key" by (auto simp: in_set_conv_nth)
  with binary_search_Inl [OF assms] show False by (cases "j < i") auto
qed

lemma binary_search_absent:
  assumes "key \<notin> set ks"
  obtains i where "binary_search key ks = Inl i"
proof (cases "binary_search key ks")
  case (Inr i)
  from binary_search_Inr [OF this] assms show thesis by (metis nth_mem)
qed

text \<open>\<open>Vec::insert\<close> and \<open>Vec::remove\<close> at an index within bounds.\<close>

definition insert_at :: "nat \<Rightarrow> 'a \<Rightarrow> 'a list \<Rightarrow> 'a list" where
  "insert_at i x xs = take i xs @ x # drop i xs"

definition remove_at :: "nat \<Rightarrow> 'a list \<Rightarrow> 'a list" where
  "remove_at i xs = take i xs @ drop (Suc i) xs"

lemma set_insert_at [simp]: "set (insert_at i x xs) = insert x (set xs)"
  by (metis Un_insert_right append_take_drop_id insert_at_def list.simps(15) set_append)

lemma length_insert_at [simp]: "length (insert_at i x xs) = Suc (length xs)"
  by (simp add: insert_at_def)

lemma map_insert_at: "map f (insert_at i x xs) = insert_at i (f x) (map f xs)"
  by (simp add: insert_at_def take_map drop_map)

lemma map_remove_at: "map f (remove_at i xs) = remove_at i (map f xs)"
  by (simp add: remove_at_def take_map drop_map)

lemma sorted_insert_at:
  assumes "sorted_wrt (<) ks" and "\<forall>j<i. ks ! j < k" and "\<forall>j<length ks. i \<le> j \<longrightarrow> k < ks ! j"
    and "i \<le> length ks"
  shows "sorted_wrt (<) (insert_at i (k :: 'a :: linorder) ks)"
proof -
  have l: "\<forall>x\<in>set (take i ks). x < k"
    using assms(2,4) by (auto simp: in_set_conv_nth)
  have r: "\<forall>x\<in>set (drop i ks). k < x"
    using assms(3,4) by (fastforce simp: in_set_conv_nth)
  have split: "sorted_wrt (<) (take i ks @ drop i ks)" using assms(1) by simp
  show ?thesis
    using split l r unfolding insert_at_def sorted_wrt_append
    by (auto simp: sorted_wrt_take sorted_wrt_drop assms(1))
qed

lemma sorted_remove_at:
  assumes "sorted_wrt P ks"
  shows "sorted_wrt P (remove_at i ks)"
proof -
  have split: "sorted_wrt P (take i ks @ drop i ks)" using assms by simp
  have "set (drop (Suc i) ks) \<subseteq> set (drop i ks)"
    by (simp add: set_drop_subset_set_drop)
  with split show ?thesis
    unfolding remove_at_def sorted_wrt_append
    by (auto simp: sorted_wrt_drop assms)
qed

end
