(* ===== verification/Errors.thy ===== *)
theory Errors
  imports Prelude
begin

text \<open>
  Model of \<open>src/error.rs\<close>: the error kinds, the MQTT reason codes with their numbers and the
  conversion from a byte, and the \<open>Result\<close> type of the crate. An \<open>Error\<close> value keeps its
  kind and its reason code, the two fields other code branches on; the description, the
  location and the cause are text for the log and are left out. A panic (an \<open>unwrap\<close> of an
  error, \<open>unreachable!\<close>, \<open>todo!\<close>, an index out of bounds) is a value of its own, \<open>Panic\<close>,
  beside the errors that the code returns.
\<close>

section \<open>Error kinds and reason codes\<close>

datatype ErrorKind =
    NoError
  | InvalidInput
  | MalformedPacket
  | ProtocolError
  | UnsupportedProtocolVersion
  | InsufficientBytes
  | SessionTakenOver
  | Disconnected
  | SlowClient
  | IPCFail
  | RxClosed
  | TxFinish
  | Infallible
  | ParseBoolError
  | ParseFloatError
  | ParseIntError
  | TryFromIntError
  | TryFromAddrError
  | UuidError
  | IOError

datatype ReasonCode =
    Success
  | QoS1
  | QoS2
  | DiconnectWillMessage
  | NoMatchingSubscribers
  | NoSubscriptionExisted
  | ContinueAuthentication
  | ReAuthenticate
  | UnspecifiedError
  | MalformedPacket
  | ProtocolError
  | ImplementationError
  | UnsupportedProtocolVersion
  | InvalidClientID
  | BadLogin
  | NotAuthorized
  | ServerNotAvailable
  | ServerBusy
  | Banned
  | ServerShutdown
  | BadAuthenticationMethod
  | KeepAliveTimeout
  | SessionTakenOver
  | InvalidTopicFilter
  | TopicNameInvalid
  | PacketIdInuse
  | PacketIdNotFound
  | ExceededReceiveMaximum
  | TopicAliasInvalid
  | PacketTooLarge
  | ExceedMessageRate
  | QuotaExceeded
  | AdminAction
  | PayloadFormatInvalid
  | RetainNotSupported
  | QoSNotSupported
  | UseAnotherServer
  | ServerMoved
  | UnsupportedSharedSubscription
  | ExceedConnectionRate
  | ExceedMaximumConnectTime
  | SubscriptionIdNotSupported
  | WildcardSubscriptionsNotSupported

text \<open>\<open>code as u8\<close>, the number the \<open>repr(u8)\<close> enumeration gives each code.\<close>

primrec ReasonCode_as_u8 :: "ReasonCode \<Rightarrow> u8" where
  "ReasonCode_as_u8 Success = 0x00"
| "ReasonCode_as_u8 QoS1 = 0x01"
| "ReasonCode_as_u8 QoS2 = 0x02"
| "ReasonCode_as_u8 DiconnectWillMessage = 0x04"
| "ReasonCode_as_u8 NoMatchingSubscribers = 0x10"
| "ReasonCode_as_u8 NoSubscriptionExisted = 0x11"
| "ReasonCode_as_u8 ContinueAuthentication = 0x18"
| "ReasonCode_as_u8 ReAuthenticate = 0x19"
| "ReasonCode_as_u8 UnspecifiedError = 0x80"
| "ReasonCode_as_u8 MalformedPacket = 0x81"
| "ReasonCode_as_u8 ProtocolError = 0x82"
| "ReasonCode_as_u8 ImplementationError = 0x83"
| "ReasonCode_as_u8 UnsupportedProtocolVersion = 0x84"
| "ReasonCode_as_u8 InvalidClientID = 0x85"
| "ReasonCode_as_u8 BadLogin = 0x86"
| "ReasonCode_as_u8 NotAuthorized = 0x87"
| "ReasonCode_as_u8 ServerNotAvailable = 0x88"
| "ReasonCode_as_u8 ServerBusy = 0x89"
| "ReasonCode_as_u8 Banned = 0x8A"
| "ReasonCode_as_u8 ServerShutdown = 0x8B"
| "ReasonCode_as_u8 BadAuthenticationMethod = 0x8C"
| "ReasonCode_as_u8 KeepAliveTimeout = 0x8D"
| "ReasonCode_as_u8 SessionTakenOver = 0x8E"
| "ReasonCode_as_u8 InvalidTopicFilter = 0x8F"
| "ReasonCode_as_u8 TopicNameInvalid = 0x90"
| "ReasonCode_as_u8 PacketIdInuse = 0x91"
| "ReasonCode_as_u8 PacketIdNotFound = 0x92"
| "ReasonCode_as_u8 ExceededReceiveMaximum = 0x93"
| "ReasonCode_as_u8 TopicAliasInvalid = 0x94"
| "ReasonCode_as_u8 PacketTooLarge = 0x95"
| "ReasonCode_as_u8 ExceedMessageRate = 0x96"
| "ReasonCode_as_u8 QuotaExceeded = 0x97"
| "ReasonCode_as_u8 AdminAction = 0x98"
| "ReasonCode_as_u8 PayloadFormatInvalid = 0x99"
| "ReasonCode_as_u8 RetainNotSupported = 0x9A"
| "ReasonCode_as_u8 QoSNotSupported = 0x9B"
| "ReasonCode_as_u8 UseAnotherServer = 0x9C"
| "ReasonCode_as_u8 ServerMoved = 0x9D"
| "ReasonCode_as_u8 UnsupportedSharedSubscription = 0x9E"
| "ReasonCode_as_u8 ExceedConnectionRate = 0x9F"
| "ReasonCode_as_u8 ExceedMaximumConnectTime = 0xA0"
| "ReasonCode_as_u8 SubscriptionIdNotSupported = 0xA1"
| "ReasonCode_as_u8 WildcardSubscriptionsNotSupported = 0xA2"

section \<open>Results\<close>

record error =
  err_kind :: ErrorKind
  err_code :: "ReasonCode option"

datatype fault = Err error | Panic

type_synonym 'a result = "fault + 'a"

abbreviation Ok :: "'a \<Rightarrow> 'a result" where
  "Ok x \<equiv> Inr x"

abbreviation panic :: "'a result" where
  "panic \<equiv> Inl Panic"

text \<open>\<open>err!(Kind, code: Code, ...)\<close> and \<open>err!(Kind, desc: ...)\<close>.\<close>

definition err :: "ErrorKind \<Rightarrow> ReasonCode \<Rightarrow> 'a result" where
  "err k c = Inl (Err \<lparr>err_kind = k, err_code = Some c\<rparr>)"

definition err_desc :: "ErrorKind \<Rightarrow> 'a result" where
  "err_desc k = Inl (Err \<lparr>err_kind = k, err_code = None\<rparr>)"

text \<open>\<open>Error::code\<close>.\<close>

abbreviation (input) Error_code :: "error \<Rightarrow> ReasonCode" where
  "Error_code e \<equiv> (case err_code e of Some c \<Rightarrow> c | None \<Rightarrow> UnspecifiedError)"

text \<open>\<open>unwrap\<close> of a \<open>Result\<close>: an error becomes a panic.\<close>

definition unwrap :: "'a result \<Rightarrow> 'a result" where
  "unwrap r = (case r of Inl _ \<Rightarrow> panic | Inr x \<Rightarrow> Ok x)"

text \<open>Results that are an error the caller can handle, or a value: anything but a panic.\<close>

definition panics :: "'a result \<Rightarrow> bool" where
  "panics r \<longleftrightarrow> r = panic"

lemma panics_simps [simp]:
  "\<not> panics (Ok x)" "\<not> panics (err k c)" "\<not> panics (err_desc k)"
  "\<not> panics (Inl (Err e))" "panics panic"
  by (simp_all add: panics_def err_def err_desc_def)

lemma err_neq_Ok [simp]:
  "err k c \<noteq> Ok x" "err_desc k \<noteq> Ok x" "Ok x \<noteq> err k c" "Ok x \<noteq> err_desc k"
  by (simp_all add: err_def err_desc_def)

lemma and_then_err [simp]:
  "and_then (err k c) f = err k c" "and_then (err_desc k) f = err_desc k"
  by (simp_all add: err_def err_desc_def)

lemma panics_and_then: "panics (and_then m f) \<longleftrightarrow> panics m \<or> (\<exists>x. m = Ok x \<and> panics (f x))"
  by (cases m) (auto simp: panics_def)

lemma not_panics_and_then [no_panic]:
  "\<lbrakk>\<not> panics m; \<And>x. m = Ok x \<Longrightarrow> \<not> panics (f x)\<rbrakk> \<Longrightarrow> \<not> panics (and_then m f)"
  by (auto simp: panics_and_then)

lemma unwrap_simps [simp]: "unwrap (Ok x) = Ok x" "unwrap (err k c) = panic" "unwrap (Inl e) = panic"
  by (simp_all add: unwrap_def err_def)

section \<open>From a byte to a reason code\<close>

definition ReasonCode_try_from :: "u8 \<Rightarrow> ReasonCode result" where
  "ReasonCode_try_from val =
     (if val = 0x00 then Ok Success
      else if val = 0x01 then Ok QoS1
      else if val = 0x02 then Ok QoS2
      else if val = 0x04 then Ok DiconnectWillMessage
      else if val = 0x10 then Ok NoMatchingSubscribers
      else if val = 0x11 then Ok NoSubscriptionExisted
      else if val = 0x18 then Ok ContinueAuthentication
      else if val = 0x19 then Ok ReAuthenticate
      else if val = 0x80 then Ok UnspecifiedError
      else if val = 0x81 then Ok ReasonCode.MalformedPacket
      else if val = 0x82 then Ok ReasonCode.ProtocolError
      else if val = 0x83 then Ok ImplementationError
      else if val = 0x84 then Ok ReasonCode.UnsupportedProtocolVersion
      else if val = 0x85 then Ok InvalidClientID
      else if val = 0x86 then Ok BadLogin
      else if val = 0x87 then Ok NotAuthorized
      else if val = 0x88 then Ok ServerNotAvailable
      else if val = 0x89 then Ok ServerBusy
      else if val = 0x8A then Ok Banned
      else if val = 0x8B then Ok ServerShutdown
      else if val = 0x8C then Ok BadAuthenticationMethod
      else if val = 0x8D then Ok KeepAliveTimeout
      else if val = 0x8E then Ok ReasonCode.SessionTakenOver
      else if val = 0x8F then Ok InvalidTopicFilter
      else if val = 0x90 then Ok TopicNameInvalid
      else if val = 0x91 then Ok PacketIdInuse
      else if val = 0x92 then Ok PacketIdNotFound
      else if val = 0x93 then Ok ExceededReceiveMaximum
      else if val = 0x94 then Ok TopicAliasInvalid
      else if val = 0x95 then Ok PacketTooLarge
      else if val = 0x96 then Ok ExceedMessageRate
      else if val = 0x97 then Ok QuotaExceeded
      else if val = 0x98 then Ok AdminAction
      else if val = 0x99 then Ok PayloadFormatInvalid
      else if val = 0x9A then Ok RetainNotSupported
      else if val = 0x9B then Ok QoSNotSupported
      else if val = 0x9C then Ok UseAnotherServer
      else if val = 0x9D then Ok ServerMoved
      else if val = 0x9E then Ok UnsupportedSharedSubscription
      else if val = 0x9F then Ok ExceedConnectionRate
      else if val = 0xA0 then Ok ExceedMaximumConnectTime
      else if val = 0xA1 then Ok SubscriptionIdNotSupported
      else if val = 0xA2 then Ok WildcardSubscriptionsNotSupported
      else err ErrorKind.MalformedPacket ReasonCode.MalformedPacket)"

lemma ReasonCode_try_from_as_u8 [simp]: "ReasonCode_try_from (ReasonCode_as_u8 c) = Ok c"
  by (cases c) (simp_all add: ReasonCode_try_from_def)

lemma ReasonCode_try_from_Ok: "ReasonCode_try_from v = Ok c \<Longrightarrow> ReasonCode_as_u8 c = v"
  unfolding ReasonCode_try_from_def by (simp split: if_splits)

lemma ReasonCode_try_from_no_panic [no_panic, simp]: "\<not> panics (ReasonCode_try_from v)"
  unfolding ReasonCode_try_from_def by simp

end
