(* ===== verification/Util.thy ===== *)
theory Util
  imports Errors
begin

unbundle bit_operations_syntax

text \<open>
  Model of \<open>src/util.rs\<close>: the code point check, \<open>advance\<close> and the powers of two; and, before
  it, the part of the standard library that the string fields use: \<open>std::str::from_utf8\<close> and
  \<open>str::chars\<close>. A Rust \<open>String\<close> is its UTF-8 bytes, with the invariant \<open>valid_utf8\<close>; \<open>len\<close> is
  the number of bytes and comparison is on the bytes, as in the language.
\<close>

section \<open>UTF-8\<close>

type_synonym code_point = nat

definition cont_byte :: "u8 \<Rightarrow> bool" where
  "cont_byte b \<longleftrightarrow> 0x80 \<le> b \<and> b \<le> 0xBF"

text \<open>The second byte of a three byte and of a four byte sequence, by the first byte.\<close>

definition second_of_3 :: "u8 \<Rightarrow> u8 \<Rightarrow> bool" where
  "second_of_3 b0 b1 \<longleftrightarrow>
     (if b0 = 0xE0 then 0xA0 \<le> b1 \<and> b1 \<le> 0xBF
      else if b0 = 0xED then 0x80 \<le> b1 \<and> b1 \<le> 0x9F
      else cont_byte b1)"

definition second_of_4 :: "u8 \<Rightarrow> u8 \<Rightarrow> bool" where
  "second_of_4 b0 b1 \<longleftrightarrow>
     (if b0 = 0xF0 then 0x90 \<le> b1 \<and> b1 \<le> 0xBF
      else if b0 = 0xF4 then 0x80 \<le> b1 \<and> b1 \<le> 0x8F
      else cont_byte b1)"

definition low6 :: "u8 \<Rightarrow> nat" where
  "low6 b = unat b mod 64"

text \<open>
  The first code point of a byte sequence and what is left of it: sequences of two, three and
  four bytes after their first byte, and the choice by the first byte.
\<close>

fun utf8_seq2 :: "u8 \<Rightarrow> bytes \<Rightarrow> (code_point \<times> bytes) option" where
  "utf8_seq2 b0 (b1 # r) =
     (if cont_byte b1 then Some ((unat b0 - 0xC0) * 64 + low6 b1, r) else None)"
| "utf8_seq2 b0 _ = None"

fun utf8_seq3 :: "u8 \<Rightarrow> bytes \<Rightarrow> (code_point \<times> bytes) option" where
  "utf8_seq3 b0 (b1 # b2 # r) =
     (if second_of_3 b0 b1 \<and> cont_byte b2
      then Some ((unat b0 - 0xE0) * 4096 + low6 b1 * 64 + low6 b2, r) else None)"
| "utf8_seq3 b0 _ = None"

fun utf8_seq4 :: "u8 \<Rightarrow> bytes \<Rightarrow> (code_point \<times> bytes) option" where
  "utf8_seq4 b0 (b1 # b2 # b3 # r) =
     (if second_of_4 b0 b1 \<and> cont_byte b2 \<and> cont_byte b3
      then Some ((unat b0 - 0xF0) * 262144 + low6 b1 * 4096 + low6 b2 * 64 + low6 b3, r)
      else None)"
| "utf8_seq4 b0 _ = None"

fun utf8_next :: "bytes \<Rightarrow> (code_point \<times> bytes) option" where
  "utf8_next [] = None"
| "utf8_next (b0 # r) =
     (if b0 < 0x80 then Some (unat b0, r)
      else if 0xC2 \<le> b0 \<and> b0 \<le> 0xDF then utf8_seq2 b0 r
      else if 0xE0 \<le> b0 \<and> b0 \<le> 0xEF then utf8_seq3 b0 r
      else if 0xF0 \<le> b0 \<and> b0 \<le> 0xF4 then utf8_seq4 b0 r
      else None)"

lemma utf8_seq2_Some:
  "utf8_seq2 b0 bs = Some (c, r) \<Longrightarrow>
     \<exists>b1. bs = b1 # r \<and> cont_byte b1 \<and> c = (unat b0 - 0xC0) * 64 + low6 b1"
  by (cases "(b0, bs)" rule: utf8_seq2.cases) (simp_all split: if_split_asm)

lemma utf8_seq3_Some:
  "utf8_seq3 b0 bs = Some (c, r) \<Longrightarrow>
     \<exists>b1 b2. bs = b1 # b2 # r \<and> second_of_3 b0 b1 \<and> cont_byte b2 \<and>
       c = (unat b0 - 0xE0) * 4096 + low6 b1 * 64 + low6 b2"
  by (cases "(b0, bs)" rule: utf8_seq3.cases) (simp_all split: if_split_asm)

lemma utf8_seq4_Some:
  "utf8_seq4 b0 bs = Some (c, r) \<Longrightarrow>
     \<exists>b1 b2 b3. bs = b1 # b2 # b3 # r \<and> second_of_4 b0 b1 \<and> cont_byte b2 \<and> cont_byte b3 \<and>
       c = (unat b0 - 0xF0) * 262144 + low6 b1 * 4096 + low6 b2 * 64 + low6 b3"
  by (cases "(b0, bs)" rule: utf8_seq4.cases) (simp_all split: if_split_asm)

lemma utf8_next_SomeE:
  assumes "utf8_next bs = Some (c, r)"
  obtains (one) "bs = word_of_nat c # r" "c = unat (word_of_nat c :: u8)" "word_of_nat c < (0x80 :: u8)"
    | (two) b0 s where "bs = b0 # s" "b0 \<le> 0xDF" "utf8_seq2 b0 s = Some (c, r)"
    | (three) b0 s where "bs = b0 # s" "0xE0 \<le> b0" "b0 \<le> 0xEF" "utf8_seq3 b0 s = Some (c, r)"
    | (four) b0 s where "bs = b0 # s" "0xF0 \<le> b0" "b0 \<le> 0xF4" "utf8_seq4 b0 s = Some (c, r)"
proof (cases bs)
  case Nil
  with assms show thesis by simp
next
  case (Cons b0 s)
  consider "b0 < 0x80" | "\<not> b0 < 0x80" "0xC2 \<le> b0 \<and> b0 \<le> 0xDF"
    | "\<not> b0 < 0x80" "\<not> (0xC2 \<le> b0 \<and> b0 \<le> 0xDF)" "0xE0 \<le> b0 \<and> b0 \<le> 0xEF"
    | "\<not> b0 < 0x80" "\<not> (0xC2 \<le> b0 \<and> b0 \<le> 0xDF)" "\<not> (0xE0 \<le> b0 \<and> b0 \<le> 0xEF)"
    by blast
  then show thesis
  proof cases
    case 1
    with assms Cons have "c = unat b0" "r = s" by simp_all
    with 1 Cons show thesis by (intro one) simp_all
  next
    case 2
    with assms Cons have "utf8_seq2 b0 s = Some (c, r)" by simp
    with 2 Cons show thesis by (intro two) blast+
  next
    case 3
    with assms Cons have "utf8_seq3 b0 s = Some (c, r)" by simp
    with 3 Cons show thesis by (intro three) blast+
  next
    case 4
    with assms Cons have "0xF0 \<le> b0 \<and> b0 \<le> 0xF4" "utf8_seq4 b0 s = Some (c, r)"
      by (simp_all split: if_split_asm)
    with Cons show thesis by (intro four) blast+
  qed
qed

lemma utf8_next_shorter: "utf8_next bs = Some (c, r) \<Longrightarrow> length r < length bs"
  by (erule utf8_next_SomeE) (auto dest!: utf8_seq2_Some utf8_seq3_Some utf8_seq4_Some)

text \<open>\<open>from_utf8\<close>: the code points of a well-formed byte sequence.\<close>

function from_utf8 :: "bytes \<Rightarrow> code_point list option" where
  "from_utf8 bs =
     (if bs = [] then Some []
      else case utf8_next bs of
             None \<Rightarrow> None
           | Some (c, r) \<Rightarrow> map_option ((#) c) (from_utf8 r))"
  by pat_completeness auto
termination
  by (relation "measure length") (auto dest: utf8_next_shorter)

declare from_utf8.simps [simp del]

definition valid_utf8 :: "bytes \<Rightarrow> bool" where
  "valid_utf8 bs \<longleftrightarrow> from_utf8 bs \<noteq> None"

text \<open>\<open>str::chars\<close> of the bytes of a string.\<close>

definition chars :: "bytes \<Rightarrow> code_point list" where
  "chars bs = (case from_utf8 bs of Some cs \<Rightarrow> cs | None \<Rightarrow> [])"

text \<open>The bytes of an ASCII literal of the source.\<close>

definition ascii :: "string \<Rightarrow> bytes" where
  "ascii s = map (\<lambda>c. word_of_nat (of_char c)) s"

text \<open>A \<open>char\<close> of Rust is a Unicode scalar value.\<close>

definition scalar_value :: "code_point \<Rightarrow> bool" where
  "scalar_value c \<longleftrightarrow> c < 0xD800 \<or> (0xE000 \<le> c \<and> c \<le> 0x10FFFF)"

section \<open>src/util.rs\<close>

definition is_valid_utf8_code_point :: "code_point \<Rightarrow> bool" where
  "is_valid_utf8_code_point c =
     (let invalid = (0xD800 \<le> c \<and> c \<le> 0xDFFF) \<or> c \<le> 0x1F \<or> (0x7F \<le> c \<and> c \<le> 0x9F)
      in \<not> invalid)"

definition advance :: "bytes \<Rightarrow> usize \<Rightarrow> bytes result" where
  "advance stream n =
     (if n \<le> length stream then Ok (drop n stream)
      else err InsufficientBytes ReasonCode.MalformedPacket)"

definition is_power_of_2 :: "u32 \<Rightarrow> bool" where
  "is_power_of_2 n \<longleftrightarrow> n \<noteq> 0 \<and> (n AND (n - 1)) = 0"

text \<open>\<open>(0..32).skip_while(|i| (1 << i) < n).next()\<close>, the shift in \<open>u32\<close>; the result in \<open>u64\<close>.\<close>

definition ceil_power_of_2 :: "u32 \<Rightarrow> u64" where
  "ceil_power_of_2 n =
     (case dropWhile (\<lambda>i. push_bit i (1 :: u32) < n) [0..<32] of
        i # _ \<Rightarrow> push_bit i 1
      | [] \<Rightarrow> push_bit 32 1)"

text \<open>\<open>num_cores_ceiled\<close>, with the number of cores that \<open>num_cpus::get\<close> reports as argument.\<close>

abbreviation (input) num_cores_ceiled :: "u32 \<Rightarrow> u32 result" where
  "num_cores_ceiled cpus \<equiv>
     (let n = ceil_power_of_2 cpus
      in unwrap (if unat n < 2 ^ 32 then Ok (ucast n) else err_desc TryFromIntError))"

section \<open>Facts\<close>

lemma advance_append [simp]: "n = length xs \<Longrightarrow> advance (xs @ ys) n = Ok ys"
  by (simp add: advance_def)

lemma advance_0 [simp]: "advance xs 0 = Ok xs"
  by (simp add: advance_def)

lemma advance_Ok: "advance xs n = Ok ys \<longleftrightarrow> n \<le> length xs \<and> ys = drop n xs"
  by (auto simp: advance_def)

lemma advance_no_panic [no_panic, simp]: "\<not> panics (advance xs n)"
  by (simp add: advance_def)

lemma low6_lt: "low6 b < 64"
  by (simp add: low6_def)

lemma low6_cont:
  assumes "cont_byte b"
  shows "unat b = 0x80 + low6 b"
proof -
  have "0x80 \<le> unat b" and "unat b \<le> 0xBF"
    using assms by (simp_all add: cont_byte_def word_le_nat_alt)
  then obtain k where "unat b = k + 2 * 64" and "k < 64"
    by (intro that [of "unat b - 0x80"]) simp_all
  then show ?thesis unfolding low6_def by (simp only: mod_mult_self1 mod_less)
qed

lemma second_of_3_cont: "second_of_3 b0 b1 \<Longrightarrow> cont_byte b1"
  by (auto simp: second_of_3_def cont_byte_def word_le_nat_alt split: if_splits)

lemma second_of_4_cont: "second_of_4 b0 b1 \<Longrightarrow> cont_byte b1"
  by (auto simp: second_of_4_def cont_byte_def word_le_nat_alt split: if_splits)

lemma scalar_2:
  assumes "b0 \<le> (0xDF :: u8)"
  shows "scalar_value ((unat b0 - 0xC0) * 64 + low6 b1)"
proof -
  have "unat b0 \<le> 0xDF" using assms by (simp add: word_le_nat_alt)
  then have "unat b0 - 0xC0 \<le> 31" by simp
  then have "(unat b0 - 0xC0) * 64 + low6 b1 < 0xD800" using low6_lt [of b1] by linarith
  then show ?thesis unfolding scalar_value_def ..
qed

lemma scalar_3:
  assumes "0xE0 \<le> b0" "b0 \<le> (0xEF :: u8)" "second_of_3 b0 b1"
  shows "scalar_value ((unat b0 - 0xE0) * 4096 + low6 b1 * 64 + low6 b2)" (is "scalar_value ?c")
proof -
  have hi: "unat b0 \<le> 0xEF" and lo: "0xE0 \<le> unat b0"
    using assms by (simp_all add: word_le_nat_alt)
  have b1: "unat b1 = 0x80 + low6 b1" using assms(3) by (rule low6_cont [OF second_of_3_cont])
  note low = low6_lt [of b1] low6_lt [of b2]
  consider "unat b0 - 0xE0 \<le> 12" | "unat b0 = unat (0xED :: u8)" | "14 \<le> unat b0 - 0xE0"
    by (simp, linarith)
  then show ?thesis
  proof cases
    case 1
    with low have "?c < 0xD800" by linarith
    then show ?thesis by (simp add: scalar_value_def)
  next
    case 2
    then have ed: "b0 = 0xED" by (simp only: word_unat_eq_iff)
    then have "unat b1 \<le> 0x9F" using assms(3) by (simp add: second_of_3_def word_le_nat_alt)
    with b1 low ed have "?c < 0xD800" by simp
    then show ?thesis by (simp add: scalar_value_def)
  next
    case 3
    have "unat b0 - 0xE0 \<le> 15" using hi by simp
    with 3 low have "0xE000 \<le> ?c \<and> ?c \<le> 0x10FFFF" by linarith
    then show ?thesis unfolding scalar_value_def ..
  qed
qed

lemma scalar_4:
  assumes "0xF0 \<le> b0" "b0 \<le> (0xF4 :: u8)" "second_of_4 b0 b1"
  shows "scalar_value ((unat b0 - 0xF0) * 262144 + low6 b1 * 4096 + low6 b2 * 64 + low6 b3)"
    (is "scalar_value ?c")
proof -
  have hi: "unat b0 \<le> 0xF4" and lo: "0xF0 \<le> unat b0"
    using assms by (simp_all add: word_le_nat_alt)
  have b1: "unat b1 = 0x80 + low6 b1" using assms(3) by (rule low6_cont [OF second_of_4_cont])
  note low = low6_lt [of b1] low6_lt [of b2] low6_lt [of b3]
  consider "unat b0 = unat (0xF0 :: u8)" | "1 \<le> unat b0 - 0xF0 \<and> unat b0 - 0xF0 \<le> 3"
    | "unat b0 = unat (0xF4 :: u8)"
    using hi lo by (simp, linarith)
  then have "0xE000 \<le> ?c \<and> ?c \<le> 0x10FFFF"
  proof cases
    case 1
    then have f0: "b0 = 0xF0" by (simp only: word_unat_eq_iff)
    then have "0x90 \<le> unat b1" using assms(3) by (simp add: second_of_4_def word_le_nat_alt)
    with b1 low f0 show ?thesis by simp
  next
    case 2
    with low show ?thesis by linarith
  next
    case 3
    then have f4: "b0 = 0xF4" by (simp only: word_unat_eq_iff)
    then have "unat b1 \<le> 0x8F" using assms(3) by (simp add: second_of_4_def word_le_nat_alt)
    with b1 low f4 show ?thesis by simp
  qed
  then show ?thesis unfolding scalar_value_def ..
qed

lemma scalar_1: "b0 < (0x80 :: u8) \<Longrightarrow> scalar_value (unat b0)"
  by (simp add: scalar_value_def word_less_nat_alt)

text \<open>Every \<open>char\<close> that \<open>chars\<close> yields is a scalar value.\<close>

lemma utf8_next_scalar:
  assumes "utf8_next bs = Some (c, r)"
  shows "scalar_value c"
  using assms
proof (cases rule: utf8_next_SomeE)
  case one
  show ?thesis by (subst one(2)) (rule scalar_1 [OF one(3)])
next
  case (two b0 s)
  from utf8_seq2_Some [OF two(3)] show ?thesis by (elim exE conjE) (simp only: scalar_2 two(2))
next
  case (three b0 s)
  from utf8_seq3_Some [OF three(4)] show ?thesis
    by (elim exE conjE) (simp only: scalar_3 three(2,3))
next
  case (four b0 s)
  from utf8_seq4_Some [OF four(4)] show ?thesis
    by (elim exE conjE) (simp only: scalar_4 four(2,3))
qed

lemma from_utf8_scalar: "from_utf8 bs = Some cs \<Longrightarrow> c \<in> set cs \<Longrightarrow> scalar_value c"
proof (induction bs arbitrary: cs rule: from_utf8.induct)
  case (1 bs)
  show ?case
  proof (cases "bs = []")
    case True
    with "1.prems" show ?thesis by (simp add: from_utf8.simps)
  next
    case False
    with "1.prems" obtain d r ds where next_: "utf8_next bs = Some (d, r)"
      and rest: "from_utf8 r = Some ds" and cs: "cs = d # ds"
      by (auto simp: from_utf8.simps [of bs] split: option.splits)
    from "1.IH" [OF False next_ refl rest] "1.prems"(2) cs utf8_next_scalar [OF next_]
    show ?thesis by auto
  qed
qed

end
