(* ===== verification/Packetize.thy ===== *)
theory Packetize
  imports Util
begin

text \<open>
  The interface of the codec: the byte blob that encoders return (\<open>Blob\<close> of
  \<open>src/types.rs\<close>), the \<open>Packetize\<close> trait of \<open>src/lib.rs\<close> as a locale, and the
  \<open>dec_field!\<close> macro of \<open>src/v5/mod.rs\<close> with the rules by which a decoder moves through
  a stream. Every field and every packet of the protocol interprets the locale.
\<close>

section \<open>Blobs and slices\<close>

datatype Blob = Small (small_data: bytes) (small_size: usize) | Large bytes

text \<open>A \<open>Small\<close> blob has an array of 32 bytes, of which the first \<open>size\<close> count.\<close>

fun blob_ok :: "Blob \<Rightarrow> bool" where
  "blob_ok (Small data sz) \<longleftrightarrow> length data = 32 \<and> sz \<le> 32"
| "blob_ok (Large _) \<longleftrightarrow> True"

text \<open>\<open>&data[..size]\<close> is within the array when the blob is \<open>blob_ok\<close>.\<close>

fun as_ref :: "Blob \<Rightarrow> bytes" where
  "as_ref (Small data sz) = take sz data"
| "as_ref (Large data) = data"

text \<open>\<open>data[i..j].copy_from_slice(src)\<close> panics out of bounds and on different lengths.\<close>

definition copy_from_slice :: "bytes \<Rightarrow> usize \<Rightarrow> usize \<Rightarrow> bytes \<Rightarrow> bytes result" where
  "copy_from_slice data i j src =
     (if i \<le> j \<and> j \<le> length data \<and> length src = j - i
      then Ok (take i data @ src @ drop j data) else panic)"

text \<open>\<open>&stream[i..j]\<close> panics when \<open>j < i\<close> and when \<open>j\<close> is past the end.\<close>

definition slice :: "bytes \<Rightarrow> usize \<Rightarrow> usize \<Rightarrow> bytes result" where
  "slice stream i j =
     (if i \<le> j \<and> j \<le> length stream then Ok (take (j - i) (drop i stream)) else panic)"

text \<open>\<open>data.extend_from_slice(x.encode()?.as_ref())\<close>.\<close>

definition extend_slice :: "bytes \<Rightarrow> Blob result \<Rightarrow> bytes result" where
  "extend_slice data r = and_then r (\<lambda>b. Ok (data @ as_ref b))"

lemma extend_slice_Ok: "extend_slice data r = Ok d \<longleftrightarrow> (\<exists>b. r = Ok b \<and> d = data @ as_ref b)"
  by (auto simp: extend_slice_def and_then_eq_Inr)

lemma extend_slice_eval [simp]: "extend_slice data (Ok b) = Ok (data @ as_ref b)"
  by (simp add: extend_slice_def)

lemma extend_slice_no_panic [no_panic]: "\<not> panics r \<Longrightarrow> \<not> panics (extend_slice data r)"
  by (auto simp: extend_slice_def panics_and_then)

lemma slice_eval [simp]:
  "\<lbrakk>i \<le> j; j \<le> length s\<rbrakk> \<Longrightarrow> slice s i j = Ok (take (j - i) (drop i s))"
  by (simp add: slice_def)

lemma slice_panics: "panics (slice s i j) \<longleftrightarrow> \<not> (i \<le> j \<and> j \<le> length s)"
  by (simp add: slice_def)

lemma slice_Ok: "slice s i j = Ok t \<longleftrightarrow> i \<le> j \<and> j \<le> length s \<and> t = take (j - i) (drop i s)"
  by (auto simp: slice_def)

section \<open>The cursor of a decoder\<close>

text \<open>The stream \<open>s\<close> has been read up to \<open>n\<close> and \<open>rest\<close> is what follows.\<close>

definition at :: "bytes \<Rightarrow> usize \<Rightarrow> bytes \<Rightarrow> bool" where
  "at s n rest \<longleftrightarrow> n \<le> length s \<and> drop n s = rest"

lemma at_0 [simp]: "at s 0 rest \<longleftrightarrow> s = rest"
  by (simp add: at_def)

lemma at_advance: "at s n rest \<Longrightarrow> advance s n = Ok rest"
  by (simp add: at_def advance_Ok)

lemma at_le: "at s n rest \<Longrightarrow> n \<le> length s"
  by (simp add: at_def)

lemma at_length: "at s n rest \<Longrightarrow> length s = n + length rest"
  by (auto simp: at_def)

lemma at_step: "\<lbrakk>at s n (b @ rest); k = length b\<rbrakk> \<Longrightarrow> at s (n + k) rest"
  unfolding at_def by (metis add.commute append_eq_conv_conj drop_drop le_diff_conv2
      length_append le_add1 length_drop add.commute)

lemma at_append [simp]: "n = length pre \<Longrightarrow> at (pre @ rest) n rest"
  by (simp add: at_def)

lemma at_slice: "\<lbrakk>at s n (b @ rest); m = n + length b\<rbrakk> \<Longrightarrow> slice s n m = Ok b"
  by (auto simp: at_def slice_def dest: arg_cong [where f = length])

text \<open>The two forms of \<open>dec_field!(T, stream, n)\<close> and \<open>dec_field!(T, stream, n; pred)\<close>.\<close>

type_synonym 'a decoder = "bytes \<Rightarrow> ('a \<times> usize) result"
type_synonym 'a encoder = "'a \<Rightarrow> Blob result"

definition dec_field :: "'a decoder \<Rightarrow> bytes \<Rightarrow> usize \<Rightarrow> ('a \<times> usize) result" where
  "dec_field dec stream n =
     and_then (advance stream n) (\<lambda>s. and_then (dec s) (\<lambda>(val, m). Ok (val, n + m)))"

definition dec_field_if ::
  "'a decoder \<Rightarrow> bytes \<Rightarrow> usize \<Rightarrow> bool \<Rightarrow> ('a option \<times> usize) result" where
  "dec_field_if dec stream n pred =
     (if pred
      then and_then (advance stream n)
             (\<lambda>s. and_then (dec s) (\<lambda>(val, m). Ok (Some val, n + m)))
      else Ok (None, n))"

lemma dec_field_if_False [simp]: "dec_field_if dec s n False = Ok (None, n)"
  by (simp add: dec_field_if_def)

lemma dec_field_if_True:
  "dec_field_if dec s n True = and_then (dec_field dec s n) (\<lambda>(v, k). Ok (Some v, k))"
  by (simp add: dec_field_if_def dec_field_def and_then_assoc split_def)

section \<open>The Packetize contract\<close>

locale packetize =
  fixes dec :: "'a decoder" and enc :: "'a encoder" and wf :: "'a \<Rightarrow> bool"
  assumes dec_enc: "\<lbrakk>wf v; enc v = Ok b\<rbrakk> \<Longrightarrow> dec (as_ref b @ rest) = Ok (v, length (as_ref b))"
    and dec_bound: "dec s = Ok (v, n) \<Longrightarrow> 0 < n \<and> n \<le> length s"
    and dec_wf: "dec s = Ok (v, n) \<Longrightarrow> wf v"
    and enc_dec: "dec s = Ok (v, n) \<Longrightarrow> \<exists>b. enc v = Ok b \<and> length (as_ref b) \<le> n"
    and enc_blob: "enc v = Ok b \<Longrightarrow> blob_ok b"
    and dec_no_panic: "\<not> panics (dec s)"
    and enc_no_panic: "\<not> panics (enc v)"
begin

lemma enc_nonempty: "\<lbrakk>wf v; enc v = Ok b\<rbrakk> \<Longrightarrow> as_ref b \<noteq> []"
  using dec_enc [of v b "[]"] dec_bound [of "as_ref b" v "length (as_ref b)"] by auto

lemma enc_inj: "\<lbrakk>wf v; wf w; enc v = Ok b; enc w = Ok c; as_ref b = as_ref c\<rbrakk> \<Longrightarrow> v = w"
  using dec_enc [of v b "[]"] dec_enc [of w c "[]"] by simp

lemma field_at:
  assumes "at s n (as_ref b @ rest)" and "wf v" and "enc v = Ok b"
  shows "dec_field dec s n = Ok (v, n + length (as_ref b))"
  using assms by (simp add: dec_field_def at_advance dec_enc)

lemma field_if_at:
  assumes "at s n (as_ref b @ rest)" and "wf v" and "enc v = Ok b"
  shows "dec_field_if dec s n True = Ok (Some v, n + length (as_ref b))"
  using field_at [OF assms] by (simp add: dec_field_if_True)

lemma field_bound: "dec_field dec s n = Ok (v, m) \<Longrightarrow> n < m \<and> m \<le> length s \<and> wf v"
  by (auto simp: dec_field_def and_then_eq_Inr advance_Ok dest: dec_wf dec_bound)

lemma field_if_bound:
  "dec_field_if dec s n p = Ok (v, m) \<Longrightarrow> n \<le> length s \<Longrightarrow>
     n \<le> m \<and> m \<le> length s \<and> pred_option wf v \<and> (v \<noteq> None \<longleftrightarrow> p)"
  by (cases p) (auto simp: dec_field_if_True and_then_eq_Inr dest!: field_bound)

lemma field_no_panic: "\<not> panics (dec_field dec s n)"
  by (auto simp: dec_field_def panics_and_then dec_no_panic)

lemma field_if_no_panic: "\<not> panics (dec_field_if dec s n p)"
  by (cases p) (auto simp: dec_field_if_True panics_and_then field_no_panic)

end

text \<open>Fields with one encoding only: what was decoded is what is encoded again.\<close>

locale canonical = packetize +
  assumes enc_take: "\<lbrakk>dec s = Ok (v, n); enc v = Ok b\<rbrakk> \<Longrightarrow> as_ref b = take n s"
begin

lemma dec_unique:
  "dec s = Ok (v, n) \<Longrightarrow> dec t = Ok (v, m) \<Longrightarrow> take n s = take m t"
  using enc_dec enc_take by metis

end

end
