(* ===== verification/Types.thy ===== *)
theory Types
  imports Packetize
begin

text \<open>
  Model of \<open>src/types.rs\<close>: the protocol version, the client identifier, topic names and
  topic filters with their validation, and the codecs of the elementary fields. The last
  section proves the \<open>packetize\<close> contract for each of them.
\<close>

section \<open>Protocol version\<close>

datatype MqttProtocol = V4 | V5

definition MqttProtocol_try_from :: "u8 \<Rightarrow> MqttProtocol result" where
  "MqttProtocol_try_from val =
     (if val = 4 then Ok V4
      else if val = 5 then Ok V5
      else err ErrorKind.MalformedPacket ReasonCode.UnsupportedProtocolVersion)"

fun u8_from_MqttProtocol :: "MqttProtocol \<Rightarrow> u8" where
  "u8_from_MqttProtocol V4 = 4"
| "u8_from_MqttProtocol V5 = 5"

section \<open>Elementary fields\<close>

text \<open>\<open>Default::default()\<close> of the array of a small blob.\<close>

abbreviation zeros :: bytes where
  "zeros \<equiv> replicate 32 0"

definition u8_decode :: "u8 decoder" where
  "u8_decode stream =
     (if 1 \<le> length stream then Ok (stream ! 0, 1)
      else err InsufficientBytes ReasonCode.MalformedPacket)"

definition u8_encode :: "u8 encoder" where
  "u8_encode v = Ok (Small (zeros[0 := v]) 1)"

definition u16_to_be_bytes :: "u16 \<Rightarrow> bytes" where
  "u16_to_be_bytes v = [ucast (drop_bit 8 v), ucast v]"

definition u16_from_be_bytes :: "bytes \<Rightarrow> u16" where
  "u16_from_be_bytes bs = (push_bit 8 (ucast (bs ! 0)) OR ucast (bs ! 1))"

definition u16_decode :: "u16 decoder" where
  "u16_decode stream =
     (if 2 \<le> length stream then Ok (u16_from_be_bytes (take 2 stream), 2)
      else err InsufficientBytes ReasonCode.MalformedPacket)"

definition u16_encode :: "u16 encoder" where
  "u16_encode v =
     and_then (copy_from_slice zeros 0 2 (u16_to_be_bytes v)) (\<lambda>data. Ok (Small data 2))"

definition u32_to_be_bytes :: "u32 \<Rightarrow> bytes" where
  "u32_to_be_bytes v = [ucast (drop_bit 24 v), ucast (drop_bit 16 v), ucast (drop_bit 8 v), ucast v]"

definition u32_from_be_bytes :: "bytes \<Rightarrow> u32" where
  "u32_from_be_bytes bs =
     (push_bit 24 (ucast (bs ! 0)) OR push_bit 16 (ucast (bs ! 1)) OR
      push_bit 8 (ucast (bs ! 2)) OR ucast (bs ! 3))"

definition u32_decode :: "u32 decoder" where
  "u32_decode stream =
     (if 4 \<le> length stream then Ok (u32_from_be_bytes (take 4 stream), 4)
      else err InsufficientBytes ReasonCode.MalformedPacket)"

definition u32_encode :: "u32 encoder" where
  "u32_encode v =
     and_then (copy_from_slice zeros 0 4 (u32_to_be_bytes v)) (\<lambda>data. Ok (Small data 4))"

section \<open>Variable length integers\<close>

datatype VarU32 = VarU32 (var_u32: u32)

definition VarU32_MAX :: u32 where
  "VarU32_MAX = 268435455"

text \<open>The loop \<open>for i in 0..n\<close>, over the indices that are left.\<close>

fun VarU32_loop :: "bytes \<Rightarrow> usize list \<Rightarrow> u32 \<Rightarrow> (VarU32 \<times> usize) result" where
  "VarU32_loop stream [] out = err ErrorKind.MalformedPacket ReasonCode.MalformedPacket"
| "VarU32_loop stream (i # is) out =
     (let val = push_bit (7 * i) (ucast (stream ! i) AND 0x7F);
          out = out + val
      in if stream ! i < 0x80 then Ok (VarU32 out, i + 1)
         else VarU32_loop stream is out)"

definition VarU32_decode :: "VarU32 decoder" where
  "VarU32_decode stream = VarU32_loop stream [0..<min (length stream) 4] 0"

definition VarU32_encode :: "VarU32 encoder" where
  "VarU32_encode v =
     (let val = var_u32 v; data = zeros
      in if val < 128
         then Ok (Small (data[0 := ucast (val AND 0x7F)]) 1)
         else if val < 16384
         then Ok (Small (data[0 := ucast (val AND 0x7F) OR 0x80,
                              1 := ucast (drop_bit 7 val AND 0x7F)]) 2)
         else if val < 2097152
         then Ok (Small (data[0 := ucast (val AND 0x7F) OR 0x80,
                              1 := ucast (drop_bit 7 val AND 0x7F) OR 0x80,
                              2 := ucast (drop_bit 14 val AND 0x7F)]) 3)
         else if val \<le> VarU32_MAX
         then Ok (Small (data[0 := ucast (val AND 0x7F) OR 0x80,
                              1 := ucast (drop_bit 7 val AND 0x7F) OR 0x80,
                              2 := ucast (drop_bit 14 val AND 0x7F) OR 0x80,
                              3 := ucast (drop_bit 21 val AND 0x7F)]) 4)
         else err_desc ErrorKind.ProtocolError)"

section \<open>Strings and binary data\<close>

type_synonym rstring = bytes

definition String_decode :: "rstring decoder" where
  "String_decode stream =
     and_then (u16_decode stream) (\<lambda>(l, _).
       let len = unat l in
       if len + 2 > length stream then err InsufficientBytes ReasonCode.MalformedPacket
       else and_then (slice stream 2 (2 + len)) (\<lambda>bs.
         case from_utf8 bs of
           Some cs \<Rightarrow> if \<not> list_all is_valid_utf8_code_point cs
                      then err ErrorKind.MalformedPacket ReasonCode.MalformedPacket
                      else Ok (bs, 2 + len)
         | None \<Rightarrow> err ErrorKind.MalformedPacket ReasonCode.MalformedPacket))"

definition String_encode :: "rstring encoder" where
  "String_encode s =
     (if \<not> list_all is_valid_utf8_code_point (chars s) then err_desc ErrorKind.ProtocolError
      else let n = length s in
           if n > 65535 then err_desc ErrorKind.ProtocolError
           else if n < 30
           then and_then (copy_from_slice zeros 0 2 (u16_to_be_bytes (word_of_nat n))) (\<lambda>data.
                and_then (copy_from_slice data 2 (2 + n) s) (\<lambda>data.
                Ok (Small data (2 + n))))
           else Ok (Large (u16_to_be_bytes (word_of_nat n) @ s)))"

definition Vec_decode :: "bytes decoder" where
  "Vec_decode stream =
     and_then (u16_decode stream) (\<lambda>(l, _).
       let len = unat l in
       if len + 2 > length stream then err InsufficientBytes ReasonCode.MalformedPacket
       else and_then (slice stream 2 (2 + len)) (\<lambda>bs. Ok (bs, 2 + len)))"

definition Vec_encode :: "bytes encoder" where
  "Vec_encode bs =
     (let n = length bs in
      if n > 65535 then err_desc ErrorKind.ProtocolError
      else Ok (Large (u16_to_be_bytes (word_of_nat n) @ bs)))"

type_synonym UserProperty = "rstring \<times> rstring"

definition UserProperty_decode :: "UserProperty decoder" where
  "UserProperty_decode stream =
     and_then (String_decode stream) (\<lambda>(key, m).
     and_then (and_then (advance stream m) String_decode) (\<lambda>(val, n).
     Ok ((key, val), m + n)))"

definition UserProperty_encode :: "UserProperty encoder" where
  "UserProperty_encode p =
     and_then (String_encode (fst p)) (\<lambda>key_blob.
     and_then (String_encode (snd p)) (\<lambda>val_blob.
       let m = length (as_ref key_blob); n = length (as_ref val_blob)
       in if m + n < 32
          then and_then (copy_from_slice zeros 0 m (as_ref key_blob)) (\<lambda>data.
               and_then (copy_from_slice data m (m + n) (as_ref val_blob)) (\<lambda>data.
               Ok (Small data (m + n))))
          else Ok (Large (as_ref key_blob @ as_ref val_blob))))"

section \<open>Identifiers, topic names and topic filters\<close>

datatype ClientID = ClientID (client_id: rstring)

text \<open>\<open>ClientID::from_connect\<close>; \<open>uuid\<close> is what the \<open>uuid\<close> crate generates.\<close>

definition ClientID_from_connect :: "rstring \<Rightarrow> ClientID \<Rightarrow> ClientID" where
  "ClientID_from_connect uuid cid = (if length (client_id cid) = 0 then ClientID uuid else cid)"

datatype TopicName = TopicName (topic_name: rstring)

datatype TopicFilter = TopicFilter (topic_filter: rstring)

text \<open>\<open>str::split\<close> at a one byte character.\<close>

fun split_at :: "u8 \<Rightarrow> bytes \<Rightarrow> bytes list" where
  "split_at c [] = [[]]"
| "split_at c (b # bs) =
     (if b = c then [] # split_at c bs
      else case split_at c bs of l # ls \<Rightarrow> (b # l) # ls | [] \<Rightarrow> [[b]])"

definition iter_topic_path :: "rstring \<Rightarrow> rstring list" where
  "iter_topic_path s = split_at 0x2F s"

text \<open>The characters \<open>'#'\<close> and \<open>'+'\<close>.\<close>

definition wildcard_char :: "code_point \<Rightarrow> bool" where
  "wildcard_char c \<longleftrightarrow> c = 0x23 \<or> c = 0x2B"

definition TopicName_validate :: "TopicName \<Rightarrow> unit result" where
  "TopicName_validate self =
     (if length (topic_name self) = 0
      then err ErrorKind.MalformedPacket ReasonCode.MalformedPacket
      else if list_ex (\<lambda>ch. wildcard_char ch \<or> ch = 0) (chars (topic_name self))
      then err ErrorKind.MalformedPacket ReasonCode.MalformedPacket
      else Ok ())"

definition TopicFilter_validate :: "TopicFilter \<Rightarrow> unit result" where
  "TopicFilter_validate self =
     (if length (topic_filter self) = 0
      then err ErrorKind.MalformedPacket ReasonCode.MalformedPacket
      else if list_ex (\<lambda>ch. ch = 0) (chars (topic_filter self))
      then err ErrorKind.MalformedPacket ReasonCode.MalformedPacket
      else
        let levels = iter_topic_path (topic_filter self) in
        if list_ex (\<lambda>l. list_ex wildcard_char (chars l)) (filter (\<lambda>l. length l > 1) levels)
        then err ErrorKind.MalformedPacket ReasonCode.MalformedPacket
        else
          let rest = tl (dropWhile (\<lambda>l. l \<noteq> ascii ''#'') levels) in
          if rest \<noteq> []
          then err ErrorKind.MalformedPacket ReasonCode.MalformedPacket
          else Ok ())"

definition TopicName_decode :: "TopicName decoder" where
  "TopicName_decode stream =
     and_then (String_decode stream) (\<lambda>(val, n).
       let val = TopicName val
       in and_then (TopicName_validate val) (\<lambda>_. Ok (val, n)))"

definition TopicName_encode :: "TopicName encoder" where
  "TopicName_encode self =
     and_then (TopicName_validate self) (\<lambda>_. String_encode (topic_name self))"

definition TopicFilter_decode :: "TopicFilter decoder" where
  "TopicFilter_decode stream =
     and_then (String_decode stream) (\<lambda>(val, n).
       let val = TopicFilter val
       in and_then (TopicFilter_validate val) (\<lambda>_. Ok (val, n)))"

definition TopicFilter_encode :: "TopicFilter encoder" where
  "TopicFilter_encode self =
     and_then (TopicFilter_validate self) (\<lambda>_. String_encode (topic_filter self))"

section \<open>Facts on the elementary fields\<close>

lemma zeros_update [simp]: "take (Suc 0) (zeros[0 := v]) = [v]"
  by (simp add: numeral_eq_Suc)

lemma copy_zeros [simp]:
  "n = length src \<Longrightarrow> n \<le> 32 \<Longrightarrow>
     copy_from_slice zeros 0 n src = Ok (src @ replicate (32 - n) 0)"
  by (simp add: copy_from_slice_def)

interpretation u8: canonical u8_decode u8_encode "\<lambda>_. True"
proof unfold_locales
  fix s :: bytes and v n b
  assume "u8_decode s = Ok (v, n)" and "u8_encode v = Ok b"
  then show "as_ref b = take n s"
    by (cases s) (auto simp: u8_decode_def u8_encode_def split: if_splits)
qed (auto simp: u8_decode_def u8_encode_def split: if_splits)

lemma bit_u8_high [simp]: "8 \<le> n \<Longrightarrow> \<not> bit (b :: u8) n"
  by (auto dest: bit_imp_le_length)

lemma bit_u8_lt: "bit (b :: u8) n \<Longrightarrow> n < 8"
  by (auto dest: bit_imp_le_length)

lemma u16_be_bytes [simp]: "u16_from_be_bytes (u16_to_be_bytes v) = v"
  unfolding u16_from_be_bytes_def u16_to_be_bytes_def
  by (rule bit_word_eqI) (auto simp: bit_simps)

lemma u16_be_bytes_inv [simp]:
  "u16_to_be_bytes (u16_from_be_bytes [b0, b1]) = [b0, b1]"
  unfolding u16_from_be_bytes_def u16_to_be_bytes_def
  by (auto intro!: bit_word_eqI simp: bit_simps)

lemma bit_u32_from_be_bytes:
  "bit (u32_from_be_bytes [b0, b1, b2, b3]) n \<longleftrightarrow>
     n < 8 \<and> bit b3 n \<or> 8 \<le> n \<and> n < 16 \<and> bit b2 (n - 8) \<or>
     16 \<le> n \<and> n < 24 \<and> bit b1 (n - 16) \<or> 24 \<le> n \<and> n < 32 \<and> bit b0 (n - 24)"
  unfolding u32_from_be_bytes_def
  by (auto simp: bit_simps dest: bit_imp_le_length)

lemma u32_be_bytes [simp]: "u32_from_be_bytes (u32_to_be_bytes v) = v"
  unfolding u32_to_be_bytes_def
  apply (rule bit_word_eqI)
  subgoal for n
    by (cases "n < 8"; cases "n < 16"; cases "n < 24") (auto simp: bit_u32_from_be_bytes bit_simps)
  done

lemma u32_be_bytes_inv [simp]:
  "u32_to_be_bytes (u32_from_be_bytes [b0, b1, b2, b3]) = [b0, b1, b2, b3]"
  unfolding u32_to_be_bytes_def
  by (auto intro!: bit_word_eqI simp: bit_u32_from_be_bytes bit_simps)

lemma length_be_bytes [simp]: "length (u16_to_be_bytes v) = 2" "length (u32_to_be_bytes w) = 4"
  by (simp_all add: u16_to_be_bytes_def u32_to_be_bytes_def)

lemma u16_encode_eq: "u16_encode v = Ok (Small (u16_to_be_bytes v @ replicate 30 0) 2)"
  by (simp add: u16_encode_def)

lemma u32_encode_eq: "u32_encode v = Ok (Small (u32_to_be_bytes v @ replicate 28 0) 4)"
  by (simp add: u32_encode_def)

interpretation u16: canonical u16_decode u16_encode "\<lambda>_. True"
proof unfold_locales
  fix s :: bytes and v n b
  assume dec: "u16_decode s = Ok (v, n)" and enc: "u16_encode v = Ok b"
  then obtain b0 b1 t where "s = b0 # b1 # t"
    by (cases s; cases "tl s") (auto simp: u16_decode_def)
  with dec enc show "as_ref b = take n s"
    by (auto simp: u16_decode_def u16_encode_eq)
qed (auto simp: u16_decode_def u16_encode_eq split: if_splits)

interpretation u32: canonical u32_decode u32_encode "\<lambda>_. True"
proof unfold_locales
  fix s :: bytes and v n b
  assume dec: "u32_decode s = Ok (v, n)" and enc: "u32_encode v = Ok b"
  then have "4 \<le> length s" by (simp add: u32_decode_def split: if_splits)
  then obtain b0 b1 b2 b3 t where "s = b0 # b1 # b2 # b3 # t"
    by (auto simp: numeral_eq_Suc Suc_le_length_iff)
  with dec enc show "as_ref b = take n s"
    by (auto simp: u32_decode_def u32_encode_eq)
qed (auto simp: u32_decode_def u32_encode_eq split: if_splits)

section \<open>Facts on variable length integers\<close>

lemma and_7F: "(v :: u32) AND 0x7F = take_bit 7 v"
  by (simp add: take_bit_eq_mask mask_eq_exp_minus_1)

lemma bit_80: "bit (0x80 :: int) n \<longleftrightarrow> n = 7"
  using bit_exp_iff [of 7 n, where ?'a = int] by auto

lemma septet_byte [simp]:
  "(ucast (ucast (v AND 0x7F) :: u8) :: u32) AND 0x7F = v AND 0x7F"
  "(ucast (ucast (v AND 0x7F) OR 0x80 :: u8) :: u32) AND 0x7F = v AND 0x7F"
  unfolding and_7F by (rule bit_word_eqI; auto simp: bit_simps bit_80)+

lemma unat_septet: "unat ((v :: u32) AND 0x7F) = unat v mod 128"
  unfolding and_7F unsigned_take_bit_eq by (simp add: take_bit_eq_mod)

lemma push_septet:
  "push_bit k (drop_bit k (v :: u32) AND 0x7F) = word_of_nat (2 ^ k * (unat v div 2 ^ k mod 128))"
proof -
  have "unat (drop_bit k v AND 0x7F) = unat v div 2 ^ k mod 128"
    unfolding unat_septet unsigned_drop_bit_eq
    using unsigned_less [of v, where ?'a = nat] by (simp add: drop_bit_eq_div take_bit_nat_eq_self)
  then have "drop_bit k v AND 0x7F = word_of_nat (unat v div 2 ^ k mod 128)"
    by (metis of_nat_unat ucast_id)
  then show ?thesis by (simp add: push_bit_eq_mult mult.commute)
qed

lemma septet_last [simp]: "(ucast ((v :: u32) AND 0x7F) :: u8) < 0x80"
  by (simp add: word_less_nat_alt unsigned_ucast_eq take_bit_eq_mod unat_septet)

lemma septet_cont [simp]: "\<not> (b :: u8) OR 0x80 < 0x80"
  using le_word_or1 [of "0x80" b] by simp

lemma nat_septets:
  "(x :: nat) < 16384 \<Longrightarrow> x mod 128 + 128 * (x div 128 mod 128) = x"
  "x < 2097152 \<Longrightarrow> x mod 128 + 128 * (x div 128 mod 128) + 16384 * (x div 16384 mod 128) = x"
  "x < 268435456 \<Longrightarrow> x mod 128 + 128 * (x div 128 mod 128) + 16384 * (x div 16384 mod 128)
     + 2097152 * (x div 2097152 mod 128) = x"
proof -
  have sum2: "x = a + 128 * y \<Longrightarrow> y = b + 128 * z \<Longrightarrow> a + 128 * b + 16384 * z = x"
    and sum3: "x = a + 128 * y \<Longrightarrow> y = b + 128 * z \<Longrightarrow> z = c + 128 * w \<Longrightarrow>
      a + 128 * b + 16384 * c + 2097152 * w = x" for a b c y z w :: nat
    by simp_all
  define y where "y = x div 128"
  define z where "z = y div 128"
  define w where "w = z div 128"
  have x: "x = x mod 128 + 128 * y" and y: "y = y mod 128 + 128 * z" and z: "z = z mod 128 + 128 * w"
    by (simp_all add: y_def z_def w_def)
  have a: "x div 128 = y" "x div 16384 = z" "x div 2097152 = w"
    by (simp_all add: y_def z_def w_def div_mult2_eq [symmetric])
  show "x mod 128 + 128 * (x div 128 mod 128) = x" if "x < 16384"
    using that by simp
  show "x mod 128 + 128 * (x div 128 mod 128) + 16384 * (x div 16384 mod 128) = x" if "x < 2097152"
  proof -
    have "z mod 128 = z" using that by (simp add: z_def y_def)
    then show ?thesis unfolding a by (simp only:) (rule sum2 [OF x y])
  qed
  show "x mod 128 + 128 * (x div 128 mod 128) + 16384 * (x div 16384 mod 128)
     + 2097152 * (x div 2097152 mod 128) = x" if "x < 268435456"
  proof -
    have "w mod 128 = w" using that by (simp add: z_def y_def w_def)
    then show ?thesis unfolding a by (simp only:) (rule sum3 [OF x y z])
  qed
qed

text \<open>One to four septets give the number back.\<close>

lemma septets:
  fixes v :: u32
  shows "v < 128 \<Longrightarrow> v AND 0x7F = v"
  "v < 16384 \<Longrightarrow> (v AND 0x7F) + push_bit 7 (drop_bit 7 v AND 0x7F) = v"
  "v < 2097152 \<Longrightarrow> (v AND 0x7F) + push_bit 7 (drop_bit 7 v AND 0x7F)
     + push_bit 14 (drop_bit 14 v AND 0x7F) = v"
  "v \<le> VarU32_MAX \<Longrightarrow> (v AND 0x7F) + push_bit 7 (drop_bit 7 v AND 0x7F)
     + push_bit 14 (drop_bit 14 v AND 0x7F) + push_bit 21 (drop_bit 21 v AND 0x7F) = v"
proof -
  have conv: "v AND 0x7F = word_of_nat (unat v mod 128)"
    "push_bit 7 (drop_bit 7 v AND 0x7F) = word_of_nat (128 * (unat v div 128 mod 128))"
    "push_bit 14 (drop_bit 14 v AND 0x7F) = word_of_nat (16384 * (unat v div 16384 mod 128))"
    "push_bit 21 (drop_bit 21 v AND 0x7F) = word_of_nat (2097152 * (unat v div 2097152 mod 128))"
    using push_septet [of 0 v] push_septet [of 7 v] push_septet [of 14 v] push_septet [of 21 v]
    by simp_all
  show "v < 128 \<Longrightarrow> v AND 0x7F = v"
    unfolding conv by (simp add: word_less_nat_alt)
  show "v < 16384 \<Longrightarrow> (v AND 0x7F) + push_bit 7 (drop_bit 7 v AND 0x7F) = v"
    unfolding conv of_nat_add [symmetric]
    by (subst nat_septets(1)) (simp_all add: word_less_nat_alt)
  show "v < 2097152 \<Longrightarrow> (v AND 0x7F) + push_bit 7 (drop_bit 7 v AND 0x7F)
     + push_bit 14 (drop_bit 14 v AND 0x7F) = v"
    unfolding conv of_nat_add [symmetric]
    by (subst nat_septets(2)) (simp_all add: word_less_nat_alt)
  show "v \<le> VarU32_MAX \<Longrightarrow> (v AND 0x7F) + push_bit 7 (drop_bit 7 v AND 0x7F)
     + push_bit 14 (drop_bit 14 v AND 0x7F) + push_bit 21 (drop_bit 21 v AND 0x7F) = v"
    unfolding conv of_nat_add [symmetric]
    by (subst nat_septets(3)) (simp_all add: VarU32_MAX_def word_le_nat_alt)
qed

lemma VarU32_loop_step:
  "i < m \<Longrightarrow> VarU32_loop s [i..<m] out =
     (if s ! i < 0x80 then Ok (VarU32 (out + push_bit (7 * i) (ucast (s ! i) AND 0x7F)), i + 1)
      else VarU32_loop s [Suc i..<m] (out + push_bit (7 * i) (ucast (s ! i) AND 0x7F)))"
  by (simp add: upt_conv_Cons Let_def)

text \<open>What \<open>encode\<close> writes, by the size of the number.\<close>

lemma VarU32_encode_cases:
  assumes "VarU32_encode v = Ok b"
  obtains (one) "var_u32 v < 128" "as_ref b = [ucast (var_u32 v AND 0x7F)]"
    | (two) "128 \<le> var_u32 v" "var_u32 v < 16384"
      "as_ref b = [ucast (var_u32 v AND 0x7F) OR 0x80, ucast (drop_bit 7 (var_u32 v) AND 0x7F)]"
    | (three) "16384 \<le> var_u32 v" "var_u32 v < 2097152"
      "as_ref b = [ucast (var_u32 v AND 0x7F) OR 0x80,
         ucast (drop_bit 7 (var_u32 v) AND 0x7F) OR 0x80, ucast (drop_bit 14 (var_u32 v) AND 0x7F)]"
    | (four) "2097152 \<le> var_u32 v" "var_u32 v \<le> VarU32_MAX"
      "as_ref b = [ucast (var_u32 v AND 0x7F) OR 0x80,
         ucast (drop_bit 7 (var_u32 v) AND 0x7F) OR 0x80,
         ucast (drop_bit 14 (var_u32 v) AND 0x7F) OR 0x80, ucast (drop_bit 21 (var_u32 v) AND 0x7F)]"
proof -
  have z: "zeros = 0 # 0 # 0 # 0 # replicate 28 0" by (simp add: numeral_eq_Suc)
  consider "var_u32 v < 128" | "\<not> var_u32 v < 128" "var_u32 v < 16384"
    | "\<not> var_u32 v < 128" "\<not> var_u32 v < 16384" "var_u32 v < 2097152"
    | "\<not> var_u32 v < 128" "\<not> var_u32 v < 16384" "\<not> var_u32 v < 2097152" "var_u32 v \<le> VarU32_MAX"
    | "\<not> var_u32 v < 128" "\<not> var_u32 v < 16384" "\<not> var_u32 v < 2097152" "\<not> var_u32 v \<le> VarU32_MAX"
    by blast
  then show thesis
  proof cases
    case 1
    with assms show thesis by (intro one) (auto simp: VarU32_encode_def Let_def z)
  next
    case 2
    with assms show thesis by (intro two) (auto simp: VarU32_encode_def Let_def z)
  next
    case 3
    with assms show thesis by (intro three) (auto simp: VarU32_encode_def Let_def z numeral_eq_Suc)
  next
    case 4
    with assms show thesis by (intro four) (auto simp: VarU32_encode_def Let_def z numeral_eq_Suc)
  next
    case 5
    with assms show thesis by (simp add: VarU32_encode_def Let_def)
  qed
qed

lemma VarU32_encode_length:
  assumes "VarU32_encode v = Ok b"
  shows "length (as_ref b) =
    (if var_u32 v < 128 then 1 else if var_u32 v < 16384 then 2
     else if var_u32 v < 2097152 then 3 else 4)"
  using assms by (cases rule: VarU32_encode_cases) (auto simp: word_le_nat_alt word_less_nat_alt)

lemma VarU32_encode_le4: "VarU32_encode v = Ok b \<Longrightarrow> length (as_ref b) \<le> 4"
  by (simp add: VarU32_encode_length)

lemma VarU32_encode_le_max: "VarU32_encode v = Ok b \<Longrightarrow> var_u32 v \<le> VarU32_MAX"
  by (auto simp: VarU32_encode_def VarU32_MAX_def Let_def word_le_nat_alt word_less_nat_alt
      split: if_splits)

lemma VarU32_loop_eval:
  "\<lbrakk>0 < m; s ! 0 < 0x80\<rbrakk> \<Longrightarrow> VarU32_loop s [0..<m] 0 = Ok (VarU32 (ucast (s ! 0) AND 0x7F), 1)"
  "\<lbrakk>1 < m; \<not> s ! 0 < 0x80; s ! 1 < 0x80\<rbrakk> \<Longrightarrow> VarU32_loop s [0..<m] 0 =
     Ok (VarU32 ((ucast (s ! 0) AND 0x7F) + push_bit 7 (ucast (s ! 1) AND 0x7F)), 2)"
  "\<lbrakk>2 < m; \<not> s ! 0 < 0x80; \<not> s ! 1 < 0x80; s ! 2 < 0x80\<rbrakk> \<Longrightarrow> VarU32_loop s [0..<m] 0 =
     Ok (VarU32 ((ucast (s ! 0) AND 0x7F) + push_bit 7 (ucast (s ! 1) AND 0x7F)
       + push_bit 14 (ucast (s ! 2) AND 0x7F)), 3)"
  "\<lbrakk>3 < m; \<not> s ! 0 < 0x80; \<not> s ! 1 < 0x80; \<not> s ! 2 < 0x80; s ! 3 < 0x80\<rbrakk> \<Longrightarrow>
     VarU32_loop s [0..<m] 0 =
     Ok (VarU32 ((ucast (s ! 0) AND 0x7F) + push_bit 7 (ucast (s ! 1) AND 0x7F)
       + push_bit 14 (ucast (s ! 2) AND 0x7F) + push_bit 21 (ucast (s ! 3) AND 0x7F)), 4)"
  by (simp_all add: VarU32_loop_step eval_nat_numeral(2,3) del: push_bit_and)

lemma VarU32_decode_eval:
  "b0 < 0x80 \<Longrightarrow> VarU32_decode (b0 # r) = Ok (VarU32 (ucast b0 AND 0x7F), 1)"
  "\<lbrakk>\<not> b0 < 0x80; b1 < 0x80\<rbrakk> \<Longrightarrow> VarU32_decode (b0 # b1 # r) =
     Ok (VarU32 ((ucast b0 AND 0x7F) + push_bit 7 (ucast b1 AND 0x7F)), 2)"
  "\<lbrakk>\<not> b0 < 0x80; \<not> b1 < 0x80; b2 < 0x80\<rbrakk> \<Longrightarrow> VarU32_decode (b0 # b1 # b2 # r) =
     Ok (VarU32 ((ucast b0 AND 0x7F) + push_bit 7 (ucast b1 AND 0x7F)
       + push_bit 14 (ucast b2 AND 0x7F)), 3)"
  "\<lbrakk>\<not> b0 < 0x80; \<not> b1 < 0x80; \<not> b2 < 0x80; b3 < 0x80\<rbrakk> \<Longrightarrow>
     VarU32_decode (b0 # b1 # b2 # b3 # r) =
     Ok (VarU32 ((ucast b0 AND 0x7F) + push_bit 7 (ucast b1 AND 0x7F)
       + push_bit 14 (ucast b2 AND 0x7F) + push_bit 21 (ucast b3 AND 0x7F)), 4)"
  unfolding VarU32_decode_def
  using VarU32_loop_eval [of "min (length (b0 # r)) 4" "b0 # r"]
    VarU32_loop_eval [of "min (length (b0 # b1 # r)) 4" "b0 # b1 # r"]
    VarU32_loop_eval [of "min (length (b0 # b1 # b2 # r)) 4" "b0 # b1 # b2 # r"]
    VarU32_loop_eval [of "min (length (b0 # b1 # b2 # b3 # r)) 4" "b0 # b1 # b2 # b3 # r"]
  by (simp_all del: push_bit_and upt_Suc)

lemma VarU32_dec_enc:
  assumes "VarU32_encode v = Ok b"
  shows "VarU32_decode (as_ref b @ rest) = Ok (v, length (as_ref b))"
  using assms
proof (cases rule: VarU32_encode_cases)
  case one
  then show ?thesis
    using septets(1) [OF one(1)] septet_byte(1) [of "var_u32 v"]
      VarU32_decode_eval(1) [OF septet_last, of "var_u32 v" rest]
    by (cases v) simp
next
  case two
  then show ?thesis
    using septets(2) [OF two(2)] by (cases v) (simp add: VarU32_decode_eval del: push_bit_and)
next
  case three
  then show ?thesis
    using septets(3) [OF three(2)] by (cases v) (simp add: VarU32_decode_eval del: push_bit_and)
next
  case four
  then show ?thesis
    using septets(4) [OF four(2)] by (cases v) (simp add: VarU32_decode_eval del: push_bit_and)
qed

lemma unat_add_of_nat_le: "unat ((a :: u32) + word_of_nat y) \<le> unat a + y"
  by (metis mod_add_right_eq mod_less_eq_dividend unat_of_nat unat_word_ariths(1))

lemma septet_add:
  assumes "i < 4" and "unat out < 2 ^ (7 * i)"
  shows "unat (out + push_bit (7 * i) ((w :: u32) AND 0x7F)) < 2 ^ (7 * Suc i)"
proof -
  define x where "x = unat w mod 128"
  have x: "x < 128" by (simp add: x_def)
  have pow: "(2 :: nat) ^ (7 * Suc i) = 128 * 2 ^ (7 * i)" by (simp add: power_add)
  have "(2 :: nat) ^ (7 * Suc i) \<le> 2 ^ 28" using assms(1) by (intro power_increasing) auto
  with pow have big: "128 * (2 :: nat) ^ (7 * i) \<le> 2 ^ 28" by simp
  have "push_bit (7 * i) (w AND 0x7F) = word_of_nat (2 ^ (7 * i) * x)"
    unfolding x_def push_bit_eq_mult by (simp add: mult.commute flip: unat_septet)
  then have "unat (out + push_bit (7 * i) (w AND 0x7F)) \<le> unat out + 2 ^ (7 * i) * x"
    by (simp only: unat_add_of_nat_le)
  also have "\<dots> < 2 ^ (7 * i) + 2 ^ (7 * i) * x" using assms(2) by simp
  also have "\<dots> = 2 ^ (7 * i) * Suc x" by simp
  also have "\<dots> \<le> 2 ^ (7 * i) * 128" using x by (intro mult_le_mono2) simp
  finally show ?thesis using pow by simp
qed

lemma VarU32_loop_Ok:
  "\<lbrakk>VarU32_loop s [i..<m] out = Ok (v, n); m \<le> 4; unat out < 2 ^ (7 * i)\<rbrakk>
   \<Longrightarrow> i < n \<and> n \<le> m \<and> unat (var_u32 v) < 2 ^ (7 * n)"
proof (induction "m - i" arbitrary: i out)
  case 0
  then show ?case by simp
next
  case (Suc k)
  then have i: "i < m" "i < 4" by simp_all
  note next_ = septet_add [OF i(2) Suc.prems(3), of "ucast (s ! i)"]
  show ?case
  proof (cases "s ! i < 0x80")
    case True
    with Suc.prems(1) i next_ show ?thesis by (auto simp: VarU32_loop_step)
  next
    case False
    with Suc.prems(1) i have
      "VarU32_loop s [Suc i..<m] (out + push_bit (7 * i) (ucast (s ! i) AND 0x7F)) = Ok (v, n)"
      by (simp add: VarU32_loop_step)
    moreover have "k = m - Suc i" using Suc.hyps(2) by simp
    ultimately show ?thesis using Suc.hyps(1) [OF _ _ Suc.prems(2) next_] by fastforce
  qed
qed

lemma VarU32_decode_Ok:
  assumes "VarU32_decode s = Ok (v, n)"
  shows "0 < n \<and> n \<le> length s \<and> n \<le> 4 \<and> unat (var_u32 v) < 2 ^ (7 * n)"
  using VarU32_loop_Ok [of s 0 "min (length s) 4" 0 v n] assms by (auto simp: VarU32_decode_def)

lemma VarU32_loop_no_panic: "\<not> panics (VarU32_loop s is out)"
  by (induction s "is" out rule: VarU32_loop.induct) (auto simp: Let_def)

lemma VarU32_decode_no_panic: "\<not> panics (VarU32_decode s)"
  unfolding VarU32_decode_def by (rule VarU32_loop_no_panic)

lemma VarU32_encode_no_panic: "\<not> panics (VarU32_encode v)"
  by (simp add: VarU32_encode_def Let_def)

lemma VarU32_encode_blob: "VarU32_encode v = Ok b \<Longrightarrow> blob_ok b"
  by (auto simp: VarU32_encode_def Let_def split: if_splits)

lemma VarU32_decode_max: "VarU32_decode s = Ok (v, n) \<Longrightarrow> var_u32 v \<le> VarU32_MAX"
proof -
  assume "VarU32_decode s = Ok (v, n)"
  from VarU32_decode_Ok [OF this] have "n \<le> 4" and "unat (var_u32 v) < 2 ^ (7 * n)" by auto
  moreover have "(2 :: nat) ^ (7 * n) \<le> 2 ^ 28" using \<open>n \<le> 4\<close> by (intro power_increasing) auto
  ultimately show ?thesis by (simp add: VarU32_MAX_def word_le_nat_alt)
qed

lemma VarU32_encode_len:
  assumes "unat (var_u32 v) < 2 ^ (7 * n)" and "0 < n" and "n \<le> 4"
  shows "\<exists>b. VarU32_encode v = Ok b \<and> length (as_ref b) \<le> n"
proof -
  have "n = 1 \<or> n = 2 \<or> n = 3 \<or> n = 4" using assms(2,3) by auto
  then show ?thesis using assms(1)
    by (auto simp: VarU32_encode_def Let_def word_less_nat_alt word_le_nat_alt VarU32_MAX_def)
qed

interpretation VarU32: packetize VarU32_decode VarU32_encode "\<lambda>v. var_u32 v \<le> VarU32_MAX"
proof unfold_locales
  show "\<exists>b. VarU32_encode v = Ok b \<and> length (as_ref b) \<le> n" if "VarU32_decode s = Ok (v, n)" for s v n
    using VarU32_decode_Ok [OF that] VarU32_encode_len by blast
  show "0 < n \<and> n \<le> length s" if "VarU32_decode s = Ok (v, n)" for s v n
    using VarU32_decode_Ok [OF that] by blast
qed (rule VarU32_dec_enc VarU32_decode_max VarU32_encode_blob VarU32_decode_no_panic
    VarU32_encode_no_panic; assumption)+

section \<open>Facts on strings and binary data\<close>

text \<open>The length prefix of strings and binary data.\<close>

definition len_prefix :: "bytes \<Rightarrow> bytes" where
  "len_prefix s = u16_to_be_bytes (word_of_nat (length s))"

lemma length_len_prefix [simp]: "length (len_prefix s) = 2"
  by (simp add: len_prefix_def)

lemma u16_decode_be [simp]: "u16_decode (u16_to_be_bytes v @ rest) = Ok (v, 2)"
  using u16.dec_enc [of v "Small (u16_to_be_bytes v @ replicate 30 0) 2" rest]
  by (simp add: u16_encode_eq)

lemma u16_decode_prefix [simp]: "u16_decode (len_prefix s @ rest) = Ok (word_of_nat (length s), 2)"
  by (simp add: len_prefix_def)

lemma unat_len [simp]: "n \<le> 65535 \<Longrightarrow> unat (word_of_nat n :: u16) = n"
  by (simp add: unat_of_nat)

text \<open>What a length prefixed field decodes to, given the prefix that was read.\<close>

lemma u16_decode_take:
  "u16_decode s = Ok (l, k) \<Longrightarrow> k = 2 \<and> 2 \<le> length s \<and> take 2 s = u16_to_be_bytes l"
  using u16.enc_take [of s l k "Small (u16_to_be_bytes l @ replicate 30 0) 2"] u16.dec_bound [of s l k]
  by (auto simp: u16_encode_eq u16_decode_def split: if_splits)

lemma prefixed_take:
  assumes "u16_decode s = Ok (l, k)" and "unat l + 2 \<le> length s"
  shows "len_prefix (take (unat l) (drop 2 s)) @ take (unat l) (drop 2 s) = take (2 + unat l) s"
proof -
  have "length (take (unat l) (drop 2 s)) = unat l" using assms(2) by simp
  then have "len_prefix (take (unat l) (drop 2 s)) = u16_to_be_bytes l"
    unfolding len_prefix_def by simp
  moreover have "take (2 + unat l) s = take 2 s @ take (unat l) (drop 2 s)"
    by (rule take_add)
  ultimately show ?thesis using u16_decode_take [OF assms(1)] by simp
qed

lemma copy_second:
  "\<lbrakk>length a = m; k = length b; m + k \<le> 32\<rbrakk> \<Longrightarrow>
     copy_from_slice (a @ replicate (32 - m) 0) m (m + k) b = Ok (a @ b @ replicate (32 - (m + k)) 0)"
  by (simp add: copy_from_slice_def)

lemma String_encode_Ok:
  "String_encode s = Ok b \<Longrightarrow>
     list_all is_valid_utf8_code_point (chars s) \<and> length s \<le> 65535 \<and>
     as_ref b = len_prefix s @ s \<and> blob_ok b"
  unfolding len_prefix_def
  by (auto simp: String_encode_def Let_def copy_second [where m = 2, simplified]
      split: if_splits)

lemma String_encode_defined:
  "\<lbrakk>list_all is_valid_utf8_code_point (chars s); length s \<le> 65535\<rbrakk> \<Longrightarrow> \<exists>b. String_encode s = Ok b"
  by (auto simp: String_encode_def Let_def copy_second [where m = 2, simplified])

lemma String_encode_no_panic: "\<not> panics (String_encode s)"
  by (auto simp: String_encode_def Let_def copy_second [where m = 2, simplified])

lemma String_decode_Ok:
  "String_decode s = Ok (v, n) \<longleftrightarrow>
     (\<exists>l. u16_decode s = Ok (l, 2) \<and> unat l + 2 \<le> length s \<and> n = 2 + unat l \<and>
        v = take (unat l) (drop 2 s) \<and> valid_utf8 v \<and> list_all is_valid_utf8_code_point (chars v))"
proof (cases "u16_decode s")
  case (Inr r)
  then obtain l where l: "u16_decode s = Ok (l, 2)" by (cases r) (auto dest: u16_decode_take)
  then show ?thesis
    by (cases "unat l + 2 \<le> length s")
       (auto simp: String_decode_def Let_def valid_utf8_def chars_def split: option.splits if_splits)
qed (simp add: String_decode_def)

lemma String_decode_no_panic: "\<not> panics (String_decode s)"
  by (auto simp: String_decode_def panics_and_then Let_def slice_panics u16.dec_no_panic
      split: option.splits)

interpretation Str: canonical String_decode String_encode valid_utf8
proof unfold_locales
  fix v b rest
  assume "valid_utf8 v" and "String_encode v = Ok b"
  then show "String_decode (as_ref b @ rest) = Ok (v, length (as_ref b))"
    by (auto simp: String_decode_Ok dest!: String_encode_Ok)
next
  fix s v n
  assume dec: "String_decode s = Ok (v, n)"
  then show "0 < n \<and> n \<le> length s" and "valid_utf8 v" by (auto simp: String_decode_Ok)
  from dec obtain l where l: "u16_decode s = Ok (l, 2)" "unat l + 2 \<le> length s" "n = 2 + unat l"
    "v = take (unat l) (drop 2 s)" and ok: "list_all is_valid_utf8_code_point (chars v)"
    by (auto simp: String_decode_Ok)
  have len: "length v = unat l" using l by simp
  then have le: "length v \<le> 65535" using unsigned_less [of l, where ?'a = nat] by simp
  show "\<exists>b. String_encode v = Ok b \<and> length (as_ref b) \<le> n"
    using String_encode_defined [OF ok le] len l(3)
    by (metis String_encode_Ok length_append length_len_prefix order_refl)
  fix b
  assume "String_encode v = Ok b"
  then show "as_ref b = take n s"
    using prefixed_take [OF l(1,2)] l(3,4) by (auto dest!: String_encode_Ok)
qed (auto simp: String_decode_no_panic String_encode_no_panic dest: String_encode_Ok)

lemma Vec_decode_Ok:
  "Vec_decode s = Ok (v, n) \<longleftrightarrow>
     (\<exists>l. u16_decode s = Ok (l, 2) \<and> unat l + 2 \<le> length s \<and> n = 2 + unat l \<and>
        v = take (unat l) (drop 2 s))"
proof (cases "u16_decode s")
  case (Inr r)
  then obtain l where l: "u16_decode s = Ok (l, 2)" by (cases r) (auto dest: u16_decode_take)
  then show ?thesis
    by (cases "unat l + 2 \<le> length s") (auto simp: Vec_decode_def Let_def)
qed (simp add: Vec_decode_def)

lemma Vec_no_panic: "\<not> panics (Vec_decode s)" "\<not> panics (Vec_encode v)"
  by (auto simp: Vec_decode_def Vec_encode_def Let_def panics_and_then slice_panics u16.dec_no_panic)

lemma Vec_encode_Ok:
  "Vec_encode s = Ok b \<longleftrightarrow> length s \<le> 65535 \<and> b = Large (len_prefix s @ s)"
  by (auto simp: Vec_encode_def Let_def len_prefix_def)

interpretation Vec: canonical Vec_decode Vec_encode "\<lambda>_. True"
proof unfold_locales
  fix v b rest
  assume "Vec_encode v = Ok b"
  then show "Vec_decode (as_ref b @ rest) = Ok (v, length (as_ref b))"
    by (auto simp: Vec_decode_Ok Vec_encode_Ok)
next
  fix s v n
  assume dec: "Vec_decode s = Ok (v, n)"
  then obtain l where l: "u16_decode s = Ok (l, 2)" "unat l + 2 \<le> length s" "n = 2 + unat l"
    "v = take (unat l) (drop 2 s)"
    by (auto simp: Vec_decode_Ok)
  have len: "length v = unat l" using l by simp
  then have le: "length v \<le> 65535" using unsigned_less [of l, where ?'a = nat] by simp
  show "\<exists>b. Vec_encode v = Ok b \<and> length (as_ref b) \<le> n"
    using le len l(3) by (auto simp: Vec_encode_Ok)
  show "as_ref b = take n s" if "Vec_encode v = Ok b" for b
    using prefixed_take [OF l(1,2)] l(3,4) that by (auto simp: Vec_encode_Ok)
qed (auto simp: Vec_decode_Ok Vec_encode_Ok Vec_no_panic)

lemma UserProperty_encode_Ok:
  "UserProperty_encode p = Ok b \<Longrightarrow>
     \<exists>kb vb. String_encode (fst p) = Ok kb \<and> String_encode (snd p) = Ok vb \<and>
       as_ref b = as_ref kb @ as_ref vb \<and> blob_ok b"
  by (auto simp: UserProperty_encode_def and_then_eq_Inr Let_def copy_second split: if_splits)

lemma UserProperty_encode_defined:
  "\<lbrakk>String_encode (fst p) = Ok kb; String_encode (snd p) = Ok vb\<rbrakk> \<Longrightarrow> \<exists>b. UserProperty_encode p = Ok b"
  by (auto simp: UserProperty_encode_def Let_def copy_second)

lemma UserProperty_encode_no_panic: "\<not> panics (UserProperty_encode p)"
  by (auto simp: UserProperty_encode_def panics_and_then Let_def copy_second String_encode_no_panic)

lemma UserProperty_decode_Ok:
  "UserProperty_decode s = Ok (p, n) \<longleftrightarrow>
     (\<exists>m k. String_decode s = Ok (fst p, m) \<and> m \<le> length s \<and>
        String_decode (drop m s) = Ok (snd p, k) \<and> n = m + k)"
  by (cases p) (force simp: UserProperty_decode_def and_then_eq_Inr advance_Ok)

lemma UserProperty_decode_no_panic: "\<not> panics (UserProperty_decode s)"
  by (auto simp: UserProperty_decode_def panics_and_then String_decode_no_panic)

definition UserProperty_wf :: "UserProperty \<Rightarrow> bool" where
  "UserProperty_wf p \<longleftrightarrow> valid_utf8 (fst p) \<and> valid_utf8 (snd p)"

interpretation UserProp: canonical UserProperty_decode UserProperty_encode UserProperty_wf
proof unfold_locales
  fix v b rest
  assume wf: "UserProperty_wf v" and enc: "UserProperty_encode v = Ok b"
  from UserProperty_encode_Ok [OF enc] obtain kb vb where
    "String_encode (fst v) = Ok kb" "String_encode (snd v) = Ok vb" "as_ref b = as_ref kb @ as_ref vb"
    by blast
  with wf show "UserProperty_decode (as_ref b @ rest) = Ok (v, length (as_ref b))"
    using Str.dec_enc [of "fst v" kb "as_ref vb @ rest"] Str.dec_enc [of "snd v" vb rest]
    by (simp add: UserProperty_decode_def UserProperty_wf_def)
next
  fix s v n
  assume "UserProperty_decode s = Ok (v, n)"
  then obtain m k where d: "String_decode s = Ok (fst v, m)" "m \<le> length s"
    "String_decode (drop m s) = Ok (snd v, k)" "n = m + k"
    by (auto simp: UserProperty_decode_Ok)
  show "0 < n \<and> n \<le> length s" using d Str.dec_bound [OF d(1)] Str.dec_bound [OF d(3)] by auto
  show "UserProperty_wf v" using d by (auto simp: UserProperty_wf_def dest: Str.dec_wf)
  obtain kb vb where e: "String_encode (fst v) = Ok kb" "String_encode (snd v) = Ok vb"
    using Str.enc_dec [OF d(1)] Str.enc_dec [OF d(3)] by blast
  have take: "as_ref b = take n s" if "UserProperty_encode v = Ok b" for b
    using UserProperty_encode_Ok [OF that] e Str.enc_take [OF d(1) e(1)] Str.enc_take [OF d(3) e(2)]
      d(4) by (auto simp: take_add)
  then show "as_ref b = take n s" if "UserProperty_encode v = Ok b" for b using that by blast
  show "\<exists>b. UserProperty_encode v = Ok b \<and> length (as_ref b) \<le> n"
    using UserProperty_encode_defined [OF e] take by fastforce
qed (auto simp: UserProperty_decode_no_panic UserProperty_encode_no_panic dest: UserProperty_encode_Ok)

section \<open>Facts on topic names and topic filters\<close>

text \<open>A field with a validation of its own around another field.\<close>

locale validated = canonical dec enc wf
  for dec :: "'a decoder" and enc :: "'a encoder" and wf :: "'a \<Rightarrow> bool" +
  fixes mk :: "'a \<Rightarrow> 'b" and sel :: "'b \<Rightarrow> 'a" and validate :: "'b \<Rightarrow> unit result"
  assumes mk_sel: "mk (sel w) = w" and sel_mk: "sel (mk v) = v"
    and validate_no_panic: "\<not> panics (validate w)"
begin

definition vdec :: "'b decoder" where
  "vdec stream = and_then (dec stream) (\<lambda>(val, n).
     let val = mk val in and_then (validate val) (\<lambda>_. Ok (val, n)))"

definition venc :: "'b encoder" where
  "venc w = and_then (validate w) (\<lambda>_. enc (sel w))"

lemma vdec_Ok: "vdec s = Ok (w, n) \<longleftrightarrow> dec s = Ok (sel w, n) \<and> validate w = Ok ()"
  by (force simp: vdec_def and_then_eq_Inr Let_def mk_sel sel_mk)

lemma venc_Ok: "venc w = Ok b \<longleftrightarrow> validate w = Ok () \<and> enc (sel w) = Ok b"
  by (auto simp: venc_def and_then_eq_Inr)

lemma validated_canonical: "canonical vdec venc (\<lambda>w. wf (sel w))"
proof unfold_locales
  show "\<not> panics (vdec s)" for s
    by (auto simp: vdec_def panics_and_then Let_def dec_no_panic validate_no_panic)
  show "\<not> panics (venc w)" for w
    by (auto simp: venc_def panics_and_then enc_no_panic validate_no_panic)
qed (use dec_enc dec_bound dec_wf enc_dec enc_blob enc_take in \<open>auto simp: vdec_Ok venc_Ok\<close>)

end

lemma validate_no_panic [no_panic]:
  "\<not> panics (TopicName_validate w)" "\<not> panics (TopicFilter_validate v)"
  by (auto simp: TopicName_validate_def TopicFilter_validate_def Let_def)

interpretation ValidName: validated String_decode String_encode valid_utf8
    TopicName topic_name TopicName_validate
  by unfold_locales (simp_all add: validate_no_panic)

interpretation ValidFilter: validated String_decode String_encode valid_utf8
    TopicFilter topic_filter TopicFilter_validate
  by unfold_locales (simp_all add: validate_no_panic)

lemma TopicName_vdec: "TopicName_decode = ValidName.vdec" "TopicName_encode = ValidName.venc"
  by (auto simp: fun_eq_iff TopicName_decode_def TopicName_encode_def ValidName.vdec_def
      ValidName.venc_def)

lemma TopicFilter_vdec: "TopicFilter_decode = ValidFilter.vdec" "TopicFilter_encode = ValidFilter.venc"
  by (auto simp: fun_eq_iff TopicFilter_decode_def TopicFilter_encode_def ValidFilter.vdec_def
      ValidFilter.venc_def)

interpretation Name: canonical TopicName_decode TopicName_encode "\<lambda>w. valid_utf8 (topic_name w)"
  unfolding TopicName_vdec by (rule ValidName.validated_canonical)

interpretation Filter: canonical TopicFilter_decode TopicFilter_encode "\<lambda>w. valid_utf8 (topic_filter w)"
  unfolding TopicFilter_vdec by (rule ValidFilter.validated_canonical)

text \<open>\<open>iter_topic_path\<close> cuts at every \<open>'/'\<close>, and nowhere else.\<close>

fun join_path :: "rstring list \<Rightarrow> rstring" where
  "join_path [] = []"
| "join_path [l] = l"
| "join_path (l # ls) = l @ 0x2F # join_path ls"

lemma split_at_nonempty [simp]: "split_at c s \<noteq> []"
  by (induction s) (auto split: list.splits)

lemma join_path_Cons: "ls \<noteq> [] \<Longrightarrow> join_path (l # ls) = l @ 0x2F # join_path ls"
  by (cases ls) auto

lemma join_iter_topic_path: "join_path (iter_topic_path s) = s"
  unfolding iter_topic_path_def
proof (induction s)
  case (Cons b s)
  obtain l ls where "split_at 0x2F s = l # ls" by (cases "split_at 0x2F s") auto
  with Cons show ?case by (cases ls) (auto simp: join_path_Cons)
qed simp

lemma iter_topic_path_levels: "l \<in> set (iter_topic_path s) \<Longrightarrow> 0x2F \<notin> set l"
  unfolding iter_topic_path_def
  by (induction s arbitrary: l) (auto split: list.splits if_splits)

lemma split_at_level: "c \<notin> set l \<Longrightarrow> split_at c l = [l]"
  by (induction l) auto

lemma split_at_append: "c \<notin> set l \<Longrightarrow> split_at c (l @ c # s) = l # split_at c s"
  by (induction l) auto

lemma iter_topic_path_join:
  "\<lbrakk>ls \<noteq> []; \<forall>l\<in>set ls. 0x2F \<notin> set l\<rbrakk> \<Longrightarrow> iter_topic_path (join_path ls) = ls"
  unfolding iter_topic_path_def
  by (induction ls rule: join_path.induct) (auto simp: split_at_level split_at_append)

text \<open>
  The rules of MQTT for a topic filter: it is not empty, holds no null character, has wildcards
  only as whole levels, and \<open>#\<close> only as its last level.
\<close>

definition filter_spec :: "rstring \<Rightarrow> bool" where
  "filter_spec s \<longleftrightarrow> s \<noteq> [] \<and> 0 \<notin> set (chars s) \<and>
     (\<forall>l\<in>set (iter_topic_path s). (\<exists>c\<in>set (chars l). wildcard_char c) \<longrightarrow>
        l = ascii ''#'' \<or> l = ascii ''+'') \<and>
     ascii ''#'' \<notin> set (butlast (iter_topic_path s))"

lemma tl_dropWhile: "tl (dropWhile (\<lambda>x. x \<noteq> a) xs) = [] \<longleftrightarrow> a \<notin> set (butlast xs)"
  by (induction xs) auto

lemma chars_single: "chars [b] = (if b < 0x80 then [unat b] else [])"
  by (simp add: chars_def from_utf8.simps)

lemma unat_eq_u8: "unat (b :: u8) = numeral k \<Longrightarrow> b = word_of_nat (numeral k)"
  by (metis of_nat_unat ucast_id)

lemma chars_wildcard:
  "list_ex wildcard_char (chars l) \<and> length l \<le> 1 \<Longrightarrow> l = ascii ''#'' \<or> l = ascii ''+''"
proof -
  assume *: "list_ex wildcard_char (chars l) \<and> length l \<le> 1"
  have "l \<noteq> []" using * by (auto simp: chars_def from_utf8.simps)
  with * obtain b where l: "l = [b]" by (cases l) auto
  with * have "b < 0x80" and "unat b = 0x23 \<or> unat b = 0x2B"
    by (auto simp: chars_single wildcard_char_def split: if_splits)
  then show ?thesis using l by (auto simp: ascii_def dest!: unat_eq_u8)
qed

lemma filter_levels:
  "list_ex (\<lambda>l. list_ex wildcard_char (chars l)) (filter (\<lambda>l. length l > 1) ls) \<longleftrightarrow>
     \<not> (\<forall>l\<in>set ls. (\<exists>c\<in>set (chars l). wildcard_char c) \<longrightarrow> l = ascii ''#'' \<or> l = ascii ''+'')"
proof -
  have "length l > 1 \<longleftrightarrow> l \<noteq> ascii ''#'' \<and> l \<noteq> ascii ''+''" if "\<exists>c\<in>set (chars l). wildcard_char c" for l
    using that chars_wildcard [of l]
    by (cases "length l > 1") (auto simp: list_ex_iff ascii_def)
  then show ?thesis unfolding list_ex_iff by auto
qed

lemma TopicFilter_validate_spec:
  "TopicFilter_validate (TopicFilter s) = Ok () \<longleftrightarrow> filter_spec s"
  unfolding TopicFilter_validate_def filter_spec_def Let_def filter_levels tl_dropWhile
  by (auto simp: list_ex_iff)

lemma TopicName_validate_spec:
  "TopicName_validate (TopicName s) = Ok () \<longleftrightarrow>
     s \<noteq> [] \<and> (\<forall>c\<in>set (chars s). c \<noteq> 0 \<and> \<not> wildcard_char c)"
  unfolding TopicName_validate_def by (auto simp: list_ex_iff)

end
