(* ===== verification/V5.thy ===== *)
theory V5
  imports Types
begin

text \<open>
  Model of the shared parts of \<open>src/v5/mod.rs\<close>: packet types, quality of service, the fixed
  header with its constructors, validation and codec, the properties with their codec, the
  payload format, and the two functions that put a header in front of encoded bytes.
\<close>

section \<open>Packet types and quality of service\<close>

datatype PacketType =
    Connect | ConnAck | Publish | PubAck | PubRec | PubRel | PubComp | Subscribe | SubAck
  | UnSubscribe | UnsubAck | PingReq | PingResp | Disconnect | Auth

definition PacketType_try_from :: "u8 \<Rightarrow> PacketType result" where
  "PacketType_try_from val =
     (if val = 1 then Ok Connect
      else if val = 2 then Ok ConnAck
      else if val = 3 then Ok Publish
      else if val = 4 then Ok PubAck
      else if val = 5 then Ok PubRec
      else if val = 6 then Ok PubRel
      else if val = 7 then Ok PubComp
      else if val = 8 then Ok Subscribe
      else if val = 9 then Ok SubAck
      else if val = 10 then Ok UnSubscribe
      else if val = 11 then Ok UnsubAck
      else if val = 12 then Ok PingReq
      else if val = 13 then Ok PingResp
      else if val = 14 then Ok Disconnect
      else if val = 15 then Ok Auth
      else err ErrorKind.MalformedPacket ReasonCode.MalformedPacket)"

primrec u8_from_PacketType :: "PacketType \<Rightarrow> u8" where
  "u8_from_PacketType Connect = 1"
| "u8_from_PacketType ConnAck = 2"
| "u8_from_PacketType Publish = 3"
| "u8_from_PacketType PubAck = 4"
| "u8_from_PacketType PubRec = 5"
| "u8_from_PacketType PubRel = 6"
| "u8_from_PacketType PubComp = 7"
| "u8_from_PacketType Subscribe = 8"
| "u8_from_PacketType SubAck = 9"
| "u8_from_PacketType UnSubscribe = 10"
| "u8_from_PacketType UnsubAck = 11"
| "u8_from_PacketType PingReq = 12"
| "u8_from_PacketType PingResp = 13"
| "u8_from_PacketType Disconnect = 14"
| "u8_from_PacketType Auth = 15"

datatype QoS = AtMostOnce | AtLeastOnce | ExactlyOnce

definition QoS_try_from :: "u8 \<Rightarrow> QoS result" where
  "QoS_try_from val =
     (if val = 0 then Ok AtMostOnce
      else if val = 1 then Ok AtLeastOnce
      else if val = 2 then Ok ExactlyOnce
      else err ErrorKind.MalformedPacket ReasonCode.MalformedPacket)"

primrec u8_from_QoS :: "QoS \<Rightarrow> u8" where
  "u8_from_QoS AtMostOnce = 0"
| "u8_from_QoS AtLeastOnce = 1"
| "u8_from_QoS ExactlyOnce = 2"

text \<open>The derived order of the enumeration.\<close>

instantiation QoS :: linorder
begin

definition less_eq_QoS :: "QoS \<Rightarrow> QoS \<Rightarrow> bool" where
  "less_eq_QoS a b \<longleftrightarrow> u8_from_QoS a \<le> u8_from_QoS b"

definition less_QoS :: "QoS \<Rightarrow> QoS \<Rightarrow> bool" where
  "less_QoS a b \<longleftrightarrow> u8_from_QoS a < u8_from_QoS b"

instance
proof
  fix x y z :: QoS
  show "x < y \<longleftrightarrow> x \<le> y \<and> \<not> y \<le> x" by (auto simp: less_eq_QoS_def less_QoS_def)
  show "x \<le> x" by (simp add: less_eq_QoS_def)
  show "x \<le> y \<Longrightarrow> y \<le> z \<Longrightarrow> x \<le> z" by (simp add: less_eq_QoS_def)
  show "x \<le> y \<Longrightarrow> y \<le> x \<Longrightarrow> x = y" by (cases x; cases y) (simp_all add: less_eq_QoS_def word_le_nat_alt)
  show "x \<le> y \<or> y \<le> x" by (auto simp: less_eq_QoS_def)
qed

end

section \<open>The fixed header\<close>

record FixedHeader =
  byte1 :: u8
  remaining_len :: VarU32

definition HDR_RETAIN :: u8 where "HDR_RETAIN = 0x01"
definition HDR_QOS :: u8 where "HDR_QOS = 0x06"
definition HDR_DUP :: u8 where "HDR_DUP = 0x08"
definition HDR_PKT_TYPE :: u8 where "HDR_PKT_TYPE = 0xF0"

definition fixed_byte :: "u8 \<Rightarrow> bool \<Rightarrow> QoS \<Rightarrow> bool \<Rightarrow> u8" where
  "fixed_byte pkt_type retain qos dup =
     (let retain = (if retain then 0x01 else 0x00);
          qos = push_bit 1 (u8_from_QoS qos);
          dup = (if dup then 0x08 else 0x00);
          pkt_type = push_bit 4 pkt_type
      in pkt_type OR retain OR qos OR dup)"

definition FixedHeader_new :: "PacketType \<Rightarrow> VarU32 \<Rightarrow> FixedHeader result" where
  "FixedHeader_new pkt_type rem_len =
     (if var_u32 rem_len > VarU32_MAX then err_desc ErrorKind.ProtocolError
      else Ok \<lparr>byte1 = push_bit 4 (u8_from_PacketType pkt_type), remaining_len = rem_len\<rparr>)"

definition FixedHeader_new_publish :: "bool \<Rightarrow> QoS \<Rightarrow> bool \<Rightarrow> VarU32 \<Rightarrow> FixedHeader result" where
  "FixedHeader_new_publish retain qos dup rem_len =
     (if var_u32 rem_len > VarU32_MAX then err_desc ErrorKind.ProtocolError
      else Ok \<lparr>byte1 = fixed_byte (u8_from_PacketType Publish) retain qos dup,
               remaining_len = rem_len\<rparr>)"

definition FixedHeader_new_pubrel :: "VarU32 \<Rightarrow> FixedHeader result" where
  "FixedHeader_new_pubrel rem_len =
     (if var_u32 rem_len > VarU32_MAX then err_desc ErrorKind.ProtocolError
      else Ok \<lparr>byte1 = fixed_byte (u8_from_PacketType PubRel) False AtLeastOnce False,
               remaining_len = rem_len\<rparr>)"

definition FixedHeader_new_subscribe :: "VarU32 \<Rightarrow> FixedHeader result" where
  "FixedHeader_new_subscribe rem_len =
     (if var_u32 rem_len > VarU32_MAX then err_desc ErrorKind.ProtocolError
      else Ok \<lparr>byte1 = fixed_byte (u8_from_PacketType Subscribe) False AtLeastOnce False,
               remaining_len = rem_len\<rparr>)"

definition FixedHeader_new_unsubscribe :: "VarU32 \<Rightarrow> FixedHeader result" where
  "FixedHeader_new_unsubscribe rem_len =
     (if var_u32 rem_len > VarU32_MAX then err_desc ErrorKind.ProtocolError
      else Ok \<lparr>byte1 = fixed_byte (u8_from_PacketType UnSubscribe) False AtLeastOnce False,
               remaining_len = rem_len\<rparr>)"

text \<open>\<open>unwrap\<close> panics when the type or the quality of service in the byte is reserved.\<close>

definition FixedHeader_unwrap :: "FixedHeader \<Rightarrow> (PacketType \<times> bool \<times> QoS \<times> bool) result" where
  "FixedHeader_unwrap self =
     and_then (unwrap (PacketType_try_from (drop_bit 4 (byte1 self)))) (\<lambda>pkt_type.
     let retain = (byte1 self AND HDR_RETAIN) > 0 in
     and_then (unwrap (QoS_try_from (drop_bit 1 (byte1 self AND HDR_QOS)))) (\<lambda>qos.
     let dup = (byte1 self AND HDR_DUP) > 0 in
     Ok (pkt_type, retain, qos, dup)))"

definition FixedHeader_len :: "FixedHeader \<Rightarrow> usize result" where
  "FixedHeader_len self =
     (let n = var_u32 (remaining_len self) in
      if n < 128 then Ok (1 + 1)
      else if n < 16384 then Ok (1 + 2)
      else if n < 2097152 then Ok (1 + 3)
      else if n < VarU32_MAX then Ok (1 + 4)
      else err ErrorKind.MalformedPacket ReasonCode.MalformedPacket)"

text \<open>
  \<open>validate\<close>: the arms with a guard that does not hold fall through to the last two, which
  reject any flag that is set.
\<close>

definition FixedHeader_validate :: "FixedHeader \<Rightarrow> unit result" where
  "FixedHeader_validate self =
     and_then (QoS_try_from (drop_bit 1 (byte1 self AND HDR_QOS))) (\<lambda>_.
     and_then (PacketType_try_from (drop_bit 4 (byte1 self AND HDR_PKT_TYPE))) (\<lambda>_.
     and_then (FixedHeader_unwrap self) (\<lambda>(pkt_type, retain, qos, dup).
       let guard = (\<lambda>q. qos = q \<and> \<not> retain \<and> \<not> dup);
           last = (if retain \<or> dup \<or> qos \<noteq> AtMostOnce
                   then err ErrorKind.MalformedPacket ReasonCode.MalformedPacket
                   else Ok ())
       in case pkt_type of
            Publish \<Rightarrow> Ok ()
          | PubRel \<Rightarrow> if guard AtLeastOnce then Ok () else last
          | Subscribe \<Rightarrow> if guard AtLeastOnce then Ok () else last
          | UnSubscribe \<Rightarrow> if guard AtLeastOnce then Ok () else last
          | PingReq \<Rightarrow> last
          | PingResp \<Rightarrow> last
          | _ \<Rightarrow> if guard AtMostOnce then Ok () else last)))"

definition FixedHeader_decode :: "FixedHeader decoder" where
  "FixedHeader_decode stream =
     and_then (dec_field u8_decode stream 0) (\<lambda>(b1, n).
     and_then (dec_field VarU32_decode stream n) (\<lambda>(rem_len, n).
       let fh = \<lparr>byte1 = b1, remaining_len = rem_len\<rparr>
       in and_then (FixedHeader_validate fh) (\<lambda>_. Ok (fh, n))))"

definition FixedHeader_encode :: "FixedHeader encoder" where
  "FixedHeader_encode self =
     and_then (FixedHeader_validate self) (\<lambda>_.
     and_then (u8_encode (byte1 self)) (\<lambda>b1.
     and_then (VarU32_encode (remaining_len self)) (\<lambda>rem_len.
       let m = length (as_ref b1); n = length (as_ref rem_len)
       in and_then (copy_from_slice zeros 0 m (as_ref b1)) (\<lambda>data.
          and_then (copy_from_slice data m (m + n) (as_ref rem_len)) (\<lambda>data.
          Ok (Small data (m + n)))))))"

section \<open>Properties\<close>

datatype PropertyType =
    PayloadFormatIndicator
  | MessageExpiryInterval
  | ContentType
  | ResponseTopic
  | CorrelationData
  | SubscriptionIdentifier
  | SessionExpiryInterval
  | AssignedClientIdentifier
  | ServerKeepAlive
  | AuthenticationMethod
  | AuthenticationData
  | RequestProblemInformation
  | WillDelayInterval
  | RequestResponseInformation
  | ResponseInformation
  | ServerReference
  | ReasonString
  | ReceiveMaximum
  | TopicAliasMaximum
  | TopicAlias
  | MaximumQoS
  | RetainAvailable
  | UserProp
  | MaximumPacketSize
  | WildcardSubscriptionAvailable
  | SubscriptionIdentifierAvailable
  | SharedSubscriptionAvailable

text \<open>\<open>PropertyType::X as u32\<close>.\<close>

primrec PropertyType_as_u32 :: "PropertyType \<Rightarrow> u32" where
  "PropertyType_as_u32 PayloadFormatIndicator = 1"
| "PropertyType_as_u32 MessageExpiryInterval = 2"
| "PropertyType_as_u32 ContentType = 3"
| "PropertyType_as_u32 ResponseTopic = 8"
| "PropertyType_as_u32 CorrelationData = 9"
| "PropertyType_as_u32 SubscriptionIdentifier = 11"
| "PropertyType_as_u32 SessionExpiryInterval = 17"
| "PropertyType_as_u32 AssignedClientIdentifier = 18"
| "PropertyType_as_u32 ServerKeepAlive = 19"
| "PropertyType_as_u32 AuthenticationMethod = 21"
| "PropertyType_as_u32 AuthenticationData = 22"
| "PropertyType_as_u32 RequestProblemInformation = 23"
| "PropertyType_as_u32 WillDelayInterval = 24"
| "PropertyType_as_u32 RequestResponseInformation = 25"
| "PropertyType_as_u32 ResponseInformation = 26"
| "PropertyType_as_u32 ServerReference = 28"
| "PropertyType_as_u32 ReasonString = 31"
| "PropertyType_as_u32 ReceiveMaximum = 33"
| "PropertyType_as_u32 TopicAliasMaximum = 34"
| "PropertyType_as_u32 TopicAlias = 35"
| "PropertyType_as_u32 MaximumQoS = 36"
| "PropertyType_as_u32 RetainAvailable = 37"
| "PropertyType_as_u32 UserProp = 38"
| "PropertyType_as_u32 MaximumPacketSize = 39"
| "PropertyType_as_u32 WildcardSubscriptionAvailable = 40"
| "PropertyType_as_u32 SubscriptionIdentifierAvailable = 41"
| "PropertyType_as_u32 SharedSubscriptionAvailable = 42"

definition PropertyType_try_from :: "u32 \<Rightarrow> PropertyType result" where
  "PropertyType_try_from val =
     (if val = 1 then Ok PayloadFormatIndicator
      else if val = 2 then Ok MessageExpiryInterval
      else if val = 3 then Ok ContentType
      else if val = 8 then Ok ResponseTopic
      else if val = 9 then Ok CorrelationData
      else if val = 11 then Ok SubscriptionIdentifier
      else if val = 17 then Ok SessionExpiryInterval
      else if val = 18 then Ok AssignedClientIdentifier
      else if val = 19 then Ok ServerKeepAlive
      else if val = 21 then Ok AuthenticationMethod
      else if val = 22 then Ok AuthenticationData
      else if val = 23 then Ok RequestProblemInformation
      else if val = 24 then Ok WillDelayInterval
      else if val = 25 then Ok RequestResponseInformation
      else if val = 26 then Ok ResponseInformation
      else if val = 28 then Ok ServerReference
      else if val = 31 then Ok ReasonString
      else if val = 33 then Ok ReceiveMaximum
      else if val = 34 then Ok TopicAliasMaximum
      else if val = 35 then Ok TopicAlias
      else if val = 36 then Ok MaximumQoS
      else if val = 37 then Ok RetainAvailable
      else if val = 38 then Ok UserProp
      else if val = 39 then Ok MaximumPacketSize
      else if val = 40 then Ok WildcardSubscriptionAvailable
      else if val = 41 then Ok SubscriptionIdentifierAvailable
      else if val = 42 then Ok SharedSubscriptionAvailable
      else err ErrorKind.MalformedPacket ReasonCode.MalformedPacket)"

datatype Property =
    PayloadFormatIndicator u8
  | MessageExpiryInterval u32
  | ContentType rstring
  | ResponseTopic TopicName
  | CorrelationData bytes
  | SubscriptionIdentifier VarU32
  | SessionExpiryInterval u32
  | AssignedClientIdentifier rstring
  | ServerKeepAlive u16
  | AuthenticationMethod rstring
  | AuthenticationData bytes
  | RequestProblemInformation u8
  | WillDelayInterval u32
  | RequestResponseInformation u8
  | ResponseInformation rstring
  | ServerReference rstring
  | ReasonString rstring
  | ReceiveMaximum u16
  | TopicAliasMaximum u16
  | TopicAlias u16
  | MaximumQoS QoS
  | RetainAvailable u8
  | UserProp UserProperty
  | MaximumPacketSize u32
  | WildcardSubscriptionAvailable u8
  | SubscriptionIdentifierAvailable u8
  | SharedSubscriptionAvailable u8

primrec to_property_type :: "Property \<Rightarrow> PropertyType" where
  "to_property_type (Property.PayloadFormatIndicator _) = PropertyType.PayloadFormatIndicator"
| "to_property_type (Property.MessageExpiryInterval _) = PropertyType.MessageExpiryInterval"
| "to_property_type (Property.ContentType _) = PropertyType.ContentType"
| "to_property_type (Property.ResponseTopic _) = PropertyType.ResponseTopic"
| "to_property_type (Property.CorrelationData _) = PropertyType.CorrelationData"
| "to_property_type (Property.SubscriptionIdentifier _) = PropertyType.SubscriptionIdentifier"
| "to_property_type (Property.SessionExpiryInterval _) = PropertyType.SessionExpiryInterval"
| "to_property_type (Property.AssignedClientIdentifier _) = PropertyType.AssignedClientIdentifier"
| "to_property_type (Property.ServerKeepAlive _) = PropertyType.ServerKeepAlive"
| "to_property_type (Property.AuthenticationMethod _) = PropertyType.AuthenticationMethod"
| "to_property_type (Property.AuthenticationData _) = PropertyType.AuthenticationData"
| "to_property_type (Property.RequestProblemInformation _) = PropertyType.RequestProblemInformation"
| "to_property_type (Property.WillDelayInterval _) = PropertyType.WillDelayInterval"
| "to_property_type (Property.RequestResponseInformation _) = PropertyType.RequestResponseInformation"
| "to_property_type (Property.ResponseInformation _) = PropertyType.ResponseInformation"
| "to_property_type (Property.ServerReference _) = PropertyType.ServerReference"
| "to_property_type (Property.ReasonString _) = PropertyType.ReasonString"
| "to_property_type (Property.ReceiveMaximum _) = PropertyType.ReceiveMaximum"
| "to_property_type (Property.TopicAliasMaximum _) = PropertyType.TopicAliasMaximum"
| "to_property_type (Property.TopicAlias _) = PropertyType.TopicAlias"
| "to_property_type (Property.MaximumQoS _) = PropertyType.MaximumQoS"
| "to_property_type (Property.RetainAvailable _) = PropertyType.RetainAvailable"
| "to_property_type (Property.UserProp _) = PropertyType.UserProp"
| "to_property_type (Property.MaximumPacketSize _) = PropertyType.MaximumPacketSize"
| "to_property_type (Property.WildcardSubscriptionAvailable _) = PropertyType.WildcardSubscriptionAvailable"
| "to_property_type (Property.SubscriptionIdentifierAvailable _) = PropertyType.SubscriptionIdentifierAvailable"
| "to_property_type (Property.SharedSubscriptionAvailable _) = PropertyType.SharedSubscriptionAvailable"

text \<open>The macros \<open>dec_prop!\<close> and \<open>enc_prop!\<close>, the latter also in its form with an option.\<close>

definition dec_prop :: "('a \<Rightarrow> Property) \<Rightarrow> 'a decoder \<Rightarrow> bytes \<Rightarrow> (Property \<times> usize) result" where
  "dec_prop varn dec stream = and_then (dec stream) (\<lambda>(val, n). Ok (varn val, n))"

definition enc_prop :: "bytes \<Rightarrow> PropertyType \<Rightarrow> Blob result \<Rightarrow> bytes result" where
  "enc_prop data varn r =
     and_then (extend_slice data (VarU32_encode (VarU32 (PropertyType_as_u32 varn)))) (\<lambda>data.
     extend_slice data r)"

definition enc_prop_opt :: "bytes \<Rightarrow> PropertyType \<Rightarrow> 'a encoder \<Rightarrow> 'a option \<Rightarrow> bytes result" where
  "enc_prop_opt data varn enc val =
     (case val of Some v \<Rightarrow> enc_prop data varn (enc v) | None \<Rightarrow> Ok data)"

text \<open>The match of \<open>Property::decode\<close> over the property type.\<close>

primrec Property_value :: "PropertyType \<Rightarrow> Property decoder" where
  "Property_value PropertyType.PayloadFormatIndicator stream =
     dec_prop Property.PayloadFormatIndicator u8_decode stream"
| "Property_value PropertyType.MessageExpiryInterval stream =
     dec_prop Property.MessageExpiryInterval u32_decode stream"
| "Property_value PropertyType.ContentType stream =
     dec_prop Property.ContentType String_decode stream"
| "Property_value PropertyType.ResponseTopic stream =
     dec_prop Property.ResponseTopic TopicName_decode stream"
| "Property_value PropertyType.CorrelationData stream =
     dec_prop Property.CorrelationData Vec_decode stream"
| "Property_value PropertyType.SubscriptionIdentifier stream =
     dec_prop Property.SubscriptionIdentifier VarU32_decode stream"
| "Property_value PropertyType.SessionExpiryInterval stream =
     dec_prop Property.SessionExpiryInterval u32_decode stream"
| "Property_value PropertyType.AssignedClientIdentifier stream =
     dec_prop Property.AssignedClientIdentifier String_decode stream"
| "Property_value PropertyType.ServerKeepAlive stream =
     dec_prop Property.ServerKeepAlive u16_decode stream"
| "Property_value PropertyType.AuthenticationMethod stream =
     dec_prop Property.AuthenticationMethod String_decode stream"
| "Property_value PropertyType.AuthenticationData stream =
     dec_prop Property.AuthenticationData Vec_decode stream"
| "Property_value PropertyType.RequestProblemInformation stream =
     dec_prop Property.RequestProblemInformation u8_decode stream"
| "Property_value PropertyType.WillDelayInterval stream =
     dec_prop Property.WillDelayInterval u32_decode stream"
| "Property_value PropertyType.RequestResponseInformation stream =
     dec_prop Property.RequestResponseInformation u8_decode stream"
| "Property_value PropertyType.ResponseInformation stream =
     dec_prop Property.ResponseInformation String_decode stream"
| "Property_value PropertyType.ServerReference stream =
     dec_prop Property.ServerReference String_decode stream"
| "Property_value PropertyType.ReasonString stream =
     dec_prop Property.ReasonString String_decode stream"
| "Property_value PropertyType.ReceiveMaximum stream =
     dec_prop Property.ReceiveMaximum u16_decode stream"
| "Property_value PropertyType.TopicAliasMaximum stream =
     dec_prop Property.TopicAliasMaximum u16_decode stream"
| "Property_value PropertyType.TopicAlias stream = dec_prop Property.TopicAlias u16_decode stream"
| "Property_value PropertyType.MaximumQoS stream =
     and_then (u8_decode stream) (\<lambda>(val, n).
     and_then (QoS_try_from val) (\<lambda>qos. Ok (Property.MaximumQoS qos, n)))"
| "Property_value PropertyType.RetainAvailable stream =
     dec_prop Property.RetainAvailable u8_decode stream"
| "Property_value PropertyType.UserProp stream =
     dec_prop Property.UserProp UserProperty_decode stream"
| "Property_value PropertyType.MaximumPacketSize stream =
     dec_prop Property.MaximumPacketSize u32_decode stream"
| "Property_value PropertyType.WildcardSubscriptionAvailable stream =
     dec_prop Property.WildcardSubscriptionAvailable u8_decode stream"
| "Property_value PropertyType.SubscriptionIdentifierAvailable stream =
     dec_prop Property.SubscriptionIdentifierAvailable u8_decode stream"
| "Property_value PropertyType.SharedSubscriptionAvailable stream =
     dec_prop Property.SharedSubscriptionAvailable u8_decode stream"

definition Property_decode :: "Property decoder" where
  "Property_decode stream =
     and_then (dec_field VarU32_decode stream 0) (\<lambda>(prop_type, n).
     and_then (advance stream n) (\<lambda>stream.
     and_then (PropertyType_try_from (var_u32 prop_type)) (\<lambda>pt.
     and_then (Property_value pt stream) (\<lambda>(property, m).
     Ok (property, n + m)))))"

text \<open>The match of \<open>Property::encode\<close>: the encoded value of a property.\<close>

primrec Property_value_encode :: "Property encoder" where
  "Property_value_encode (Property.PayloadFormatIndicator val) = u8_encode val"
| "Property_value_encode (Property.MessageExpiryInterval val) = u32_encode val"
| "Property_value_encode (Property.ContentType val) = String_encode val"
| "Property_value_encode (Property.ResponseTopic val) = TopicName_encode val"
| "Property_value_encode (Property.CorrelationData val) = Vec_encode val"
| "Property_value_encode (Property.SubscriptionIdentifier val) = VarU32_encode val"
| "Property_value_encode (Property.SessionExpiryInterval val) = u32_encode val"
| "Property_value_encode (Property.AssignedClientIdentifier val) = String_encode val"
| "Property_value_encode (Property.ServerKeepAlive val) = u16_encode val"
| "Property_value_encode (Property.AuthenticationMethod val) = String_encode val"
| "Property_value_encode (Property.AuthenticationData val) = Vec_encode val"
| "Property_value_encode (Property.RequestProblemInformation val) = u8_encode val"
| "Property_value_encode (Property.WillDelayInterval val) = u32_encode val"
| "Property_value_encode (Property.RequestResponseInformation val) = u8_encode val"
| "Property_value_encode (Property.ResponseInformation val) = String_encode val"
| "Property_value_encode (Property.ServerReference val) = String_encode val"
| "Property_value_encode (Property.ReasonString val) = String_encode val"
| "Property_value_encode (Property.ReceiveMaximum val) = u16_encode val"
| "Property_value_encode (Property.TopicAliasMaximum val) = u16_encode val"
| "Property_value_encode (Property.TopicAlias val) = u16_encode val"
| "Property_value_encode (Property.MaximumQoS val) = u8_encode (u8_from_QoS val)"
| "Property_value_encode (Property.RetainAvailable val) = u8_encode val"
| "Property_value_encode (Property.UserProp val) = UserProperty_encode val"
| "Property_value_encode (Property.MaximumPacketSize val) = u32_encode val"
| "Property_value_encode (Property.WildcardSubscriptionAvailable val) = u8_encode val"
| "Property_value_encode (Property.SubscriptionIdentifierAvailable val) = u8_encode val"
| "Property_value_encode (Property.SharedSubscriptionAvailable val) = u8_encode val"

definition Property_encode :: "Property encoder" where
  "Property_encode self =
     and_then (enc_prop [] (to_property_type self) (Property_value_encode self)) (\<lambda>data.
     Ok (Large data))"

section \<open>Payload format\<close>

datatype PayloadFormat = Binary | Utf8

definition PayloadFormat_default :: PayloadFormat where
  "PayloadFormat_default = Binary"

definition PayloadFormat_try_from :: "u8 \<Rightarrow> PayloadFormat result" where
  "PayloadFormat_try_from val =
     (if val = 0 then Ok Binary
      else if val = 1 then Ok Utf8
      else err ErrorKind.MalformedPacket ReasonCode.MalformedPacket)"

primrec u8_from_PayloadFormat :: "PayloadFormat \<Rightarrow> u8" where
  "u8_from_PayloadFormat Binary = 0"
| "u8_from_PayloadFormat Utf8 = 1"

definition is_utf8 :: "PayloadFormat \<Rightarrow> bool" where
  "is_utf8 self \<longleftrightarrow> self = Utf8"

abbreviation (input) is_binary :: "PayloadFormat \<Rightarrow> bool" where
  "is_binary self \<equiv> self = Binary"

section \<open>Headers in front of encoded bytes\<close>

text \<open>\<open>data.copy_within(..a, n)\<close>.\<close>

definition copy_within :: "bytes \<Rightarrow> usize \<Rightarrow> usize \<Rightarrow> bytes result" where
  "copy_within data a n =
     (if a \<le> length data \<and> n + a \<le> length data
      then Ok (take n data @ take a data @ drop (n + a) data) else panic)"

definition insert_fixed_header :: "FixedHeader \<Rightarrow> bytes \<Rightarrow> bytes result" where
  "insert_fixed_header fh data =
     (let a = length data in
      and_then (FixedHeader_encode fh) (\<lambda>fh_blob.
        let fh_bytes = as_ref fh_blob; n = length fh_bytes; data = data @ fh_bytes
        in and_then (copy_within data a n) (\<lambda>data. copy_from_slice data 0 n fh_bytes)))"

text \<open>\<open>u32::try_from(n)?\<close> of a \<open>usize\<close>.\<close>

definition u32_try_from :: "usize \<Rightarrow> u32 result" where
  "u32_try_from n = (if n < 2 ^ 32 then Ok (word_of_nat n) else err_desc TryFromIntError)"

definition insert_property_len :: "usize \<Rightarrow> bytes \<Rightarrow> bytes result" where
  "insert_property_len n data =
     (let a = length data in
      and_then (u32_try_from n) (\<lambda>n.
      and_then (VarU32_encode (VarU32 n)) (\<lambda>blob.
        let bs = as_ref blob; m = length bs; data = data @ bs
        in and_then (copy_within data a m) (\<lambda>data. copy_from_slice data 0 m bs))))"

section \<open>Facts on packet types, quality of service and payload format\<close>

lemma PacketType_try_from_u8 [simp]: "PacketType_try_from (u8_from_PacketType t) = Ok t"
  by (cases t) (simp_all add: PacketType_try_from_def)

lemma PacketType_try_from_Ok: "PacketType_try_from v = Ok t \<Longrightarrow> u8_from_PacketType t = v"
  unfolding PacketType_try_from_def by (simp split: if_splits)

lemma QoS_try_from_u8 [simp]: "QoS_try_from (u8_from_QoS q) = Ok q"
  by (cases q) (simp_all add: QoS_try_from_def)

lemma QoS_try_from_Ok: "QoS_try_from v = Ok q \<Longrightarrow> u8_from_QoS q = v"
  unfolding QoS_try_from_def by (simp split: if_splits)

lemma PayloadFormat_try_from_u8 [simp]: "PayloadFormat_try_from (u8_from_PayloadFormat q) = Ok q"
  by (cases q) (simp_all add: PayloadFormat_try_from_def)

lemma PayloadFormat_try_from_Ok: "PayloadFormat_try_from v = Ok q \<Longrightarrow> u8_from_PayloadFormat q = v"
  unfolding PayloadFormat_try_from_def by (simp split: if_splits)

lemma PropertyType_try_from_u32 [simp]: "PropertyType_try_from (PropertyType_as_u32 t) = Ok t"
  by (cases t) (simp_all add: PropertyType_try_from_def)

lemma PropertyType_try_from_Ok: "PropertyType_try_from v = Ok t \<Longrightarrow> PropertyType_as_u32 t = v"
  unfolding PropertyType_try_from_def by (simp split: if_splits)

lemma PropertyType_small: "PropertyType_as_u32 t < 128"
  by (cases t) (simp_all add: word_less_nat_alt)

lemma try_from_no_panic [no_panic, simp]:
  "\<not> panics (PacketType_try_from v)" "\<not> panics (QoS_try_from v)"
  "\<not> panics (PayloadFormat_try_from v)" "\<not> panics (PropertyType_try_from w)"
  unfolding PacketType_try_from_def QoS_try_from_def PayloadFormat_try_from_def
    PropertyType_try_from_def by simp_all

section \<open>Facts on the fixed header\<close>

lemma pkt_type_bits [simp]: "drop_bit 4 (b :: u8) AND drop_bit 4 HDR_PKT_TYPE = drop_bit 4 b"
proof -
  have "drop_bit 4 HDR_PKT_TYPE = (mask 4 :: u8)"
    by (simp add: HDR_PKT_TYPE_def mask_eq_exp_minus_1)
  then show ?thesis by (auto intro!: bit_word_eqI simp: bit_simps) (drule bit_u8_lt, simp)
qed

text \<open>After the checks of \<open>validate\<close> the \<open>unwrap\<close> cannot fail.\<close>

lemma FixedHeader_validate_no_panic [simp]: "\<not> panics (FixedHeader_validate fh)"
  by (auto simp: FixedHeader_validate_def FixedHeader_unwrap_def panics_and_then
      Let_def split: PacketType.splits)

lemma FixedHeader_validate_unwrap:
  assumes "FixedHeader_validate fh = Ok u"
  shows "\<exists>t. FixedHeader_unwrap fh = Ok t"
  using assms by (auto simp: FixedHeader_validate_def and_then_eq_Inr)

lemma FixedHeader_encode_eq:
  assumes "FixedHeader_validate fh = Ok ()" and "VarU32_encode (remaining_len fh) = Ok r"
  shows "FixedHeader_encode fh =
     Ok (Small (byte1 fh # as_ref r @ replicate (31 - length (as_ref r)) 0) (1 + length (as_ref r)))"
proof -
  have "length (as_ref r) \<le> 4" by (rule VarU32_encode_le4 [OF assms(2)])
  then show ?thesis
    using assms copy_second [of "[byte1 fh]" 1 "length (as_ref r)" "as_ref r"]
    by (simp add: FixedHeader_encode_def u8_encode_def Let_def)
qed

lemma FixedHeader_encode_Ok:
  assumes "FixedHeader_encode fh = Ok b"
  obtains r where "FixedHeader_validate fh = Ok ()" and "VarU32_encode (remaining_len fh) = Ok r"
    and "as_ref b = byte1 fh # as_ref r" and "blob_ok b"
proof -
  from assms obtain r where r: "FixedHeader_validate fh = Ok ()" "VarU32_encode (remaining_len fh) = Ok r"
    by (auto simp: FixedHeader_encode_def and_then_eq_Inr)
  moreover have "length (as_ref r) \<le> 4" by (rule VarU32_encode_le4 [OF r(2)])
  ultimately show thesis
    using assms FixedHeader_encode_eq [OF r] by (intro that [of r]) auto
qed

lemma FixedHeader_decode_Ok:
  "FixedHeader_decode s = Ok (fh, n) \<longleftrightarrow>
     (\<exists>t m. s = byte1 fh # t \<and> VarU32_decode t = Ok (remaining_len fh, m) \<and> n = 1 + m \<and>
        FixedHeader_validate fh = Ok ())"
  by (cases s; cases fh)
     (auto simp: FixedHeader_decode_def dec_field_def u8_decode_def and_then_eq_Inr Let_def advance_def)

lemma FixedHeader_no_panic:
  "\<not> panics (FixedHeader_decode s)" "\<not> panics (FixedHeader_encode fh)"
proof -
  show "\<not> panics (FixedHeader_decode s)"
    by (auto simp: FixedHeader_decode_def panics_and_then Let_def u8.field_no_panic
        VarU32.field_no_panic)
  show "\<not> panics (FixedHeader_encode fh)"
  proof (cases "FixedHeader_validate fh = Ok () \<and> (\<exists>r. VarU32_encode (remaining_len fh) = Ok r)")
    case True
    then show ?thesis using FixedHeader_encode_eq by fastforce
  next
    case False
    then show ?thesis
      by (auto simp: FixedHeader_encode_def panics_and_then u8.enc_no_panic VarU32.enc_no_panic)
  qed
qed

definition FixedHeader_wf :: "FixedHeader \<Rightarrow> bool" where
  "FixedHeader_wf fh \<longleftrightarrow> var_u32 (remaining_len fh) \<le> VarU32_MAX"

interpretation Header: packetize FixedHeader_decode FixedHeader_encode FixedHeader_wf
proof unfold_locales
  fix v b rest
  assume "FixedHeader_wf v" and "FixedHeader_encode v = Ok b"
  then show "FixedHeader_decode (as_ref b @ rest) = Ok (v, length (as_ref b))"
    by (auto simp: FixedHeader_decode_Ok FixedHeader_wf_def VarU32.dec_enc elim!: FixedHeader_encode_Ok)
next
  fix s v n
  assume dec: "FixedHeader_decode s = Ok (v, n)"
  then obtain t m where t: "s = byte1 v # t" "VarU32_decode t = Ok (remaining_len v, m)" "n = 1 + m"
    and val: "FixedHeader_validate v = Ok ()" by (auto simp: FixedHeader_decode_Ok)
  from VarU32.dec_bound [OF t(2)] t show "0 < n \<and> n \<le> length s" by simp
  from VarU32.dec_wf [OF t(2)] show "FixedHeader_wf v" by (simp add: FixedHeader_wf_def)
  from VarU32.enc_dec [OF t(2)] FixedHeader_encode_eq [OF val] t(3)
  show "\<exists>b. FixedHeader_encode v = Ok b \<and> length (as_ref b) \<le> n" by auto
qed (auto simp: FixedHeader_no_panic elim: FixedHeader_encode_Ok)

lemma FixedHeader_validate_iff:
  "FixedHeader_validate fh = Ok () \<longleftrightarrow>
     (\<exists>t r q d. FixedHeader_unwrap fh = Ok (t, r, q, d) \<and>
        (t = Publish \<or> (q = AtMostOnce \<and> \<not> r \<and> \<not> d) \<or>
         (t \<in> {PubRel, Subscribe, UnSubscribe} \<and> q = AtLeastOnce \<and> \<not> r \<and> \<not> d)))"
proof (cases "FixedHeader_unwrap fh")
  case (Inl e)
  then show ?thesis by (auto simp: FixedHeader_validate_def and_then_eq_Inr)
next
  case (Inr u)
  obtain t r q d where u: "u = (t, r, q, d)" by (cases u)
  have "QoS_try_from (drop_bit 1 (byte1 fh AND HDR_QOS)) = Ok q"
    and "PacketType_try_from (drop_bit 4 (byte1 fh AND HDR_PKT_TYPE)) = Ok t"
    using Inr u by (auto simp: FixedHeader_unwrap_def and_then_eq_Inr Let_def unwrap_def
        split: sum.splits)
  then show ?thesis using Inr u
    by (cases t) (auto simp: FixedHeader_validate_def Let_def)
qed

text \<open>The constructors give headers that unwrap to what they were made of.\<close>

lemmas header_bits = FixedHeader_unwrap_def PacketType_try_from_def QoS_try_from_def
  HDR_RETAIN_def HDR_QOS_def HDR_DUP_def HDR_PKT_TYPE_def

lemma unwrap_pkt_type:
  "FixedHeader_unwrap \<lparr>byte1 = push_bit 4 (u8_from_PacketType t), remaining_len = l\<rparr> =
     Ok (t, False, AtMostOnce, False)"
  by (cases t) (simp_all add: header_bits)

lemma unwrap_publish:
  "FixedHeader_unwrap \<lparr>byte1 = fixed_byte 3 r q d, remaining_len = l\<rparr> = Ok (Publish, r, q, d)"
  by (cases q; cases r; cases d) (simp_all add: header_bits fixed_byte_def)

lemma unwrap_at_least_once:
  "FixedHeader_unwrap \<lparr>byte1 = fixed_byte 6 False AtLeastOnce False, remaining_len = l\<rparr> =
     Ok (PubRel, False, AtLeastOnce, False)"
  "FixedHeader_unwrap \<lparr>byte1 = fixed_byte 8 False AtLeastOnce False, remaining_len = l\<rparr> =
     Ok (Subscribe, False, AtLeastOnce, False)"
  "FixedHeader_unwrap \<lparr>byte1 = fixed_byte 10 False AtLeastOnce False, remaining_len = l\<rparr> =
     Ok (UnSubscribe, False, AtLeastOnce, False)"
  by (simp_all add: header_bits fixed_byte_def)

lemma FixedHeader_new_Ok:
  "FixedHeader_new t l = Ok fh \<Longrightarrow>
     FixedHeader_unwrap fh = Ok (t, False, AtMostOnce, False) \<and> remaining_len fh = l \<and>
     FixedHeader_validate fh = Ok () \<and> var_u32 l \<le> VarU32_MAX"
  by (auto simp: FixedHeader_new_def unwrap_pkt_type FixedHeader_validate_iff ex_bool_eq
      split: if_split_asm)

lemma FixedHeader_new_publish_Ok:
  "FixedHeader_new_publish r q d l = Ok fh \<Longrightarrow>
     FixedHeader_unwrap fh = Ok (Publish, r, q, d) \<and> remaining_len fh = l \<and>
     FixedHeader_validate fh = Ok () \<and> var_u32 l \<le> VarU32_MAX"
  by (auto simp: FixedHeader_new_publish_def unwrap_publish FixedHeader_validate_iff
      split: if_split_asm)

lemma FixedHeader_new_other_Ok:
  "FixedHeader_new_pubrel l = Ok fh \<Longrightarrow>
     FixedHeader_unwrap fh = Ok (PubRel, False, AtLeastOnce, False) \<and> remaining_len fh = l \<and>
     FixedHeader_validate fh = Ok () \<and> var_u32 l \<le> VarU32_MAX"
  "FixedHeader_new_subscribe l = Ok fh \<Longrightarrow>
     FixedHeader_unwrap fh = Ok (Subscribe, False, AtLeastOnce, False) \<and> remaining_len fh = l \<and>
     FixedHeader_validate fh = Ok () \<and> var_u32 l \<le> VarU32_MAX"
  "FixedHeader_new_unsubscribe l = Ok fh \<Longrightarrow>
     FixedHeader_unwrap fh = Ok (UnSubscribe, False, AtLeastOnce, False) \<and> remaining_len fh = l \<and>
     FixedHeader_validate fh = Ok () \<and> var_u32 l \<le> VarU32_MAX"
  by (auto simp: FixedHeader_new_pubrel_def FixedHeader_new_subscribe_def
      FixedHeader_new_unsubscribe_def unwrap_at_least_once FixedHeader_validate_iff ex_bool_eq
      split: if_split_asm)

lemma FixedHeader_new_no_panic [simp]:
  "\<not> panics (FixedHeader_new t l)" "\<not> panics (FixedHeader_new_publish r q d l)"
  "\<not> panics (FixedHeader_new_pubrel l)" "\<not> panics (FixedHeader_new_subscribe l)"
  "\<not> panics (FixedHeader_new_unsubscribe l)"
  by (auto simp: FixedHeader_new_def FixedHeader_new_publish_def FixedHeader_new_pubrel_def
      FixedHeader_new_subscribe_def FixedHeader_new_unsubscribe_def)

lemma FixedHeader_len_encode:
  assumes "FixedHeader_encode fh = Ok b" and "var_u32 (remaining_len fh) \<noteq> VarU32_MAX"
  shows "FixedHeader_len fh = Ok (length (as_ref b))"
proof -
  from assms(1) obtain r where r: "VarU32_encode (remaining_len fh) = Ok r"
    "as_ref b = byte1 fh # as_ref r" by (rule FixedHeader_encode_Ok)
  have "var_u32 (remaining_len fh) < VarU32_MAX"
    using VarU32_encode_le_max [OF r(1)] assms(2) by simp
  then show ?thesis
    using VarU32_encode_length [OF r(1)] r(2) by (simp add: FixedHeader_len_def Let_def)
qed

lemma insert_fixed_header_eq:
  "insert_fixed_header fh data = and_then (FixedHeader_encode fh) (\<lambda>b. Ok (as_ref b @ data))"
proof -
  have "take n (data @ fb) @ data = take n data @ take (n - length data) fb @ data" for n fb
    by simp
  then show ?thesis
    by (cases "FixedHeader_encode fh")
       (auto simp: insert_fixed_header_def Let_def copy_within_def copy_from_slice_def)
qed

lemma insert_property_len_eq:
  "insert_property_len n data =
     and_then (u32_try_from n) (\<lambda>k. and_then (VarU32_encode (VarU32 k)) (\<lambda>b. Ok (as_ref b @ data)))"
  by (cases "u32_try_from n"; cases "VarU32_encode (VarU32 (word_of_nat n))")
     (auto simp: insert_property_len_def u32_try_from_def Let_def copy_within_def copy_from_slice_def
       split: if_splits)

section \<open>Facts on properties\<close>

text \<open>The invariants of the types that the values of a property have.\<close>

primrec Property_wf :: "Property \<Rightarrow> bool" where
  "Property_wf (Property.PayloadFormatIndicator _) \<longleftrightarrow> True"
| "Property_wf (Property.MessageExpiryInterval _) \<longleftrightarrow> True"
| "Property_wf (Property.ContentType s) \<longleftrightarrow> valid_utf8 s"
| "Property_wf (Property.ResponseTopic t) \<longleftrightarrow> valid_utf8 (topic_name t)"
| "Property_wf (Property.CorrelationData _) \<longleftrightarrow> True"
| "Property_wf (Property.SubscriptionIdentifier v) \<longleftrightarrow> var_u32 v \<le> VarU32_MAX"
| "Property_wf (Property.SessionExpiryInterval _) \<longleftrightarrow> True"
| "Property_wf (Property.AssignedClientIdentifier s) \<longleftrightarrow> valid_utf8 s"
| "Property_wf (Property.ServerKeepAlive _) \<longleftrightarrow> True"
| "Property_wf (Property.AuthenticationMethod s) \<longleftrightarrow> valid_utf8 s"
| "Property_wf (Property.AuthenticationData _) \<longleftrightarrow> True"
| "Property_wf (Property.RequestProblemInformation _) \<longleftrightarrow> True"
| "Property_wf (Property.WillDelayInterval _) \<longleftrightarrow> True"
| "Property_wf (Property.RequestResponseInformation _) \<longleftrightarrow> True"
| "Property_wf (Property.ResponseInformation s) \<longleftrightarrow> valid_utf8 s"
| "Property_wf (Property.ServerReference s) \<longleftrightarrow> valid_utf8 s"
| "Property_wf (Property.ReasonString s) \<longleftrightarrow> valid_utf8 s"
| "Property_wf (Property.ReceiveMaximum _) \<longleftrightarrow> True"
| "Property_wf (Property.TopicAliasMaximum _) \<longleftrightarrow> True"
| "Property_wf (Property.TopicAlias _) \<longleftrightarrow> True"
| "Property_wf (Property.MaximumQoS _) \<longleftrightarrow> True"
| "Property_wf (Property.RetainAvailable _) \<longleftrightarrow> True"
| "Property_wf (Property.UserProp p) \<longleftrightarrow> UserProperty_wf p"
| "Property_wf (Property.MaximumPacketSize _) \<longleftrightarrow> True"
| "Property_wf (Property.WildcardSubscriptionAvailable _) \<longleftrightarrow> True"
| "Property_wf (Property.SubscriptionIdentifierAvailable _) \<longleftrightarrow> True"
| "Property_wf (Property.SharedSubscriptionAvailable _) \<longleftrightarrow> True"

context packetize
begin

lemma dec_prop_enc:
  "\<lbrakk>wf v; enc v = Ok b\<rbrakk> \<Longrightarrow> dec_prop varn dec (as_ref b @ rest) = Ok (varn v, length (as_ref b))"
  by (simp add: dec_prop_def dec_enc)

lemma dec_prop_Ok:
  assumes "dec_prop varn dec s = Ok (p, n)"
  obtains v b where "p = varn v" and "wf v" and "0 < n" and "n \<le> length s" and "enc v = Ok b"
    and "length (as_ref b) \<le> n"
proof -
  from assms obtain v where v: "dec s = Ok (v, n)" and p: "p = varn v"
    by (auto simp: dec_prop_def and_then_eq_Inr)
  from enc_dec [OF v] obtain b where "enc v = Ok b" "length (as_ref b) \<le> n" by blast
  with p dec_wf [OF v] dec_bound [OF v] show thesis by (intro that) auto
qed

lemma dec_prop_no_panic: "\<not> panics (dec_prop varn dec s)"
  by (auto simp: dec_prop_def panics_and_then dec_no_panic)

end

lemmas prop_dec_enc = u8.dec_prop_enc u16.dec_prop_enc u32.dec_prop_enc VarU32.dec_prop_enc
  Str.dec_prop_enc Vec.dec_prop_enc UserProp.dec_prop_enc Name.dec_prop_enc

lemmas prop_dec_OkE = u8.dec_prop_Ok u16.dec_prop_Ok u32.dec_prop_Ok VarU32.dec_prop_Ok
  Str.dec_prop_Ok Vec.dec_prop_Ok UserProp.dec_prop_Ok Name.dec_prop_Ok

lemmas prop_no_panic = u8.dec_prop_no_panic u16.dec_prop_no_panic u32.dec_prop_no_panic
  VarU32.dec_prop_no_panic Str.dec_prop_no_panic Vec.dec_prop_no_panic UserProp.dec_prop_no_panic
  Name.dec_prop_no_panic

lemmas field_enc_no_panic = u8.enc_no_panic u16.enc_no_panic u32.enc_no_panic VarU32.enc_no_panic
  Str.enc_no_panic Vec.enc_no_panic UserProp.enc_no_panic Name.enc_no_panic Filter.enc_no_panic

lemma Property_value_dec_enc:
  "\<lbrakk>Property_wf p; Property_value_encode p = Ok b\<rbrakk> \<Longrightarrow>
     Property_value (to_property_type p) (as_ref b @ rest) = Ok (p, length (as_ref b))"
  by (cases p) (simp_all add: prop_dec_enc u8.dec_enc)

lemma Property_value_Ok:
  "Property_value pt s = Ok (p, n) \<Longrightarrow>
     to_property_type p = pt \<and> Property_wf p \<and> 0 < n \<and> n \<le> length s \<and>
     (\<exists>b. Property_value_encode p = Ok b \<and> length (as_ref b) \<le> n)"
proof (cases "pt = PropertyType.MaximumQoS")
  case True
  assume "Property_value pt s = Ok (p, n)"
  with True obtain v q where v: "u8_decode s = Ok (v, n)" "QoS_try_from v = Ok q"
    "p = Property.MaximumQoS q" by (auto simp: and_then_eq_Inr)
  then show ?thesis
    using True u8.dec_bound [OF v(1)] u8.enc_dec [OF v(1)] QoS_try_from_Ok [OF v(2)] by auto
next
  case False
  assume "Property_value pt s = Ok (p, n)"
  with False show ?thesis by (cases pt) (simp_all, (erule prop_dec_OkE, simp)+)
qed

lemma Property_value_no_panic: "\<not> panics (Property_value pt s)"
  by (cases pt) (auto simp: prop_no_panic panics_and_then u8.dec_no_panic)

lemma Property_value_encode_no_panic: "\<not> panics (Property_value_encode p)"
  by (cases p) (simp_all add: field_enc_no_panic)

lemma VarU32_type_bytes:
  obtains tb where "VarU32_encode (VarU32 (PropertyType_as_u32 pt)) = Ok tb" and "length (as_ref tb) = 1"
proof -
  have "PropertyType_as_u32 pt < 128" by (rule PropertyType_small)
  then have "\<exists>b. VarU32_encode (VarU32 (PropertyType_as_u32 pt)) = Ok b"
    by (simp add: VarU32_encode_def Let_def)
  then obtain tb where "VarU32_encode (VarU32 (PropertyType_as_u32 pt)) = Ok tb" ..
  with that \<open>PropertyType_as_u32 pt < 128\<close> show thesis by (auto simp: VarU32_encode_length)
qed

lemma VarU32_type_max: "PropertyType_as_u32 pt \<le> VarU32_MAX"
  using PropertyType_small [of pt] by (simp add: VarU32_MAX_def word_less_nat_alt word_le_nat_alt)

lemma enc_prop_Ok:
  "enc_prop data pt r = Ok d \<longleftrightarrow>
     (\<exists>tb b. VarU32_encode (VarU32 (PropertyType_as_u32 pt)) = Ok tb \<and> r = Ok b \<and>
        d = data @ as_ref tb @ as_ref b)"
  by (auto simp: enc_prop_def and_then_eq_Inr extend_slice_Ok)

lemma enc_prop_no_panic [no_panic]: "\<not> panics r \<Longrightarrow> \<not> panics (enc_prop data pt r)"
  by (auto simp: enc_prop_def panics_and_then extend_slice_def VarU32.enc_no_panic)

lemma Property_encode_Ok:
  "Property_encode p = Ok b \<longleftrightarrow>
     (\<exists>d. enc_prop [] (to_property_type p) (Property_value_encode p) = Ok d \<and> b = Large d)"
  by (auto simp: Property_encode_def and_then_eq_Inr)

interpretation Prop: packetize Property_decode Property_encode Property_wf
proof unfold_locales
  fix v b rest
  assume wf: "Property_wf v" and enc: "Property_encode v = Ok b"
  then obtain tb vb where tb: "VarU32_encode (VarU32 (PropertyType_as_u32 (to_property_type v))) = Ok tb"
    and vb: "Property_value_encode v = Ok vb" and b: "as_ref b = as_ref tb @ as_ref vb"
    by (auto simp: Property_encode_Ok enc_prop_Ok)
  have "dec_field VarU32_decode (as_ref tb @ as_ref vb @ rest) 0 =
      Ok (VarU32 (PropertyType_as_u32 (to_property_type v)), 0 + length (as_ref tb))"
    by (rule VarU32.field_at [OF _ _ tb]) (simp_all add: VarU32_type_max)
  then show "Property_decode (as_ref b @ rest) = Ok (v, length (as_ref b))"
    using Property_value_dec_enc [OF wf vb, of rest] b by (simp add: Property_decode_def)
next
  fix s v n
  assume "Property_decode s = Ok (v, n)"
  then obtain w k pt m where w: "dec_field VarU32_decode s 0 = Ok (w, k)"
    and pt: "PropertyType_try_from (var_u32 w) = Ok pt" and m: "Property_value pt (drop k s) = Ok (v, m)"
    and n: "n = k + m"
    by (auto simp: Property_decode_def and_then_eq_Inr advance_Ok)
  note k = VarU32.field_bound [OF w] and val = Property_value_Ok [OF m]
  show "0 < n \<and> n \<le> length s" and "Property_wf v" using k val n by auto
  obtain tb where "VarU32_encode (VarU32 (PropertyType_as_u32 pt)) = Ok tb" "length (as_ref tb) = 1"
    by (rule VarU32_type_bytes)
  with val k n show "\<exists>b. Property_encode v = Ok b \<and> length (as_ref b) \<le> n"
    by (fastforce simp: Property_encode_Ok enc_prop_Ok)
qed (auto simp: Property_decode_def Property_encode_def panics_and_then VarU32.field_no_panic
    Property_value_no_panic enc_prop_no_panic Property_value_encode_no_panic and_then_eq_Inr)

end
