(* ===== verification/Props.thy ===== *)
theory Props
  imports V5
begin

text \<open>
  Property sets. The decoders of the property structs of all packets in \<open>src/v5\<close> are one
  loop with a different match in its body; the loop is modelled once, with the match as a
  parameter, together with the macro \<open>dec_props!\<close> and the encoding of an optional set. The
  locale \<open>property_set\<close> states what a property struct has to provide and derives the codec
  laws from it.
\<close>

section \<open>Decoding and encoding a list of properties\<close>

text \<open>
  The loop \<open>while n < limit\<close>. \<open>dups\<close> records the property types seen so far, \<open>dup_ok\<close> holds
  for the types that may repeat and \<open>arm\<close> is the match on the property.
\<close>

function props_loop ::
  "(PropertyType \<Rightarrow> bool) \<Rightarrow> (Property \<Rightarrow> 'p \<Rightarrow> 'p result) \<Rightarrow> bytes \<Rightarrow> usize \<Rightarrow> usize \<Rightarrow>
   (PropertyType \<Rightarrow> bool) \<Rightarrow> 'p \<Rightarrow> ('p \<times> usize) result" where
  "props_loop dup_ok arm stream limit n dups props =
     (if n < limit
      then and_then (dec_field Property_decode stream n) (\<lambda>(property, m).
             let pt = to_property_type property
             in if \<not> dup_ok pt \<and> dups pt
                then err ErrorKind.ProtocolError ReasonCode.ProtocolError
                else and_then (arm property props) (\<lambda>props.
                       props_loop dup_ok arm stream limit m (dups(pt := True)) props))
      else Ok (props, n))"
  by pat_completeness auto
termination
  by (relation "measure (\<lambda>(dup_ok, arm, stream, limit, n, dups, props). limit - n)")
     (auto dest: Prop.field_bound)

declare props_loop.simps [simp del]

text \<open>Only user properties may repeat, in all structs but one.\<close>

definition user_prop_only :: "PropertyType \<Rightarrow> bool" where
  "user_prop_only pt \<longleftrightarrow> pt = PropertyType.UserProp"

text \<open>The head of every \<open>decode\<close>: the length, the limit, and the loop.\<close>

definition props_decode ::
  "(PropertyType \<Rightarrow> bool) \<Rightarrow> (Property \<Rightarrow> 'p \<Rightarrow> 'p result) \<Rightarrow> 'p \<Rightarrow> 'p decoder" where
  "props_decode dup_ok arm dflt stream =
     and_then (dec_field VarU32_decode stream 0) (\<lambda>(len, n).
       let limit = unat (var_u32 len) + n
       in props_loop dup_ok arm stream limit n (\<lambda>_. False) dflt)"

text \<open>The error of the last arm, a property that the packet does not allow, and of bad values.\<close>

abbreviation bad_prop :: "'a result" where
  "bad_prop \<equiv> err ErrorKind.ProtocolError ReasonCode.ProtocolError"

text \<open>\<open>dec_props!(T, stream, n)\<close> and its form with a condition.\<close>

definition dec_props :: "'p decoder \<Rightarrow> bytes \<Rightarrow> usize \<Rightarrow> ('p option \<times> usize) result" where
  "dec_props dec stream n =
     and_then (and_then (advance stream n) VarU32_decode) (\<lambda>(len, m).
       if var_u32 len = 0 then Ok (None, n + m)
       else and_then (and_then (advance stream n) dec) (\<lambda>(properties, r).
              let p = unat (var_u32 len)
              in if r = m + p then Ok (Some properties, n + r) else bad_prop))"

definition dec_props_if :: "'p decoder \<Rightarrow> bytes \<Rightarrow> usize \<Rightarrow> bool \<Rightarrow> ('p option \<times> usize) result" where
  "dec_props_if dec stream n pred = (if pred then dec_props dec stream n else Ok (None, n))"

text \<open>The loop \<open>for uprop in user_properties\<close>.\<close>

fun enc_user_props :: "bytes \<Rightarrow> UserProperty list \<Rightarrow> bytes result" where
  "enc_user_props data [] = Ok data"
| "enc_user_props data (uprop # us) =
     and_then (enc_prop data PropertyType.UserProp (UserProperty_encode uprop)) (\<lambda>data.
     enc_user_props data us)"

text \<open>\<open>if let Some(val)\<close> with a flag that is sent as 0 or 1.\<close>

definition enc_prop_bool :: "bytes \<Rightarrow> PropertyType \<Rightarrow> bool option \<Rightarrow> bytes result" where
  "enc_prop_bool data varn v =
     (case v of Some val \<Rightarrow> enc_prop data varn (u8_encode (if val then 1 else 0)) | None \<Rightarrow> Ok data)"

text \<open>The maximum quality of service is sent as its number.\<close>

definition enc_prop_qos :: "bytes \<Rightarrow> QoS option \<Rightarrow> bytes result" where
  "enc_prop_qos data v =
     (case v of
        Some val \<Rightarrow> enc_prop data PropertyType.MaximumQoS (u8_encode (u8_from_QoS val))
      | None \<Rightarrow> Ok data)"

text \<open>The loop over subscription identifiers.\<close>

fun enc_subids :: "bytes \<Rightarrow> VarU32 list \<Rightarrow> bytes result" where
  "enc_subids data [] = Ok data"
| "enc_subids data (subid # ids) =
     and_then (enc_prop data PropertyType.SubscriptionIdentifier (VarU32_encode subid)) (\<lambda>data.
     enc_subids data ids)"

text \<open>The payload format is sent when it is not the default.\<close>

definition enc_prop_format :: "bytes \<Rightarrow> PayloadFormat \<Rightarrow> bytes result" where
  "enc_prop_format data fmt =
     (if is_utf8 fmt
      then enc_prop data PropertyType.PayloadFormatIndicator (u8_encode (u8_from_PayloadFormat Utf8))
      else Ok data)"

text \<open>The end of every \<open>encode\<close>: the length goes in front.\<close>

definition finish_props :: "bytes \<Rightarrow> Blob result" where
  "finish_props data = and_then (insert_property_len (length data) data) (\<lambda>data. Ok (Large data))"

text \<open>In a packet, a missing set is sent as a length of zero.\<close>

definition enc_opt_props :: "bytes \<Rightarrow> 'p encoder \<Rightarrow> 'p option \<Rightarrow> bytes result" where
  "enc_opt_props data enc properties =
     (case properties of
        Some p \<Rightarrow> extend_slice data (enc p)
      | None \<Rightarrow> extend_slice data (VarU32_encode (VarU32 0)))"

section \<open>Property lists as the abstract view of a set\<close>

definition opt_prop :: "('a \<Rightarrow> Property) \<Rightarrow> 'a option \<Rightarrow> Property list" where
  "opt_prop con v = (case v of Some x \<Rightarrow> [con x] | None \<Rightarrow> [])"

definition bool_prop :: "(u8 \<Rightarrow> Property) \<Rightarrow> bool \<Rightarrow> Property" where
  "bool_prop con b = con (if b then 1 else 0)"

definition format_prop :: "PayloadFormat \<Rightarrow> Property list" where
  "format_prop fmt = (if is_utf8 fmt then [Property.PayloadFormatIndicator 1] else [])"

text \<open>Encoding one property after the other, and running the arms of a loop.\<close>

fun enc_all :: "bytes \<Rightarrow> Property list \<Rightarrow> bytes result" where
  "enc_all data [] = Ok data"
| "enc_all data (p # ps) = and_then (extend_slice data (Property_encode p)) (\<lambda>data. enc_all data ps)"

fun steps :: "(Property \<Rightarrow> 'p \<Rightarrow> 'p result) \<Rightarrow> Property list \<Rightarrow> 'p \<Rightarrow> 'p result" where
  "steps arm [] props = Ok props"
| "steps arm (p # ps) props = and_then (arm p props) (steps arm ps)"

fun no_repeat :: "(PropertyType \<Rightarrow> bool) \<Rightarrow> (PropertyType \<Rightarrow> bool) \<Rightarrow> Property list \<Rightarrow> bool" where
  "no_repeat dup_ok dups [] \<longleftrightarrow> True"
| "no_repeat dup_ok dups (p # ps) \<longleftrightarrow>
     (dup_ok (to_property_type p) \<or> \<not> dups (to_property_type p)) \<and>
     no_repeat dup_ok (dups(to_property_type p := True)) ps"

section \<open>Facts on encoding\<close>

lemma enc_all_single:
  "enc_all data [p] = enc_prop data (to_property_type p) (Property_value_encode p)"
  by (cases "VarU32_encode (VarU32 (PropertyType_as_u32 (to_property_type p)))";
      cases "Property_value_encode p")
     (simp_all add: enc_prop_def Property_encode_def extend_slice_def)

lemma enc_all_append: "enc_all data (ps @ qs) = and_then (enc_all data ps) (\<lambda>d. enc_all d qs)"
  by (induction data ps rule: enc_all.induct) (auto simp: and_then_assoc intro: and_then_cong)

lemma enc_opt_all:
  "enc_prop_opt data PropertyType.PayloadFormatIndicator u8_encode v0 =
     enc_all data (opt_prop Property.PayloadFormatIndicator v0)"
  "enc_prop_opt data PropertyType.MessageExpiryInterval u32_encode v1 =
     enc_all data (opt_prop Property.MessageExpiryInterval v1)"
  "enc_prop_opt data PropertyType.ContentType String_encode v2 =
     enc_all data (opt_prop Property.ContentType v2)"
  "enc_prop_opt data PropertyType.ResponseTopic TopicName_encode v3 =
     enc_all data (opt_prop Property.ResponseTopic v3)"
  "enc_prop_opt data PropertyType.CorrelationData Vec_encode v4 =
     enc_all data (opt_prop Property.CorrelationData v4)"
  "enc_prop_opt data PropertyType.SubscriptionIdentifier VarU32_encode v5 =
     enc_all data (opt_prop Property.SubscriptionIdentifier v5)"
  "enc_prop_opt data PropertyType.SessionExpiryInterval u32_encode v6 =
     enc_all data (opt_prop Property.SessionExpiryInterval v6)"
  "enc_prop_opt data PropertyType.AssignedClientIdentifier String_encode v7 =
     enc_all data (opt_prop Property.AssignedClientIdentifier v7)"
  "enc_prop_opt data PropertyType.ServerKeepAlive u16_encode v8 =
     enc_all data (opt_prop Property.ServerKeepAlive v8)"
  "enc_prop_opt data PropertyType.AuthenticationMethod String_encode v9 =
     enc_all data (opt_prop Property.AuthenticationMethod v9)"
  "enc_prop_opt data PropertyType.AuthenticationData Vec_encode v10 =
     enc_all data (opt_prop Property.AuthenticationData v10)"
  "enc_prop_opt data PropertyType.RequestProblemInformation u8_encode v11 =
     enc_all data (opt_prop Property.RequestProblemInformation v11)"
  "enc_prop_opt data PropertyType.WillDelayInterval u32_encode v12 =
     enc_all data (opt_prop Property.WillDelayInterval v12)"
  "enc_prop_opt data PropertyType.RequestResponseInformation u8_encode v13 =
     enc_all data (opt_prop Property.RequestResponseInformation v13)"
  "enc_prop_opt data PropertyType.ResponseInformation String_encode v14 =
     enc_all data (opt_prop Property.ResponseInformation v14)"
  "enc_prop_opt data PropertyType.ServerReference String_encode v15 =
     enc_all data (opt_prop Property.ServerReference v15)"
  "enc_prop_opt data PropertyType.ReasonString String_encode v16 =
     enc_all data (opt_prop Property.ReasonString v16)"
  "enc_prop_opt data PropertyType.ReceiveMaximum u16_encode v17 =
     enc_all data (opt_prop Property.ReceiveMaximum v17)"
  "enc_prop_opt data PropertyType.TopicAliasMaximum u16_encode v18 =
     enc_all data (opt_prop Property.TopicAliasMaximum v18)"
  "enc_prop_opt data PropertyType.TopicAlias u16_encode v19 =
     enc_all data (opt_prop Property.TopicAlias v19)"
  "enc_prop_opt data PropertyType.RetainAvailable u8_encode v20 =
     enc_all data (opt_prop Property.RetainAvailable v20)"
  "enc_prop_opt data PropertyType.UserProp UserProperty_encode v21 =
     enc_all data (opt_prop Property.UserProp v21)"
  "enc_prop_opt data PropertyType.MaximumPacketSize u32_encode v22 =
     enc_all data (opt_prop Property.MaximumPacketSize v22)"
  "enc_prop_opt data PropertyType.WildcardSubscriptionAvailable u8_encode v23 =
     enc_all data (opt_prop Property.WildcardSubscriptionAvailable v23)"
  "enc_prop_opt data PropertyType.SubscriptionIdentifierAvailable u8_encode v24 =
     enc_all data (opt_prop Property.SubscriptionIdentifierAvailable v24)"
  "enc_prop_opt data PropertyType.SharedSubscriptionAvailable u8_encode v25 =
     enc_all data (opt_prop Property.SharedSubscriptionAvailable v25)"
  by (simp_all add: enc_prop_opt_def opt_prop_def enc_all_single del: enc_all.simps(2)
      split: option.split)

lemma enc_bool_all:
  "enc_prop_bool data PropertyType.RequestResponseInformation v0 =
     enc_all data (opt_prop (bool_prop Property.RequestResponseInformation) v0)"
  "enc_prop_bool data PropertyType.RequestProblemInformation v1 =
     enc_all data (opt_prop (bool_prop Property.RequestProblemInformation) v1)"
  "enc_prop_bool data PropertyType.RetainAvailable v2 =
     enc_all data (opt_prop (bool_prop Property.RetainAvailable) v2)"
  "enc_prop_bool data PropertyType.WildcardSubscriptionAvailable v3 =
     enc_all data (opt_prop (bool_prop Property.WildcardSubscriptionAvailable) v3)"
  "enc_prop_bool data PropertyType.SubscriptionIdentifierAvailable v4 =
     enc_all data (opt_prop (bool_prop Property.SubscriptionIdentifierAvailable) v4)"
  "enc_prop_bool data PropertyType.SharedSubscriptionAvailable v5 =
     enc_all data (opt_prop (bool_prop Property.SharedSubscriptionAvailable) v5)"
  by (simp_all add: enc_prop_bool_def opt_prop_def bool_prop_def enc_all_single
      del: enc_all.simps(2) split: option.split)

lemma enc_format_all: "enc_prop_format data fmt = enc_all data (format_prop fmt)"
  by (simp add: enc_prop_format_def format_prop_def enc_all_single del: enc_all.simps(2))

lemma enc_user_all: "enc_user_props data us = enc_all data (map Property.UserProp us)"
proof (induction data us rule: enc_user_props.induct)
  case (2 data uprop us)
  have "enc_prop data PropertyType.UserProp (UserProperty_encode uprop) =
      extend_slice data (Property_encode (Property.UserProp uprop))"
    using enc_all_single [of data "Property.UserProp uprop"]
    by (cases "extend_slice data (Property_encode (Property.UserProp uprop))") simp_all
  with 2 show ?case by (auto intro: and_then_cong)
qed simp

lemma enc_qos_all: "enc_prop_qos data v = enc_all data (opt_prop Property.MaximumQoS v)"
  by (simp add: enc_prop_qos_def opt_prop_def enc_all_single del: enc_all.simps(2)
      split: option.split)

lemma enc_subids_all: "enc_subids data ids = enc_all data (map Property.SubscriptionIdentifier ids)"
proof (induction data ids rule: enc_subids.induct)
  case (2 data subid ids)
  have "enc_prop data PropertyType.SubscriptionIdentifier (VarU32_encode subid) =
      extend_slice data (Property_encode (Property.SubscriptionIdentifier subid))"
    using enc_all_single [of data "Property.SubscriptionIdentifier subid"]
    by (cases "extend_slice data (Property_encode (Property.SubscriptionIdentifier subid))") simp_all
  with 2 show ?case by (auto intro: and_then_cong)
qed simp

lemmas enc_set_all = enc_opt_all enc_bool_all enc_format_all enc_user_all enc_qos_all enc_subids_all

lemma enc_all_Cons_Ok:
  "enc_all data (p # ps) = Ok d \<longleftrightarrow>
     (\<exists>b. Property_encode p = Ok b \<and> enc_all (data @ as_ref b) ps = Ok d)"
  by (auto simp: and_then_eq_Inr extend_slice_Ok)

lemma enc_all_prefix: "enc_all data ps = Ok d \<longleftrightarrow> (\<exists>e. enc_all [] ps = Ok e \<and> d = data @ e)"
proof (induction ps arbitrary: data d)
  case (Cons p ps)
  show ?case
    unfolding enc_all_Cons_Ok Cons.IH [of "data @ _"] Cons.IH [of "[] @ _"] by auto
qed auto

lemma enc_all_no_panic: "\<not> panics (enc_all data ps)"
  by (induction ps arbitrary: data)
     (auto simp: panics_and_then extend_slice_no_panic Prop.enc_no_panic)

text \<open>What the encoder of a set writes: the length of the list as \<open>VarU32\<close> and the list.\<close>

definition encode_props :: "Property list \<Rightarrow> Blob result" where
  "encode_props ps = and_then (enc_all [] ps) finish_props"

lemma encode_props_Ok:
  "encode_props ps = Ok b \<longleftrightarrow>
     (\<exists>d lb. enc_all [] ps = Ok d \<and> length d < 2 ^ 32 \<and>
        VarU32_encode (VarU32 (word_of_nat (length d))) = Ok lb \<and> b = Large (as_ref lb @ d))"
  by (auto simp: encode_props_def finish_props_def insert_property_len_eq and_then_eq_Inr
      u32_try_from_def split: if_splits)

lemma encode_props_no_panic: "\<not> panics (encode_props ps)"
  by (auto simp: encode_props_def finish_props_def insert_property_len_eq panics_and_then
      u32_try_from_def enc_all_no_panic VarU32.enc_no_panic)

lemma enc_all_empty: "\<lbrakk>enc_all [] ps = Ok []; list_all Property_wf ps\<rbrakk> \<Longrightarrow> ps = []"
proof (cases ps)
  case (Cons p qs)
  assume "enc_all [] ps = Ok []" "list_all Property_wf ps"
  with Cons obtain b where "Property_encode p = Ok b" "enc_all (as_ref b) qs = Ok []" "Property_wf p"
    unfolding Cons enc_all_Cons_Ok by auto
  then show ?thesis using Prop.enc_nonempty enc_all_prefix [of "as_ref b" qs "[]"] by auto
qed

section \<open>Facts on decoding\<close>

lemma props_loop_done: "\<not> n < limit \<Longrightarrow> props_loop dup_ok arm s limit n dups r = Ok (r, n)"
  by (simp add: props_loop.simps)

text \<open>The loop reads back what was encoded and runs the arms on it, in the same order.\<close>

lemma props_loop_steps:
  "\<lbrakk>enc_all [] ps = Ok d; at s n (d @ rest); limit = n + length d; list_all Property_wf ps;
    no_repeat dup_ok dups ps; steps arm ps r = Ok r'\<rbrakk>
   \<Longrightarrow> props_loop dup_ok arm s limit n dups r = Ok (r', limit)"
proof (induction ps arbitrary: d n dups r)
  case Nil
  then show ?case by (simp add: props_loop_done)
next
  case (Cons p ps)
  from Cons.prems(1) obtain b e where b: "Property_encode p = Ok b" and e: "enc_all [] ps = Ok e"
    and d: "d = as_ref b @ e"
    unfolding enc_all_Cons_Ok enc_all_prefix [of "[] @ _"] by auto
  have wf: "Property_wf p" and wfs: "list_all Property_wf ps" using Cons.prems(4) by simp_all
  have nr: "no_repeat dup_ok (dups(to_property_type p := True)) ps" using Cons.prems(5) by simp
  have pos: "0 < length (as_ref b)" using Prop.enc_nonempty [OF wf b] by simp
  have at: "at s n (as_ref b @ e @ rest)" using Cons.prems(2) d by simp
  note field = Prop.field_at [OF at wf b]
  from Cons.prems(6) obtain r1 where r1: "arm p r = Ok r1" "steps arm ps r1 = Ok r'"
    by (auto simp: and_then_eq_Inr)
  have "props_loop dup_ok arm s limit (n + length (as_ref b)) (dups(to_property_type p := True)) r1 =
      Ok (r', limit)"
    using Cons.prems(3) d by (intro Cons.IH [OF e at_step [OF at refl] _ wfs nr r1(2)]) simp
  then show ?case
    using field r1 Cons.prems(3,5) d pos
    by (subst props_loop.simps) (auto simp: Let_def)
qed

text \<open>A run of the loop that succeeds stays in the stream and keeps an invariant of the arms.\<close>

lemma props_loop_inv:
  assumes arm: "\<And>q r r'. \<lbrakk>keep r; Property_wf q; arm q r = Ok r'\<rbrakk> \<Longrightarrow> keep r'"
  shows "\<lbrakk>props_loop dup_ok arm s limit n dups r = Ok (r', m); keep r; n \<le> length s\<rbrakk>
     \<Longrightarrow> keep r' \<and> n \<le> m \<and> limit \<le> m \<and> m \<le> length s"
proof (induction "limit - n" arbitrary: n dups r rule: less_induct)
  case less
  show ?case
  proof (cases "n < limit")
    case False
    with less.prems show ?thesis by (simp add: props_loop_done)
  next
    case True
    with less.prems(1) obtain q k r1 where q: "dec_field Property_decode s n = Ok (q, k)"
      and r1: "arm q r = Ok r1"
      and next_: "props_loop dup_ok arm s limit k (dups(to_property_type q := True)) r1 = Ok (r', m)"
      by (subst (asm) props_loop.simps) (auto simp: and_then_eq_Inr Let_def split: if_split_asm)
    note b = Prop.field_bound [OF q]
    have "keep r1" using arm less.prems(2) b r1 by blast
    with less.hyps [OF _ next_] b True show ?thesis by fastforce
  qed
qed

lemma props_loop_no_panic:
  assumes arm: "\<And>q r. \<not> panics (arm q r)"
  shows "\<not> panics (props_loop dup_ok arm s limit n dups r)"
proof (induction "limit - n" arbitrary: n dups r rule: less_induct)
  case less
  have "\<not> panics (props_loop dup_ok arm s limit k dups' r1)"
    if "n < limit" "dec_field Property_decode s n = Ok (q, k)" for q k dups' r1
    by (rule less.hyps) (use that Prop.field_bound [OF that(2)] in auto)
  then show ?case
    by (subst props_loop.simps)
       (auto simp: panics_and_then Let_def arm Prop.field_no_panic simp del: fun_upd_apply)
qed

text \<open>\<open>dec_props!\<close> in terms of what follows the cursor.\<close>

definition props_here :: "'p decoder \<Rightarrow> ('p option) decoder" where
  "props_here dec t =
     and_then (VarU32_decode t) (\<lambda>(len, m).
       if var_u32 len = 0 then Ok (None, m)
       else and_then (dec t) (\<lambda>(p, r).
              if r = m + unat (var_u32 len) then Ok (Some p, r) else bad_prop))"

lemma dec_props_here:
  "dec_props dec s n = and_then (advance s n) (\<lambda>t. and_then (props_here dec t) (\<lambda>(p, r). Ok (p, n + r)))"
  by (auto simp: dec_props_def props_here_def and_then_def advance_def Let_def split: sum.splits)

lemma props_here_zero [simp]: "VarU32_encode (VarU32 0) = Ok b \<Longrightarrow>
    props_here dec (as_ref b @ rest) = Ok (None, length (as_ref b))"
  using VarU32.dec_enc [of "VarU32 0" b rest] by (simp add: props_here_def VarU32_MAX_def)

text \<open>A set in which nothing is set is read back as no set at all.\<close>

definition norm_props :: "('p \<Rightarrow> bool) \<Rightarrow> 'p option \<Rightarrow> 'p option" where
  "norm_props empt v = (case v of Some p \<Rightarrow> if empt p then None else Some p | None \<Rightarrow> None)"

section \<open>The contract of a property struct\<close>

locale property_set =
  fixes dec :: "'p decoder" and enc :: "'p encoder" and wf :: "'p \<Rightarrow> bool" and empt :: "'p \<Rightarrow> bool"
    and props :: "'p \<Rightarrow> Property list" and dup_ok :: "PropertyType \<Rightarrow> bool"
    and arm :: "Property \<Rightarrow> 's \<Rightarrow> 's result" and init :: 's and fin :: "'s \<Rightarrow> 'p result"
    and keep :: "'s \<Rightarrow> bool"
  assumes dec_eq: "dec s = and_then (props_decode dup_ok arm init s) (\<lambda>(r, n).
        and_then (fin r) (\<lambda>p. Ok (p, n)))"
    and enc_eq: "enc p = encode_props (props p)"
    and run: "wf p \<Longrightarrow> \<exists>r. steps arm (props p) init = Ok r \<and> fin r = Ok p"
    and once: "wf p \<Longrightarrow> no_repeat dup_ok (\<lambda>_. False) (props p)"
    and props_wf: "wf p \<Longrightarrow> list_all Property_wf (props p)"
    and empty_iff: "empt p \<longleftrightarrow> props p = []"
    and inv_init: "keep init"
    and inv_arm: "\<lbrakk>keep r; Property_wf q; arm q r = Ok r'\<rbrakk> \<Longrightarrow> keep r'"
    and inv_fin: "\<lbrakk>keep r; fin r = Ok p\<rbrakk> \<Longrightarrow> wf p"
    and arm_no_panic: "\<not> panics (arm q r)" and fin_no_panic: "\<not> panics (fin r)"
begin

lemma set_dec_enc:
  assumes wf: "wf p" and enc: "enc p = Ok b"
  shows "dec (as_ref b @ rest) = Ok (p, length (as_ref b))"
proof -
  from enc obtain d lb where d: "enc_all [] (props p) = Ok d" "length d < 2 ^ 32"
    and lb: "VarU32_encode (VarU32 (word_of_nat (length d))) = Ok lb" and b: "b = Large (as_ref lb @ d)"
    by (auto simp: enc_eq encode_props_Ok)
  obtain r where r: "steps arm (props p) init = Ok r" "fin r = Ok p" using run [OF wf] by blast
  let ?s = "as_ref lb @ d @ rest"
  have len: "dec_field VarU32_decode ?s 0 = Ok (VarU32 (word_of_nat (length d)), 0 + length (as_ref lb))"
    by (rule VarU32.field_at [OF _ _ lb]) (use VarU32_encode_le_max [OF lb] in simp_all)
  have "props_loop dup_ok arm ?s (length d + length (as_ref lb)) (length (as_ref lb)) (\<lambda>_. False) init =
      Ok (r, length d + length (as_ref lb))"
    by (rule props_loop_steps [OF d(1) _ _ props_wf once r(1), where rest = rest]) (simp_all add: wf)
  then show ?thesis
    using len d(2) r(2) b by (simp add: dec_eq props_decode_def unat_of_nat)
qed

lemma set_dec_Ok:
  assumes "dec s = Ok (p, n)"
  shows "0 < n \<and> n \<le> length s \<and> wf p"
proof -
  from assms obtain len m r where len: "dec_field VarU32_decode s 0 = Ok (len, m)"
    and loop: "props_loop dup_ok arm s (unat (var_u32 len) + m) m (\<lambda>_. False) init = Ok (r, n)"
    and fin: "fin r = Ok p"
    by (auto simp: dec_eq props_decode_def and_then_eq_Inr Let_def)
  have m: "0 < m" "m \<le> length s" using VarU32.field_bound [OF len] by auto
  have "keep r \<and> m \<le> n \<and> unat (var_u32 len) + m \<le> n \<and> n \<le> length s"
    by (rule props_loop_inv [where keep = keep, OF _ loop inv_init m(2)]) (rule inv_arm)
  with m inv_fin [OF _ fin] show ?thesis by auto
qed

lemma set_dec_no_panic: "\<not> panics (dec s)"
  by (auto simp: dec_eq props_decode_def panics_and_then Let_def fin_no_panic VarU32.field_no_panic
      props_loop_no_panic [of arm] arm_no_panic)

lemma set_enc_no_panic: "\<not> panics (enc p)"
  by (simp add: enc_eq encode_props_no_panic)

text \<open>The set as the optional part of a packet.\<close>

lemma here_some:
  assumes wf: "wf p" and enc: "enc p = Ok b"
  shows "props_here dec (as_ref b @ rest) = Ok (if empt p then None else Some p, length (as_ref b))"
proof -
  from enc obtain d lb where d: "enc_all [] (props p) = Ok d" "length d < 2 ^ 32"
    and lb: "VarU32_encode (VarU32 (word_of_nat (length d))) = Ok lb" and b: "b = Large (as_ref lb @ d)"
    by (auto simp: enc_eq encode_props_Ok)
  have len: "VarU32_decode (as_ref lb @ d @ rest) = Ok (VarU32 (word_of_nat (length d)), length (as_ref lb))"
    by (rule VarU32.dec_enc [OF _ lb]) (rule VarU32_encode_le_max [OF lb])
  have "empt p \<longleftrightarrow> d = []"
    using d(1) enc_all_empty [of "props p"] props_wf [OF wf] by (auto simp: empty_iff)
  moreover have "(word_of_nat (length d) :: u32) = 0 \<longleftrightarrow> d = []"
    using d(2) by (simp add: word_of_nat_eq_0_iff dvd_eq_mod_eq_0)
  ultimately show ?thesis
    using set_dec_enc [OF wf enc, of rest] len d(2) b by (simp add: props_here_def unat_of_nat)
qed

lemma enc_opt_Ok:
  assumes "enc_opt_props data enc v = Ok d" and "pred_option wf v"
  obtains pb where "d = data @ pb" and "\<And>rest. props_here dec (pb @ rest) = Ok (norm_props empt v, length pb)"
  using assms by (cases v) (auto simp: enc_opt_props_def extend_slice_Ok norm_props_def here_some)

lemma here_Ok:
  assumes "props_here dec t = Ok (v, n)"
  shows "0 < n \<and> n \<le> length t \<and> pred_option wf v"
  using assms VarU32.dec_bound set_dec_Ok
  by (fastforce simp: props_here_def and_then_eq_Inr split: if_split_asm)

lemma props_bound:
  "dec_props dec s n = Ok (v, m) \<Longrightarrow> n < m \<and> m \<le> length s \<and> pred_option wf v"
  by (auto simp: dec_props_here and_then_eq_Inr advance_Ok dest!: here_Ok)

lemma props_no_panic: "\<not> panics (dec_props dec s n)"
  by (auto simp: dec_props_def panics_and_then Let_def VarU32.dec_no_panic set_dec_no_panic)

lemma enc_opt_no_panic: "\<not> panics (enc_opt_props data enc v)"
  by (auto simp: enc_opt_props_def extend_slice_no_panic set_enc_no_panic VarU32.enc_no_panic
      split: option.split)

end

section \<open>Rules for the fields of a property struct\<close>

lemma steps_append: "steps arm (ps @ qs) r = and_then (steps arm ps r) (steps arm qs)"
  by (induction ps arbitrary: r) (auto simp: and_then_assoc intro: and_then_cong)

lemma steps_opt:
  assumes "\<And>x. v = Some x \<Longrightarrow> arm (con x) r = Ok (upd (\<lambda>_. Some x) r)" and "upd (\<lambda>_. None) r = r"
  shows "steps arm (opt_prop con v @ ps) r = steps arm ps (upd (\<lambda>_. v) r)"
  using assms by (cases v) (simp_all add: opt_prop_def)

lemma steps_opt_nz:
  assumes "\<And>x. x \<noteq> z \<Longrightarrow> arm (con x) r = Ok (upd (\<lambda>_. Some x) r)" and "upd (\<lambda>_. None) r = r"
    and "v \<noteq> Some z"
  shows "steps arm (opt_prop con v @ ps) r = steps arm ps (upd (\<lambda>_. v) r)"
  using assms by (cases v) (simp_all add: opt_prop_def)

lemma steps_many:
  assumes "\<And>u r. arm (con u) r = Ok (upd (\<lambda>us. us @ [u]) r)"
    and "\<And>f g r. upd f (upd g r) = upd (\<lambda>x. f (g x)) r" and "\<And>r. upd (\<lambda>x. x) r = r"
  shows "steps arm (map con us) r = Ok (upd (\<lambda>xs. xs @ us) r)"
proof (induction us arbitrary: r)
  case (Cons u us)
  then show ?case by (simp add: assms)
qed (simp add: assms)

lemma steps_many_append:
  assumes "\<And>u r. arm (con u) r = Ok (upd (\<lambda>us. us @ [u]) r)"
    and "\<And>f g r. upd f (upd g r) = upd (\<lambda>x. f (g x)) r" and "\<And>r. upd (\<lambda>x. x) r = r"
  shows "steps arm (map con us @ ps) r = steps arm ps (upd (\<lambda>xs. xs @ us) r)"
  by (simp add: steps_append steps_many [OF assms])

lemma steps_format:
  assumes "arm (Property.PayloadFormatIndicator 1) r = Ok (upd (\<lambda>_. Utf8) r)"
    and "upd (\<lambda>_. Binary) r = r"
  shows "steps arm (format_prop fmt @ ps) r = steps arm ps (upd (\<lambda>_. fmt) r)"
  using assms by (cases fmt) (simp_all add: format_prop_def is_utf8_def)

lemma opt_prop_Nil [simp]: "opt_prop con v = [] \<longleftrightarrow> v = None"
  by (simp add: opt_prop_def split: option.split)

lemma format_prop_Nil [simp]: "format_prop fmt = [] \<longleftrightarrow> fmt = Binary"
  by (cases fmt) (simp_all add: format_prop_def is_utf8_def)

lemma opt_prop_wf [simp]: "list_all P (opt_prop con v) \<longleftrightarrow> pred_option (\<lambda>x. P (con x)) v"
  by (simp add: opt_prop_def split: option.split)

lemma opt_prop_trivial [simp]: "pred_option (\<lambda>_. True) v"
  by (cases v) simp_all

lemma format_prop_wf [simp]: "list_all Property_wf (format_prop fmt)"
  by (simp add: format_prop_def)

lemma no_repeat_mono: "\<lbrakk>no_repeat ok dups ps; \<And>t. dups' t \<Longrightarrow> dups t\<rbrakk> \<Longrightarrow> no_repeat ok dups' ps"
proof (induction ps arbitrary: dups dups')
  case (Cons p ps)
  have "no_repeat ok (dups'(to_property_type p := True)) ps"
  proof (rule Cons.IH)
    show "no_repeat ok (dups(to_property_type p := True)) ps" using Cons.prems(1) by simp
    show "(dups(to_property_type p := True)) t" if "(dups'(to_property_type p := True)) t" for t
      using that Cons.prems(2) by (simp split: if_split_asm)
  qed
  with Cons.prems show ?case by auto
qed simp

lemma no_repeat_opt:
  assumes "\<And>x. to_property_type (con x) = t" and "\<not> dups t" and "no_repeat ok (dups(t := True)) ps"
  shows "no_repeat ok dups (opt_prop con v @ ps)"
proof (cases v)
  case None
  then show ?thesis
    using no_repeat_mono [OF assms(3), of dups] by (simp add: opt_prop_def)
next
  case (Some x)
  then show ?thesis using assms by (simp add: opt_prop_def del: fun_upd_apply)
qed

lemma no_repeat_format:
  assumes "\<not> dups PropertyType.PayloadFormatIndicator"
    and "no_repeat ok (dups(PropertyType.PayloadFormatIndicator := True)) ps"
  shows "no_repeat ok dups (format_prop fmt @ ps)"
  using assms no_repeat_mono [OF assms(2), of dups]
  by (cases "is_utf8 fmt") (simp_all add: format_prop_def del: fun_upd_apply, simp)

lemma no_repeat_many:
  assumes "\<And>x. ok (to_property_type (con x))"
  shows "no_repeat ok dups (map con us)"
  using assms by (induction us arbitrary: dups) auto

lemma no_repeat_many_append:
  assumes "\<And>x. ok (to_property_type (con x))" and "\<And>dups. no_repeat ok dups ps"
  shows "no_repeat ok dups (map con us @ ps)"
  using assms by (induction us arbitrary: dups) auto

lemma list_all_many [simp]: "list_all P (map con us) \<longleftrightarrow> list_all (\<lambda>x. P (con x)) us"
  by (induction us) auto

lemma and_then_Ok [simp]: "and_then m Inr = m"
  by (cases m) auto

end
