(* ===== verification/PacketCodec.thy ===== *)
theory PacketCodec
  imports Props
begin

text \<open>
  What the packets of \<open>src/v5\<close> share: the end of every \<open>encode\<close>, which puts the fixed header
  in front of the bytes, and the contract of a packet as a locale. A packet is sent in a
  normal form (an empty property set is not sent as such), so the round trip is up to the
  function \<open>normalize\<close> of the source.
\<close>

section \<open>The end of an encoder\<close>

definition finish_packet :: "(VarU32 \<Rightarrow> FixedHeader result) \<Rightarrow> bytes \<Rightarrow> Blob result" where
  "finish_packet new_header data =
     and_then (u32_try_from (length data)) (\<lambda>len.
     and_then (new_header (VarU32 len)) (\<lambda>fh.
     and_then (insert_fixed_header fh data) (\<lambda>data.
     Ok (Large data))))"

text \<open>The start of a decoder: the header is decoded and validated once more.\<close>

definition dec_header :: "bytes \<Rightarrow> (FixedHeader \<times> usize) result" where
  "dec_header stream =
     and_then (dec_field FixedHeader_decode stream 0) (\<lambda>(fh, n).
     and_then (FixedHeader_validate fh) (\<lambda>_. Ok (fh, n)))"

lemma dec_header_eq: "dec_header s = FixedHeader_decode s"
  by (cases "FixedHeader_decode s") (auto simp: dec_header_def dec_field_def FixedHeader_decode_Ok)

section \<open>Payloads\<close>

text \<open>
  The payload of SUBSCRIBE, SUBACK, UNSUBSCRIBE and UNSUBACK: the bytes up to the end of the
  packet, with the error \<open>e\<close> of the packet when there are none or too few.
\<close>

definition dec_payload ::
  "bytes \<Rightarrow> FixedHeader \<Rightarrow> usize \<Rightarrow> usize \<Rightarrow> (bytes \<times> usize) result \<Rightarrow> (bytes \<times> usize) result" where
  "dec_payload stream fh fh_len n e =
     (let m = fh_len + unat (var_u32 (remaining_len fh))
      in if m = n then e
         else if m \<le> length stream then and_then (slice stream n m) (\<lambda>bs. Ok (bs, m))
         else e)"

text \<open>
  The loop \<open>while t < payload.len()\<close> that decodes one entry after the other. A decoder that
  reads nothing would make the loop run forever; that case, which is no decoder of the crate,
  is the panic value.
\<close>

function dec_many :: "'a decoder \<Rightarrow> bytes \<Rightarrow> usize \<Rightarrow> 'a list \<Rightarrow> 'a list result" where
  "dec_many dec payload t acc =
     (if t < length payload
      then and_then (dec_field dec payload t) (\<lambda>(v, m).
             if t < m then dec_many dec payload m (acc @ [v]) else panic)
      else Ok acc)"
  by pat_completeness auto
termination
  by (relation "measure (\<lambda>(dec, payload, t, acc). length payload - t)") auto

declare dec_many.simps [simp del]

text \<open>The loop \<open>for x in xs.iter()\<close> of the encoders.\<close>

fun enc_many :: "'a encoder \<Rightarrow> bytes \<Rightarrow> 'a list \<Rightarrow> bytes result" where
  "enc_many enc data [] = Ok data"
| "enc_many enc data (x # xs) = and_then (extend_slice data (enc x)) (\<lambda>data. enc_many enc data xs)"

text \<open>The loop \<open>for code in payload { codes.push(code.try_into()?) }\<close>.\<close>

fun try_each :: "('a \<Rightarrow> 'b result) \<Rightarrow> 'a list \<Rightarrow> 'b list result" where
  "try_each f [] = Ok []"
| "try_each f (x # xs) = and_then (f x) (\<lambda>y. and_then (try_each f xs) (\<lambda>ys. Ok (y # ys)))"

lemma try_each_map: "(\<And>c. f (g c) = Ok c) \<Longrightarrow> try_each f (map g cs) = Ok cs"
  by (induction cs) simp_all

lemma try_each_length: "try_each f xs = Ok ys \<Longrightarrow> length ys = length xs"
  by (induction xs arbitrary: ys) (auto simp: and_then_eq_Inr)

lemma try_each_no_panic: "(\<And>x. \<not> panics (f x)) \<Longrightarrow> \<not> panics (try_each f xs)"
  by (induction xs) (auto simp: panics_and_then)

lemma dec_payload_panics:
  "panics (dec_payload s fh k n e) \<longleftrightarrow>
     (if k + unat (var_u32 (remaining_len fh)) = n \<or> length s < k + unat (var_u32 (remaining_len fh))
      then panics e else \<not> n \<le> k + unat (var_u32 (remaining_len fh)))"
  by (auto simp: dec_payload_def Let_def panics_and_then slice_panics)

lemma dec_payload_Ok:
  "dec_payload s fh k n (err kd c) = Ok (pl, m) \<Longrightarrow>
     m = k + unat (var_u32 (remaining_len fh)) \<and> n < m \<and> m \<le> length s \<and> pl = take (m - n) (drop n s)"
  by (auto simp: dec_payload_def Let_def and_then_eq_Inr slice_Ok split: if_splits)

lemma enc_many_prefix: "enc_many enc data xs = Ok d \<longleftrightarrow> (\<exists>e. enc_many enc [] xs = Ok e \<and> d = data @ e)"
proof (induction xs arbitrary: data d)
  case (Cons x xs)
  have step: "enc_many enc data (x # xs) = Ok d \<longleftrightarrow>
      (\<exists>b. enc x = Ok b \<and> enc_many enc (data @ as_ref b) xs = Ok d)" for data d
    by (auto simp: and_then_eq_Inr extend_slice_Ok)
  show ?case unfolding step Cons.IH [of "data @ _"] Cons.IH [of "[] @ _"] by auto
qed auto

context packetize
begin

lemma dec_many_enc:
  "\<lbrakk>enc_many enc [] xs = Ok d; list_all wf xs; at s n d\<rbrakk> \<Longrightarrow> dec_many dec s n acc = Ok (acc @ xs)"
proof (induction xs arbitrary: d n acc)
  case Nil
  then show ?case by (auto simp: at_def dec_many.simps)
next
  case (Cons x xs)
  from Cons.prems(1) obtain b where b: "enc x = Ok b" and d': "enc_many enc (as_ref b) xs = Ok d"
    by (auto simp: and_then_eq_Inr extend_slice_Ok)
  from d' obtain e where e: "enc_many enc [] xs = Ok e" and d: "d = as_ref b @ e"
    by (auto simp: enc_many_prefix [of enc "as_ref b"])
  have wf: "wf x" "list_all wf xs" using Cons.prems(2) by simp_all
  have at: "at s n (as_ref b @ e)" using Cons.prems(3) d by simp
  have "dec_many dec s (n + length (as_ref b)) (acc @ [x]) = Ok ((acc @ [x]) @ xs)"
    using at_step [OF at refl] by (intro Cons.IH [OF e wf(2)])
  moreover have "0 < length (as_ref b)" using enc_nonempty [OF wf(1) b] by simp
  ultimately show ?case
    using field_at [OF at wf(1) b] at_length [OF at] by (subst dec_many.simps) simp
qed

lemma enc_many_Ok:
  assumes "enc_many enc data xs = Ok d" and "list_all wf xs"
  obtains e where "d = data @ e" and "dec_many dec e 0 [] = Ok xs" and "xs \<noteq> [] \<Longrightarrow> e \<noteq> []"
proof -
  from assms(1) obtain e where e: "enc_many enc [] xs = Ok e" "d = data @ e"
    by (auto simp: enc_many_prefix [of enc data])
  have "dec_many dec e 0 [] = Ok xs" using dec_many_enc [OF e(1) assms(2), of e 0 "[]"] by simp
  moreover have "e \<noteq> []" if "xs \<noteq> []"
    using calculation that by (auto simp: dec_many.simps)
  ultimately show thesis using that e(2) by blast
qed

lemma dec_many_wf:
  "dec_many dec s n acc = Ok xs \<Longrightarrow> list_all wf acc \<Longrightarrow> list_all wf xs"
proof (induction "length s - n" arbitrary: n acc rule: less_induct)
  case less
  show ?case
  proof (cases "n < length s")
    case True
    with less.prems(1) obtain v m where v: "dec_field dec s n = Ok (v, m)" "n < m"
      "dec_many dec s m (acc @ [v]) = Ok xs"
      by (subst (asm) dec_many.simps) (auto simp: and_then_eq_Inr split: if_split_asm)
    from less.hyps [OF _ v(3)] v(2) True less.prems(2) field_bound [OF v(1)] show ?thesis by auto
  next
    case False
    with less.prems show ?thesis by (simp add: dec_many.simps)
  qed
qed

lemma dec_many_no_panic: "\<not> panics (dec_many dec s n acc)"
proof (induction "length s - n" arbitrary: n acc rule: less_induct)
  case less
  have "\<not> panics (dec_many dec s m acc')" if "n < length s" "dec_field dec s n = Ok (v, m)" for v m acc'
    by (rule less.hyps) (use that field_bound [OF that(2)] in auto)
  then show ?case
    by (subst dec_many.simps) (auto simp: panics_and_then field_no_panic dest: field_bound)
qed

lemma enc_many_no_panic: "\<not> panics (enc_many enc data xs)"
  by (induction xs arbitrary: data) (auto simp: panics_and_then extend_slice_no_panic enc_no_panic)

end

section \<open>Optional fields\<close>

text \<open>\<open>if let Some(x) = &self.x { data.extend_from_slice(x.encode()?.as_ref()) }\<close>.\<close>

definition enc_field_opt :: "bytes \<Rightarrow> 'a encoder \<Rightarrow> 'a option \<Rightarrow> bytes result" where
  "enc_field_opt data enc v =
     (case v of Some x \<Rightarrow> extend_slice data (enc x) | None \<Rightarrow> Ok data)"

text \<open>The conditional fields in terms of what follows the cursor.\<close>

definition if_here :: "('a option) decoder \<Rightarrow> bool \<Rightarrow> ('a option) decoder" where
  "if_here dec p t = (if p then dec t else Ok (None, 0))"

definition some_of :: "'a decoder \<Rightarrow> ('a option) decoder" where
  "some_of dec t = and_then (dec t) (\<lambda>(v, m). Ok (Some v, m))"

lemma dec_field_if_here:
  "n \<le> length s \<Longrightarrow> dec_field_if dec s n p =
     and_then (advance s n) (\<lambda>t. and_then (if_here (some_of dec) p t) (\<lambda>(v, m). Ok (v, n + m)))"
  by (auto simp: dec_field_if_def if_here_def some_of_def advance_def and_then_def split: sum.splits)

lemma dec_props_if_here:
  "n \<le> length s \<Longrightarrow> dec_props_if dec s n p =
     and_then (advance s n) (\<lambda>t. and_then (if_here (props_here dec) p t) (\<lambda>(v, m). Ok (v, n + m)))"
  by (auto simp: dec_props_if_def dec_props_here if_here_def advance_def)

lemma enc_field_opt_no_panic: "(\<And>x. \<not> panics (enc x)) \<Longrightarrow> \<not> panics (enc_field_opt data enc v)"
  by (auto simp: enc_field_opt_def extend_slice_no_panic split: option.split)

context packetize
begin

lemma field_opt_Ok:
  assumes "enc_field_opt data enc v = Ok d" and "pred_option wf v" and "p \<longleftrightarrow> v \<noteq> None"
  obtains b where "d = data @ b"
    and "\<And>rest. if_here (some_of dec) p (b @ rest) = Ok (v, length b)"
proof (cases v)
  case None
  with assms show thesis by (intro that [of "[]"]) (auto simp: enc_field_opt_def if_here_def)
next
  case (Some x)
  with assms obtain b where "enc x = Ok b" "d = data @ as_ref b" "wf x"
    by (auto simp: enc_field_opt_def extend_slice_Ok)
  then show thesis using Some assms(3) dec_enc by (intro that [of "as_ref b"]) (auto simp: if_here_def some_of_def)
qed

end

context property_set
begin

lemma set_opt_Ok:
  assumes "enc_field_opt data enc v = Ok d" and "pred_option wf v" and "pred_option (\<lambda>x. \<not> empt x) v"
    and "p \<longleftrightarrow> v \<noteq> None"
  obtains b where "d = data @ b"
    and "\<And>rest. if_here (props_here dec) p (b @ rest) = Ok (v, length b)"
proof (cases v)
  case None
  with assms show thesis by (intro that [of "[]"]) (auto simp: enc_field_opt_def if_here_def)
next
  case (Some x)
  with assms obtain b where "enc x = Ok b" "d = data @ as_ref b" "wf x" "\<not> empt x"
    by (auto simp: enc_field_opt_def extend_slice_Ok)
  then show thesis using Some assms(4) here_some by (intro that [of "as_ref b"]) (auto simp: if_here_def)
qed

lemma props_if_bound:
  "dec_props_if dec s n p = Ok (v, m) \<Longrightarrow> n \<le> length s \<Longrightarrow>
     n \<le> m \<and> m \<le> length s \<and> pred_option wf v \<and> (v \<noteq> None \<longrightarrow> p)"
  by (cases p) (auto simp: dec_props_if_def dest!: props_bound)

lemma props_if_no_panic: "\<not> panics (dec_props_if dec s n p)"
  by (simp add: dec_props_if_def props_no_panic)

end

section \<open>Framing\<close>

text \<open>
  A stream is framed when it holds one packet: as many bytes as its fixed header announces.
  \<open>MQTTRead\<close> hands such streams to the decoders.
\<close>

definition framed :: "bytes \<Rightarrow> bool" where
  "framed s \<longleftrightarrow> (\<forall>fh n. FixedHeader_decode s = Ok (fh, n) \<longrightarrow>
     length s = n + unat (var_u32 (remaining_len fh)))"

lemma framed_len:
  "\<lbrakk>framed s; FixedHeader_decode s = Ok (fh, n)\<rbrakk> \<Longrightarrow> length s = n + unat (var_u32 (remaining_len fh))"
  by (simp add: framed_def)

lemma finish_packet_Ok:
  assumes enc: "finish_packet new_header data = Ok b"
    and new: "\<And>l fh. new_header l = Ok fh \<Longrightarrow> FixedHeader_unwrap fh = Ok u \<and> remaining_len fh = l \<and>
      FixedHeader_validate fh = Ok () \<and> var_u32 l \<le> VarU32_MAX"
  obtains fh hb where "as_ref b = as_ref hb @ data" and "FixedHeader_unwrap fh = Ok u"
    and "unat (var_u32 (remaining_len fh)) = length data" and "length data < 2 ^ 28"
    and "\<And>rest. FixedHeader_decode (as_ref hb @ rest) = Ok (fh, length (as_ref hb))"
    and "b = Large (as_ref hb @ data)"
proof -
  from enc obtain fh hb where l: "length data < 2 ^ 32"
    and fh: "new_header (VarU32 (word_of_nat (length data))) = Ok fh"
    and hb: "FixedHeader_encode fh = Ok hb" and b: "b = Large (as_ref hb @ data)"
    by (auto simp: finish_packet_def insert_fixed_header_eq and_then_eq_Inr u32_try_from_def
        split: if_splits)
  note f = new [OF fh]
  have len: "unat (var_u32 (remaining_len fh)) = length data"
    using f l by (simp add: unat_of_nat)
  have max: "var_u32 (remaining_len fh) \<le> VarU32_MAX" using f by simp
  show thesis
  proof (rule that)
    show "length data < 2 ^ 28" using len max by (simp add: VarU32_MAX_def word_le_nat_alt)
    show "FixedHeader_decode (as_ref hb @ rest) = Ok (fh, length (as_ref hb))" for rest
      by (rule Header.dec_enc [OF _ hb]) (simp add: FixedHeader_wf_def max)
  qed (use f len b in auto)
qed

lemma finish_packet_no_panic:
  assumes "\<And>l. \<not> panics (new_header l)"
  shows "\<not> panics (finish_packet new_header data)"
  using assms by (auto simp: finish_packet_def insert_fixed_header_eq panics_and_then
      u32_try_from_def FixedHeader_no_panic)

text \<open>The framing of what an encoder writes.\<close>

lemma finish_packet_framed:
  assumes "\<And>rest. FixedHeader_decode (hb @ rest) = Ok (fh, length hb)"
    and "unat (var_u32 (remaining_len fh)) = length data"
  shows "framed (hb @ data)"
  using assms by (auto simp: framed_def)

text \<open>The bytes \<open>bs\<close>, whatever follows them, announce a packet of one of the types, of their length.\<close>

definition announces :: "PacketType set \<Rightarrow> bytes \<Rightarrow> bytes \<Rightarrow> bool" where
  "announces types bs rest \<longleftrightarrow>
     (\<exists>fh n t r q d. FixedHeader_decode (bs @ rest) = Ok (fh, n) \<and>
        FixedHeader_unwrap fh = Ok (t, r, q, d) \<and> t \<in> types \<and>
        length bs = n + unat (var_u32 (remaining_len fh)))"

lemma announcesI:
  assumes "bs = hb @ data" and "FixedHeader_unwrap fh = Ok (t, r, q, d)" and "t \<in> types"
    and "unat (var_u32 (remaining_len fh)) = length data"
    and "\<And>rest. FixedHeader_decode (hb @ rest) = Ok (fh, length hb)"
  shows "announces types bs rest"
  using assms by (auto simp: announces_def)

section \<open>Evaluation of decoders on concatenations\<close>

lemma advance_add [simp]: "advance (xs @ ys) (length xs + n) = advance ys n"
  by (simp add: advance_def)

lemma dec_field_append:
  assumes "\<And>rest. dec (b @ rest) = Ok (v, length b)"
  shows "dec_field dec (pre @ b @ rest) (length pre) = Ok (v, length pre + length b)"
  using assms by (simp add: dec_field_def)

lemma dec_props_append:
  assumes "\<And>rest. props_here dec (b @ rest) = Ok (v, length b)"
  shows "dec_props dec (pre @ b @ rest) (length pre) = Ok (v, length pre + length b)"
  using assms by (simp add: dec_props_here)

section \<open>The contract of a packet\<close>

locale packet_codec =
  fixes dec :: "'a decoder" and enc :: "'a encoder" and wf :: "'a \<Rightarrow> bool" and norm :: "'a \<Rightarrow> 'a"
    and types :: "PacketType set"
  assumes packet_dec_enc:
      "\<lbrakk>wf v; enc v = Ok b\<rbrakk> \<Longrightarrow> dec (as_ref b @ rest) = Ok (norm v, length (as_ref b))"
    and packet_header:
      "\<lbrakk>wf v; enc v = Ok b\<rbrakk> \<Longrightarrow> announces types (as_ref b) rest"
    and packet_bound: "dec s = Ok (v, n) \<Longrightarrow> 0 < n \<and> n \<le> length s"
    and packet_no_panic: "\<lbrakk>framed s; FixedHeader_decode s = Ok (fh, k);
         FixedHeader_unwrap fh = Ok (t, r, q, d); t \<in> types\<rbrakk> \<Longrightarrow> \<not> panics (dec s)"
    and packet_enc_no_panic: "wf v \<Longrightarrow> \<not> panics (enc v)"
    and norm_norm: "norm (norm v) = norm v"
begin

lemma packet_framed:
  assumes "wf v" and "enc v = Ok b"
  shows "framed (as_ref b)"
  using packet_header [OF assms, of "[]"] by (auto simp: framed_def announces_def)

text \<open>Two packets with the same bytes are the same up to normalization.\<close>

lemma packet_inj: "\<lbrakk>wf v; wf w; enc v = Ok b; enc w = Ok c; as_ref b = as_ref c\<rbrakk> \<Longrightarrow> norm v = norm w"
  using packet_dec_enc [of v b "[]"] packet_dec_enc [of w c "[]"] by simp

end

text \<open>Packets for which what the decoder returns is well-formed, and may be sent again.\<close>

locale packet_closed = packet_codec +
  assumes packet_wf: "\<lbrakk>dec s = Ok (v, n); FixedHeader_decode s = Ok (fh, k);
         FixedHeader_unwrap fh = Ok (t, r, q, d); t \<in> types\<rbrakk> \<Longrightarrow> wf v"
begin

lemma packet_again:
  "\<lbrakk>dec s = Ok (v, n); FixedHeader_decode s = Ok (fh, k); FixedHeader_unwrap fh = Ok (t, r, q, d);
    t \<in> types; enc v = Ok b\<rbrakk> \<Longrightarrow> dec (as_ref b @ rest) = Ok (norm v, length (as_ref b))"
  by (rule packet_dec_enc) (rule packet_wf)

end

end
