(* ===== verification/V5_Connect.thy ===== *)
theory V5_Connect
  imports PacketCodec
begin

text \<open>
  Model of \<open>src/v5/connect.rs\<close>: the connect flags, the two property structs of CONNECT and the
  packet, whose payload has the fields that the flags announce.
\<close>

section \<open>Flags\<close>

datatype ConnectFlags = ConnectFlags (connect_flags: u8)

abbreviation (input) ConnectFlags_CLEAN_START :: u8 where "ConnectFlags_CLEAN_START \<equiv> 0x02"
abbreviation (input) ConnectFlags_WILL_FLAG :: u8 where "ConnectFlags_WILL_FLAG \<equiv> 0x04"
abbreviation (input) ConnectFlags_WILL_QOS0 :: u8 where "ConnectFlags_WILL_QOS0 \<equiv> 0x00"
abbreviation (input) ConnectFlags_WILL_QOS1 :: u8 where "ConnectFlags_WILL_QOS1 \<equiv> 0x08"
abbreviation (input) ConnectFlags_WILL_QOS2 :: u8 where "ConnectFlags_WILL_QOS2 \<equiv> 0x10"
abbreviation (input) ConnectFlags_WILL_RETAIN :: u8 where "ConnectFlags_WILL_RETAIN \<equiv> 0x20"
abbreviation (input) ConnectFlags_USERNAME :: u8 where "ConnectFlags_USERNAME \<equiv> 0x40"
abbreviation (input) ConnectFlags_PASSWORD :: u8 where "ConnectFlags_PASSWORD \<equiv> 0x80"
abbreviation (input) ConnectFlags_WILL_QOS_MASK :: u8 where "ConnectFlags_WILL_QOS_MASK \<equiv> 0x18"


definition ConnectFlags_new :: "ConnectFlags list \<Rightarrow> ConnectFlags" where
  "ConnectFlags_new flags =
     fold (\<lambda>flag acc. ConnectFlags (connect_flags acc OR connect_flags flag)) flags (ConnectFlags 0)"

abbreviation (input) ConnectFlags_default :: ConnectFlags where
  "ConnectFlags_default \<equiv> ConnectFlags_new [ConnectFlags ConnectFlags_CLEAN_START]"

text \<open>
  \<open>self.0 & Self::WILL_QOS_MASK >> 3\<close> shifts the mask and not the flags, as \<open>>>\<close> binds
  tighter than \<open>&\<close>.
\<close>

definition ConnectFlags_unwrap :: "ConnectFlags \<Rightarrow> (bool \<times> bool \<times> QoS \<times> bool) result" where
  "ConnectFlags_unwrap self =
     (let clean_start = (connect_flags self AND ConnectFlags_CLEAN_START) > 0;
          will_flag = (connect_flags self AND ConnectFlags_WILL_FLAG) > 0
      in and_then (unwrap (QoS_try_from (connect_flags self AND drop_bit 3 ConnectFlags_WILL_QOS_MASK)))
           (\<lambda>will_qos.
         let will_retain = (connect_flags self AND ConnectFlags_WILL_RETAIN) > 0
         in Ok (clean_start, will_flag, will_qos, will_retain)))"

definition is_will_flag :: "ConnectFlags \<Rightarrow> bool" where
  "is_will_flag self \<longleftrightarrow> (connect_flags self AND ConnectFlags_WILL_FLAG) > 0"

definition is_username :: "ConnectFlags \<Rightarrow> bool" where
  "is_username self \<longleftrightarrow> (connect_flags self AND ConnectFlags_USERNAME) > 0"

definition is_password :: "ConnectFlags \<Rightarrow> bool" where
  "is_password self \<longleftrightarrow> (connect_flags self AND ConnectFlags_PASSWORD) > 0"

definition ConnectFlags_validate :: "ConnectFlags \<Rightarrow> unit result" where
  "ConnectFlags_validate self =
     (if (connect_flags self AND 0x01) > 0 then err ErrorKind.MalformedPacket ReasonCode.MalformedPacket
      else Ok ())"

definition ConnectFlags_decode :: "ConnectFlags decoder" where
  "ConnectFlags_decode stream =
     and_then (dec_field u8_decode stream 0) (\<lambda>(flags, n).
       let flags = ConnectFlags flags
       in and_then (ConnectFlags_validate flags) (\<lambda>_. Ok (flags, n)))"

definition ConnectFlags_encode :: "ConnectFlags encoder" where
  "ConnectFlags_encode self =
     and_then (ConnectFlags_validate self) (\<lambda>_. u8_encode (connect_flags self))"

section \<open>Properties\<close>

record ConnectProperties =
  cp_session_expiry_interval :: "u32 option"
  cp_receive_maximum :: "u16 option"
  cp_max_packet_size :: "u32 option"
  cp_topic_alias_max :: "u16 option"
  cp_request_response_info :: "bool option"
  cp_request_problem_info :: "bool option"
  cp_authentication_method :: "rstring option"
  cp_authentication_data :: "bytes option"
  cp_user_properties :: "UserProperty list"

definition ConnectProperties_default :: ConnectProperties where
  "ConnectProperties_default =
     \<lparr>cp_session_expiry_interval = None,
      cp_receive_maximum = None,
      cp_max_packet_size = None,
      cp_topic_alias_max = None,
      cp_request_response_info = None,
      cp_request_problem_info = None,
      cp_authentication_method = None,
      cp_authentication_data = None,
      cp_user_properties = []\<rparr>"

text \<open>The match on the property in \<open>decode\<close>.\<close>

definition ConnectProperties_arm :: "Property \<Rightarrow> ConnectProperties \<Rightarrow> ConnectProperties result" where
  "ConnectProperties_arm property props =
     (case property of
        Property.SessionExpiryInterval val \<Rightarrow> Ok (props\<lparr>cp_session_expiry_interval := Some val\<rparr>)
      | Property.ReceiveMaximum val \<Rightarrow>
          if val = 0 then bad_prop else Ok (props\<lparr>cp_receive_maximum := Some val\<rparr>)
      | Property.MaximumPacketSize val \<Rightarrow>
          if val = 0 then bad_prop else Ok (props\<lparr>cp_max_packet_size := Some val\<rparr>)
      | Property.TopicAliasMaximum val \<Rightarrow> Ok (props\<lparr>cp_topic_alias_max := Some val\<rparr>)
      | Property.RequestResponseInformation val \<Rightarrow>
          if val = 0 then Ok (props\<lparr>cp_request_response_info := Some False\<rparr>)
          else if val = 1 then Ok (props\<lparr>cp_request_response_info := Some True\<rparr>)
          else bad_prop
      | Property.RequestProblemInformation val \<Rightarrow>
          if val = 0 then Ok (props\<lparr>cp_request_problem_info := Some False\<rparr>)
          else if val = 1 then Ok (props\<lparr>cp_request_problem_info := Some True\<rparr>)
          else bad_prop
      | Property.UserProp val \<Rightarrow>
          Ok (props\<lparr>cp_user_properties := cp_user_properties props @ [val]\<rparr>)
      | Property.AuthenticationMethod val \<Rightarrow> Ok (props\<lparr>cp_authentication_method := Some val\<rparr>)
      | Property.AuthenticationData val \<Rightarrow> Ok (props\<lparr>cp_authentication_data := Some val\<rparr>)
      | _ \<Rightarrow> bad_prop)"

definition ConnectProperties_decode :: "ConnectProperties decoder" where
  "ConnectProperties_decode stream = props_decode user_prop_only ConnectProperties_arm ConnectProperties_default stream"

definition ConnectProperties_encode :: "ConnectProperties encoder" where
  "ConnectProperties_encode self =
     and_then (enc_prop_opt [] PropertyType.SessionExpiryInterval u32_encode (cp_session_expiry_interval self)) (\<lambda>data.
     and_then (enc_prop_opt data PropertyType.ReceiveMaximum u16_encode (cp_receive_maximum self)) (\<lambda>data.
     and_then (enc_prop_opt data PropertyType.MaximumPacketSize u32_encode (cp_max_packet_size self)) (\<lambda>data.
     and_then (enc_prop_opt data PropertyType.TopicAliasMaximum u16_encode (cp_topic_alias_max self)) (\<lambda>data.
     and_then (enc_prop_bool data PropertyType.RequestResponseInformation (cp_request_response_info self)) (\<lambda>data.
     and_then (enc_prop_bool data PropertyType.RequestProblemInformation (cp_request_problem_info self)) (\<lambda>data.
     and_then (enc_prop_opt data PropertyType.AuthenticationMethod String_encode (cp_authentication_method self)) (\<lambda>data.
     and_then (enc_prop_opt data PropertyType.AuthenticationData Vec_encode (cp_authentication_data self)) (\<lambda>data.
     and_then (enc_user_props data (cp_user_properties self)) finish_props))))))))"

definition ConnectProperties_is_empty :: "ConnectProperties \<Rightarrow> bool" where
  "ConnectProperties_is_empty self \<longleftrightarrow>
     cp_session_expiry_interval self = None \<and>
     cp_receive_maximum self = None \<and>
     cp_max_packet_size self = None \<and>
     cp_topic_alias_max self = None \<and>
     cp_request_response_info self = None \<and>
     cp_request_problem_info self = None \<and>
     cp_authentication_method self = None \<and>
     cp_authentication_data self = None \<and>
     length (cp_user_properties self) = 0"

abbreviation (input) ConnectProperties_RECEIVE_MAXIMUM :: u16 where
  "ConnectProperties_RECEIVE_MAXIMUM \<equiv> 65535"

abbreviation (input) ConnectProperties_session_expiry_interval :: "ConnectProperties \<Rightarrow> u32 option" where
  "ConnectProperties_session_expiry_interval self \<equiv> cp_session_expiry_interval self"

abbreviation (input) ConnectProperties_receive_maximum :: "ConnectProperties \<Rightarrow> u16" where
  "ConnectProperties_receive_maximum self \<equiv>
     (case cp_receive_maximum self of Some v \<Rightarrow> v | None \<Rightarrow> ConnectProperties_RECEIVE_MAXIMUM)"

abbreviation (input) ConnectProperties_topic_alias_max :: "ConnectProperties \<Rightarrow> u16 option" where
  "ConnectProperties_topic_alias_max self \<equiv>
     (if cp_topic_alias_max self = Some 0 \<or> cp_topic_alias_max self = None then None
      else cp_topic_alias_max self)"

abbreviation (input) ConnectProperties_request_response_info :: "ConnectProperties \<Rightarrow> bool" where
  "ConnectProperties_request_response_info self \<equiv>
     (case cp_request_response_info self of Some v \<Rightarrow> v | None \<Rightarrow> False)"

abbreviation (input) ConnectProperties_request_problem_info :: "ConnectProperties \<Rightarrow> bool" where
  "ConnectProperties_request_problem_info self \<equiv>
     (case cp_request_response_info self of Some v \<Rightarrow> v | None \<Rightarrow> True)"

section \<open>Properties of the will message\<close>

record WillProperties =
  wp_will_delay_interval :: "u32 option"
  wp_payload_format_indicator :: PayloadFormat
  wp_message_expiry_interval :: "u32 option"
  wp_content_type :: "rstring option"
  wp_response_topic :: "TopicName option"
  wp_correlation_data :: "bytes option"
  wp_user_properties :: "UserProperty list"

definition WillProperties_default :: WillProperties where
  "WillProperties_default =
     \<lparr>wp_will_delay_interval = None,
      wp_payload_format_indicator = PayloadFormat_default,
      wp_message_expiry_interval = None,
      wp_content_type = None,
      wp_response_topic = None,
      wp_correlation_data = None,
      wp_user_properties = []\<rparr>"

text \<open>The match on the property in \<open>decode\<close>.\<close>

definition WillProperties_arm :: "Property \<Rightarrow> WillProperties \<Rightarrow> WillProperties result" where
  "WillProperties_arm property props =
     (case property of
        Property.WillDelayInterval val \<Rightarrow> Ok (props\<lparr>wp_will_delay_interval := Some val\<rparr>)
      | Property.PayloadFormatIndicator val \<Rightarrow>
          and_then (PayloadFormat_try_from val) (\<lambda>fmt. Ok (props\<lparr>wp_payload_format_indicator := fmt\<rparr>))
      | Property.MessageExpiryInterval val \<Rightarrow> Ok (props\<lparr>wp_message_expiry_interval := Some val\<rparr>)
      | Property.ContentType val \<Rightarrow> Ok (props\<lparr>wp_content_type := Some val\<rparr>)
      | Property.ResponseTopic val \<Rightarrow> Ok (props\<lparr>wp_response_topic := Some val\<rparr>)
      | Property.CorrelationData val \<Rightarrow> Ok (props\<lparr>wp_correlation_data := Some val\<rparr>)
      | Property.UserProp val \<Rightarrow>
          Ok (props\<lparr>wp_user_properties := wp_user_properties props @ [val]\<rparr>)
      | _ \<Rightarrow> bad_prop)"

definition WillProperties_decode :: "WillProperties decoder" where
  "WillProperties_decode stream = props_decode user_prop_only WillProperties_arm WillProperties_default stream"

definition WillProperties_encode :: "WillProperties encoder" where
  "WillProperties_encode self =
     and_then (enc_prop_opt [] PropertyType.WillDelayInterval u32_encode (wp_will_delay_interval self)) (\<lambda>data.
     and_then (enc_prop_format data (wp_payload_format_indicator self)) (\<lambda>data.
     and_then (enc_prop_opt data PropertyType.MessageExpiryInterval u32_encode (wp_message_expiry_interval self)) (\<lambda>data.
     and_then (enc_prop_opt data PropertyType.ContentType String_encode (wp_content_type self)) (\<lambda>data.
     and_then (enc_prop_opt data PropertyType.ResponseTopic TopicName_encode (wp_response_topic self)) (\<lambda>data.
     and_then (enc_prop_opt data PropertyType.CorrelationData Vec_encode (wp_correlation_data self)) (\<lambda>data.
     and_then (enc_user_props data (wp_user_properties self)) finish_props))))))"

definition WillProperties_is_empty :: "WillProperties \<Rightarrow> bool" where
  "WillProperties_is_empty self \<longleftrightarrow>
     wp_will_delay_interval self = None \<and>
     wp_payload_format_indicator self = Binary \<and>
     wp_message_expiry_interval self = None \<and>
     wp_content_type self = None \<and>
     wp_response_topic self = None \<and>
     wp_correlation_data self = None \<and>
     length (wp_user_properties self) = 0"

abbreviation (input) WillProperties_WILL_DELAY_INTERVAL :: u32 where
  "WillProperties_WILL_DELAY_INTERVAL \<equiv> 0"

abbreviation (input) WillProperties_will_delay_interval :: "WillProperties \<Rightarrow> u32" where
  "WillProperties_will_delay_interval self \<equiv>
     (case wp_will_delay_interval self of Some v \<Rightarrow> v | None \<Rightarrow> WillProperties_WILL_DELAY_INTERVAL)"

abbreviation (input) WillProperties_is_utf8 :: "WillProperties \<Rightarrow> bool" where
  "WillProperties_is_utf8 self \<equiv> wp_payload_format_indicator self = Utf8"

section \<open>The packet\<close>

record ConnectPayload =
  cpl_client_id :: ClientID
  cpl_will_properties :: "WillProperties option"
  cpl_will_topic :: "TopicName option"
  cpl_will_payload :: "bytes option"
  cpl_username :: "rstring option"
  cpl_password :: "bytes option"

record Connect =
  con_protocol_name :: rstring
  con_protocol_version :: MqttProtocol
  con_flags :: ConnectFlags
  con_keep_alive :: u16
  con_properties :: "ConnectProperties option"
  con_payload :: ConnectPayload

text \<open>The defaults; \<open>uuid\<close> is the identifier that the \<open>uuid\<close> crate generates.\<close>

definition ConnectPayload_default :: "rstring \<Rightarrow> ConnectPayload" where
  "ConnectPayload_default uuid =
     \<lparr>cpl_client_id = ClientID uuid, cpl_will_properties = None, cpl_will_topic = None,
      cpl_will_payload = None, cpl_username = None, cpl_password = None\<rparr>"

definition Connect_default :: "rstring \<Rightarrow> Connect" where
  "Connect_default uuid =
     \<lparr>con_protocol_name = ascii ''MQTT'', con_protocol_version = MqttProtocol.V5,
      con_flags = ConnectFlags_default, con_keep_alive = 0, con_properties = None,
      con_payload =
        \<lparr>cpl_client_id = ClientID uuid, cpl_will_properties = None, cpl_will_topic = None,
         cpl_will_payload = None, cpl_username = None, cpl_password = None\<rparr>\<rparr>"

definition Connect_normalize :: "Connect \<Rightarrow> Connect" where
  "Connect_normalize self =
     self\<lparr>con_properties := norm_props ConnectProperties_is_empty (con_properties self),
          con_payload := (con_payload self)\<lparr>cpl_will_properties :=
            norm_props WillProperties_is_empty (cpl_will_properties (con_payload self))\<rparr>\<rparr>"

definition Connect_validate :: "Connect \<Rightarrow> unit result" where
  "Connect_validate self =
     (if con_protocol_name self \<noteq> ascii ''MQTT''
      then err ErrorKind.ProtocolError ReasonCode.UnsupportedProtocolVersion
      else if con_protocol_version self \<noteq> MqttProtocol.V5
      then err ErrorKind.ProtocolError ReasonCode.UnsupportedProtocolVersion
      else
        and_then (ConnectFlags_validate (con_flags self)) (\<lambda>_.
          let flags = connect_flags (con_flags self); pld = con_payload self
          in and_then (QoS_try_from (drop_bit 3 (flags AND ConnectFlags_WILL_QOS_MASK))) (\<lambda>_.
             and_then
               (if (flags AND ConnectFlags_WILL_FLAG) > 0
                then if cpl_will_topic pld = None
                  then err ErrorKind.MalformedPacket ReasonCode.MalformedPacket
                  else if cpl_will_properties pld = None
                  then err ErrorKind.MalformedPacket ReasonCode.MalformedPacket
                  else if cpl_will_payload pld = None
                  then err ErrorKind.MalformedPacket ReasonCode.MalformedPacket
                  else Ok ()
                else Ok ()) (\<lambda>_.
               if map_option WillProperties_is_utf8 (cpl_will_properties pld) = Some True
               then case cpl_will_payload pld of
                      None \<Rightarrow> panic
                    | Some payload \<Rightarrow>
                        if \<not> valid_utf8 payload
                        then err ErrorKind.MalformedPacket ReasonCode.MalformedPacket
                        else Ok ()
               else Ok ()))))"

definition Connect_decode :: "Connect decoder" where
  "Connect_decode stream =
     and_then (dec_header stream) (\<lambda>(fh, n).
     and_then (dec_field String_decode stream n) (\<lambda>(protocol_name, n).
     and_then (and_then (dec_field u8_decode stream n) (\<lambda>(val, n).
       and_then (MqttProtocol_try_from val) (\<lambda>v. Ok (v, n)))) (\<lambda>(protocol_version, n).
     and_then (dec_field ConnectFlags_decode stream n) (\<lambda>(flags, n).
     and_then (dec_field u16_decode stream n) (\<lambda>(keep_alive, n).
     and_then (dec_props ConnectProperties_decode stream n) (\<lambda>(properties, n).
       let will_flag = is_will_flag flags in
     and_then (dec_field String_decode stream n) (\<lambda>(client_id, n).
     and_then (dec_props_if WillProperties_decode stream n will_flag) (\<lambda>(will_properties, n).
     and_then (dec_field_if TopicName_decode stream n will_flag) (\<lambda>(will_topic, n).
     and_then (dec_field_if Vec_decode stream n will_flag) (\<lambda>(will_payload, n).
     and_then (dec_field_if String_decode stream n (is_username flags)) (\<lambda>(username, n).
     and_then (dec_field_if Vec_decode stream n (is_password flags)) (\<lambda>(password, n).
       let val = \<lparr>con_protocol_name = protocol_name, con_protocol_version = protocol_version,
                  con_flags = flags, con_keep_alive = keep_alive, con_properties = properties,
                  con_payload =
                    \<lparr>cpl_client_id = ClientID client_id, cpl_will_properties = will_properties,
                     cpl_will_topic = will_topic, cpl_will_payload = will_payload,
                     cpl_username = username, cpl_password = password\<rparr>\<rparr>
       in and_then (Connect_validate val) (\<lambda>_. Ok (val, n))))))))))))))"

definition Connect_encode :: "Connect encoder" where
  "Connect_encode self =
     and_then (Connect_validate self) (\<lambda>_.
     and_then (extend_slice [] (String_encode (con_protocol_name self))) (\<lambda>data.
     and_then (extend_slice data (u8_encode (u8_from_MqttProtocol (con_protocol_version self)))) (\<lambda>data.
     and_then (extend_slice data (u8_encode (connect_flags (con_flags self)))) (\<lambda>data.
     and_then (extend_slice data (u16_encode (con_keep_alive self))) (\<lambda>data.
     and_then (enc_opt_props data ConnectProperties_encode (con_properties self)) (\<lambda>data.
     and_then (extend_slice data (String_encode (client_id (cpl_client_id (con_payload self))))) (\<lambda>data.
     and_then (enc_field_opt data WillProperties_encode (cpl_will_properties (con_payload self))) (\<lambda>data.
     and_then (enc_field_opt data TopicName_encode (cpl_will_topic (con_payload self))) (\<lambda>data.
     and_then (enc_field_opt data Vec_encode (cpl_will_payload (con_payload self))) (\<lambda>data.
     and_then (enc_field_opt data String_encode (cpl_username (con_payload self))) (\<lambda>data.
     and_then (enc_field_opt data Vec_encode (cpl_password (con_payload self))) (\<lambda>data.
     finish_packet (FixedHeader_new PacketType.Connect) data))))))))))))"

text \<open>The parameters of a session that CONNECT carries.\<close>

definition Connect_receive_maximum :: "Connect \<Rightarrow> u16" where
  "Connect_receive_maximum self =
     (case con_properties self of
        Some props \<Rightarrow> ConnectProperties_receive_maximum props
      | None \<Rightarrow> ConnectProperties_RECEIVE_MAXIMUM)"

definition Connect_max_packet_size :: "Connect \<Rightarrow> u32 \<Rightarrow> u32" where
  "Connect_max_packet_size self def =
     (case con_properties self of
        Some props \<Rightarrow> (case cp_max_packet_size props of Some v \<Rightarrow> v | None \<Rightarrow> def)
      | None \<Rightarrow> def)"

definition Connect_session_expiry_interval :: "Connect \<Rightarrow> u32 option" where
  "Connect_session_expiry_interval self =
     (case con_properties self of
        Some props \<Rightarrow> ConnectProperties_session_expiry_interval props
      | None \<Rightarrow> None)"

definition Connect_topic_alias_max :: "Connect \<Rightarrow> u16 option" where
  "Connect_topic_alias_max self =
     (case con_properties self of
        Some props \<Rightarrow> ConnectProperties_topic_alias_max props
      | None \<Rightarrow> None)"

section \<open>Facts on the flags\<close>

lemma ConnectFlags_decode_Ok:
  "ConnectFlags_decode s = Ok (f, n) \<longleftrightarrow>
     u8_decode s = Ok (connect_flags f, n) \<and> ConnectFlags_validate f = Ok ()"
  by (cases "u8_decode s"; cases f)
     (auto simp: ConnectFlags_decode_def dec_field_def and_then_eq_Inr Let_def)

lemma ConnectFlags_validate_Ok: "ConnectFlags_validate f = Ok () \<longleftrightarrow> connect_flags f AND 1 = 0"
  by (simp add: ConnectFlags_validate_def word_gt_0)

lemma ConnectFlags_no_panic [simp]:
  "\<not> panics (ConnectFlags_validate f)" "\<not> panics (ConnectFlags_decode s)"
  by (auto simp: ConnectFlags_validate_def ConnectFlags_decode_def panics_and_then Let_def u8.field_no_panic)

interpretation ConFlags: canonical ConnectFlags_decode ConnectFlags_encode
    "\<lambda>f. ConnectFlags_validate f = Ok ()"
proof unfold_locales
  have enc: "ConnectFlags_encode f = Ok b \<longleftrightarrow>
      ConnectFlags_validate f = Ok () \<and> u8_encode (connect_flags f) = Ok b" for f b
    by (auto simp: ConnectFlags_encode_def and_then_eq_Inr)
  fix s :: bytes and f b n rest
  show "ConnectFlags_decode (as_ref b @ rest) = Ok (f, length (as_ref b))"
    if "ConnectFlags_validate f = Ok ()" "ConnectFlags_encode f = Ok b"
    using that u8.dec_enc by (simp add: enc ConnectFlags_decode_Ok)
  show "0 < n \<and> n \<le> length s" "ConnectFlags_validate f = Ok ()"
    "\<exists>b. ConnectFlags_encode f = Ok b \<and> length (as_ref b) \<le> n"
    if "ConnectFlags_decode s = Ok (f, n)"
    using that u8.dec_bound u8.enc_dec by (auto simp: enc ConnectFlags_decode_Ok)
  show "as_ref b = take n s" if "ConnectFlags_decode s = Ok (f, n)" "ConnectFlags_encode f = Ok b"
    using that u8.enc_take by (auto simp: enc ConnectFlags_decode_Ok)
  show "blob_ok b" if "ConnectFlags_encode f = Ok b" using that u8.enc_blob by (auto simp: enc)
qed (auto simp: ConnectFlags_encode_def panics_and_then u8.enc_no_panic)

section \<open>Facts on the properties\<close>

text \<open>The properties of a \<open>ConnectProperties\<close> in the order in which they are sent.\<close>

definition ConnectProperties_props :: "ConnectProperties \<Rightarrow> Property list" where
  "ConnectProperties_props p =
     opt_prop Property.SessionExpiryInterval (cp_session_expiry_interval p) @
     opt_prop Property.ReceiveMaximum (cp_receive_maximum p) @
     opt_prop Property.MaximumPacketSize (cp_max_packet_size p) @
     opt_prop Property.TopicAliasMaximum (cp_topic_alias_max p) @
     opt_prop (bool_prop Property.RequestResponseInformation) (cp_request_response_info p) @
     opt_prop (bool_prop Property.RequestProblemInformation) (cp_request_problem_info p) @
     opt_prop Property.AuthenticationMethod (cp_authentication_method p) @
     opt_prop Property.AuthenticationData (cp_authentication_data p) @
     map Property.UserProp (cp_user_properties p)"

definition ConnectProperties_wf :: "ConnectProperties \<Rightarrow> bool" where
  "ConnectProperties_wf p \<longleftrightarrow> list_all Property_wf (ConnectProperties_props p) \<and>
     cp_receive_maximum p \<noteq> Some 0 \<and>
     cp_max_packet_size p \<noteq> Some 0"

lemma ConnectProperties_arm_eval:
  "ConnectProperties_arm (Property.SessionExpiryInterval v0) r = Ok (r\<lparr>cp_session_expiry_interval := Some v0\<rparr>)"
  "v1 \<noteq> 0 \<Longrightarrow> ConnectProperties_arm (Property.ReceiveMaximum v1) r = Ok (r\<lparr>cp_receive_maximum := Some v1\<rparr>)"
  "v2 \<noteq> 0 \<Longrightarrow> ConnectProperties_arm (Property.MaximumPacketSize v2) r = Ok (r\<lparr>cp_max_packet_size := Some v2\<rparr>)"
  "ConnectProperties_arm (Property.TopicAliasMaximum v3) r = Ok (r\<lparr>cp_topic_alias_max := Some v3\<rparr>)"
  "ConnectProperties_arm ((bool_prop Property.RequestResponseInformation) v4) r = Ok (r\<lparr>cp_request_response_info := Some v4\<rparr>)"
  "ConnectProperties_arm ((bool_prop Property.RequestProblemInformation) v5) r = Ok (r\<lparr>cp_request_problem_info := Some v5\<rparr>)"
  "ConnectProperties_arm (Property.AuthenticationMethod v6) r = Ok (r\<lparr>cp_authentication_method := Some v6\<rparr>)"
  "ConnectProperties_arm (Property.AuthenticationData v7) r = Ok (r\<lparr>cp_authentication_data := Some v7\<rparr>)"
  "ConnectProperties_arm (Property.UserProp v8) r = Ok (r\<lparr>cp_user_properties := cp_user_properties r @ [v8]\<rparr>)"
  by (auto simp: ConnectProperties_arm_def bool_prop_def PayloadFormat_try_from_def intro: VarU32.expand)

lemmas ConnectProperties_steps =
  steps_opt [where arm = ConnectProperties_arm and con = "Property.SessionExpiryInterval" and upd = cp_session_expiry_interval_update]
  steps_opt_nz [where z = "0" and arm = ConnectProperties_arm and con = Property.ReceiveMaximum and upd = cp_receive_maximum_update]
  steps_opt_nz [where z = "0" and arm = ConnectProperties_arm and con = Property.MaximumPacketSize and upd = cp_max_packet_size_update]
  steps_opt [where arm = ConnectProperties_arm and con = "Property.TopicAliasMaximum" and upd = cp_topic_alias_max_update]
  steps_opt [where arm = ConnectProperties_arm and con = "bool_prop Property.RequestResponseInformation" and upd = cp_request_response_info_update]
  steps_opt [where arm = ConnectProperties_arm and con = "bool_prop Property.RequestProblemInformation" and upd = cp_request_problem_info_update]
  steps_opt [where arm = ConnectProperties_arm and con = "Property.AuthenticationMethod" and upd = cp_authentication_method_update]
  steps_opt [where arm = ConnectProperties_arm and con = "Property.AuthenticationData" and upd = cp_authentication_data_update]
  steps_many [where arm = ConnectProperties_arm and con = Property.UserProp and upd = cp_user_properties_update]

lemma ConnectProperties_run: "ConnectProperties_wf p \<Longrightarrow> steps ConnectProperties_arm (ConnectProperties_props p) ConnectProperties_default = Ok p"
  by (cases p) (simp add: ConnectProperties_props_def ConnectProperties_wf_def ConnectProperties_default_def PayloadFormat_default_def ConnectProperties_steps
      ConnectProperties_arm_eval)

lemma ConnectProperties_once: "no_repeat user_prop_only (\<lambda>_. False) (ConnectProperties_props p)"
  unfolding ConnectProperties_props_def
  by ((rule no_repeat_opt, simp add: bool_prop_def, simp) | (rule no_repeat_format, simp) |
      (rule no_repeat_many_append, simp add: user_prop_only_def) |
      (rule no_repeat_many, simp add: user_prop_only_def))+

lemma ConnectProperties_arm_wf: "\<lbrakk>ConnectProperties_wf r; Property_wf q; ConnectProperties_arm q r = Ok r'\<rbrakk> \<Longrightarrow> ConnectProperties_wf r'"
  by (cases q) (auto simp: ConnectProperties_wf_def ConnectProperties_props_def ConnectProperties_arm_def bool_prop_def and_then_eq_Inr
      split: if_splits)

lemma ConnectProperties_arm_no_panic: "\<not> panics (ConnectProperties_arm q r)"
  by (cases q) (auto simp: ConnectProperties_arm_def panics_and_then)

lemma ConnectProperties_wf_props: "ConnectProperties_wf p \<Longrightarrow> list_all Property_wf (ConnectProperties_props p)"
  by (simp add: ConnectProperties_wf_def)

lemma ConnectProperties_default_wf: "ConnectProperties_wf ConnectProperties_default"
  by (simp add: ConnectProperties_wf_def ConnectProperties_props_def ConnectProperties_default_def PayloadFormat_default_def)

lemma ConnectProperties_empty_iff: "ConnectProperties_is_empty p \<longleftrightarrow> ConnectProperties_props p = []"
  by (auto simp: ConnectProperties_is_empty_def ConnectProperties_props_def)

lemma ConnectProperties_encode_eq: "ConnectProperties_encode p = encode_props (ConnectProperties_props p)"
  by (simp add: ConnectProperties_encode_def ConnectProperties_props_def encode_props_def enc_set_all enc_all_append and_then_assoc)

interpretation ConnPSet: property_set ConnectProperties_decode ConnectProperties_encode ConnectProperties_wf ConnectProperties_is_empty
  ConnectProperties_props user_prop_only ConnectProperties_arm ConnectProperties_default "\<lambda>r. Ok r" ConnectProperties_wf
  by unfold_locales
     (auto simp: ConnectProperties_decode_def ConnectProperties_encode_eq ConnectProperties_run ConnectProperties_once ConnectProperties_empty_iff ConnectProperties_default_wf
       ConnectProperties_arm_no_panic ConnectProperties_wf_props intro: ConnectProperties_arm_wf)

text \<open>The properties of a \<open>WillProperties\<close> in the order in which they are sent.\<close>

definition WillProperties_props :: "WillProperties \<Rightarrow> Property list" where
  "WillProperties_props p =
     opt_prop Property.WillDelayInterval (wp_will_delay_interval p) @
     format_prop (wp_payload_format_indicator p) @
     opt_prop Property.MessageExpiryInterval (wp_message_expiry_interval p) @
     opt_prop Property.ContentType (wp_content_type p) @
     opt_prop Property.ResponseTopic (wp_response_topic p) @
     opt_prop Property.CorrelationData (wp_correlation_data p) @
     map Property.UserProp (wp_user_properties p)"

definition WillProperties_wf :: "WillProperties \<Rightarrow> bool" where
  "WillProperties_wf p \<longleftrightarrow> list_all Property_wf (WillProperties_props p)"

lemma WillProperties_arm_eval:
  "WillProperties_arm (Property.WillDelayInterval v0) r = Ok (r\<lparr>wp_will_delay_interval := Some v0\<rparr>)"
  "WillProperties_arm (Property.PayloadFormatIndicator 1) r = Ok (r\<lparr>wp_payload_format_indicator := Utf8\<rparr>)"
  "WillProperties_arm (Property.MessageExpiryInterval v2) r = Ok (r\<lparr>wp_message_expiry_interval := Some v2\<rparr>)"
  "WillProperties_arm (Property.ContentType v3) r = Ok (r\<lparr>wp_content_type := Some v3\<rparr>)"
  "WillProperties_arm (Property.ResponseTopic v4) r = Ok (r\<lparr>wp_response_topic := Some v4\<rparr>)"
  "WillProperties_arm (Property.CorrelationData v5) r = Ok (r\<lparr>wp_correlation_data := Some v5\<rparr>)"
  "WillProperties_arm (Property.UserProp v6) r = Ok (r\<lparr>wp_user_properties := wp_user_properties r @ [v6]\<rparr>)"
  by (auto simp: WillProperties_arm_def bool_prop_def PayloadFormat_try_from_def intro: VarU32.expand)

lemmas WillProperties_steps =
  steps_opt [where arm = WillProperties_arm and con = "Property.WillDelayInterval" and upd = wp_will_delay_interval_update]
  steps_format [where arm = WillProperties_arm and upd = wp_payload_format_indicator_update]
  steps_opt [where arm = WillProperties_arm and con = "Property.MessageExpiryInterval" and upd = wp_message_expiry_interval_update]
  steps_opt [where arm = WillProperties_arm and con = "Property.ContentType" and upd = wp_content_type_update]
  steps_opt [where arm = WillProperties_arm and con = "Property.ResponseTopic" and upd = wp_response_topic_update]
  steps_opt [where arm = WillProperties_arm and con = "Property.CorrelationData" and upd = wp_correlation_data_update]
  steps_many [where arm = WillProperties_arm and con = Property.UserProp and upd = wp_user_properties_update]

lemma WillProperties_run: "WillProperties_wf p \<Longrightarrow> steps WillProperties_arm (WillProperties_props p) WillProperties_default = Ok p"
  by (cases p) (simp add: WillProperties_props_def WillProperties_wf_def WillProperties_default_def PayloadFormat_default_def WillProperties_steps
      WillProperties_arm_eval)

lemma WillProperties_once: "no_repeat user_prop_only (\<lambda>_. False) (WillProperties_props p)"
  unfolding WillProperties_props_def
  by ((rule no_repeat_opt, simp add: bool_prop_def, simp) | (rule no_repeat_format, simp) |
      (rule no_repeat_many_append, simp add: user_prop_only_def) |
      (rule no_repeat_many, simp add: user_prop_only_def))+

lemma WillProperties_arm_wf: "\<lbrakk>WillProperties_wf r; Property_wf q; WillProperties_arm q r = Ok r'\<rbrakk> \<Longrightarrow> WillProperties_wf r'"
  by (cases q) (auto simp: WillProperties_wf_def WillProperties_props_def WillProperties_arm_def bool_prop_def and_then_eq_Inr
      split: if_splits)

lemma WillProperties_arm_no_panic: "\<not> panics (WillProperties_arm q r)"
  by (cases q) (auto simp: WillProperties_arm_def panics_and_then)

lemma WillProperties_wf_props: "WillProperties_wf p \<Longrightarrow> list_all Property_wf (WillProperties_props p)"
  by (simp add: WillProperties_wf_def)

lemma WillProperties_default_wf: "WillProperties_wf WillProperties_default"
  by (simp add: WillProperties_wf_def WillProperties_props_def WillProperties_default_def PayloadFormat_default_def)

lemma WillProperties_empty_iff: "WillProperties_is_empty p \<longleftrightarrow> WillProperties_props p = []"
  by (auto simp: WillProperties_is_empty_def WillProperties_props_def)

lemma WillProperties_encode_eq: "WillProperties_encode p = encode_props (WillProperties_props p)"
  by (simp add: WillProperties_encode_def WillProperties_props_def encode_props_def enc_set_all enc_all_append and_then_assoc)

interpretation WillPSet: property_set WillProperties_decode WillProperties_encode WillProperties_wf WillProperties_is_empty
  WillProperties_props user_prop_only WillProperties_arm WillProperties_default "\<lambda>r. Ok r" WillProperties_wf
  by unfold_locales
     (auto simp: WillProperties_decode_def WillProperties_encode_eq WillProperties_run WillProperties_once WillProperties_empty_iff WillProperties_default_wf
       WillProperties_arm_no_panic WillProperties_wf_props intro: WillProperties_arm_wf)

section \<open>Facts on the packet\<close>

text \<open>
  The fields of the payload are those that the flags announce. A will needs properties that
  are not empty, as an empty set is sent as a length of zero and read back as no set.
\<close>

definition Connect_wf :: "Connect \<Rightarrow> bool" where
  "Connect_wf v \<longleftrightarrow>
     (let pld = con_payload v; will = is_will_flag (con_flags v) in
      valid_utf8 (con_protocol_name v) \<and> valid_utf8 (client_id (cpl_client_id pld)) \<and>
      pred_option ConnectProperties_wf (con_properties v) \<and>
      pred_option WillProperties_wf (cpl_will_properties pld) \<and>
      pred_option (\<lambda>w. valid_utf8 (topic_name w)) (cpl_will_topic pld) \<and>
      pred_option valid_utf8 (cpl_username pld) \<and>
      (will \<longleftrightarrow> cpl_will_properties pld \<noteq> None) \<and>
      (will \<longleftrightarrow> cpl_will_topic pld \<noteq> None) \<and> (will \<longleftrightarrow> cpl_will_payload pld \<noteq> None) \<and>
      (is_username (con_flags v) \<longleftrightarrow> cpl_username pld \<noteq> None) \<and>
      (is_password (con_flags v) \<longleftrightarrow> cpl_password pld \<noteq> None) \<and>
      Connect_validate v = Ok ())"

definition Connect_will_sendable :: "Connect \<Rightarrow> bool" where
  "Connect_will_sendable v \<longleftrightarrow>
     pred_option (\<lambda>w. \<not> WillProperties_is_empty w) (cpl_will_properties (con_payload v))"

definition Connect_sendable :: "Connect \<Rightarrow> bool" where
  "Connect_sendable v \<longleftrightarrow> Connect_wf v \<and> Connect_will_sendable v"

lemma MqttProtocol_try_from_u8 [simp]: "MqttProtocol_try_from (u8_from_MqttProtocol p) = Ok p"
  by (cases p) (simp_all add: MqttProtocol_try_from_def)

lemma MqttProtocol_no_panic [simp]: "\<not> panics (MqttProtocol_try_from v)"
  by (simp add: MqttProtocol_try_from_def)

lemma Connect_validate_flags:
  "Connect_validate v = Ok () \<Longrightarrow> ConnectFlags_validate (con_flags v) = Ok ()"
  by (auto simp: Connect_validate_def and_then_eq_Inr split: if_split_asm)

lemma Connect_validate_no_panic:
  "(cpl_will_properties (con_payload v) \<noteq> None \<longrightarrow>
     cpl_will_payload (con_payload v) \<noteq> None) \<Longrightarrow> \<not> panics (Connect_validate v)"
  by (auto simp: Connect_validate_def panics_and_then Let_def split: option.split)

text \<open>What \<open>encode\<close> writes after the header, each piece with the decoder that reads it.\<close>

lemma Connect_encode_pieces:
  assumes "Connect_sendable v" and "Connect_encode v = Ok b"
  obtains nb vb fb kb pb cb wb tb lb ub sb where
    "finish_packet (FixedHeader_new PacketType.Connect)
       (as_ref nb @ as_ref vb @ as_ref fb @ as_ref kb @ pb @ as_ref cb @ wb @ tb @ lb @ ub @ sb) = Ok b"
    and "String_encode (con_protocol_name v) = Ok nb"
    and "u8_encode (u8_from_MqttProtocol (con_protocol_version v)) = Ok vb"
    and "ConnectFlags_encode (con_flags v) = Ok fb"
    and "u16_encode (con_keep_alive v) = Ok kb"
    and "\<And>rest. props_here ConnectProperties_decode (pb @ rest) =
       Ok (norm_props ConnectProperties_is_empty (con_properties v), length pb)"
    and "String_encode (client_id (cpl_client_id (con_payload v))) = Ok cb"
    and "\<And>rest. if_here (props_here WillProperties_decode) (is_will_flag (con_flags v)) (wb @ rest) =
       Ok (cpl_will_properties (con_payload v), length wb)"
    and "\<And>rest. if_here (some_of TopicName_decode) (is_will_flag (con_flags v)) (tb @ rest) =
       Ok (cpl_will_topic (con_payload v), length tb)"
    and "\<And>rest. if_here (some_of Vec_decode) (is_will_flag (con_flags v)) (lb @ rest) =
       Ok (cpl_will_payload (con_payload v), length lb)"
    and "\<And>rest. if_here (some_of String_decode) (is_username (con_flags v)) (ub @ rest) =
       Ok (cpl_username (con_payload v), length ub)"
    and "\<And>rest. if_here (some_of Vec_decode) (is_password (con_flags v)) (sb @ rest) =
       Ok (cpl_password (con_payload v), length sb)"
proof -
  let ?p = "con_payload v"
  have wf: "Connect_wf v" "pred_option (\<lambda>w. \<not> WillProperties_is_empty w) (cpl_will_properties ?p)"
    using assms(1) by (auto simp: Connect_sendable_def Connect_will_sendable_def)
  have val: "Connect_validate v = Ok ()" using wf(1) by (simp add: Connect_wf_def Let_def)
  note fv = Connect_validate_flags [OF val]
  from assms(2) val obtain nb vb fb kb d1 cb d2 d3 d4 d5 d6 where
    e: "String_encode (con_protocol_name v) = Ok nb"
    "u8_encode (u8_from_MqttProtocol (con_protocol_version v)) = Ok vb"
    "u8_encode (connect_flags (con_flags v)) = Ok fb" "u16_encode (con_keep_alive v) = Ok kb"
    "String_encode (client_id (cpl_client_id ?p)) = Ok cb"
    and d1: "enc_opt_props (as_ref nb @ as_ref vb @ as_ref fb @ as_ref kb) ConnectProperties_encode
       (con_properties v) = Ok d1"
    and d2: "enc_field_opt (d1 @ as_ref cb) WillProperties_encode (cpl_will_properties ?p) = Ok d2"
    and d3: "enc_field_opt d2 TopicName_encode (cpl_will_topic ?p) = Ok d3"
    and d4: "enc_field_opt d3 Vec_encode (cpl_will_payload ?p) = Ok d4"
    and d5: "enc_field_opt d4 String_encode (cpl_username ?p) = Ok d5"
    and d6: "enc_field_opt d5 Vec_encode (cpl_password ?p) = Ok d6"
    and fin: "finish_packet (FixedHeader_new PacketType.Connect) d6 = Ok b"
    by (auto simp: Connect_encode_def and_then_eq_Inr extend_slice_Ok)
  have w: "pred_option ConnectProperties_wf (con_properties v)"
    "pred_option WillProperties_wf (cpl_will_properties ?p)"
    "pred_option (\<lambda>w. valid_utf8 (topic_name w)) (cpl_will_topic ?p)"
    "pred_option valid_utf8 (cpl_username ?p)"
    "is_will_flag (con_flags v) \<longleftrightarrow> cpl_will_properties ?p \<noteq> None"
    "is_will_flag (con_flags v) \<longleftrightarrow> cpl_will_topic ?p \<noteq> None"
    "is_will_flag (con_flags v) \<longleftrightarrow> cpl_will_payload ?p \<noteq> None"
    "is_username (con_flags v) \<longleftrightarrow> cpl_username ?p \<noteq> None"
    "is_password (con_flags v) \<longleftrightarrow> cpl_password ?p \<noteq> None"
    using wf(1) unfolding Connect_wf_def Let_def by blast+
  obtain pb where pb: "d1 = (as_ref nb @ as_ref vb @ as_ref fb @ as_ref kb) @ pb"
    "\<And>rest. props_here ConnectProperties_decode (pb @ rest) =
       Ok (norm_props ConnectProperties_is_empty (con_properties v), length pb)"
    using ConnPSet.enc_opt_Ok [OF d1 w(1)] by blast
  obtain wb where wb: "d2 = (d1 @ as_ref cb) @ wb"
    "\<And>rest. if_here (props_here WillProperties_decode) (is_will_flag (con_flags v)) (wb @ rest) =
       Ok (cpl_will_properties ?p, length wb)"
    using WillPSet.set_opt_Ok [OF d2 w(2) wf(2) w(5)] by blast
  obtain tb where tb: "d3 = d2 @ tb"
    "\<And>rest. if_here (some_of TopicName_decode) (is_will_flag (con_flags v)) (tb @ rest) =
       Ok (cpl_will_topic ?p, length tb)"
    using Name.field_opt_Ok [OF d3 w(3) w(6)] by blast
  obtain lb where lb: "d4 = d3 @ lb"
    "\<And>rest. if_here (some_of Vec_decode) (is_will_flag (con_flags v)) (lb @ rest) =
       Ok (cpl_will_payload ?p, length lb)"
    using Vec.field_opt_Ok [OF d4 opt_prop_trivial w(7)] by blast
  obtain ub where ub: "d5 = d4 @ ub"
    "\<And>rest. if_here (some_of String_decode) (is_username (con_flags v)) (ub @ rest) =
       Ok (cpl_username ?p, length ub)"
    using Str.field_opt_Ok [OF d5 w(4) w(8)] by blast
  obtain sb where sb: "d6 = d5 @ sb"
    "\<And>rest. if_here (some_of Vec_decode) (is_password (con_flags v)) (sb @ rest) =
       Ok (cpl_password ?p, length sb)"
    using Vec.field_opt_Ok [OF d6 opt_prop_trivial w(9)] by blast
  show thesis
  proof (rule that)
    show "ConnectFlags_encode (con_flags v) = Ok fb" using e(3) fv by (simp add: ConnectFlags_encode_def)
    show "finish_packet (FixedHeader_new PacketType.Connect)
       (as_ref nb @ as_ref vb @ as_ref fb @ as_ref kb @ pb @ as_ref cb @ wb @ tb @ lb @ ub @ sb) = Ok b"
      using fin pb(1) wb(1) tb(1) lb(1) ub(1) sb(1) by simp
  qed (rule e pb wb tb lb ub sb)+
qed

lemma Connect_normalize_eq:
  assumes "Connect_sendable v"
  shows "Connect_normalize v =
      v\<lparr>con_properties := norm_props ConnectProperties_is_empty (con_properties v)\<rparr>"
proof -
  have "norm_props WillProperties_is_empty (cpl_will_properties (con_payload v)) =
      cpl_will_properties (con_payload v)"
    using assms by (auto simp: Connect_sendable_def Connect_will_sendable_def norm_props_def
        split: option.splits)
  then show ?thesis by (simp add: Connect_normalize_def)
qed

lemma Connect_validate_properties [simp]:
  "Connect_validate (v\<lparr>con_properties := p\<rparr>) = Connect_validate v"
  by (simp add: Connect_validate_def)

lemma Connect_dec_enc:
  assumes wf: "Connect_sendable v" and enc: "Connect_encode v = Ok b"
  shows "Connect_decode (as_ref b @ rest) = Ok (Connect_normalize v, length (as_ref b))"
    and "announces {PacketType.Connect} (as_ref b) rest"
proof -
  from Connect_encode_pieces [OF assms] obtain nb vb fb kb pb cb wb tb lb ub sb where
    fin: "finish_packet (FixedHeader_new PacketType.Connect)
       (as_ref nb @ as_ref vb @ as_ref fb @ as_ref kb @ pb @ as_ref cb @ wb @ tb @ lb @ ub @ sb) = Ok b"
    and e: "String_encode (con_protocol_name v) = Ok nb"
    "u8_encode (u8_from_MqttProtocol (con_protocol_version v)) = Ok vb"
    "ConnectFlags_encode (con_flags v) = Ok fb" "u16_encode (con_keep_alive v) = Ok kb"
    "String_encode (client_id (cpl_client_id (con_payload v))) = Ok cb"
    and d: "\<And>rest. props_here ConnectProperties_decode (pb @ rest) =
       Ok (norm_props ConnectProperties_is_empty (con_properties v), length pb)"
    "\<And>rest. if_here (props_here WillProperties_decode) (is_will_flag (con_flags v)) (wb @ rest) =
       Ok (cpl_will_properties (con_payload v), length wb)"
    "\<And>rest. if_here (some_of TopicName_decode) (is_will_flag (con_flags v)) (tb @ rest) =
       Ok (cpl_will_topic (con_payload v), length tb)"
    "\<And>rest. if_here (some_of Vec_decode) (is_will_flag (con_flags v)) (lb @ rest) =
       Ok (cpl_will_payload (con_payload v), length lb)"
    "\<And>rest. if_here (some_of String_decode) (is_username (con_flags v)) (ub @ rest) =
       Ok (cpl_username (con_payload v), length ub)"
    "\<And>rest. if_here (some_of Vec_decode) (is_password (con_flags v)) (sb @ rest) =
       Ok (cpl_password (con_payload v), length sb)" by metis
  from finish_packet_Ok [OF fin FixedHeader_new_Ok] obtain fh hb where h: "as_ref b = as_ref hb @
      as_ref nb @ as_ref vb @ as_ref fb @ as_ref kb @ pb @ as_ref cb @ wb @ tb @ lb @ ub @ sb"
    "FixedHeader_unwrap fh = Ok (PacketType.Connect, False, AtMostOnce, False)"
    "unat (var_u32 (remaining_len fh)) = length (as_ref nb @ as_ref vb @ as_ref fb @ as_ref kb @ pb @
      as_ref cb @ wb @ tb @ lb @ ub @ sb)"
    "\<And>rest. FixedHeader_decode (as_ref hb @ rest) = Ok (fh, length (as_ref hb))" by blast
  have w: "valid_utf8 (con_protocol_name v)" "valid_utf8 (client_id (cpl_client_id (con_payload v)))"
    "Connect_validate v = Ok ()"
    using wf by (auto simp: Connect_sendable_def Connect_wf_def Let_def)
  have n: "\<lparr>con_protocol_name = con_protocol_name v, con_protocol_version = con_protocol_version v,
      con_flags = con_flags v, con_keep_alive = con_keep_alive v,
      con_properties = norm_props ConnectProperties_is_empty (con_properties v),
      con_payload = \<lparr>cpl_client_id = cpl_client_id (con_payload v),
        cpl_will_properties = cpl_will_properties (con_payload v),
        cpl_will_topic = cpl_will_topic (con_payload v),
        cpl_will_payload = cpl_will_payload (con_payload v), cpl_username = cpl_username (con_payload v),
        cpl_password = cpl_password (con_payload v)\<rparr>\<rparr> = Connect_normalize v"
    unfolding Connect_normalize_eq [OF wf] by (cases v; cases "con_payload v") simp
  have val: "Connect_validate (Connect_normalize v) = Ok ()"
    using w(3) by (simp add: Connect_normalize_eq [OF wf])
  note fields = Str.dec_enc [OF w(1) e(1)] u8.dec_enc [OF TrueI e(2)]
    ConFlags.dec_enc [OF Connect_validate_flags [OF w(3)] e(3)] u16.dec_enc [OF TrueI e(4)]
    Str.dec_enc [OF w(2) e(5)] h(4) d
  show "Connect_decode (as_ref b @ rest) = Ok (Connect_normalize v, length (as_ref b))"
    by (simp add: h(1) Connect_decode_def dec_header_eq dec_field_def dec_props_here dec_field_if_here
        dec_props_if_here Let_def fields n val add.assoc)
  show "announces {PacketType.Connect} (as_ref b) rest" by (rule announcesI [OF h(1,2) _ h(3,4)]) simp
qed

lemma Connect_decode_Ok:
  assumes "Connect_decode s = Ok (v, n)"
  shows "0 < n \<and> n \<le> length s \<and> Connect_wf v"
proof -
  let ?p = "con_payload v" and ?f = "con_flags v"
  from assms obtain n1 n2 n3 n4 n5 n6 n7 n8 n9 n10 n11 where d:
    "dec_field String_decode s n1 = Ok (con_protocol_name v, n2)"
    "dec_field ConnectFlags_decode s n3 = Ok (?f, n4)"
    "dec_props ConnectProperties_decode s n5 = Ok (con_properties v, n6)"
    "dec_field String_decode s n6 = Ok (client_id (cpl_client_id ?p), n7)"
    "dec_props_if WillProperties_decode s n7 (is_will_flag ?f) = Ok (cpl_will_properties ?p, n8)"
    "dec_field_if TopicName_decode s n8 (is_will_flag ?f) = Ok (cpl_will_topic ?p, n9)"
    "dec_field_if Vec_decode s n9 (is_will_flag ?f) = Ok (cpl_will_payload ?p, n10)"
    "dec_field_if String_decode s n10 (is_username ?f) = Ok (cpl_username ?p, n11)"
    "dec_field_if Vec_decode s n11 (is_password ?f) = Ok (cpl_password ?p, n)"
    "Connect_validate v = Ok ()"
    by (cases v) (auto simp: Connect_decode_def and_then_eq_Inr Let_def)
  note b = Str.field_bound [OF d(1)] ConnPSet.props_bound [OF d(3)] Str.field_bound [OF d(4)]
  note b2 = WillPSet.props_if_bound [OF d(5)]
  note b3 = Name.field_if_bound [OF d(6)] Vec.field_if_bound [OF d(7)] Str.field_if_bound [OF d(8)]
    Vec.field_if_bound [OF d(9)]
  have "is_will_flag ?f \<Longrightarrow> cpl_will_properties ?p \<noteq> None"
    using d(10) by (auto simp: Connect_validate_def is_will_flag_def and_then_eq_Inr Let_def
        split: if_split_asm)
  with b b2 b3 d(10) show ?thesis by (auto simp: Connect_wf_def Let_def)
qed

lemma Connect_decode_no_panic: "\<not> panics (Connect_decode s)"
proof -
  have val: "\<not> panics (Connect_validate \<lparr>con_protocol_name = a, con_protocol_version = b, con_flags = f,
      con_keep_alive = k, con_properties = p, con_payload = \<lparr>cpl_client_id = c,
        cpl_will_properties = w, cpl_will_topic = t, cpl_will_payload = l, cpl_username = u,
        cpl_password = x\<rparr>\<rparr>)"
    if "dec_props_if WillProperties_decode s n1 will = Ok (w, n2)"
      "dec_field_if Vec_decode s n3 will = Ok (l, n4)" for a b f k p c w t l u x n1 n2 n3 n4 will
    by (rule Connect_validate_no_panic)
       (use that in \<open>auto simp: dec_props_if_def dec_field_if_def and_then_eq_Inr split: if_splits\<close>)
  show ?thesis
    by (auto simp: Connect_decode_def dec_header_eq panics_and_then Let_def Header.dec_no_panic
        Str.field_no_panic u8.field_no_panic ConFlags.field_no_panic u16.field_no_panic
        ConnPSet.props_no_panic WillPSet.props_if_no_panic Name.field_if_no_panic Vec.field_if_no_panic
        Str.field_if_no_panic) (drule (1) val, blast)
qed

interpretation ConnectCodec: packet_codec Connect_decode Connect_encode Connect_sendable Connect_normalize
    "{PacketType.Connect}"
proof (unfold_locales, rule Connect_dec_enc, assumption+, rule Connect_dec_enc, assumption+)
  show "\<not> panics (Connect_decode s)" for s by (rule Connect_decode_no_panic)
  show "\<not> panics (Connect_encode v)" if "Connect_sendable v" for v
    using that by (auto simp: Connect_sendable_def Connect_wf_def Let_def Connect_encode_def panics_and_then
        extend_slice_no_panic Str.enc_no_panic u8.enc_no_panic u16.enc_no_panic
        ConnPSet.enc_opt_no_panic enc_field_opt_no_panic WillPSet.set_enc_no_panic Name.enc_no_panic
        Vec.enc_no_panic finish_packet_no_panic)
  show "Connect_normalize (Connect_normalize v) = Connect_normalize v" for v
    by (auto simp: Connect_normalize_def norm_props_def split: option.splits)
qed (use Connect_decode_Ok in blast)+

end
