(* ===== verification/V5_ConnAck.thy ===== *)
theory V5_ConnAck
  imports PacketCodec
begin

text \<open>
  Model of \<open>src/v5/connack.rs\<close>: the flags and the reason codes of CONNACK, its properties and
  the packet, with the proof that they meet the contracts of a field, of a property set and of
  a packet.
\<close>

section \<open>Flags and reason codes\<close>

datatype ConnackFlags = ConnackFlags (connack_flags: u8)

abbreviation (input) ConnackFlags_default :: ConnackFlags where
  "ConnackFlags_default \<equiv> ConnackFlags 0"

abbreviation (input) ConnackFlags_SESSION_PRESENT :: u8 where
  "ConnackFlags_SESSION_PRESENT \<equiv> 0x01"

abbreviation (input) ConnackFlags_new :: "ConnackFlags list \<Rightarrow> ConnackFlags" where
  "ConnackFlags_new flags \<equiv>
     foldl (\<lambda>acc flag. ConnackFlags (connack_flags acc OR connack_flags flag)) (ConnackFlags 0) flags"

definition ConnackFlags_unwrap :: "ConnackFlags \<Rightarrow> bool result" where
  "ConnackFlags_unwrap self =
     (if (connack_flags self AND 0xFE) > 0
      then err ErrorKind.MalformedPacket ReasonCode.MalformedPacket
      else Ok ((connack_flags self AND ConnackFlags_SESSION_PRESENT) > 0))"

abbreviation (input) ConnackFlags_validate :: "ConnackFlags \<Rightarrow> unit result" where
  "ConnackFlags_validate self \<equiv> Ok ()"

definition ConnackFlags_decode :: "ConnackFlags decoder" where
  "ConnackFlags_decode stream =
     and_then (dec_field u8_decode stream 0) (\<lambda>(flags, n).
       let flags = ConnackFlags flags
       in and_then (ConnackFlags_unwrap flags) (\<lambda>_.
          and_then (ConnackFlags_validate flags) (\<lambda>_.
          Ok (flags, n))))"

definition ConnackFlags_encode :: "ConnackFlags encoder" where
  "ConnackFlags_encode self =
     and_then (ConnackFlags_unwrap self) (\<lambda>_. u8_encode (connack_flags self))"

datatype ConnackReasonCode =
    Success
  | UnspecifiedError
  | MalformedPacket
  | ProtocolError
  | ImplementationError
  | UnsupportedProtocolVersion
  | InvalidClientID
  | BadLogin
  | NotAuthorized
  | ServerUnavailable
  | ServerBusy
  | Banned
  | BadAuthenticationMethod
  | TopicNameInvalid
  | PacketTooLarge
  | QuotaExceeded
  | PayloadFormatInvalid
  | RetainNotSupported
  | InvalidQoS
  | UseAnotherServer
  | ServerMoved
  | ExceedConnectionRate

primrec ConnackReasonCode_as_u8 :: "ConnackReasonCode \<Rightarrow> u8" where
  "ConnackReasonCode_as_u8 ConnackReasonCode.Success = 0x00"
| "ConnackReasonCode_as_u8 ConnackReasonCode.UnspecifiedError = 0x80"
| "ConnackReasonCode_as_u8 ConnackReasonCode.MalformedPacket = 0x81"
| "ConnackReasonCode_as_u8 ConnackReasonCode.ProtocolError = 0x82"
| "ConnackReasonCode_as_u8 ConnackReasonCode.ImplementationError = 0x83"
| "ConnackReasonCode_as_u8 ConnackReasonCode.UnsupportedProtocolVersion = 0x84"
| "ConnackReasonCode_as_u8 ConnackReasonCode.InvalidClientID = 0x85"
| "ConnackReasonCode_as_u8 ConnackReasonCode.BadLogin = 0x86"
| "ConnackReasonCode_as_u8 ConnackReasonCode.NotAuthorized = 0x87"
| "ConnackReasonCode_as_u8 ConnackReasonCode.ServerUnavailable = 0x88"
| "ConnackReasonCode_as_u8 ConnackReasonCode.ServerBusy = 0x89"
| "ConnackReasonCode_as_u8 ConnackReasonCode.Banned = 0x8A"
| "ConnackReasonCode_as_u8 ConnackReasonCode.BadAuthenticationMethod = 0x8C"
| "ConnackReasonCode_as_u8 ConnackReasonCode.TopicNameInvalid = 0x90"
| "ConnackReasonCode_as_u8 ConnackReasonCode.PacketTooLarge = 0x95"
| "ConnackReasonCode_as_u8 ConnackReasonCode.QuotaExceeded = 0x97"
| "ConnackReasonCode_as_u8 ConnackReasonCode.PayloadFormatInvalid = 0x99"
| "ConnackReasonCode_as_u8 ConnackReasonCode.RetainNotSupported = 0x9A"
| "ConnackReasonCode_as_u8 ConnackReasonCode.InvalidQoS = 0x9B"
| "ConnackReasonCode_as_u8 ConnackReasonCode.UseAnotherServer = 0x9C"
| "ConnackReasonCode_as_u8 ConnackReasonCode.ServerMoved = 0x9D"
| "ConnackReasonCode_as_u8 ConnackReasonCode.ExceedConnectionRate = 0x9F"

definition ConnackReasonCode_try_from :: "u8 \<Rightarrow> ConnackReasonCode result" where
  "ConnackReasonCode_try_from val =
     (if val = 0x00 then Ok ConnackReasonCode.Success
      else if val = 0x80 then Ok ConnackReasonCode.UnspecifiedError
      else if val = 0x81 then Ok ConnackReasonCode.MalformedPacket
      else if val = 0x82 then Ok ConnackReasonCode.ProtocolError
      else if val = 0x83 then Ok ConnackReasonCode.ImplementationError
      else if val = 0x84 then Ok ConnackReasonCode.UnsupportedProtocolVersion
      else if val = 0x85 then Ok ConnackReasonCode.InvalidClientID
      else if val = 0x86 then Ok ConnackReasonCode.BadLogin
      else if val = 0x87 then Ok ConnackReasonCode.NotAuthorized
      else if val = 0x88 then Ok ConnackReasonCode.ServerUnavailable
      else if val = 0x89 then Ok ConnackReasonCode.ServerBusy
      else if val = 0x8A then Ok ConnackReasonCode.Banned
      else if val = 0x8C then Ok ConnackReasonCode.BadAuthenticationMethod
      else if val = 0x90 then Ok ConnackReasonCode.TopicNameInvalid
      else if val = 0x95 then Ok ConnackReasonCode.PacketTooLarge
      else if val = 0x97 then Ok ConnackReasonCode.QuotaExceeded
      else if val = 0x99 then Ok ConnackReasonCode.PayloadFormatInvalid
      else if val = 0x9A then Ok ConnackReasonCode.RetainNotSupported
      else if val = 0x9B then Ok ConnackReasonCode.InvalidQoS
      else if val = 0x9C then Ok ConnackReasonCode.UseAnotherServer
      else if val = 0x9D then Ok ConnackReasonCode.ServerMoved
      else if val = 0x9F then Ok ConnackReasonCode.ExceedConnectionRate
      else err ErrorKind.MalformedPacket ReasonCode.MalformedPacket)"

section \<open>Properties\<close>

record ConnAckProperties =
  cap_session_expiry_interval :: "u32 option"
  cap_receive_maximum :: "u16 option"
  cap_maximum_qos :: "QoS option"
  cap_retain_available :: "bool option"
  cap_max_packet_size :: "u32 option"
  cap_assigned_client_identifier :: "rstring option"
  cap_topic_alias_max :: "u16 option"
  cap_reason_string :: "rstring option"
  cap_wildcard_subscription_available :: "bool option"
  cap_subscription_identifiers_available :: "bool option"
  cap_shared_subscription_available :: "bool option"
  cap_server_keep_alive :: "u16 option"
  cap_response_information :: "rstring option"
  cap_server_reference :: "rstring option"
  cap_authentication_method :: "rstring option"
  cap_authentication_data :: "bytes option"
  cap_user_properties :: "UserProperty list"

definition ConnAckProperties_default :: ConnAckProperties where
  "ConnAckProperties_default =
     \<lparr>cap_session_expiry_interval = None,
      cap_receive_maximum = None,
      cap_maximum_qos = None,
      cap_retain_available = None,
      cap_max_packet_size = None,
      cap_assigned_client_identifier = None,
      cap_topic_alias_max = None,
      cap_reason_string = None,
      cap_wildcard_subscription_available = None,
      cap_subscription_identifiers_available = None,
      cap_shared_subscription_available = None,
      cap_server_keep_alive = None,
      cap_response_information = None,
      cap_server_reference = None,
      cap_authentication_method = None,
      cap_authentication_data = None,
      cap_user_properties = []\<rparr>"

text \<open>The match on the property in \<open>decode\<close>.\<close>

definition ConnAckProperties_arm :: "Property \<Rightarrow> ConnAckProperties \<Rightarrow> ConnAckProperties result" where
  "ConnAckProperties_arm property props =
     (case property of
        Property.SessionExpiryInterval val \<Rightarrow> Ok (props\<lparr>cap_session_expiry_interval := Some val\<rparr>)
      | Property.ReceiveMaximum val \<Rightarrow>
          if val = 0 then bad_prop else Ok (props\<lparr>cap_receive_maximum := Some val\<rparr>)
      | Property.MaximumQoS val \<Rightarrow> Ok (props\<lparr>cap_maximum_qos := Some val\<rparr>)
      | Property.RetainAvailable val \<Rightarrow>
          if val = 0 then Ok (props\<lparr>cap_retain_available := Some False\<rparr>)
          else if val = 1 then Ok (props\<lparr>cap_retain_available := Some True\<rparr>)
          else bad_prop
      | Property.MaximumPacketSize val \<Rightarrow>
          if val = 0 then bad_prop else Ok (props\<lparr>cap_max_packet_size := Some val\<rparr>)
      | Property.AssignedClientIdentifier val \<Rightarrow> Ok (props\<lparr>cap_assigned_client_identifier := Some val\<rparr>)
      | Property.TopicAliasMaximum val \<Rightarrow> Ok (props\<lparr>cap_topic_alias_max := Some val\<rparr>)
      | Property.ReasonString val \<Rightarrow> Ok (props\<lparr>cap_reason_string := Some val\<rparr>)
      | Property.UserProp val \<Rightarrow>
          Ok (props\<lparr>cap_user_properties := cap_user_properties props @ [val]\<rparr>)
      | Property.WildcardSubscriptionAvailable val \<Rightarrow>
          if val = 0 then Ok (props\<lparr>cap_wildcard_subscription_available := Some False\<rparr>)
          else if val = 1 then Ok (props\<lparr>cap_wildcard_subscription_available := Some True\<rparr>)
          else bad_prop
      | Property.SubscriptionIdentifierAvailable val \<Rightarrow>
          if val = 0 then Ok (props\<lparr>cap_subscription_identifiers_available := Some False\<rparr>)
          else if val = 1 then Ok (props\<lparr>cap_subscription_identifiers_available := Some True\<rparr>)
          else bad_prop
      | Property.SharedSubscriptionAvailable val \<Rightarrow>
          if val = 0 then Ok (props\<lparr>cap_shared_subscription_available := Some False\<rparr>)
          else if val = 1 then Ok (props\<lparr>cap_shared_subscription_available := Some True\<rparr>)
          else bad_prop
      | Property.ServerKeepAlive val \<Rightarrow> Ok (props\<lparr>cap_server_keep_alive := Some val\<rparr>)
      | Property.ResponseInformation val \<Rightarrow> Ok (props\<lparr>cap_response_information := Some val\<rparr>)
      | Property.ServerReference val \<Rightarrow> Ok (props\<lparr>cap_server_reference := Some val\<rparr>)
      | Property.AuthenticationMethod val \<Rightarrow> Ok (props\<lparr>cap_authentication_method := Some val\<rparr>)
      | Property.AuthenticationData val \<Rightarrow> Ok (props\<lparr>cap_authentication_data := Some val\<rparr>)
      | _ \<Rightarrow> bad_prop)"

definition ConnAckProperties_decode :: "ConnAckProperties decoder" where
  "ConnAckProperties_decode stream = props_decode user_prop_only ConnAckProperties_arm ConnAckProperties_default stream"

definition ConnAckProperties_encode :: "ConnAckProperties encoder" where
  "ConnAckProperties_encode self =
     and_then (enc_prop_opt [] PropertyType.SessionExpiryInterval u32_encode (cap_session_expiry_interval self)) (\<lambda>data.
     and_then (enc_prop_opt data PropertyType.ReceiveMaximum u16_encode (cap_receive_maximum self)) (\<lambda>data.
     and_then (enc_prop_qos data (cap_maximum_qos self)) (\<lambda>data.
     and_then (enc_prop_bool data PropertyType.RetainAvailable (cap_retain_available self)) (\<lambda>data.
     and_then (enc_prop_opt data PropertyType.MaximumPacketSize u32_encode (cap_max_packet_size self)) (\<lambda>data.
     and_then (enc_prop_opt data PropertyType.AssignedClientIdentifier String_encode (cap_assigned_client_identifier self)) (\<lambda>data.
     and_then (enc_prop_opt data PropertyType.TopicAliasMaximum u16_encode (cap_topic_alias_max self)) (\<lambda>data.
     and_then (enc_prop_opt data PropertyType.ReasonString String_encode (cap_reason_string self)) (\<lambda>data.
     and_then (enc_prop_bool data PropertyType.WildcardSubscriptionAvailable (cap_wildcard_subscription_available self)) (\<lambda>data.
     and_then (enc_prop_bool data PropertyType.SubscriptionIdentifierAvailable (cap_subscription_identifiers_available self)) (\<lambda>data.
     and_then (enc_prop_bool data PropertyType.SharedSubscriptionAvailable (cap_shared_subscription_available self)) (\<lambda>data.
     and_then (enc_prop_opt data PropertyType.ServerKeepAlive u16_encode (cap_server_keep_alive self)) (\<lambda>data.
     and_then (enc_prop_opt data PropertyType.ResponseInformation String_encode (cap_response_information self)) (\<lambda>data.
     and_then (enc_prop_opt data PropertyType.ServerReference String_encode (cap_server_reference self)) (\<lambda>data.
     and_then (enc_prop_opt data PropertyType.AuthenticationMethod String_encode (cap_authentication_method self)) (\<lambda>data.
     and_then (enc_prop_opt data PropertyType.AuthenticationData Vec_encode (cap_authentication_data self)) (\<lambda>data.
     and_then (enc_user_props data (cap_user_properties self)) finish_props))))))))))))))))"

definition ConnAckProperties_is_empty :: "ConnAckProperties \<Rightarrow> bool" where
  "ConnAckProperties_is_empty self \<longleftrightarrow>
     cap_session_expiry_interval self = None \<and>
     cap_receive_maximum self = None \<and>
     cap_maximum_qos self = None \<and>
     cap_retain_available self = None \<and>
     cap_max_packet_size self = None \<and>
     cap_assigned_client_identifier self = None \<and>
     cap_topic_alias_max self = None \<and>
     cap_reason_string self = None \<and>
     cap_wildcard_subscription_available self = None \<and>
     cap_subscription_identifiers_available self = None \<and>
     cap_shared_subscription_available self = None \<and>
     cap_server_keep_alive self = None \<and>
     cap_response_information self = None \<and>
     cap_server_reference self = None \<and>
     cap_authentication_method self = None \<and>
     cap_authentication_data self = None \<and>
     length (cap_user_properties self) = 0"

section \<open>The packet\<close>

record ConnAck =
  ca_flags :: ConnackFlags
  ca_code :: ConnackReasonCode
  ca_properties :: "ConnAckProperties option"

definition ConnAck_default :: ConnAck where
  "ConnAck_default =
     \<lparr>ca_flags = ConnackFlags_default, ca_code = ConnackReasonCode.Success, ca_properties = None\<rparr>"

abbreviation (input) ConnAck_new_success :: "ConnAckProperties option \<Rightarrow> ConnAck" where
  "ConnAck_new_success ps \<equiv>
     \<lparr>ca_flags = ConnackFlags_default, ca_code = ConnackReasonCode.Success, ca_properties = ps\<rparr>"

abbreviation (input) ConnAck_set_session_present :: "ConnAck \<Rightarrow> ConnAck" where
  "ConnAck_set_session_present self \<equiv>
     self\<lparr>ca_flags := ConnackFlags (connack_flags (ca_flags self) OR ConnackFlags_SESSION_PRESENT)\<rparr>"

abbreviation (input) ConnAck_from_reason_code :: "ConnackReasonCode \<Rightarrow> ConnAck" where
  "ConnAck_from_reason_code code \<equiv>
     \<lparr>ca_flags = ConnackFlags_default, ca_code = code, ca_properties = None\<rparr>"

definition ConnAck_normalize :: "ConnAck \<Rightarrow> ConnAck" where
  "ConnAck_normalize self =
     self\<lparr>ca_properties := norm_props ConnAckProperties_is_empty (ca_properties self)\<rparr>"

abbreviation (input) ConnAck_validate :: "ConnAck \<Rightarrow> unit result" where
  "ConnAck_validate self \<equiv> Ok ()"

definition ConnAck_decode :: "ConnAck decoder" where
  "ConnAck_decode stream =
     and_then (dec_header stream) (\<lambda>(fh, n).
     and_then (dec_field ConnackFlags_decode stream n) (\<lambda>(flags, n).
     and_then (dec_field u8_decode stream n) (\<lambda>(code, n).
     and_then (ConnackReasonCode_try_from code) (\<lambda>code.
     and_then (dec_props ConnAckProperties_decode stream n) (\<lambda>(properties, n).
       let val = \<lparr>ca_flags = flags, ca_code = code, ca_properties = properties\<rparr>
       in and_then (ConnAck_validate val) (\<lambda>_. Ok (val, n)))))))"

definition ConnAck_encode :: "ConnAck encoder" where
  "ConnAck_encode self =
     and_then (extend_slice [] (u8_encode (connack_flags (ca_flags self)))) (\<lambda>data.
     and_then (extend_slice data (u8_encode (ConnackReasonCode_as_u8 (ca_code self)))) (\<lambda>data.
     and_then (enc_opt_props data ConnAckProperties_encode (ca_properties self)) (\<lambda>data.
     finish_packet (FixedHeader_new PacketType.ConnAck) data)))"

text \<open>The defaults that the specification gives to properties that are not sent.\<close>

abbreviation (input) ConnAckProperties_maximum_qos :: "ConnAckProperties \<Rightarrow> QoS" where
  "ConnAckProperties_maximum_qos self \<equiv>
     (case cap_maximum_qos self of Some q \<Rightarrow> q | None \<Rightarrow> ExactlyOnce)"

abbreviation (input) ConnAckProperties_receive_maximum :: "ConnAckProperties \<Rightarrow> u16" where
  "ConnAckProperties_receive_maximum self \<equiv>
     (case cap_receive_maximum self of Some m \<Rightarrow> m | None \<Rightarrow> 65535)"

abbreviation (input) ConnAckProperties_topic_alias_max :: "ConnAckProperties \<Rightarrow> u16" where
  "ConnAckProperties_topic_alias_max self \<equiv>
     (case cap_topic_alias_max self of Some m \<Rightarrow> m | None \<Rightarrow> 0)"

section \<open>Facts on flags and reason codes\<close>

lemma ConnackReasonCode_try_from_u8 [simp]: "ConnackReasonCode_try_from (ConnackReasonCode_as_u8 c) = Ok c"
  by (cases c) (simp_all add: ConnackReasonCode_try_from_def)

lemma ConnackReasonCode_try_from_no_panic [simp]: "\<not> panics (ConnackReasonCode_try_from v)"
  by (simp add: ConnackReasonCode_try_from_def)

lemma ConnackFlags_decode_Ok:
  "ConnackFlags_decode s = Ok (f, n) \<longleftrightarrow>
     u8_decode s = Ok (connack_flags f, n) \<and> connack_flags f AND 0xFE = 0"
  by (cases f)
     (auto simp: ConnackFlags_decode_def dec_field_def ConnackFlags_unwrap_def
       and_then_eq_Inr Let_def word_gt_0 split: if_splits)

interpretation CFlags: canonical ConnackFlags_decode ConnackFlags_encode
    "\<lambda>f. connack_flags f AND 0xFE = 0"
proof unfold_locales
  have enc: "ConnackFlags_encode f = Ok b \<longleftrightarrow> connack_flags f AND 0xFE = 0 \<and> u8_encode (connack_flags f) = Ok b"
    for f b
    by (auto simp: ConnackFlags_encode_def ConnackFlags_unwrap_def and_then_eq_Inr word_gt_0 split: if_splits)
  fix s :: bytes and f b n rest
  show "ConnackFlags_decode (as_ref b @ rest) = Ok (f, length (as_ref b))"
    if "connack_flags f AND 0xFE = 0" "ConnackFlags_encode f = Ok b"
    using that u8.dec_enc by (simp add: enc ConnackFlags_decode_Ok)
  show "0 < n \<and> n \<le> length s" "connack_flags f AND 0xFE = 0"
    "\<exists>b. ConnackFlags_encode f = Ok b \<and> length (as_ref b) \<le> n"
    if "ConnackFlags_decode s = Ok (f, n)"
    using that u8.dec_bound u8.enc_dec by (auto simp: enc ConnackFlags_decode_Ok)
  show "blob_ok b" if "ConnackFlags_encode f = Ok b" using that u8.enc_blob by (auto simp: enc)
  show "as_ref b = take n s" if "ConnackFlags_decode s = Ok (f, n)" "ConnackFlags_encode f = Ok b"
    using that u8.enc_take by (auto simp: enc ConnackFlags_decode_Ok)
qed (auto simp: ConnackFlags_decode_def ConnackFlags_encode_def ConnackFlags_unwrap_def panics_and_then Let_def u8.field_no_panic u8.enc_no_panic)

section \<open>Facts on the properties\<close>

text \<open>The properties of a \<open>ConnAckProperties\<close> in the order in which they are sent.\<close>

definition ConnAckProperties_props :: "ConnAckProperties \<Rightarrow> Property list" where
  "ConnAckProperties_props p =
     opt_prop Property.SessionExpiryInterval (cap_session_expiry_interval p) @
     opt_prop Property.ReceiveMaximum (cap_receive_maximum p) @
     opt_prop Property.MaximumQoS (cap_maximum_qos p) @
     opt_prop (bool_prop Property.RetainAvailable) (cap_retain_available p) @
     opt_prop Property.MaximumPacketSize (cap_max_packet_size p) @
     opt_prop Property.AssignedClientIdentifier (cap_assigned_client_identifier p) @
     opt_prop Property.TopicAliasMaximum (cap_topic_alias_max p) @
     opt_prop Property.ReasonString (cap_reason_string p) @
     opt_prop (bool_prop Property.WildcardSubscriptionAvailable) (cap_wildcard_subscription_available p) @
     opt_prop (bool_prop Property.SubscriptionIdentifierAvailable) (cap_subscription_identifiers_available p) @
     opt_prop (bool_prop Property.SharedSubscriptionAvailable) (cap_shared_subscription_available p) @
     opt_prop Property.ServerKeepAlive (cap_server_keep_alive p) @
     opt_prop Property.ResponseInformation (cap_response_information p) @
     opt_prop Property.ServerReference (cap_server_reference p) @
     opt_prop Property.AuthenticationMethod (cap_authentication_method p) @
     opt_prop Property.AuthenticationData (cap_authentication_data p) @
     map Property.UserProp (cap_user_properties p)"

definition ConnAckProperties_wf :: "ConnAckProperties \<Rightarrow> bool" where
  "ConnAckProperties_wf p \<longleftrightarrow> list_all Property_wf (ConnAckProperties_props p) \<and>
     cap_receive_maximum p \<noteq> Some 0 \<and>
     cap_max_packet_size p \<noteq> Some 0"

lemma ConnAckProperties_arm_eval:
  "ConnAckProperties_arm (Property.SessionExpiryInterval v0) r = Ok (r\<lparr>cap_session_expiry_interval := Some v0\<rparr>)"
  "v1 \<noteq> 0 \<Longrightarrow> ConnAckProperties_arm (Property.ReceiveMaximum v1) r = Ok (r\<lparr>cap_receive_maximum := Some v1\<rparr>)"
  "ConnAckProperties_arm (Property.MaximumQoS v2) r = Ok (r\<lparr>cap_maximum_qos := Some v2\<rparr>)"
  "ConnAckProperties_arm ((bool_prop Property.RetainAvailable) v3) r = Ok (r\<lparr>cap_retain_available := Some v3\<rparr>)"
  "v4 \<noteq> 0 \<Longrightarrow> ConnAckProperties_arm (Property.MaximumPacketSize v4) r = Ok (r\<lparr>cap_max_packet_size := Some v4\<rparr>)"
  "ConnAckProperties_arm (Property.AssignedClientIdentifier v5) r = Ok (r\<lparr>cap_assigned_client_identifier := Some v5\<rparr>)"
  "ConnAckProperties_arm (Property.TopicAliasMaximum v6) r = Ok (r\<lparr>cap_topic_alias_max := Some v6\<rparr>)"
  "ConnAckProperties_arm (Property.ReasonString v7) r = Ok (r\<lparr>cap_reason_string := Some v7\<rparr>)"
  "ConnAckProperties_arm ((bool_prop Property.WildcardSubscriptionAvailable) v8) r = Ok (r\<lparr>cap_wildcard_subscription_available := Some v8\<rparr>)"
  "ConnAckProperties_arm ((bool_prop Property.SubscriptionIdentifierAvailable) v9) r = Ok (r\<lparr>cap_subscription_identifiers_available := Some v9\<rparr>)"
  "ConnAckProperties_arm ((bool_prop Property.SharedSubscriptionAvailable) v10) r = Ok (r\<lparr>cap_shared_subscription_available := Some v10\<rparr>)"
  "ConnAckProperties_arm (Property.ServerKeepAlive v11) r = Ok (r\<lparr>cap_server_keep_alive := Some v11\<rparr>)"
  "ConnAckProperties_arm (Property.ResponseInformation v12) r = Ok (r\<lparr>cap_response_information := Some v12\<rparr>)"
  "ConnAckProperties_arm (Property.ServerReference v13) r = Ok (r\<lparr>cap_server_reference := Some v13\<rparr>)"
  "ConnAckProperties_arm (Property.AuthenticationMethod v14) r = Ok (r\<lparr>cap_authentication_method := Some v14\<rparr>)"
  "ConnAckProperties_arm (Property.AuthenticationData v15) r = Ok (r\<lparr>cap_authentication_data := Some v15\<rparr>)"
  "ConnAckProperties_arm (Property.UserProp v16) r = Ok (r\<lparr>cap_user_properties := cap_user_properties r @ [v16]\<rparr>)"
  by (auto simp: ConnAckProperties_arm_def bool_prop_def PayloadFormat_try_from_def intro: VarU32.expand)

lemmas ConnAckProperties_steps =
  steps_opt [where arm = ConnAckProperties_arm and con = "Property.SessionExpiryInterval" and upd = cap_session_expiry_interval_update]
  steps_opt_nz [where z = "0" and arm = ConnAckProperties_arm and con = Property.ReceiveMaximum and upd = cap_receive_maximum_update]
  steps_opt [where arm = ConnAckProperties_arm and con = "Property.MaximumQoS" and upd = cap_maximum_qos_update]
  steps_opt [where arm = ConnAckProperties_arm and con = "bool_prop Property.RetainAvailable" and upd = cap_retain_available_update]
  steps_opt_nz [where z = "0" and arm = ConnAckProperties_arm and con = Property.MaximumPacketSize and upd = cap_max_packet_size_update]
  steps_opt [where arm = ConnAckProperties_arm and con = "Property.AssignedClientIdentifier" and upd = cap_assigned_client_identifier_update]
  steps_opt [where arm = ConnAckProperties_arm and con = "Property.TopicAliasMaximum" and upd = cap_topic_alias_max_update]
  steps_opt [where arm = ConnAckProperties_arm and con = "Property.ReasonString" and upd = cap_reason_string_update]
  steps_opt [where arm = ConnAckProperties_arm and con = "bool_prop Property.WildcardSubscriptionAvailable" and upd = cap_wildcard_subscription_available_update]
  steps_opt [where arm = ConnAckProperties_arm and con = "bool_prop Property.SubscriptionIdentifierAvailable" and upd = cap_subscription_identifiers_available_update]
  steps_opt [where arm = ConnAckProperties_arm and con = "bool_prop Property.SharedSubscriptionAvailable" and upd = cap_shared_subscription_available_update]
  steps_opt [where arm = ConnAckProperties_arm and con = "Property.ServerKeepAlive" and upd = cap_server_keep_alive_update]
  steps_opt [where arm = ConnAckProperties_arm and con = "Property.ResponseInformation" and upd = cap_response_information_update]
  steps_opt [where arm = ConnAckProperties_arm and con = "Property.ServerReference" and upd = cap_server_reference_update]
  steps_opt [where arm = ConnAckProperties_arm and con = "Property.AuthenticationMethod" and upd = cap_authentication_method_update]
  steps_opt [where arm = ConnAckProperties_arm and con = "Property.AuthenticationData" and upd = cap_authentication_data_update]
  steps_many [where arm = ConnAckProperties_arm and con = Property.UserProp and upd = cap_user_properties_update]

lemma ConnAckProperties_run: "ConnAckProperties_wf p \<Longrightarrow> steps ConnAckProperties_arm (ConnAckProperties_props p) ConnAckProperties_default = Ok p"
  by (cases p) (simp add: ConnAckProperties_props_def ConnAckProperties_wf_def ConnAckProperties_default_def PayloadFormat_default_def ConnAckProperties_steps
      ConnAckProperties_arm_eval)

lemma ConnAckProperties_once: "no_repeat user_prop_only (\<lambda>_. False) (ConnAckProperties_props p)"
  unfolding ConnAckProperties_props_def
  by ((rule no_repeat_opt, simp add: bool_prop_def, simp) | (rule no_repeat_format, simp) |
      (rule no_repeat_many_append, simp add: user_prop_only_def) |
      (rule no_repeat_many, simp add: user_prop_only_def))+

lemma ConnAckProperties_arm_wf: "\<lbrakk>ConnAckProperties_wf r; Property_wf q; ConnAckProperties_arm q r = Ok r'\<rbrakk> \<Longrightarrow> ConnAckProperties_wf r'"
  by (cases q) (auto simp: ConnAckProperties_wf_def ConnAckProperties_props_def ConnAckProperties_arm_def bool_prop_def and_then_eq_Inr
      split: if_splits)

lemma ConnAckProperties_arm_no_panic: "\<not> panics (ConnAckProperties_arm q r)"
  by (cases q) (auto simp: ConnAckProperties_arm_def panics_and_then)

lemma ConnAckProperties_wf_props: "ConnAckProperties_wf p \<Longrightarrow> list_all Property_wf (ConnAckProperties_props p)"
  by (simp add: ConnAckProperties_wf_def)

lemma ConnAckProperties_default_wf: "ConnAckProperties_wf ConnAckProperties_default"
  by (simp add: ConnAckProperties_wf_def ConnAckProperties_props_def ConnAckProperties_default_def PayloadFormat_default_def)

lemma ConnAckProperties_empty_iff: "ConnAckProperties_is_empty p \<longleftrightarrow> ConnAckProperties_props p = []"
  by (auto simp: ConnAckProperties_is_empty_def ConnAckProperties_props_def)

lemma ConnAckProperties_encode_eq: "ConnAckProperties_encode p = encode_props (ConnAckProperties_props p)"
  by (simp add: ConnAckProperties_encode_def ConnAckProperties_props_def encode_props_def enc_set_all enc_all_append and_then_assoc)

interpretation CAckSet: property_set ConnAckProperties_decode ConnAckProperties_encode ConnAckProperties_wf ConnAckProperties_is_empty
  ConnAckProperties_props user_prop_only ConnAckProperties_arm ConnAckProperties_default "\<lambda>r. Ok r" ConnAckProperties_wf
  by unfold_locales
     (auto simp: ConnAckProperties_decode_def ConnAckProperties_encode_eq ConnAckProperties_run ConnAckProperties_once ConnAckProperties_empty_iff ConnAckProperties_default_wf
       ConnAckProperties_arm_no_panic ConnAckProperties_wf_props intro: ConnAckProperties_arm_wf)

section \<open>Facts on the packet\<close>

definition ConnAck_wf :: "ConnAck \<Rightarrow> bool" where
  "ConnAck_wf v \<longleftrightarrow> connack_flags (ca_flags v) AND 0xFE = 0 \<and>
     pred_option ConnAckProperties_wf (ca_properties v)"

lemma ConnAck_dec_enc:
  assumes wf: "ConnAck_wf v" and enc: "ConnAck_encode v = Ok b"
  shows "ConnAck_decode (as_ref b @ rest) = Ok (ConnAck_normalize v, length (as_ref b))"
    and "announces {PacketType.ConnAck} (as_ref b) rest"
proof -
  from enc obtain fb cb d where fb: "u8_encode (connack_flags (ca_flags v)) = Ok fb"
    and cb: "u8_encode (ConnackReasonCode_as_u8 (ca_code v)) = Ok cb"
    and d: "enc_opt_props (as_ref fb @ as_ref cb) ConnAckProperties_encode (ca_properties v) = Ok d"
    and fin: "finish_packet (FixedHeader_new PacketType.ConnAck) d = Ok b"
    by (auto simp: ConnAck_encode_def and_then_eq_Inr extend_slice_Ok)
  have fwf: "connack_flags (ca_flags v) AND 0xFE = 0"
    and pwf: "pred_option ConnAckProperties_wf (ca_properties v)" using wf by (simp_all add: ConnAck_wf_def)
  from CAckSet.enc_opt_Ok [OF d pwf] obtain pb where pb: "d = (as_ref fb @ as_ref cb) @ pb"
    "\<And>rest. props_here ConnAckProperties_decode (pb @ rest) =
       Ok (norm_props ConnAckProperties_is_empty (ca_properties v), length pb)" by blast
  have flags: "ConnackFlags_encode (ca_flags v) = Ok fb"
    using fwf fb by (simp add: ConnackFlags_encode_def ConnackFlags_unwrap_def)
  from finish_packet_Ok [OF fin FixedHeader_new_Ok] obtain fh hb where h: "as_ref b = as_ref hb @ d"
    "FixedHeader_unwrap fh = Ok (PacketType.ConnAck, False, AtMostOnce, False)"
    "unat (var_u32 (remaining_len fh)) = length d"
    "\<And>rest. FixedHeader_decode (as_ref hb @ rest) = Ok (fh, length (as_ref hb))" by blast
  from pb h u8.dec_enc [OF TrueI cb] CFlags.dec_enc [OF fwf flags]
  show "ConnAck_decode (as_ref b @ rest) = Ok (ConnAck_normalize v, length (as_ref b))"
    by (simp add: ConnAck_decode_def dec_header_eq dec_field_def dec_props_here
        ConnAck_normalize_def add.assoc)
  from h show "announces {PacketType.ConnAck} (as_ref b) rest" by (intro announcesI) auto
qed

interpretation ConnAckCodec: packet_closed ConnAck_decode ConnAck_encode ConnAck_wf ConnAck_normalize
    "{PacketType.ConnAck}"
proof (unfold_locales, rule ConnAck_dec_enc, assumption+, rule ConnAck_dec_enc, assumption+)
  fix s v n
  assume "ConnAck_decode s = Ok (v, n)"
  then obtain n1 n2 n3 c where d: "dec_field ConnackFlags_decode s n1 = Ok (ca_flags v, n2)"
    "dec_field u8_decode s n2 = Ok (c, n3)"
    "dec_props ConnAckProperties_decode s n3 = Ok (ca_properties v, n)"
    by (cases v) (auto simp: ConnAck_decode_def and_then_eq_Inr Let_def)
  then show "0 < n \<and> n \<le> length s" using CAckSet.props_bound [OF d(3)] by auto
  show "ConnAck_wf v"
    using CFlags.field_bound [OF d(1)] CAckSet.props_bound [OF d(3)] by (simp add: ConnAck_wf_def)
next
  show "\<not> panics (ConnAck_decode s)" for s
    by (auto simp: ConnAck_decode_def dec_header_eq panics_and_then Let_def
        FixedHeader_no_panic CFlags.field_no_panic u8.field_no_panic CAckSet.props_no_panic)
  show "\<not> panics (ConnAck_encode v)" for v
    by (auto simp: ConnAck_encode_def panics_and_then extend_slice_no_panic u8.enc_no_panic
        CAckSet.enc_opt_no_panic finish_packet_no_panic)
  show "ConnAck_normalize (ConnAck_normalize v) = ConnAck_normalize v" for v
    by (cases "ca_properties v") (auto simp: ConnAck_normalize_def norm_props_def)
qed

end
