(* ===== verification/V5_Publish.thy ===== *)
theory V5_Publish
  imports PacketCodec
begin

text \<open>
  Model of \<open>src/v5/publish.rs\<close>: the properties of PUBLISH and the packet with its validation,
  its codec and the setters the broker uses, with the proof of the packet contract.
\<close>

section \<open>Properties\<close>

text \<open>The array \<open>dup_ok\<close>: subscription identifiers may repeat as well.\<close>

definition publish_dup_ok :: "PropertyType \<Rightarrow> bool" where
  "publish_dup_ok pt \<longleftrightarrow>
     pt \<in> set [PropertyType.UserProp, PropertyType.SubscriptionIdentifier]"

record PublishProperties =
  pp_payload_format_indicator :: PayloadFormat
  pp_message_expiry_interval :: "u32 option"
  pp_topic_alias :: "u16 option"
  pp_response_topic :: "TopicName option"
  pp_correlation_data :: "bytes option"
  pp_subscribtion_identifier :: "VarU32 list"
  pp_content_type :: "rstring option"
  pp_user_properties :: "UserProperty list"

definition PublishProperties_default :: PublishProperties where
  "PublishProperties_default =
     \<lparr>pp_payload_format_indicator = PayloadFormat_default,
      pp_message_expiry_interval = None,
      pp_topic_alias = None,
      pp_response_topic = None,
      pp_correlation_data = None,
      pp_subscribtion_identifier = [],
      pp_content_type = None,
      pp_user_properties = []\<rparr>"

text \<open>The match on the property in \<open>decode\<close>.\<close>

definition PublishProperties_arm :: "Property \<Rightarrow> PublishProperties \<Rightarrow> PublishProperties result" where
  "PublishProperties_arm property props =
     (case property of
        Property.PayloadFormatIndicator val \<Rightarrow>
          and_then (PayloadFormat_try_from val) (\<lambda>fmt. Ok (props\<lparr>pp_payload_format_indicator := fmt\<rparr>))
      | Property.MessageExpiryInterval val \<Rightarrow> Ok (props\<lparr>pp_message_expiry_interval := Some val\<rparr>)
      | Property.TopicAlias val \<Rightarrow>
          if val = 0 then bad_prop else Ok (props\<lparr>pp_topic_alias := Some val\<rparr>)
      | Property.ResponseTopic val \<Rightarrow> Ok (props\<lparr>pp_response_topic := Some val\<rparr>)
      | Property.CorrelationData val \<Rightarrow> Ok (props\<lparr>pp_correlation_data := Some val\<rparr>)
      | Property.SubscriptionIdentifier val \<Rightarrow>
          Ok (props\<lparr>pp_subscribtion_identifier := pp_subscribtion_identifier props @ [val]\<rparr>)
      | Property.ContentType val \<Rightarrow> Ok (props\<lparr>pp_content_type := Some val\<rparr>)
      | Property.UserProp val \<Rightarrow>
          Ok (props\<lparr>pp_user_properties := pp_user_properties props @ [val]\<rparr>)
      | _ \<Rightarrow> bad_prop)"

definition PublishProperties_decode :: "PublishProperties decoder" where
  "PublishProperties_decode stream = props_decode publish_dup_ok PublishProperties_arm PublishProperties_default stream"

definition PublishProperties_encode :: "PublishProperties encoder" where
  "PublishProperties_encode self =
     and_then (enc_prop_format [] (pp_payload_format_indicator self)) (\<lambda>data.
     and_then (enc_prop_opt data PropertyType.MessageExpiryInterval u32_encode (pp_message_expiry_interval self)) (\<lambda>data.
     and_then (enc_prop_opt data PropertyType.TopicAlias u16_encode (pp_topic_alias self)) (\<lambda>data.
     and_then (enc_prop_opt data PropertyType.ResponseTopic TopicName_encode (pp_response_topic self)) (\<lambda>data.
     and_then (enc_prop_opt data PropertyType.CorrelationData Vec_encode (pp_correlation_data self)) (\<lambda>data.
     and_then (enc_prop_opt data PropertyType.ContentType String_encode (pp_content_type self)) (\<lambda>data.
     and_then (enc_subids data (pp_subscribtion_identifier self)) (\<lambda>data.
     and_then (enc_user_props data (pp_user_properties self)) finish_props)))))))"

definition PublishProperties_is_empty :: "PublishProperties \<Rightarrow> bool" where
  "PublishProperties_is_empty self \<longleftrightarrow>
     pp_payload_format_indicator self = Binary \<and>
     pp_message_expiry_interval self = None \<and>
     pp_topic_alias self = None \<and>
     pp_response_topic self = None \<and>
     pp_correlation_data self = None \<and>
     length (pp_subscribtion_identifier self) = 0 \<and>
     pp_content_type self = None \<and>
     length (pp_user_properties self) = 0"

abbreviation (input) PublishProperties_is_payload_utf8 :: "PublishProperties \<Rightarrow> bool" where
  "PublishProperties_is_payload_utf8 self \<equiv> is_utf8 (pp_payload_format_indicator self)"

section \<open>The packet\<close>

record Publish =
  pub_retain :: bool
  pub_qos :: QoS
  pub_duplicate :: bool
  pub_topic_name :: TopicName
  pub_packet_id :: "u16 option"
  pub_properties :: "PublishProperties option"
  pub_payload :: "bytes option"

definition Publish_validate :: "Publish \<Rightarrow> unit result" where
  "Publish_validate self =
     and_then
       (if pub_qos self = AtMostOnce \<and> pub_duplicate self
        then err ErrorKind.MalformedPacket ReasonCode.MalformedPacket
        else if pub_qos self \<in> {AtLeastOnce, ExactlyOnce} \<and> pub_packet_id self = None
        then err ErrorKind.MalformedPacket ReasonCode.MalformedPacket
        else Ok ()) (\<lambda>_.
     case (pub_payload self, map_option PublishProperties_is_payload_utf8 (pub_properties self)) of
       (Some payload, Some True) \<Rightarrow>
         if from_utf8 payload = None
         then err ErrorKind.MalformedPacket ReasonCode.PayloadFormatInvalid
         else Ok ()
     | _ \<Rightarrow> Ok ())"

definition Publish_decode :: "Publish decoder" where
  "Publish_decode stream =
     and_then (dec_header stream) (\<lambda>(fh, fh_len).
     and_then (FixedHeader_unwrap fh) (\<lambda>(_, retain, qos, duplicate).
     and_then (dec_field TopicName_decode stream fh_len) (\<lambda>(topic, n).
     and_then (dec_field_if u16_decode stream n (qos = AtLeastOnce \<or> qos = ExactlyOnce)) (\<lambda>(packet_id, n).
     and_then (dec_props PublishProperties_decode stream n) (\<lambda>(properties, n).
     and_then
       (let m = fh_len + unat (var_u32 (remaining_len fh))
        in if m = n then Ok (None, n)
           else if m \<le> length stream then and_then (slice stream n m) (\<lambda>bs. Ok (Some bs, m))
           else err ErrorKind.MalformedPacket ReasonCode.MalformedPacket) (\<lambda>(payload, n).
       let val = \<lparr>pub_retain = retain, pub_qos = qos, pub_duplicate = duplicate,
                  pub_topic_name = topic, pub_packet_id = packet_id,
                  pub_properties = properties, pub_payload = payload\<rparr>
       in and_then (Publish_validate val) (\<lambda>_. Ok (val, n))))))))"

definition Publish_encode :: "Publish encoder" where
  "Publish_encode self =
     and_then (extend_slice [] (TopicName_encode (pub_topic_name self))) (\<lambda>data.
     and_then (case pub_packet_id self of
                 Some packet_id \<Rightarrow> extend_slice data (u16_encode packet_id)
               | None \<Rightarrow> Ok data) (\<lambda>data.
     and_then (enc_opt_props data PublishProperties_encode (pub_properties self)) (\<lambda>data.
       let data = (case pub_payload self of Some payload \<Rightarrow> data @ payload | None \<Rightarrow> data)
       in finish_packet
            (FixedHeader_new_publish (pub_retain self) (pub_qos self) (pub_duplicate self)) data)))"

definition Publish_set_fixed_header :: "Publish \<Rightarrow> bool \<Rightarrow> QoS \<Rightarrow> bool \<Rightarrow> Publish" where
  "Publish_set_fixed_header self retain qos dup =
     self\<lparr>pub_retain := retain, pub_qos := qos, pub_duplicate := dup\<rparr>"

definition Publish_set_packet_id :: "Publish \<Rightarrow> u16 \<Rightarrow> Publish" where
  "Publish_set_packet_id self packet_id = self\<lparr>pub_packet_id := Some packet_id\<rparr>"

fun Publish_set_subscription_ids :: "Publish \<Rightarrow> u32 list \<Rightarrow> Publish" where
  "Publish_set_subscription_ids self [] = self"
| "Publish_set_subscription_ids self (i # ids) =
     Publish_set_subscription_ids
       (case pub_properties self of
          Some props \<Rightarrow>
            self\<lparr>pub_properties := Some (props\<lparr>pp_subscribtion_identifier :=
              pp_subscribtion_identifier props @ [VarU32 i]\<rparr>)\<rparr>
        | None \<Rightarrow>
            self\<lparr>pub_properties :=
              Some (PublishProperties_default\<lparr>pp_subscribtion_identifier := [VarU32 i]\<rparr>)\<rparr>) ids"

definition Publish_normalize :: "Publish \<Rightarrow> Publish" where
  "Publish_normalize self =
     self\<lparr>pub_properties := norm_props PublishProperties_is_empty (pub_properties self),
          pub_payload := (case pub_payload self of
                            Some payload \<Rightarrow> if length payload = 0 then None else Some payload
                          | None \<Rightarrow> None)\<rparr>"

definition Publish_topic_alias :: "Publish \<Rightarrow> u16 option" where
  "Publish_topic_alias self =
     (case pub_properties self of Some props \<Rightarrow> pp_topic_alias props | None \<Rightarrow> None)"

section \<open>Facts on the properties\<close>

text \<open>The properties of a \<open>PublishProperties\<close> in the order in which they are sent.\<close>

definition PublishProperties_props :: "PublishProperties \<Rightarrow> Property list" where
  "PublishProperties_props p =
     format_prop (pp_payload_format_indicator p) @
     opt_prop Property.MessageExpiryInterval (pp_message_expiry_interval p) @
     opt_prop Property.TopicAlias (pp_topic_alias p) @
     opt_prop Property.ResponseTopic (pp_response_topic p) @
     opt_prop Property.CorrelationData (pp_correlation_data p) @
     opt_prop Property.ContentType (pp_content_type p) @
     map Property.SubscriptionIdentifier (pp_subscribtion_identifier p) @
     map Property.UserProp (pp_user_properties p)"

definition PublishProperties_wf :: "PublishProperties \<Rightarrow> bool" where
  "PublishProperties_wf p \<longleftrightarrow> list_all Property_wf (PublishProperties_props p) \<and>
     pp_topic_alias p \<noteq> Some 0"

lemma PublishProperties_arm_eval:
  "PublishProperties_arm (Property.PayloadFormatIndicator 1) r = Ok (r\<lparr>pp_payload_format_indicator := Utf8\<rparr>)"
  "PublishProperties_arm (Property.MessageExpiryInterval v1) r = Ok (r\<lparr>pp_message_expiry_interval := Some v1\<rparr>)"
  "v2 \<noteq> 0 \<Longrightarrow> PublishProperties_arm (Property.TopicAlias v2) r = Ok (r\<lparr>pp_topic_alias := Some v2\<rparr>)"
  "PublishProperties_arm (Property.ResponseTopic v3) r = Ok (r\<lparr>pp_response_topic := Some v3\<rparr>)"
  "PublishProperties_arm (Property.CorrelationData v4) r = Ok (r\<lparr>pp_correlation_data := Some v4\<rparr>)"
  "PublishProperties_arm (Property.ContentType v5) r = Ok (r\<lparr>pp_content_type := Some v5\<rparr>)"
  "PublishProperties_arm (Property.SubscriptionIdentifier v6) r = Ok (r\<lparr>pp_subscribtion_identifier := pp_subscribtion_identifier r @ [v6]\<rparr>)"
  "PublishProperties_arm (Property.UserProp v7) r = Ok (r\<lparr>pp_user_properties := pp_user_properties r @ [v7]\<rparr>)"
  by (auto simp: PublishProperties_arm_def bool_prop_def PayloadFormat_try_from_def intro: VarU32.expand)

lemmas PublishProperties_steps =
  steps_format [where arm = PublishProperties_arm and upd = pp_payload_format_indicator_update]
  steps_opt [where arm = PublishProperties_arm and con = "Property.MessageExpiryInterval" and upd = pp_message_expiry_interval_update]
  steps_opt_nz [where z = "0" and arm = PublishProperties_arm and con = Property.TopicAlias and upd = pp_topic_alias_update]
  steps_opt [where arm = PublishProperties_arm and con = "Property.ResponseTopic" and upd = pp_response_topic_update]
  steps_opt [where arm = PublishProperties_arm and con = "Property.CorrelationData" and upd = pp_correlation_data_update]
  steps_opt [where arm = PublishProperties_arm and con = "Property.ContentType" and upd = pp_content_type_update]
  steps_many_append [where arm = PublishProperties_arm and con = Property.SubscriptionIdentifier and upd = pp_subscribtion_identifier_update]
  steps_many [where arm = PublishProperties_arm and con = Property.UserProp and upd = pp_user_properties_update]

lemma PublishProperties_run: "PublishProperties_wf p \<Longrightarrow> steps PublishProperties_arm (PublishProperties_props p) PublishProperties_default = Ok p"
  by (cases p) (simp add: PublishProperties_props_def PublishProperties_wf_def PublishProperties_default_def PayloadFormat_default_def PublishProperties_steps
      PublishProperties_arm_eval)

lemma PublishProperties_once: "no_repeat publish_dup_ok (\<lambda>_. False) (PublishProperties_props p)"
  unfolding PublishProperties_props_def
  by ((rule no_repeat_opt, simp add: bool_prop_def, simp) | (rule no_repeat_format, simp) |
      (rule no_repeat_many_append, simp add: publish_dup_ok_def) |
      (rule no_repeat_many, simp add: publish_dup_ok_def))+

lemma PublishProperties_arm_wf: "\<lbrakk>PublishProperties_wf r; Property_wf q; PublishProperties_arm q r = Ok r'\<rbrakk> \<Longrightarrow> PublishProperties_wf r'"
  by (cases q) (auto simp: PublishProperties_wf_def PublishProperties_props_def PublishProperties_arm_def bool_prop_def and_then_eq_Inr
      split: if_splits)

lemma PublishProperties_arm_no_panic: "\<not> panics (PublishProperties_arm q r)"
  by (cases q) (auto simp: PublishProperties_arm_def panics_and_then)

lemma PublishProperties_wf_props: "PublishProperties_wf p \<Longrightarrow> list_all Property_wf (PublishProperties_props p)"
  by (simp add: PublishProperties_wf_def)

lemma PublishProperties_default_wf: "PublishProperties_wf PublishProperties_default"
  by (simp add: PublishProperties_wf_def PublishProperties_props_def PublishProperties_default_def PayloadFormat_default_def)

lemma PublishProperties_empty_iff: "PublishProperties_is_empty p \<longleftrightarrow> PublishProperties_props p = []"
  by (auto simp: PublishProperties_is_empty_def PublishProperties_props_def)

lemma PublishProperties_encode_eq: "PublishProperties_encode p = encode_props (PublishProperties_props p)"
  by (simp add: PublishProperties_encode_def PublishProperties_props_def encode_props_def enc_set_all enc_all_append and_then_assoc)

interpretation PublSet: property_set PublishProperties_decode PublishProperties_encode PublishProperties_wf PublishProperties_is_empty
  PublishProperties_props publish_dup_ok PublishProperties_arm PublishProperties_default "\<lambda>r. Ok r" PublishProperties_wf
  by unfold_locales
     (auto simp: PublishProperties_decode_def PublishProperties_encode_eq PublishProperties_run PublishProperties_once PublishProperties_empty_iff PublishProperties_default_wf
       PublishProperties_arm_no_panic PublishProperties_wf_props intro: PublishProperties_arm_wf)

section \<open>Facts on the packet\<close>

definition Publish_wf :: "Publish \<Rightarrow> bool" where
  "Publish_wf v \<longleftrightarrow> valid_utf8 (topic_name (pub_topic_name v)) \<and>
     pred_option PublishProperties_wf (pub_properties v) \<and>
     (pub_packet_id v \<noteq> None \<longleftrightarrow> pub_qos v \<noteq> AtMostOnce) \<and> Publish_validate v = Ok ()"

lemma Publish_validate_no_panic [simp]: "\<not> panics (Publish_validate v)"
  by (auto simp: Publish_validate_def panics_and_then split: option.splits bool.splits)

lemma Publish_validate_normalize:
  "Publish_validate v = Ok () \<Longrightarrow> Publish_validate (Publish_normalize v) = Ok ()"
  by (auto simp: Publish_validate_def Publish_normalize_def norm_props_def and_then_eq_Inr
      split: option.splits bool.splits if_splits)

lemma qos_pos: "q = AtLeastOnce \<or> q = ExactlyOnce \<longleftrightarrow> q \<noteq> AtMostOnce"
  by (cases q) auto

text \<open>The optional packet identifier, written and read back.\<close>

lemma packet_id_bytes:
  assumes "(case pid of Some i \<Rightarrow> extend_slice data (u16_encode i) | None \<Rightarrow> Ok data) = Ok d"
  obtains ib where "d = data @ ib"
    and "\<And>pre rest. dec_field_if u16_decode (pre @ ib @ rest) (length pre) (pid \<noteq> None) =
      Ok (pid, length pre + length ib)"
proof (cases pid)
  case None
  with assms show thesis by (intro that [of "[]"]) auto
next
  case (Some i)
  with assms obtain b where b: "u16_encode i = Ok b" "d = data @ as_ref b" by (auto simp: extend_slice_Ok)
  show thesis
    by (rule that [OF b(2)])
       (use Some u16.dec_enc [OF TrueI b(1)] in \<open>simp add: dec_field_if_def\<close>)
qed

lemma Publish_dec_enc:
  assumes wf: "Publish_wf v" and enc: "Publish_encode v = Ok b"
  shows "Publish_decode (as_ref b @ rest) = Ok (Publish_normalize v, length (as_ref b))"
    and "announces {PacketType.Publish} (as_ref b) rest"
proof -
  have v: "valid_utf8 (topic_name (pub_topic_name v))" "pred_option PublishProperties_wf (pub_properties v)"
    and pid: "pub_packet_id v \<noteq> None \<longleftrightarrow> pub_qos v \<noteq> AtMostOnce"
    and val: "Publish_validate (Publish_normalize v) = Ok ()"
    using wf by (auto simp: Publish_wf_def Publish_validate_normalize)
  define pl where "pl = (case pub_payload v of Some p \<Rightarrow> p | None \<Rightarrow> [])"
  from enc obtain tb d1 d2 where tb: "TopicName_encode (pub_topic_name v) = Ok tb"
    and d1: "(case pub_packet_id v of Some i \<Rightarrow> extend_slice (as_ref tb) (u16_encode i)
      | None \<Rightarrow> Ok (as_ref tb)) = Ok d1"
    and d2: "enc_opt_props d1 PublishProperties_encode (pub_properties v) = Ok d2"
    and fin: "finish_packet (FixedHeader_new_publish (pub_retain v) (pub_qos v) (pub_duplicate v))
      (d2 @ pl) = Ok b"
    by (cases "pub_payload v")
       (auto simp: Publish_encode_def and_then_eq_Inr extend_slice_Ok pl_def)
  from packet_id_bytes [OF d1] obtain ib where ib: "d1 = as_ref tb @ ib"
    "\<And>pre rest. dec_field_if u16_decode (pre @ ib @ rest) (length pre) (pub_packet_id v \<noteq> None) =
      Ok (pub_packet_id v, length pre + length ib)" by blast
  from PublSet.enc_opt_Ok [OF d2 v(2)] obtain pb where pb: "d2 = d1 @ pb"
    "\<And>rest. props_here PublishProperties_decode (pb @ rest) =
       Ok (norm_props PublishProperties_is_empty (pub_properties v), length pb)" by blast
  from finish_packet_Ok [OF fin FixedHeader_new_publish_Ok] obtain fh hb where h: "as_ref b = as_ref hb @ d2 @ pl"
    "FixedHeader_unwrap fh = Ok (PacketType.Publish, pub_retain v, pub_qos v, pub_duplicate v)"
    "unat (var_u32 (remaining_len fh)) = length (d2 @ pl)"
    "\<And>rest. FixedHeader_decode (as_ref hb @ rest) = Ok (fh, length (as_ref hb))" by blast
  let ?s = "as_ref hb @ as_ref tb @ ib @ pb @ pl @ rest"
  let ?n = "length (as_ref hb @ as_ref tb @ ib @ pb)"
  have s: "as_ref b @ rest = ?s" using h ib pb by simp
  have topic: "dec_field TopicName_decode ?s (length (as_ref hb)) =
      Ok (pub_topic_name v, length (as_ref hb @ as_ref tb))"
    using Name.dec_enc [OF v(1) tb] by (simp add: dec_field_def)
  have ident: "dec_field_if u16_decode ?s (length (as_ref hb @ as_ref tb)) (pub_packet_id v \<noteq> None) =
      Ok (pub_packet_id v, length (as_ref hb @ as_ref tb @ ib))"
    using ib(2) [of "as_ref hb @ as_ref tb"] by simp
  have prps: "dec_props PublishProperties_decode ?s (length (as_ref hb @ as_ref tb @ ib)) =
      Ok (norm_props PublishProperties_is_empty (pub_properties v), ?n)"
    using pb(2) by (simp add: dec_props_here add.assoc)
  have "Publish_normalize v = v\<lparr>pub_properties := norm_props PublishProperties_is_empty (pub_properties v),
      pub_payload := if pl = [] then None else Some pl\<rparr>"
    by (auto simp: Publish_normalize_def pl_def split: option.splits)
  with topic ident prps val pid h s ib pb
  show "Publish_decode (as_ref b @ rest) = Ok (Publish_normalize v, length (as_ref b))"
    by (cases v; cases "pl = []")
       (simp_all add: Publish_decode_def dec_header_eq qos_pos slice_def add.assoc Let_def)
  from h show "announces {PacketType.Publish} (as_ref b) rest" by (intro announcesI) auto
qed

lemma Publish_decode_Ok:
  assumes "Publish_decode s = Ok (v, n)"
  obtains fh k t m1 m2 m3 where "FixedHeader_decode s = Ok (fh, k)"
    and "FixedHeader_unwrap fh = Ok (t, pub_retain v, pub_qos v, pub_duplicate v)"
    and "dec_field TopicName_decode s k = Ok (pub_topic_name v, m1)"
    and "dec_field_if u16_decode s m1 (pub_qos v \<noteq> AtMostOnce) = Ok (pub_packet_id v, m2)"
    and "dec_props PublishProperties_decode s m2 = Ok (pub_properties v, m3)"
    and "n = k + unat (var_u32 (remaining_len fh))" and "m3 \<le> n" and "n \<le> length s"
    and "pub_payload v = (if m3 = n then None else Some (take (n - m3) (drop m3 s)))"
    and "Publish_validate v = Ok ()"
proof -
  from assms obtain fh k t m1 m2 m3 where d: "FixedHeader_decode s = Ok (fh, k)"
    "FixedHeader_unwrap fh = Ok (t, pub_retain v, pub_qos v, pub_duplicate v)"
    "dec_field TopicName_decode s k = Ok (pub_topic_name v, m1)"
    "dec_field_if u16_decode s m1 (pub_qos v \<noteq> AtMostOnce) = Ok (pub_packet_id v, m2)"
    "dec_props PublishProperties_decode s m2 = Ok (pub_properties v, m3)"
    "(if k + unat (var_u32 (remaining_len fh)) = m3 then Ok (None, m3)
      else if k + unat (var_u32 (remaining_len fh)) \<le> length s
      then and_then (slice s m3 (k + unat (var_u32 (remaining_len fh))))
        (\<lambda>bs. Ok (Some bs, k + unat (var_u32 (remaining_len fh))))
      else err ErrorKind.MalformedPacket ReasonCode.MalformedPacket) = Ok (pub_payload v, n)"
    "Publish_validate v = Ok ()"
    by (cases v) (auto simp: Publish_decode_def dec_header_eq and_then_eq_Inr Let_def qos_pos)
  moreover have "m3 \<le> length s" using PublSet.props_bound [OF d(5)] by simp
  ultimately show thesis
    by (intro that [of fh k t m1 m2 m3]) (auto simp: and_then_eq_Inr slice_Ok split: if_splits)
qed

interpretation PublishCodec: packet_closed Publish_decode Publish_encode Publish_wf Publish_normalize
    "{PacketType.Publish}"
proof (unfold_locales, rule Publish_dec_enc, assumption+, rule Publish_dec_enc, assumption+)
  fix s v n
  assume "Publish_decode s = Ok (v, n)"
  then show "0 < n \<and> n \<le> length s"
    by (rule Publish_decode_Ok) (auto dest: Header.dec_bound)
next
  fix s v n
  assume "Publish_decode s = Ok (v, n)"
  then show "Publish_wf v"
  proof (rule Publish_decode_Ok)
    fix fh k t m1 m2 m3
    assume d: "dec_field TopicName_decode s k = Ok (pub_topic_name v, m1)"
      "dec_field_if u16_decode s m1 (pub_qos v \<noteq> AtMostOnce) = Ok (pub_packet_id v, m2)"
      "dec_props PublishProperties_decode s m2 = Ok (pub_properties v, m3)"
      "Publish_validate v = Ok ()"
    have b: "m1 \<le> length s" "valid_utf8 (topic_name (pub_topic_name v))"
      using Name.field_bound [OF d(1)] by auto
    show "Publish_wf v"
      using b d(4) PublSet.props_bound [OF d(3)] u16.field_if_bound [OF d(2) b(1)]
      by (simp add: Publish_wf_def)
  qed
next
  fix s fh k t r q d
  assume fr: "framed s" and fh: "FixedHeader_decode s = Ok (fh, k)"
    and "FixedHeader_unwrap fh = Ok (t, r, q, d)"
  then show "\<not> panics (Publish_decode s)"
    using framed_len [OF fr fh]
    by (auto simp: Publish_decode_def dec_header_eq panics_and_then Let_def slice_panics
        Name.field_no_panic u16.field_if_no_panic PublSet.props_no_panic
        dest!: PublSet.props_bound)
next
  show "\<not> panics (Publish_encode v)" for v
    by (auto simp: Publish_encode_def panics_and_then extend_slice_no_panic Name.enc_no_panic
        u16.enc_no_panic PublSet.enc_opt_no_panic finish_packet_no_panic Let_def split: option.splits)
  show "Publish_normalize (Publish_normalize v) = Publish_normalize v" for v
    by (auto simp: Publish_normalize_def norm_props_def split: option.splits)
qed

end
