(* ===== verification/V5_Pub.thy ===== *)
theory V5_Pub
  imports PacketCodec
begin

text \<open>
  Model of \<open>src/v5/pubaclc.rs\<close>: the packets PUBACK, PUBREC, PUBREL and PUBCOMP, which share
  one struct. The short forms with a remaining length of 2 and 3 are decoded, the long form is
  encoded. \<open>Pub::validate\<close> ends in \<open>unreachable!\<close> for any other packet type.
\<close>

section \<open>Properties\<close>

record PubProperties =
  pap_reason_string :: "rstring option"
  pap_user_properties :: "UserProperty list"

definition PubProperties_default :: PubProperties where
  "PubProperties_default =
     \<lparr>pap_reason_string = None,
      pap_user_properties = []\<rparr>"

text \<open>The match on the property in \<open>decode\<close>.\<close>

definition PubProperties_arm :: "Property \<Rightarrow> PubProperties \<Rightarrow> PubProperties result" where
  "PubProperties_arm property props =
     (case property of
        Property.ReasonString val \<Rightarrow> Ok (props\<lparr>pap_reason_string := Some val\<rparr>)
      | Property.UserProp val \<Rightarrow>
          Ok (props\<lparr>pap_user_properties := pap_user_properties props @ [val]\<rparr>)
      | _ \<Rightarrow> bad_prop)"

definition PubProperties_decode :: "PubProperties decoder" where
  "PubProperties_decode stream = props_decode user_prop_only PubProperties_arm PubProperties_default stream"

definition PubProperties_encode :: "PubProperties encoder" where
  "PubProperties_encode self =
     and_then (enc_prop_opt [] PropertyType.ReasonString String_encode (pap_reason_string self)) (\<lambda>data.
     and_then (enc_user_props data (pap_user_properties self)) finish_props)"

definition PubProperties_is_empty :: "PubProperties \<Rightarrow> bool" where
  "PubProperties_is_empty self \<longleftrightarrow>
     pap_reason_string self = None \<and>
     length (pap_user_properties self) = 0"

section \<open>The packets\<close>

record Pub =
  pk_packet_type :: PacketType
  pk_packet_id :: u16
  pk_code :: ReasonCode
  pk_properties :: "PubProperties option"

definition Pub_new_pub_ack :: "u16 \<Rightarrow> Pub" where
  "Pub_new_pub_ack packet_id =
     \<lparr>pk_packet_type = PubAck, pk_packet_id = packet_id, pk_code = ReasonCode.Success,
      pk_properties = None\<rparr>"

definition Pub_normalize :: "Pub \<Rightarrow> Pub" where
  "Pub_normalize self =
     self\<lparr>pk_properties := norm_props PubProperties_is_empty (pk_properties self)\<rparr>"

definition Pub_validate :: "Pub \<Rightarrow> unit result" where
  "Pub_validate self =
     and_then
       (if pk_packet_type self \<in> {PubAck, PubRec}
        then Ok (pk_code self \<notin>
               {ReasonCode.Success, ReasonCode.NoMatchingSubscribers, ReasonCode.UnspecifiedError,
                ReasonCode.ImplementationError, ReasonCode.NotAuthorized, ReasonCode.TopicNameInvalid,
                ReasonCode.PacketIdInuse, ReasonCode.PacketIdNotFound, ReasonCode.QuotaExceeded,
                ReasonCode.PayloadFormatInvalid})
        else if pk_packet_type self \<in> {PubRel, PubComp}
        then Ok (pk_code self \<notin> {ReasonCode.Success, ReasonCode.PacketIdNotFound})
        else panic) (\<lambda>invalid_code.
     if invalid_code then err ErrorKind.MalformedPacket ReasonCode.MalformedPacket else Ok ())"

definition Pub_decode :: "Pub decoder" where
  "Pub_decode stream =
     and_then (dec_header stream) (\<lambda>(fh, n).
     and_then (FixedHeader_unwrap fh) (\<lambda>(packet_type, _, _, _).
     and_then (dec_field u16_decode stream n) (\<lambda>(packet_id, n).
     and_then
       (if var_u32 (remaining_len fh) = 2
        then Ok (\<lparr>pk_packet_type = packet_type, pk_packet_id = packet_id,
                  pk_code = ReasonCode.Success, pk_properties = None\<rparr>, n)
        else if var_u32 (remaining_len fh) = 3
        then and_then (dec_field u8_decode stream n) (\<lambda>(val, n).
             and_then (ReasonCode_try_from val) (\<lambda>code.
             Ok (\<lparr>pk_packet_type = packet_type, pk_packet_id = packet_id, pk_code = code,
                  pk_properties = None\<rparr>, n)))
        else and_then (dec_field u8_decode stream n) (\<lambda>(val, n).
             and_then (ReasonCode_try_from val) (\<lambda>code.
             and_then (dec_props PubProperties_decode stream n) (\<lambda>(properties, n).
             Ok (\<lparr>pk_packet_type = packet_type, pk_packet_id = packet_id, pk_code = code,
                  pk_properties = properties\<rparr>, n))))) (\<lambda>(packet, n).
     and_then (Pub_validate packet) (\<lambda>_. Ok (packet, n))))))"

text \<open>The choice of the header by the packet type.\<close>

definition Pub_header :: "PacketType \<Rightarrow> VarU32 \<Rightarrow> FixedHeader result" where
  "Pub_header packet_type remlen =
     (if packet_type = PubAck then FixedHeader_new PubAck remlen
      else if packet_type = PubRel then FixedHeader_new_pubrel remlen
      else if packet_type = PubRec then FixedHeader_new PubRec remlen
      else if packet_type = PubComp then FixedHeader_new PubComp remlen
      else err_desc ErrorKind.ProtocolError)"

definition Pub_encode :: "Pub encoder" where
  "Pub_encode self =
     and_then (extend_slice [] (u16_encode (pk_packet_id self))) (\<lambda>data.
     and_then (extend_slice data (u8_encode (ReasonCode_as_u8 (pk_code self)))) (\<lambda>data.
     and_then (enc_opt_props data PubProperties_encode (pk_properties self)) (\<lambda>data.
     finish_packet (Pub_header (pk_packet_type self)) data)))"

section \<open>Facts on the properties\<close>

text \<open>The properties of a \<open>PubProperties\<close> in the order in which they are sent.\<close>

definition PubProperties_props :: "PubProperties \<Rightarrow> Property list" where
  "PubProperties_props p =
     opt_prop Property.ReasonString (pap_reason_string p) @
     map Property.UserProp (pap_user_properties p)"

definition PubProperties_wf :: "PubProperties \<Rightarrow> bool" where
  "PubProperties_wf p \<longleftrightarrow> list_all Property_wf (PubProperties_props p)"

lemma PubProperties_arm_eval:
  "PubProperties_arm (Property.ReasonString v0) r = Ok (r\<lparr>pap_reason_string := Some v0\<rparr>)"
  "PubProperties_arm (Property.UserProp v1) r = Ok (r\<lparr>pap_user_properties := pap_user_properties r @ [v1]\<rparr>)"
  by (auto simp: PubProperties_arm_def bool_prop_def PayloadFormat_try_from_def intro: VarU32.expand)

lemmas PubProperties_steps =
  steps_opt [where arm = PubProperties_arm and con = "Property.ReasonString" and upd = pap_reason_string_update]
  steps_many [where arm = PubProperties_arm and con = Property.UserProp and upd = pap_user_properties_update]

lemma PubProperties_run: "PubProperties_wf p \<Longrightarrow> steps PubProperties_arm (PubProperties_props p) PubProperties_default = Ok p"
  by (cases p) (simp add: PubProperties_props_def PubProperties_wf_def PubProperties_default_def PayloadFormat_default_def PubProperties_steps
      PubProperties_arm_eval)

lemma PubProperties_once: "no_repeat user_prop_only (\<lambda>_. False) (PubProperties_props p)"
  unfolding PubProperties_props_def
  by ((rule no_repeat_opt, simp add: bool_prop_def, simp) | (rule no_repeat_format, simp) |
      (rule no_repeat_many_append, simp add: user_prop_only_def) |
      (rule no_repeat_many, simp add: user_prop_only_def))+

lemma PubProperties_arm_wf: "\<lbrakk>PubProperties_wf r; Property_wf q; PubProperties_arm q r = Ok r'\<rbrakk> \<Longrightarrow> PubProperties_wf r'"
  by (cases q) (auto simp: PubProperties_wf_def PubProperties_props_def PubProperties_arm_def bool_prop_def and_then_eq_Inr
      split: if_splits)

lemma PubProperties_arm_no_panic: "\<not> panics (PubProperties_arm q r)"
  by (cases q) (auto simp: PubProperties_arm_def panics_and_then)

lemma PubProperties_wf_props: "PubProperties_wf p \<Longrightarrow> list_all Property_wf (PubProperties_props p)"
  by (simp add: PubProperties_wf_def)

lemma PubProperties_default_wf: "PubProperties_wf PubProperties_default"
  by (simp add: PubProperties_wf_def PubProperties_props_def PubProperties_default_def PayloadFormat_default_def)

lemma PubProperties_empty_iff: "PubProperties_is_empty p \<longleftrightarrow> PubProperties_props p = []"
  by (auto simp: PubProperties_is_empty_def PubProperties_props_def)

lemma PubProperties_encode_eq: "PubProperties_encode p = encode_props (PubProperties_props p)"
  by (simp add: PubProperties_encode_def PubProperties_props_def encode_props_def enc_set_all enc_all_append and_then_assoc)

interpretation PubPSet: property_set PubProperties_decode PubProperties_encode PubProperties_wf PubProperties_is_empty
  PubProperties_props user_prop_only PubProperties_arm PubProperties_default "\<lambda>r. Ok r" PubProperties_wf
  by unfold_locales
     (auto simp: PubProperties_decode_def PubProperties_encode_eq PubProperties_run PubProperties_once PubProperties_empty_iff PubProperties_default_wf
       PubProperties_arm_no_panic PubProperties_wf_props intro: PubProperties_arm_wf)

section \<open>Facts on the packets\<close>

definition pub_types :: "PacketType set" where
  "pub_types = {PubAck, PubRec, PubRel, PubComp}"

definition Pub_wf :: "Pub \<Rightarrow> bool" where
  "Pub_wf v \<longleftrightarrow> pk_packet_type v \<in> pub_types \<and> pred_option PubProperties_wf (pk_properties v) \<and>
     Pub_validate v = Ok ()"

lemma Pub_validate_no_panic: "pk_packet_type v \<in> pub_types \<Longrightarrow> \<not> panics (Pub_validate v)"
  by (auto simp: Pub_validate_def pub_types_def)

lemma Pub_validate_properties [simp]: "Pub_validate (v\<lparr>pk_properties := p\<rparr>) = Pub_validate v"
  by (simp add: Pub_validate_def)

lemma Pub_header_Ok:
  assumes "Pub_header t l = Ok fh"
  shows "FixedHeader_unwrap fh = Ok (t, False, if t = PubRel then AtLeastOnce else AtMostOnce, False) \<and>
    remaining_len fh = l \<and> FixedHeader_validate fh = Ok () \<and> var_u32 l \<le> VarU32_MAX"
  using assms unfolding Pub_header_def
  by (auto dest: FixedHeader_new_Ok FixedHeader_new_other_Ok split: if_splits)

lemma Pub_header_no_panic: "\<not> panics (Pub_header t l)"
  by (simp add: Pub_header_def)

lemma Pub_dec_enc:
  assumes wf: "Pub_wf v" and enc: "Pub_encode v = Ok b"
  shows "Pub_decode (as_ref b @ rest) = Ok (Pub_normalize v, length (as_ref b))"
    and "announces pub_types (as_ref b) rest"
proof -
  have v: "pk_packet_type v \<in> pub_types" "pred_option PubProperties_wf (pk_properties v)"
    "Pub_validate v = Ok ()" using wf by (auto simp: Pub_wf_def)
  from enc obtain ib cb d where ib: "u16_encode (pk_packet_id v) = Ok ib"
    and cb: "u8_encode (ReasonCode_as_u8 (pk_code v)) = Ok cb"
    and d: "enc_opt_props (as_ref ib @ as_ref cb) PubProperties_encode (pk_properties v) = Ok d"
    and fin: "finish_packet (Pub_header (pk_packet_type v)) d = Ok b"
    by (auto simp: Pub_encode_def and_then_eq_Inr extend_slice_Ok)
  from PubPSet.enc_opt_Ok [OF d v(2)] obtain pb where pb: "d = (as_ref ib @ as_ref cb) @ pb"
    "\<And>rest. props_here PubProperties_decode (pb @ rest) =
       Ok (norm_props PubProperties_is_empty (pk_properties v), length pb)" by blast
  from finish_packet_Ok [OF fin Pub_header_Ok] obtain fh hb where h: "as_ref b = as_ref hb @ d"
    "FixedHeader_unwrap fh = Ok (pk_packet_type v, False,
       if pk_packet_type v = PubRel then AtLeastOnce else AtMostOnce, False)"
    "unat (var_u32 (remaining_len fh)) = length d"
    "\<And>rest. FixedHeader_decode (as_ref hb @ rest) = Ok (fh, length (as_ref hb))" by blast
  have "length (as_ref ib) = 2" "length (as_ref cb) = 1"
    using ib cb by (auto simp: u16_encode_eq u8_encode_def)
  moreover have "0 < length pb" using PubPSet.here_Ok [OF pb(2) [of "[]"]] by simp
  ultimately have "3 < unat (var_u32 (remaining_len fh))" using h(3) pb(1) by simp
  then have rl: "var_u32 (remaining_len fh) \<noteq> 2" "var_u32 (remaining_len fh) \<noteq> 3"
    by (auto simp: word_unat_eq_iff)
  have n: "Pub_normalize v = \<lparr>pk_packet_type = pk_packet_type v, pk_packet_id = pk_packet_id v,
      pk_code = pk_code v, pk_properties = norm_props PubProperties_is_empty (pk_properties v)\<rparr>"
    by (cases v) (simp add: Pub_normalize_def)
  have "Pub_validate (Pub_normalize v) = Ok ()" using v(3) by (simp add: Pub_normalize_def)
  with pb h rl u16.dec_enc [OF TrueI ib] u8.dec_enc [OF TrueI cb]
  show "Pub_decode (as_ref b @ rest) = Ok (Pub_normalize v, length (as_ref b))"
    by (simp add: n Pub_decode_def dec_header_eq dec_field_def dec_props_here add.assoc)
  show "announces pub_types (as_ref b) rest" by (rule announcesI [OF h(1,2) v(1) h(3,4)])
qed

lemma Pub_decode_Ok:
  assumes "Pub_decode s = Ok (v, n)"
  obtains fh k r q d where "FixedHeader_decode s = Ok (fh, k)"
    and "FixedHeader_unwrap fh = Ok (pk_packet_type v, r, q, d)"
    and "0 < n" and "n \<le> length s" and "pred_option PubProperties_wf (pk_properties v)"
    and "Pub_validate v = Ok ()"
proof -
  from assms obtain fh k t r q d pid m where h: "FixedHeader_decode s = Ok (fh, k)"
    "FixedHeader_unwrap fh = Ok (t, r, q, d)" "dec_field u16_decode s k = Ok (pid, m)"
    "Pub_validate v = Ok ()"
    by (auto simp: Pub_decode_def dec_header_eq and_then_eq_Inr)
  have m: "m \<le> length s" "0 < m" using u16.field_bound [OF h(3)] by auto
  show thesis
  proof (rule that [OF h(1)])
    show "FixedHeader_unwrap fh = Ok (pk_packet_type v, r, q, d)"
      using assms h by (auto simp: Pub_decode_def dec_header_eq and_then_eq_Inr split: if_splits)
    show "0 < n" "n \<le> length s" "pred_option PubProperties_wf (pk_properties v)"
      using assms h m by (auto simp: Pub_decode_def dec_header_eq and_then_eq_Inr split: if_splits
          dest!: u8.field_bound PubPSet.props_bound)
  qed (rule h(4))
qed

interpretation PubCodec: packet_closed Pub_decode Pub_encode Pub_wf Pub_normalize pub_types
proof (unfold_locales, rule Pub_dec_enc, assumption+, rule Pub_dec_enc, assumption+)
  show "0 < n \<and> n \<le> length s" if "Pub_decode s = Ok (v, n)" for s v n
    using that by (rule Pub_decode_Ok) auto
  show "Pub_wf v" if "Pub_decode s = Ok (v, n)" "FixedHeader_decode s = Ok (fh, k)"
    "FixedHeader_unwrap fh = Ok (t, r, q, d)" "t \<in> pub_types" for s v n fh k t r q d
    using that(1) by (rule Pub_decode_Ok) (use that in \<open>auto simp: Pub_wf_def\<close>)
  show "\<not> panics (Pub_decode s)" if "FixedHeader_decode s = Ok (fh, k)"
    "FixedHeader_unwrap fh = Ok (t, r, q, d)" "t \<in> pub_types" for s fh k t r q d
    using that
    by (auto simp: Pub_decode_def dec_header_eq panics_and_then and_then_eq_Inr u16.field_no_panic
        u8.field_no_panic PubPSet.props_no_panic Pub_validate_no_panic split: if_splits)
  show "\<not> panics (Pub_encode v)" for v
    by (auto simp: Pub_encode_def panics_and_then extend_slice_no_panic u16.enc_no_panic u8.enc_no_panic
        PubPSet.enc_opt_no_panic finish_packet_no_panic [OF Pub_header_no_panic])
  show "Pub_normalize (Pub_normalize v) = Pub_normalize v" for v
    by (auto simp: Pub_normalize_def norm_props_def split: option.splits)
qed

end
