(* ===== verification/V5_Subscribe.thy ===== *)
theory V5_Subscribe
  imports PacketCodec
begin

text \<open>
  Model of \<open>src/v5/sub.rs\<close>: subscription options, the filters of a SUBSCRIBE payload and the
  packet. The payload is read until the end of the packet.
\<close>

section \<open>Subscription options\<close>

datatype RetainForwardRule = OnEverySubscribe | OnNewSubscribe | Never

definition RetainForwardRule_try_from :: "u8 \<Rightarrow> RetainForwardRule result" where
  "RetainForwardRule_try_from val =
     (if val = 0 then Ok OnEverySubscribe
      else if val = 1 then Ok OnNewSubscribe
      else if val = 2 then Ok Never
      else err ErrorKind.MalformedPacket ReasonCode.MalformedPacket)"

primrec u8_from_RetainForwardRule :: "RetainForwardRule \<Rightarrow> u8" where
  "u8_from_RetainForwardRule OnEverySubscribe = 0"
| "u8_from_RetainForwardRule OnNewSubscribe = 1"
| "u8_from_RetainForwardRule Never = 2"

datatype SubscriptionOpt = SubscriptionOpt (subscription_opt: u8)

abbreviation (input) SubscriptionOpt_MAXIMUM_QOS :: u8 where "SubscriptionOpt_MAXIMUM_QOS \<equiv> 0x03"
abbreviation (input) SubscriptionOpt_NO_LOCAL :: u8 where "SubscriptionOpt_NO_LOCAL \<equiv> 0x04"
abbreviation (input) SubscriptionOpt_RETAIN_AS_PUBLISHED :: u8 where "SubscriptionOpt_RETAIN_AS_PUBLISHED \<equiv> 0x08"
abbreviation (input) SubscriptionOpt_RETAIN_HANDLING :: u8 where "SubscriptionOpt_RETAIN_HANDLING \<equiv> 0x30"
abbreviation (input) SubscriptionOpt_RESERVED :: u8 where "SubscriptionOpt_RESERVED \<equiv> 0xC0"

definition SubscriptionOpt_new :: "RetainForwardRule \<Rightarrow> bool \<Rightarrow> bool \<Rightarrow> QoS \<Rightarrow> SubscriptionOpt" where
  "SubscriptionOpt_new rfr rap nl qos =
     (let rfr = push_bit 4 (u8_from_RetainForwardRule rfr);
          rap = (if rap then 0x08 else 0x00);
          nl = (if nl then 0x04 else 0x00);
          qos = u8_from_QoS qos
      in SubscriptionOpt (rfr OR rap OR nl OR qos))"

text \<open>\<open>unwrap\<close>, with the shift before the mask as the source has them.\<close>

definition SubscriptionOpt_unwrap ::
  "SubscriptionOpt \<Rightarrow> (RetainForwardRule \<times> bool \<times> bool \<times> QoS) result" where
  "SubscriptionOpt_unwrap self =
     and_then (unwrap (QoS_try_from (subscription_opt self AND SubscriptionOpt_MAXIMUM_QOS))) (\<lambda>qos.
       let nl = (subscription_opt self AND SubscriptionOpt_NO_LOCAL) > 0;
           rap = (subscription_opt self AND SubscriptionOpt_RETAIN_AS_PUBLISHED) > 0
       in and_then (unwrap (RetainForwardRule_try_from
              (drop_bit 4 (subscription_opt self) AND SubscriptionOpt_RETAIN_HANDLING))) (\<lambda>rfr.
          Ok (rfr, rap, nl, qos)))"

definition SubscriptionOpt_validate :: "SubscriptionOpt \<Rightarrow> unit result" where
  "SubscriptionOpt_validate self = Ok ()"

definition SubscriptionOpt_decode :: "SubscriptionOpt decoder" where
  "SubscriptionOpt_decode stream =
     and_then (dec_field u8_decode stream 0) (\<lambda>(opt, n).
       let val = SubscriptionOpt opt
       in and_then (SubscriptionOpt_validate val) (\<lambda>_. Ok (val, n)))"

definition SubscriptionOpt_encode :: "SubscriptionOpt encoder" where
  "SubscriptionOpt_encode self =
     and_then (SubscriptionOpt_validate self) (\<lambda>_. u8_encode (subscription_opt self))"

section \<open>Filters\<close>

record SubscribeFilter =
  sf_topic_filter :: TopicFilter
  sf_opt :: SubscriptionOpt

abbreviation (input) SubscribeFilter_validate :: "SubscribeFilter \<Rightarrow> unit result" where
  "SubscribeFilter_validate self \<equiv> Ok ()"

definition SubscribeFilter_decode :: "SubscribeFilter decoder" where
  "SubscribeFilter_decode stream =
     and_then (dec_field TopicFilter_decode stream 0) (\<lambda>(filter, n).
     and_then (dec_field SubscriptionOpt_decode stream n) (\<lambda>(opt, n).
       let val = \<lparr>sf_topic_filter = filter, sf_opt = opt\<rparr>
       in and_then (SubscribeFilter_validate val) (\<lambda>_. Ok (val, n))))"

definition SubscribeFilter_encode :: "SubscribeFilter encoder" where
  "SubscribeFilter_encode self =
     and_then (extend_slice [] (TopicFilter_encode (sf_topic_filter self))) (\<lambda>data.
     and_then (extend_slice data (SubscriptionOpt_encode (sf_opt self))) (\<lambda>data.
     Ok (Large data)))"

section \<open>Properties\<close>

record SubscribeProperties =
  sp_subscription_id :: "VarU32 option"
  sp_user_properties :: "UserProperty list"

abbreviation (input) SubscribeProperties_default :: SubscribeProperties where
  "SubscribeProperties_default \<equiv>
     \<lparr>sp_subscription_id = None,
      sp_user_properties = []\<rparr>"

text \<open>The match on the property in \<open>decode\<close>.\<close>

definition SubscribeProperties_arm :: "Property \<Rightarrow> SubscribeProperties \<Rightarrow> SubscribeProperties result" where
  "SubscribeProperties_arm property props =
     (case property of
        Property.SubscriptionIdentifier val \<Rightarrow>
          if var_u32 val = 0 then bad_prop else Ok (props\<lparr>sp_subscription_id := Some val\<rparr>)
      | Property.UserProp val \<Rightarrow>
          Ok (props\<lparr>sp_user_properties := sp_user_properties props @ [val]\<rparr>)
      | _ \<Rightarrow> bad_prop)"

definition SubscribeProperties_decode :: "SubscribeProperties decoder" where
  "SubscribeProperties_decode stream = props_decode user_prop_only SubscribeProperties_arm SubscribeProperties_default stream"

definition SubscribeProperties_encode :: "SubscribeProperties encoder" where
  "SubscribeProperties_encode self =
     and_then (enc_prop_opt [] PropertyType.SubscriptionIdentifier VarU32_encode (sp_subscription_id self)) (\<lambda>data.
     and_then (enc_user_props data (sp_user_properties self)) finish_props)"

definition SubscribeProperties_is_empty :: "SubscribeProperties \<Rightarrow> bool" where
  "SubscribeProperties_is_empty self \<longleftrightarrow>
     sp_subscription_id self = None \<and>
     length (sp_user_properties self) = 0"

section \<open>The packet\<close>

record Subscribe =
  sub_packet_id :: u16
  sub_properties :: "SubscribeProperties option"
  sub_filters :: "SubscribeFilter list"

text \<open>The loop over the filters in \<open>validate\<close>.\<close>

fun Subscribe_validate_filters :: "SubscribeFilter list \<Rightarrow> unit result" where
  "Subscribe_validate_filters [] = Ok ()"
| "Subscribe_validate_filters (f # fs) =
     (let opt = subscription_opt (sf_opt f) in
      if (opt AND SubscriptionOpt_RESERVED) > 0
      then err ErrorKind.MalformedPacket ReasonCode.MalformedPacket
      else if drop_bit 4 (opt AND SubscriptionOpt_RETAIN_HANDLING) = 3
      then err ErrorKind.MalformedPacket ReasonCode.MalformedPacket
      else and_then (QoS_try_from (opt AND SubscriptionOpt_MAXIMUM_QOS)) (\<lambda>_.
           Subscribe_validate_filters fs))"

definition Subscribe_validate :: "Subscribe \<Rightarrow> unit result" where
  "Subscribe_validate self =
     (if length (sub_filters self) = 0 then err ErrorKind.ProtocolError ReasonCode.ProtocolError
      else Subscribe_validate_filters (sub_filters self))"

definition Subscribe_normalize :: "Subscribe \<Rightarrow> Subscribe" where
  "Subscribe_normalize self =
     self\<lparr>sub_properties := norm_props SubscribeProperties_is_empty (sub_properties self)\<rparr>"

definition Subscribe_decode :: "Subscribe decoder" where
  "Subscribe_decode stream =
     and_then (dec_header stream) (\<lambda>(fh, fh_len).
     and_then (dec_field u16_decode stream fh_len) (\<lambda>(packet_id, n).
     and_then (dec_props SubscribeProperties_decode stream n) (\<lambda>(properties, n).
     and_then (dec_payload stream fh fh_len n
         (err ErrorKind.MalformedPacket ReasonCode.MalformedPacket)) (\<lambda>(payload, n).
     and_then (dec_many SubscribeFilter_decode payload 0 []) (\<lambda>filters.
       let val = \<lparr>sub_packet_id = packet_id, sub_properties = properties, sub_filters = filters\<rparr>
       in and_then (Subscribe_validate val) (\<lambda>_. Ok (val, n)))))))"

definition Subscribe_encode :: "Subscribe encoder" where
  "Subscribe_encode self =
     and_then (Subscribe_validate self) (\<lambda>_.
     and_then (extend_slice [] (u16_encode (sub_packet_id self))) (\<lambda>data.
     and_then (enc_opt_props data SubscribeProperties_encode (sub_properties self)) (\<lambda>data.
     and_then (enc_many SubscribeFilter_encode data (sub_filters self)) (\<lambda>data.
     finish_packet FixedHeader_new_subscribe data))))"

section \<open>Facts on options and filters\<close>

lemma retain_handling_bits: "drop_bit 4 (w :: u8) AND SubscriptionOpt_RETAIN_HANDLING = 0"
proof (rule bit_word_eqI)
  fix n
  show "bit (drop_bit 4 w AND SubscriptionOpt_RETAIN_HANDLING) n = bit (0 :: u8) n"
  proof (cases "n < 4")
    case True
    then have "n = 0 \<or> n = 1 \<or> n = 2 \<or> n = 3" by auto
    then have "\<not> bit SubscriptionOpt_RETAIN_HANDLING n"
      by auto
    then show ?thesis by (simp add: bit_and_iff)
  next
    case False
    then have "\<not> bit (drop_bit 4 w) n" by (auto simp: bit_drop_bit_eq dest: bit_u8_lt)
    then show ?thesis by (simp add: bit_and_iff)
  qed
qed

lemma SubscriptionOpt_new_unwrap:
  "SubscriptionOpt_unwrap (SubscriptionOpt_new rfr rap nl qos) = Ok (OnEverySubscribe, rap, nl, qos)"
proof -
  have "subscription_opt (SubscriptionOpt_new rfr rap nl qos) AND SubscriptionOpt_MAXIMUM_QOS = u8_from_QoS qos"
    "(subscription_opt (SubscriptionOpt_new rfr rap nl qos) AND SubscriptionOpt_NO_LOCAL > 0) = nl"
    "(subscription_opt (SubscriptionOpt_new rfr rap nl qos) AND SubscriptionOpt_RETAIN_AS_PUBLISHED > 0) = rap"
    by (cases rfr; cases rap; cases nl; cases qos;
        simp add: SubscriptionOpt_new_def)+
  then show ?thesis
    by (simp add: SubscriptionOpt_unwrap_def retain_handling_bits RetainForwardRule_try_from_def)
qed

interpretation SubOptV: validated u8_decode u8_encode "\<lambda>_. True"
    SubscriptionOpt subscription_opt SubscriptionOpt_validate
  by unfold_locales (simp_all add: SubscriptionOpt_validate_def)

lemma SubscriptionOpt_vdec:
  "SubscriptionOpt_decode = SubOptV.vdec" "SubscriptionOpt_encode = SubOptV.venc"
  by (auto simp: fun_eq_iff SubscriptionOpt_decode_def SubscriptionOpt_encode_def SubOptV.vdec_def
      SubOptV.venc_def dec_field_def and_then_assoc split_def)

interpretation SubOpt: canonical SubscriptionOpt_decode SubscriptionOpt_encode "\<lambda>_. True"
  unfolding SubscriptionOpt_vdec by (rule SubOptV.validated_canonical)

definition SubscribeFilter_wf :: "SubscribeFilter \<Rightarrow> bool" where
  "SubscribeFilter_wf f \<longleftrightarrow> valid_utf8 (topic_filter (sf_topic_filter f))"

lemma SubscribeFilter_decode_Ok:
  "SubscribeFilter_decode s = Ok (f, n) \<longleftrightarrow>
     (\<exists>m. dec_field TopicFilter_decode s 0 = Ok (sf_topic_filter f, m) \<and>
        dec_field SubscriptionOpt_decode s m = Ok (sf_opt f, n))"
  by (cases f) (auto simp: SubscribeFilter_decode_def and_then_eq_Inr Let_def)

lemma SubscribeFilter_encode_Ok:
  "SubscribeFilter_encode f = Ok b \<longleftrightarrow>
     (\<exists>tb ob. TopicFilter_encode (sf_topic_filter f) = Ok tb \<and> SubscriptionOpt_encode (sf_opt f) = Ok ob \<and>
        b = Large (as_ref tb @ as_ref ob))"
  by (auto simp: SubscribeFilter_encode_def and_then_eq_Inr extend_slice_Ok)

interpretation SubFilter: canonical SubscribeFilter_decode SubscribeFilter_encode SubscribeFilter_wf
proof unfold_locales
  fix v b rest
  assume wf: "SubscribeFilter_wf v" and enc: "SubscribeFilter_encode v = Ok b"
  from enc obtain tb ob where e: "TopicFilter_encode (sf_topic_filter v) = Ok tb"
    "SubscriptionOpt_encode (sf_opt v) = Ok ob" "b = Large (as_ref tb @ as_ref ob)"
    by (auto simp: SubscribeFilter_encode_Ok)
  show "SubscribeFilter_decode (as_ref b @ rest) = Ok (v, length (as_ref b))"
    using e Filter.dec_enc [OF wf [unfolded SubscribeFilter_wf_def] e(1)] SubOpt.dec_enc [OF TrueI e(2)]
    by (simp add: SubscribeFilter_decode_Ok dec_field_def)
next
  fix s v n
  assume "SubscribeFilter_decode s = Ok (v, n)"
  then obtain m k where t: "TopicFilter_decode s = Ok (sf_topic_filter v, m)" "m \<le> length s"
    and o: "SubscriptionOpt_decode (drop m s) = Ok (sf_opt v, k)" and n: "n = m + k"
    by (auto simp: SubscribeFilter_decode_Ok dec_field_def and_then_eq_Inr advance_Ok)
  show "0 < n \<and> n \<le> length s" using Filter.dec_bound [OF t(1)] SubOpt.dec_bound [OF o] n by auto
  show "SubscribeFilter_wf v" using Filter.dec_wf [OF t(1)] by (simp add: SubscribeFilter_wf_def)
  obtain tb ob where e: "TopicFilter_encode (sf_topic_filter v) = Ok tb"
    "SubscriptionOpt_encode (sf_opt v) = Ok ob"
    using Filter.enc_dec [OF t(1)] SubOpt.enc_dec [OF o] by blast
  note tk = Filter.enc_take [OF t(1) e(1)] SubOpt.enc_take [OF o e(2)]
  show "as_ref b = take n s" if "SubscribeFilter_encode v = Ok b" for b
    using that e tk n by (auto simp: SubscribeFilter_encode_Ok take_add)
  then show "\<exists>b. SubscribeFilter_encode v = Ok b \<and> length (as_ref b) \<le> n"
    using e by (fastforce simp: SubscribeFilter_encode_Ok)
qed (auto simp: SubscribeFilter_decode_def SubscribeFilter_encode_def
    panics_and_then Let_def Filter.field_no_panic SubOpt.field_no_panic extend_slice_no_panic
    Filter.enc_no_panic SubOpt.enc_no_panic and_then_eq_Inr)

section \<open>Facts on the properties\<close>

text \<open>The properties of a \<open>SubscribeProperties\<close> in the order in which they are sent.\<close>

definition SubscribeProperties_props :: "SubscribeProperties \<Rightarrow> Property list" where
  "SubscribeProperties_props p =
     opt_prop Property.SubscriptionIdentifier (sp_subscription_id p) @
     map Property.UserProp (sp_user_properties p)"

definition SubscribeProperties_wf :: "SubscribeProperties \<Rightarrow> bool" where
  "SubscribeProperties_wf p \<longleftrightarrow> list_all Property_wf (SubscribeProperties_props p) \<and>
     sp_subscription_id p \<noteq> Some (VarU32 0)"

lemma SubscribeProperties_arm_eval:
  "v0 \<noteq> VarU32 0 \<Longrightarrow> SubscribeProperties_arm (Property.SubscriptionIdentifier v0) r = Ok (r\<lparr>sp_subscription_id := Some v0\<rparr>)"
  "SubscribeProperties_arm (Property.UserProp v1) r = Ok (r\<lparr>sp_user_properties := sp_user_properties r @ [v1]\<rparr>)"
  by (auto simp: SubscribeProperties_arm_def bool_prop_def PayloadFormat_try_from_def intro: VarU32.expand)

lemmas SubscribeProperties_steps =
  steps_opt_nz [where z = "VarU32 0" and arm = SubscribeProperties_arm and con = Property.SubscriptionIdentifier and upd = sp_subscription_id_update]
  steps_many [where arm = SubscribeProperties_arm and con = Property.UserProp and upd = sp_user_properties_update]

lemma SubscribeProperties_run: "SubscribeProperties_wf p \<Longrightarrow> steps SubscribeProperties_arm (SubscribeProperties_props p) SubscribeProperties_default = Ok p"
  by (cases p) (simp add: SubscribeProperties_props_def SubscribeProperties_wf_def PayloadFormat_default_def SubscribeProperties_steps
      SubscribeProperties_arm_eval)

lemma SubscribeProperties_once: "no_repeat user_prop_only (\<lambda>_. False) (SubscribeProperties_props p)"
  unfolding SubscribeProperties_props_def
  by ((rule no_repeat_opt, simp add: bool_prop_def, simp) | (rule no_repeat_format, simp) |
      (rule no_repeat_many_append, simp add: user_prop_only_def) |
      (rule no_repeat_many, simp add: user_prop_only_def))+

lemma SubscribeProperties_arm_wf: "\<lbrakk>SubscribeProperties_wf r; Property_wf q; SubscribeProperties_arm q r = Ok r'\<rbrakk> \<Longrightarrow> SubscribeProperties_wf r'"
  by (cases q) (auto simp: SubscribeProperties_wf_def SubscribeProperties_props_def SubscribeProperties_arm_def bool_prop_def and_then_eq_Inr
      split: if_splits)

lemma SubscribeProperties_arm_no_panic: "\<not> panics (SubscribeProperties_arm q r)"
  by (cases q) (auto simp: SubscribeProperties_arm_def panics_and_then)

lemma SubscribeProperties_wf_props: "SubscribeProperties_wf p \<Longrightarrow> list_all Property_wf (SubscribeProperties_props p)"
  by (simp add: SubscribeProperties_wf_def)

lemma SubscribeProperties_default_wf: "SubscribeProperties_wf SubscribeProperties_default"
  by (simp add: SubscribeProperties_wf_def SubscribeProperties_props_def PayloadFormat_default_def)

lemma SubscribeProperties_empty_iff: "SubscribeProperties_is_empty p \<longleftrightarrow> SubscribeProperties_props p = []"
  by (auto simp: SubscribeProperties_is_empty_def SubscribeProperties_props_def)

lemma SubscribeProperties_encode_eq: "SubscribeProperties_encode p = encode_props (SubscribeProperties_props p)"
  by (simp add: SubscribeProperties_encode_def SubscribeProperties_props_def encode_props_def enc_set_all enc_all_append and_then_assoc)

interpretation SubPSet: property_set SubscribeProperties_decode SubscribeProperties_encode SubscribeProperties_wf SubscribeProperties_is_empty
  SubscribeProperties_props user_prop_only SubscribeProperties_arm SubscribeProperties_default "\<lambda>r. Ok r" SubscribeProperties_wf
  by unfold_locales
     (auto simp: SubscribeProperties_decode_def SubscribeProperties_encode_eq SubscribeProperties_run SubscribeProperties_once SubscribeProperties_empty_iff SubscribeProperties_default_wf
       SubscribeProperties_arm_no_panic SubscribeProperties_wf_props intro: SubscribeProperties_arm_wf)

section \<open>Facts on the packet\<close>

definition Subscribe_wf :: "Subscribe \<Rightarrow> bool" where
  "Subscribe_wf v \<longleftrightarrow> pred_option SubscribeProperties_wf (sub_properties v) \<and>
     list_all SubscribeFilter_wf (sub_filters v) \<and> Subscribe_validate v = Ok ()"

lemma Subscribe_validate_no_panic [simp]:
  "\<not> panics (Subscribe_validate_filters fs)" "\<not> panics (Subscribe_validate v)"
proof -
  show "\<not> panics (Subscribe_validate_filters fs)" for fs
    by (induction fs) (auto simp: panics_and_then Let_def)
  then show "\<not> panics (Subscribe_validate v)" by (simp add: Subscribe_validate_def)
qed

lemma Subscribe_dec_enc:
  assumes wf: "Subscribe_wf v" and enc: "Subscribe_encode v = Ok b"
  shows "Subscribe_decode (as_ref b @ rest) = Ok (Subscribe_normalize v, length (as_ref b))"
    and "announces {PacketType.Subscribe} (as_ref b) rest"
proof -
  have v: "pred_option SubscribeProperties_wf (sub_properties v)"
    "list_all SubscribeFilter_wf (sub_filters v)" "Subscribe_validate v = Ok ()" "sub_filters v \<noteq> []"
    using wf by (auto simp: Subscribe_wf_def Subscribe_validate_def)
  from enc v(3) obtain ib d d2 where ib: "u16_encode (sub_packet_id v) = Ok ib"
    and d: "enc_opt_props (as_ref ib) SubscribeProperties_encode (sub_properties v) = Ok d"
    and d2: "enc_many SubscribeFilter_encode d (sub_filters v) = Ok d2"
    and fin: "finish_packet FixedHeader_new_subscribe d2 = Ok b"
    by (auto simp: Subscribe_encode_def and_then_eq_Inr extend_slice_Ok)
  from SubPSet.enc_opt_Ok [OF d v(1)] obtain pb where pb: "d = as_ref ib @ pb"
    "\<And>rest. props_here SubscribeProperties_decode (pb @ rest) =
       Ok (norm_props SubscribeProperties_is_empty (sub_properties v), length pb)" by blast
  from SubFilter.enc_many_Ok [OF d2 v(2)] obtain pl where pl: "d2 = d @ pl"
    "dec_many SubscribeFilter_decode pl 0 [] = Ok (sub_filters v)" "pl \<noteq> []" using v(4) by auto
  from finish_packet_Ok [OF fin FixedHeader_new_other_Ok(2)] obtain fh hb where h: "as_ref b = as_ref hb @ d2"
    "FixedHeader_unwrap fh = Ok (PacketType.Subscribe, False, AtLeastOnce, False)"
    "unat (var_u32 (remaining_len fh)) = length d2"
    "\<And>rest. FixedHeader_decode (as_ref hb @ rest) = Ok (fh, length (as_ref hb))" by blast
  have "dec_payload (as_ref b @ rest) fh (length (as_ref hb)) (length (as_ref hb @ as_ref ib @ pb))
      (err ErrorKind.MalformedPacket ReasonCode.MalformedPacket) = Ok (pl, length (as_ref b))"
    using h pl(1,3) pb(1) by (simp add: dec_payload_def slice_def add.assoc)
  moreover have "Subscribe_validate (Subscribe_normalize v) = Ok ()"
    using v(3) by (simp add: Subscribe_validate_def Subscribe_normalize_def split: if_splits)
  moreover have n: "Subscribe_normalize v = \<lparr>sub_packet_id = sub_packet_id v,
      sub_properties = norm_props SubscribeProperties_is_empty (sub_properties v),
      sub_filters = sub_filters v\<rparr>" by (cases v) (simp add: Subscribe_normalize_def)
  ultimately show "Subscribe_decode (as_ref b @ rest) = Ok (Subscribe_normalize v, length (as_ref b))"
    using pb h pl u16.dec_enc [OF TrueI ib]
    by (simp add: Subscribe_decode_def dec_header_eq dec_field_def dec_props_here add.assoc)
  show "announces {PacketType.Subscribe} (as_ref b) rest" by (rule announcesI [OF h(1,2) _ h(3,4)]) simp
qed

lemma Subscribe_decode_Ok:
  assumes "Subscribe_decode s = Ok (v, n)"
  shows "0 < n \<and> n \<le> length s \<and> Subscribe_wf v"
proof -
  from assms obtain fh k m1 m2 pl where d: "FixedHeader_decode s = Ok (fh, k)"
    "dec_field u16_decode s k = Ok (sub_packet_id v, m1)"
    "dec_props SubscribeProperties_decode s m1 = Ok (sub_properties v, m2)"
    "dec_payload s fh k m2 (err ErrorKind.MalformedPacket ReasonCode.MalformedPacket) = Ok (pl, n)"
    "dec_many SubscribeFilter_decode pl 0 [] = Ok (sub_filters v)" "Subscribe_validate v = Ok ()"
    by (cases v) (auto simp: Subscribe_decode_def dec_header_eq and_then_eq_Inr Let_def)
  show ?thesis
    using dec_payload_Ok [OF d(4)] SubPSet.props_bound [OF d(3)] SubFilter.dec_many_wf [OF d(5)] d(6)
    by (auto simp: Subscribe_wf_def)
qed

interpretation SubscribeCodec: packet_closed Subscribe_decode Subscribe_encode Subscribe_wf
    Subscribe_normalize "{PacketType.Subscribe}"
proof (unfold_locales, rule Subscribe_dec_enc, assumption+, rule Subscribe_dec_enc, assumption+)
  show "\<not> panics (Subscribe_decode s)" if "framed s" "FixedHeader_decode s = Ok (fh, k)" for s fh k
    using that framed_len [OF that]
    by (auto simp: Subscribe_decode_def dec_header_eq panics_and_then Let_def u16.field_no_panic
        SubPSet.props_no_panic SubFilter.dec_many_no_panic dec_payload_panics
        dest!: SubPSet.props_bound)
  show "\<not> panics (Subscribe_encode v)" for v
    by (auto simp: Subscribe_encode_def panics_and_then extend_slice_no_panic u16.enc_no_panic
        SubPSet.enc_opt_no_panic SubFilter.enc_many_no_panic finish_packet_no_panic)
  show "Subscribe_normalize (Subscribe_normalize v) = Subscribe_normalize v" for v
    by (auto simp: Subscribe_normalize_def norm_props_def split: option.splits)
qed (use Subscribe_decode_Ok in blast)+

end
