(* ===== verification/V5_SubAck.thy ===== *)
theory V5_SubAck
  imports PacketCodec
begin

text \<open>
  Model of \<open>src/v5/suback.rs\<close>: the reason codes of SUBACK, its properties and the packet. The payload has one code
  for each filter of the SUBSCRIBE it answers.
\<close>

section \<open>Reason codes\<close>

datatype SubAckReasonCode =
    QoS0
  | QoS1
  | QoS2
  | UnspecifiedError
  | ImplementationError
  | NotAuthorized
  | InvalidTopicFilter
  | PacketIdInuse
  | QuotaExceeded
  | SharedSubscriptionsNotSupported
  | SubscriptionIdNotSupported
  | WildcardSubscriptionsNotSupported

primrec SubAckReasonCode_as_u8 :: "SubAckReasonCode \<Rightarrow> u8" where
  "SubAckReasonCode_as_u8 SubAckReasonCode.QoS0 = 0x00"
| "SubAckReasonCode_as_u8 SubAckReasonCode.QoS1 = 0x01"
| "SubAckReasonCode_as_u8 SubAckReasonCode.QoS2 = 0x02"
| "SubAckReasonCode_as_u8 SubAckReasonCode.UnspecifiedError = 0x80"
| "SubAckReasonCode_as_u8 SubAckReasonCode.ImplementationError = 0x83"
| "SubAckReasonCode_as_u8 SubAckReasonCode.NotAuthorized = 0x87"
| "SubAckReasonCode_as_u8 SubAckReasonCode.InvalidTopicFilter = 0x8F"
| "SubAckReasonCode_as_u8 SubAckReasonCode.PacketIdInuse = 0x91"
| "SubAckReasonCode_as_u8 SubAckReasonCode.QuotaExceeded = 0x97"
| "SubAckReasonCode_as_u8 SubAckReasonCode.SharedSubscriptionsNotSupported = 0x9E"
| "SubAckReasonCode_as_u8 SubAckReasonCode.SubscriptionIdNotSupported = 0xA1"
| "SubAckReasonCode_as_u8 SubAckReasonCode.WildcardSubscriptionsNotSupported = 0xA2"

definition SubAckReasonCode_try_from :: "u8 \<Rightarrow> SubAckReasonCode result" where
  "SubAckReasonCode_try_from val =
     (if val = 0x00 then Ok SubAckReasonCode.QoS0
      else if val = 0x01 then Ok SubAckReasonCode.QoS1
      else if val = 0x02 then Ok SubAckReasonCode.QoS2
      else if val = 0x80 then Ok SubAckReasonCode.UnspecifiedError
      else if val = 0x83 then Ok SubAckReasonCode.ImplementationError
      else if val = 0x87 then Ok SubAckReasonCode.NotAuthorized
      else if val = 0x8F then Ok SubAckReasonCode.InvalidTopicFilter
      else if val = 0x91 then Ok SubAckReasonCode.PacketIdInuse
      else if val = 0x97 then Ok SubAckReasonCode.QuotaExceeded
      else if val = 0x9E then Ok SubAckReasonCode.SharedSubscriptionsNotSupported
      else if val = 0xA1 then Ok SubAckReasonCode.SubscriptionIdNotSupported
      else if val = 0xA2 then Ok SubAckReasonCode.WildcardSubscriptionsNotSupported
      else err ErrorKind.MalformedPacket ReasonCode.MalformedPacket)"

section \<open>Properties\<close>

record SubAckProperties =
  sap_reason_string :: "rstring option"
  sap_user_properties :: "UserProperty list"

abbreviation (input) SubAckProperties_default :: SubAckProperties where
  "SubAckProperties_default \<equiv>
     \<lparr>sap_reason_string = None,
      sap_user_properties = []\<rparr>"

text \<open>The match on the property in \<open>decode\<close>.\<close>

definition SubAckProperties_arm :: "Property \<Rightarrow> SubAckProperties \<Rightarrow> SubAckProperties result" where
  "SubAckProperties_arm property props =
     (case property of
        Property.ReasonString val \<Rightarrow> Ok (props\<lparr>sap_reason_string := Some val\<rparr>)
      | Property.UserProp val \<Rightarrow>
          Ok (props\<lparr>sap_user_properties := sap_user_properties props @ [val]\<rparr>)
      | _ \<Rightarrow> bad_prop)"

definition SubAckProperties_decode :: "SubAckProperties decoder" where
  "SubAckProperties_decode stream = props_decode user_prop_only SubAckProperties_arm SubAckProperties_default stream"

definition SubAckProperties_encode :: "SubAckProperties encoder" where
  "SubAckProperties_encode self =
     and_then (enc_prop_opt [] PropertyType.ReasonString String_encode (sap_reason_string self)) (\<lambda>data.
     and_then (enc_user_props data (sap_user_properties self)) finish_props)"

definition SubAckProperties_is_empty :: "SubAckProperties \<Rightarrow> bool" where
  "SubAckProperties_is_empty self \<longleftrightarrow>
     sap_reason_string self = None \<and>
     length (sap_user_properties self) = 0"

section \<open>The packet\<close>

record SubAck =
  sa_packet_id :: u16
  sa_properties :: "SubAckProperties option"
  sa_return_codes :: "SubAckReasonCode list"

definition SubAck_normalize :: "SubAck \<Rightarrow> SubAck" where
  "SubAck_normalize self =
     self\<lparr>sa_properties := norm_props SubAckProperties_is_empty (sa_properties self)\<rparr>"

abbreviation (input) SubAck_validate :: "SubAck \<Rightarrow> unit result" where
  "SubAck_validate self \<equiv> Ok ()"

definition SubAck_decode :: "SubAck decoder" where
  "SubAck_decode stream =
     and_then (dec_header stream) (\<lambda>(fh, fh_len).
     and_then (dec_field u16_decode stream fh_len) (\<lambda>(packet_id, n).
     and_then (dec_props SubAckProperties_decode stream n) (\<lambda>(properties, n).
     and_then (dec_payload stream fh fh_len n
         (err ErrorKind.MalformedPacket ReasonCode.MalformedPacket)) (\<lambda>(payload, n).
     and_then (try_each SubAckReasonCode_try_from payload) (\<lambda>return_codes.
       let val = \<lparr>sa_packet_id = packet_id, sa_properties = properties,
                  sa_return_codes = return_codes\<rparr>
       in and_then (SubAck_validate val) (\<lambda>_. Ok (val, n)))))))"

definition SubAck_encode :: "SubAck encoder" where
  "SubAck_encode self =
     and_then (extend_slice [] (u16_encode (sa_packet_id self))) (\<lambda>data.
     and_then (enc_opt_props data SubAckProperties_encode (sa_properties self)) (\<lambda>data.
       let data = data @ map SubAckReasonCode_as_u8 (sa_return_codes self)
       in finish_packet (FixedHeader_new PacketType.SubAck) data))"

section \<open>Facts on the reason codes and properties\<close>

lemma SubAckReasonCode_try_from_u8 [simp]: "SubAckReasonCode_try_from (SubAckReasonCode_as_u8 c) = Ok c"
  by (cases c) (simp_all add: SubAckReasonCode_try_from_def)

lemma SubAckReasonCode_try_from_no_panic [simp]: "\<not> panics (SubAckReasonCode_try_from v)"
  by (simp add: SubAckReasonCode_try_from_def)

text \<open>The properties of a \<open>SubAckProperties\<close> in the order in which they are sent.\<close>

definition SubAckProperties_props :: "SubAckProperties \<Rightarrow> Property list" where
  "SubAckProperties_props p =
     opt_prop Property.ReasonString (sap_reason_string p) @
     map Property.UserProp (sap_user_properties p)"

definition SubAckProperties_wf :: "SubAckProperties \<Rightarrow> bool" where
  "SubAckProperties_wf p \<longleftrightarrow> list_all Property_wf (SubAckProperties_props p)"

lemma SubAckProperties_arm_eval:
  "SubAckProperties_arm (Property.ReasonString v0) r = Ok (r\<lparr>sap_reason_string := Some v0\<rparr>)"
  "SubAckProperties_arm (Property.UserProp v1) r = Ok (r\<lparr>sap_user_properties := sap_user_properties r @ [v1]\<rparr>)"
  by (auto simp: SubAckProperties_arm_def bool_prop_def PayloadFormat_try_from_def intro: VarU32.expand)

lemmas SubAckProperties_steps =
  steps_opt [where arm = SubAckProperties_arm and con = "Property.ReasonString" and upd = sap_reason_string_update]
  steps_many [where arm = SubAckProperties_arm and con = Property.UserProp and upd = sap_user_properties_update]

lemma SubAckProperties_run: "SubAckProperties_wf p \<Longrightarrow> steps SubAckProperties_arm (SubAckProperties_props p) SubAckProperties_default = Ok p"
  by (cases p) (simp add: SubAckProperties_props_def SubAckProperties_wf_def PayloadFormat_default_def SubAckProperties_steps
      SubAckProperties_arm_eval)

lemma SubAckProperties_once: "no_repeat user_prop_only (\<lambda>_. False) (SubAckProperties_props p)"
  unfolding SubAckProperties_props_def
  by ((rule no_repeat_opt, simp add: bool_prop_def, simp) | (rule no_repeat_format, simp) |
      (rule no_repeat_many_append, simp add: user_prop_only_def) |
      (rule no_repeat_many, simp add: user_prop_only_def))+

lemma SubAckProperties_arm_wf: "\<lbrakk>SubAckProperties_wf r; Property_wf q; SubAckProperties_arm q r = Ok r'\<rbrakk> \<Longrightarrow> SubAckProperties_wf r'"
  by (cases q) (auto simp: SubAckProperties_wf_def SubAckProperties_props_def SubAckProperties_arm_def bool_prop_def and_then_eq_Inr
      split: if_splits)

lemma SubAckProperties_arm_no_panic: "\<not> panics (SubAckProperties_arm q r)"
  by (cases q) (auto simp: SubAckProperties_arm_def panics_and_then)

lemma SubAckProperties_wf_props: "SubAckProperties_wf p \<Longrightarrow> list_all Property_wf (SubAckProperties_props p)"
  by (simp add: SubAckProperties_wf_def)

lemma SubAckProperties_default_wf: "SubAckProperties_wf SubAckProperties_default"
  by (simp add: SubAckProperties_wf_def SubAckProperties_props_def PayloadFormat_default_def)

lemma SubAckProperties_empty_iff: "SubAckProperties_is_empty p \<longleftrightarrow> SubAckProperties_props p = []"
  by (auto simp: SubAckProperties_is_empty_def SubAckProperties_props_def)

lemma SubAckProperties_encode_eq: "SubAckProperties_encode p = encode_props (SubAckProperties_props p)"
  by (simp add: SubAckProperties_encode_def SubAckProperties_props_def encode_props_def enc_set_all enc_all_append and_then_assoc)

interpretation SAckSet: property_set SubAckProperties_decode SubAckProperties_encode SubAckProperties_wf SubAckProperties_is_empty
  SubAckProperties_props user_prop_only SubAckProperties_arm SubAckProperties_default "\<lambda>r. Ok r" SubAckProperties_wf
  by unfold_locales
     (auto simp: SubAckProperties_decode_def SubAckProperties_encode_eq SubAckProperties_run SubAckProperties_once SubAckProperties_empty_iff SubAckProperties_default_wf
       SubAckProperties_arm_no_panic SubAckProperties_wf_props intro: SubAckProperties_arm_wf)

section \<open>Facts on the packet\<close>

definition SubAck_wf :: "SubAck \<Rightarrow> bool" where
  "SubAck_wf v \<longleftrightarrow> pred_option SubAckProperties_wf (sa_properties v) \<and> sa_return_codes v \<noteq> []"

lemma SubAck_dec_enc:
  assumes wf: "SubAck_wf v" and enc: "SubAck_encode v = Ok b"
  shows "SubAck_decode (as_ref b @ rest) = Ok (SubAck_normalize v, length (as_ref b))"
    and "announces {PacketType.SubAck} (as_ref b) rest"
proof -
  have v: "pred_option SubAckProperties_wf (sa_properties v)" "sa_return_codes v \<noteq> []"
    using wf by (auto simp: SubAck_wf_def)
  define pl where "pl = map SubAckReasonCode_as_u8 (sa_return_codes v)"
  from enc obtain ib d where ib: "u16_encode (sa_packet_id v) = Ok ib"
    and d: "enc_opt_props (as_ref ib) SubAckProperties_encode (sa_properties v) = Ok d"
    and fin: "finish_packet (FixedHeader_new PacketType.SubAck) (d @ pl) = Ok b"
    by (auto simp: SubAck_encode_def and_then_eq_Inr extend_slice_Ok pl_def Let_def)
  from SAckSet.enc_opt_Ok [OF d v(1)] obtain pb where pb: "d = as_ref ib @ pb"
    "\<And>rest. props_here SubAckProperties_decode (pb @ rest) =
       Ok (norm_props SubAckProperties_is_empty (sa_properties v), length pb)" by blast
  have pl: "try_each SubAckReasonCode_try_from pl = Ok (sa_return_codes v)" "pl \<noteq> []"
    using v(2) by (simp_all add: pl_def try_each_map)
  from finish_packet_Ok [OF fin FixedHeader_new_Ok] obtain fh hb where h: "as_ref b = as_ref hb @ d @ pl"
    "FixedHeader_unwrap fh = Ok (PacketType.SubAck, False, AtMostOnce, False)"
    "unat (var_u32 (remaining_len fh)) = length (d @ pl)"
    "\<And>rest. FixedHeader_decode (as_ref hb @ rest) = Ok (fh, length (as_ref hb))" by blast
  have "dec_payload (as_ref b @ rest) fh (length (as_ref hb)) (length (as_ref hb @ as_ref ib @ pb))
      (err ErrorKind.MalformedPacket ReasonCode.MalformedPacket) = Ok (pl, length (as_ref b))"
    using h pl(2) pb(1) by (simp add: dec_payload_def slice_def add.assoc)
  moreover have n: "SubAck_normalize v = \<lparr>sa_packet_id = sa_packet_id v,
      sa_properties = norm_props SubAckProperties_is_empty (sa_properties v),
      sa_return_codes = sa_return_codes v\<rparr>" by (cases v) (simp add: SubAck_normalize_def)
  ultimately show "SubAck_decode (as_ref b @ rest) = Ok (SubAck_normalize v, length (as_ref b))"
    using pb h pl u16.dec_enc [OF TrueI ib]
    by (simp add: SubAck_decode_def dec_header_eq dec_field_def dec_props_here
        add.assoc)
  show "announces {PacketType.SubAck} (as_ref b) rest" by (rule announcesI [OF h(1,2) _ h(3,4)]) simp
qed

lemma SubAck_decode_Ok:
  assumes "SubAck_decode s = Ok (v, n)"
  shows "0 < n \<and> n \<le> length s \<and> SubAck_wf v"
proof -
  from assms obtain fh k m1 m2 pl where d: "FixedHeader_decode s = Ok (fh, k)"
    "dec_props SubAckProperties_decode s m1 = Ok (sa_properties v, m2)"
    "dec_payload s fh k m2 (err ErrorKind.MalformedPacket ReasonCode.MalformedPacket) = Ok (pl, n)"
    "try_each SubAckReasonCode_try_from pl = Ok (sa_return_codes v)"
    by (cases v) (auto simp: SubAck_decode_def dec_header_eq and_then_eq_Inr Let_def)
  show ?thesis
    using dec_payload_Ok [OF d(3)] SAckSet.props_bound [OF d(2)] try_each_length [OF d(4)]
    by (auto simp: SubAck_wf_def)
qed

interpretation SubAckCodec: packet_closed SubAck_decode SubAck_encode SubAck_wf SubAck_normalize "{PacketType.SubAck}"
proof (unfold_locales, rule SubAck_dec_enc, assumption+, rule SubAck_dec_enc, assumption+)
  show "\<not> panics (SubAck_decode s)" if "framed s" "FixedHeader_decode s = Ok (fh, k)" for s fh k
    using that framed_len [OF that]
    by (auto simp: SubAck_decode_def dec_header_eq panics_and_then Let_def u16.field_no_panic
        SAckSet.props_no_panic try_each_no_panic dec_payload_panics
        dest!: SAckSet.props_bound)
  show "\<not> panics (SubAck_encode v)" for v
    by (auto simp: SubAck_encode_def panics_and_then extend_slice_no_panic u16.enc_no_panic
        SAckSet.enc_opt_no_panic finish_packet_no_panic Let_def)
  show "SubAck_normalize (SubAck_normalize v) = SubAck_normalize v" for v
    by (auto simp: SubAck_normalize_def norm_props_def split: option.splits)
qed (use SubAck_decode_Ok in blast)+

end
