(* ===== verification/V5_Unsub.thy ===== *)
theory V5_Unsub
  imports PacketCodec
begin

text \<open>
  Model of \<open>src/v5/unsub.rs\<close>: the UNSUBSCRIBE packet, a list of topic filters.
\<close>

section \<open>Properties\<close>

record UnSubscribeProperties =
  usp_user_properties :: "UserProperty list"

abbreviation (input) UnSubscribeProperties_default :: UnSubscribeProperties where
  "UnSubscribeProperties_default \<equiv>
     \<lparr>usp_user_properties = []\<rparr>"

text \<open>The match on the property in \<open>decode\<close>.\<close>

definition UnSubscribeProperties_arm :: "Property \<Rightarrow> UnSubscribeProperties \<Rightarrow> UnSubscribeProperties result" where
  "UnSubscribeProperties_arm property props =
     (case property of
        Property.UserProp val \<Rightarrow>
          Ok (props\<lparr>usp_user_properties := usp_user_properties props @ [val]\<rparr>)
      | _ \<Rightarrow> bad_prop)"

definition UnSubscribeProperties_decode :: "UnSubscribeProperties decoder" where
  "UnSubscribeProperties_decode stream = props_decode user_prop_only UnSubscribeProperties_arm UnSubscribeProperties_default stream"

definition UnSubscribeProperties_encode :: "UnSubscribeProperties encoder" where
  "UnSubscribeProperties_encode self =
     and_then (enc_user_props [] (usp_user_properties self)) finish_props"

definition UnSubscribeProperties_is_empty :: "UnSubscribeProperties \<Rightarrow> bool" where
  "UnSubscribeProperties_is_empty self \<longleftrightarrow>
     length (usp_user_properties self) = 0"

section \<open>The packet\<close>

record UnSubscribe =
  usub_packet_id :: u16
  usub_properties :: "UnSubscribeProperties option"
  usub_filters :: "TopicFilter list"

definition UnSubscribe_validate :: "UnSubscribe \<Rightarrow> unit result" where
  "UnSubscribe_validate self =
     (if length (usub_filters self) = 0 then err ErrorKind.ProtocolError ReasonCode.ProtocolError
      else Ok ())"

definition UnSubscribe_normalize :: "UnSubscribe \<Rightarrow> UnSubscribe" where
  "UnSubscribe_normalize self =
     self\<lparr>usub_properties := norm_props UnSubscribeProperties_is_empty (usub_properties self)\<rparr>"

definition UnSubscribe_decode :: "UnSubscribe decoder" where
  "UnSubscribe_decode stream =
     and_then (dec_header stream) (\<lambda>(fh, fh_len).
     and_then (dec_field u16_decode stream fh_len) (\<lambda>(packet_id, n).
     and_then (dec_props UnSubscribeProperties_decode stream n) (\<lambda>(properties, n).
     and_then (dec_payload stream fh fh_len n
         (err ErrorKind.ProtocolError ReasonCode.ProtocolError)) (\<lambda>(payload, n).
     and_then (dec_many TopicFilter_decode payload 0 []) (\<lambda>filters.
       let val = \<lparr>usub_packet_id = packet_id, usub_properties = properties, usub_filters = filters\<rparr>
       in and_then (UnSubscribe_validate val) (\<lambda>_. Ok (val, n)))))))"

definition UnSubscribe_encode :: "UnSubscribe encoder" where
  "UnSubscribe_encode self =
     and_then (extend_slice [] (u16_encode (usub_packet_id self))) (\<lambda>data.
     and_then (enc_opt_props data UnSubscribeProperties_encode (usub_properties self)) (\<lambda>data.
     and_then (enc_many TopicFilter_encode data (usub_filters self)) (\<lambda>data.
     finish_packet FixedHeader_new_unsubscribe data)))"

section \<open>Facts on the properties\<close>

text \<open>The properties of a \<open>UnSubscribeProperties\<close> in the order in which they are sent.\<close>

definition UnSubscribeProperties_props :: "UnSubscribeProperties \<Rightarrow> Property list" where
  "UnSubscribeProperties_props p =
     map Property.UserProp (usp_user_properties p)"

definition UnSubscribeProperties_wf :: "UnSubscribeProperties \<Rightarrow> bool" where
  "UnSubscribeProperties_wf p \<longleftrightarrow> list_all Property_wf (UnSubscribeProperties_props p)"

lemma UnSubscribeProperties_arm_eval:
  "UnSubscribeProperties_arm (Property.UserProp v0) r = Ok (r\<lparr>usp_user_properties := usp_user_properties r @ [v0]\<rparr>)"
  by (auto simp: UnSubscribeProperties_arm_def bool_prop_def PayloadFormat_try_from_def intro: VarU32.expand)

lemmas UnSubscribeProperties_steps =
  steps_many [where arm = UnSubscribeProperties_arm and con = Property.UserProp and upd = usp_user_properties_update]

lemma UnSubscribeProperties_run: "UnSubscribeProperties_wf p \<Longrightarrow> steps UnSubscribeProperties_arm (UnSubscribeProperties_props p) UnSubscribeProperties_default = Ok p"
  by (cases p) (simp add: UnSubscribeProperties_props_def UnSubscribeProperties_wf_def PayloadFormat_default_def UnSubscribeProperties_steps
      UnSubscribeProperties_arm_eval)

lemma UnSubscribeProperties_once: "no_repeat user_prop_only (\<lambda>_. False) (UnSubscribeProperties_props p)"
  unfolding UnSubscribeProperties_props_def
  by (rule no_repeat_many) (simp add: user_prop_only_def)

lemma UnSubscribeProperties_arm_wf: "\<lbrakk>UnSubscribeProperties_wf r; Property_wf q; UnSubscribeProperties_arm q r = Ok r'\<rbrakk> \<Longrightarrow> UnSubscribeProperties_wf r'"
  by (cases q) (auto simp: UnSubscribeProperties_wf_def UnSubscribeProperties_props_def UnSubscribeProperties_arm_def bool_prop_def and_then_eq_Inr
      split: if_splits)

lemma UnSubscribeProperties_arm_no_panic: "\<not> panics (UnSubscribeProperties_arm q r)"
  by (cases q) (auto simp: UnSubscribeProperties_arm_def panics_and_then)

lemma UnSubscribeProperties_wf_props: "UnSubscribeProperties_wf p \<Longrightarrow> list_all Property_wf (UnSubscribeProperties_props p)"
  by (simp add: UnSubscribeProperties_wf_def)

lemma UnSubscribeProperties_default_wf: "UnSubscribeProperties_wf UnSubscribeProperties_default"
  by (simp add: UnSubscribeProperties_wf_def UnSubscribeProperties_props_def PayloadFormat_default_def)

lemma UnSubscribeProperties_empty_iff: "UnSubscribeProperties_is_empty p \<longleftrightarrow> UnSubscribeProperties_props p = []"
  by (auto simp: UnSubscribeProperties_is_empty_def UnSubscribeProperties_props_def)

lemma UnSubscribeProperties_encode_eq: "UnSubscribeProperties_encode p = encode_props (UnSubscribeProperties_props p)"
  by (simp add: UnSubscribeProperties_encode_def UnSubscribeProperties_props_def encode_props_def enc_set_all enc_all_append and_then_assoc)

interpretation UnsubPSet: property_set UnSubscribeProperties_decode UnSubscribeProperties_encode UnSubscribeProperties_wf UnSubscribeProperties_is_empty
  UnSubscribeProperties_props user_prop_only UnSubscribeProperties_arm UnSubscribeProperties_default "\<lambda>r. Ok r" UnSubscribeProperties_wf
  by unfold_locales
     (auto simp: UnSubscribeProperties_decode_def UnSubscribeProperties_encode_eq UnSubscribeProperties_run UnSubscribeProperties_once UnSubscribeProperties_empty_iff UnSubscribeProperties_default_wf
       UnSubscribeProperties_arm_no_panic UnSubscribeProperties_wf_props intro: UnSubscribeProperties_arm_wf)

section \<open>Facts on the packet\<close>

definition UnSubscribe_wf :: "UnSubscribe \<Rightarrow> bool" where
  "UnSubscribe_wf v \<longleftrightarrow> pred_option UnSubscribeProperties_wf (usub_properties v) \<and>
     list_all (\<lambda>f. valid_utf8 (topic_filter f)) (usub_filters v) \<and> UnSubscribe_validate v = Ok ()"

lemma UnSubscribe_validate_no_panic [simp]: "\<not> panics (UnSubscribe_validate v)"
  by (simp add: UnSubscribe_validate_def)

lemma UnSubscribe_dec_enc:
  assumes wf: "UnSubscribe_wf v" and enc: "UnSubscribe_encode v = Ok b"
  shows "UnSubscribe_decode (as_ref b @ rest) = Ok (UnSubscribe_normalize v, length (as_ref b))"
    and "announces {PacketType.UnSubscribe} (as_ref b) rest"
proof -
  have v: "pred_option UnSubscribeProperties_wf (usub_properties v)"
    "list_all (\<lambda>f. valid_utf8 (topic_filter f)) (usub_filters v)" "UnSubscribe_validate v = Ok ()" "usub_filters v \<noteq> []"
    using wf by (auto simp: UnSubscribe_wf_def UnSubscribe_validate_def)
  from enc v(3) obtain ib d d2 where ib: "u16_encode (usub_packet_id v) = Ok ib"
    and d: "enc_opt_props (as_ref ib) UnSubscribeProperties_encode (usub_properties v) = Ok d"
    and d2: "enc_many TopicFilter_encode d (usub_filters v) = Ok d2"
    and fin: "finish_packet FixedHeader_new_unsubscribe d2 = Ok b"
    by (auto simp: UnSubscribe_encode_def and_then_eq_Inr extend_slice_Ok)
  from UnsubPSet.enc_opt_Ok [OF d v(1)] obtain pb where pb: "d = as_ref ib @ pb"
    "\<And>rest. props_here UnSubscribeProperties_decode (pb @ rest) =
       Ok (norm_props UnSubscribeProperties_is_empty (usub_properties v), length pb)" by blast
  from Filter.enc_many_Ok [OF d2 v(2)] obtain pl where pl: "d2 = d @ pl"
    "dec_many TopicFilter_decode pl 0 [] = Ok (usub_filters v)" "pl \<noteq> []" using v(4) by auto
  from finish_packet_Ok [OF fin FixedHeader_new_other_Ok(3)] obtain fh hb where h: "as_ref b = as_ref hb @ d2"
    "FixedHeader_unwrap fh = Ok (PacketType.UnSubscribe, False, AtLeastOnce, False)"
    "unat (var_u32 (remaining_len fh)) = length d2"
    "\<And>rest. FixedHeader_decode (as_ref hb @ rest) = Ok (fh, length (as_ref hb))" by blast
  have "dec_payload (as_ref b @ rest) fh (length (as_ref hb)) (length (as_ref hb @ as_ref ib @ pb))
      (err ErrorKind.ProtocolError ReasonCode.ProtocolError) = Ok (pl, length (as_ref b))"
    using h pl(1,3) pb(1) by (simp add: dec_payload_def slice_def add.assoc)
  moreover have "UnSubscribe_validate (UnSubscribe_normalize v) = Ok ()"
    using v(3) by (simp add: UnSubscribe_validate_def UnSubscribe_normalize_def split: if_splits)
  moreover have n: "UnSubscribe_normalize v = \<lparr>usub_packet_id = usub_packet_id v,
      usub_properties = norm_props UnSubscribeProperties_is_empty (usub_properties v),
      usub_filters = usub_filters v\<rparr>" by (cases v) (simp add: UnSubscribe_normalize_def)
  ultimately show "UnSubscribe_decode (as_ref b @ rest) = Ok (UnSubscribe_normalize v, length (as_ref b))"
    using pb h pl u16.dec_enc [OF TrueI ib]
    by (simp add: UnSubscribe_decode_def dec_header_eq dec_field_def dec_props_here add.assoc)
  show "announces {PacketType.UnSubscribe} (as_ref b) rest" by (rule announcesI [OF h(1,2) _ h(3,4)]) simp
qed

lemma UnSubscribe_decode_Ok:
  assumes "UnSubscribe_decode s = Ok (v, n)"
  shows "0 < n \<and> n \<le> length s \<and> UnSubscribe_wf v"
proof -
  from assms obtain fh k m1 m2 pl where d: "FixedHeader_decode s = Ok (fh, k)"
    "dec_field u16_decode s k = Ok (usub_packet_id v, m1)"
    "dec_props UnSubscribeProperties_decode s m1 = Ok (usub_properties v, m2)"
    "dec_payload s fh k m2 (err ErrorKind.ProtocolError ReasonCode.ProtocolError) = Ok (pl, n)"
    "dec_many TopicFilter_decode pl 0 [] = Ok (usub_filters v)" "UnSubscribe_validate v = Ok ()"
    by (cases v) (auto simp: UnSubscribe_decode_def dec_header_eq and_then_eq_Inr Let_def)
  show ?thesis
    using dec_payload_Ok [OF d(4)] UnsubPSet.props_bound [OF d(3)] Filter.dec_many_wf [OF d(5)] d(6)
    by (auto simp: UnSubscribe_wf_def)
qed

interpretation UnSubscribeCodec: packet_closed UnSubscribe_decode UnSubscribe_encode UnSubscribe_wf
    UnSubscribe_normalize "{PacketType.UnSubscribe}"
proof (unfold_locales, rule UnSubscribe_dec_enc, assumption+, rule UnSubscribe_dec_enc, assumption+)
  show "\<not> panics (UnSubscribe_decode s)" if "framed s" "FixedHeader_decode s = Ok (fh, k)" for s fh k
    using that framed_len [OF that]
    by (auto simp: UnSubscribe_decode_def dec_header_eq panics_and_then Let_def u16.field_no_panic
        UnsubPSet.props_no_panic Filter.dec_many_no_panic dec_payload_panics
        dest!: UnsubPSet.props_bound)
  show "\<not> panics (UnSubscribe_encode v)" for v
    by (auto simp: UnSubscribe_encode_def panics_and_then extend_slice_no_panic u16.enc_no_panic
        UnsubPSet.enc_opt_no_panic Filter.enc_many_no_panic finish_packet_no_panic)
  show "UnSubscribe_normalize (UnSubscribe_normalize v) = UnSubscribe_normalize v" for v
    by (auto simp: UnSubscribe_normalize_def norm_props_def split: option.splits)
qed (use UnSubscribe_decode_Ok in blast)+

end
