(* ===== verification/V5_UnsubAck.thy ===== *)
theory V5_UnsubAck
  imports PacketCodec
begin

text \<open>
  Model of \<open>src/v5/unsuback.rs\<close>: the reason codes of UNSUBACK, its properties and the packet. The payload has one code
  for each filter of the UNSUBSCRIBE it answers.
\<close>

section \<open>Reason codes\<close>

datatype UnsubAckReasonCode =
    QoS0
  | NoSubscriptionExisted
  | UnspecifiedError
  | ImplementationError
  | NotAuthorized
  | InvalidTopicFilter
  | PacketIdInuse

primrec UnsubAckReasonCode_as_u8 :: "UnsubAckReasonCode \<Rightarrow> u8" where
  "UnsubAckReasonCode_as_u8 UnsubAckReasonCode.QoS0 = 0x00"
| "UnsubAckReasonCode_as_u8 UnsubAckReasonCode.NoSubscriptionExisted = 0x11"
| "UnsubAckReasonCode_as_u8 UnsubAckReasonCode.UnspecifiedError = 0x80"
| "UnsubAckReasonCode_as_u8 UnsubAckReasonCode.ImplementationError = 0x83"
| "UnsubAckReasonCode_as_u8 UnsubAckReasonCode.NotAuthorized = 0x87"
| "UnsubAckReasonCode_as_u8 UnsubAckReasonCode.InvalidTopicFilter = 0x8F"
| "UnsubAckReasonCode_as_u8 UnsubAckReasonCode.PacketIdInuse = 0x91"

definition UnsubAckReasonCode_try_from :: "u8 \<Rightarrow> UnsubAckReasonCode result" where
  "UnsubAckReasonCode_try_from val =
     (if val = 0x00 then Ok UnsubAckReasonCode.QoS0
      else if val = 0x11 then Ok UnsubAckReasonCode.NoSubscriptionExisted
      else if val = 0x80 then Ok UnsubAckReasonCode.UnspecifiedError
      else if val = 0x83 then Ok UnsubAckReasonCode.ImplementationError
      else if val = 0x87 then Ok UnsubAckReasonCode.NotAuthorized
      else if val = 0x8F then Ok UnsubAckReasonCode.InvalidTopicFilter
      else if val = 0x91 then Ok UnsubAckReasonCode.PacketIdInuse
      else err ErrorKind.MalformedPacket ReasonCode.MalformedPacket)"

section \<open>Properties\<close>

record UnsubAckProperties =
  uap_reason_string :: "rstring option"
  uap_user_properties :: "UserProperty list"

abbreviation (input) UnsubAckProperties_default :: UnsubAckProperties where
  "UnsubAckProperties_default \<equiv>
     \<lparr>uap_reason_string = None,
      uap_user_properties = []\<rparr>"

text \<open>The match on the property in \<open>decode\<close>.\<close>

definition UnsubAckProperties_arm :: "Property \<Rightarrow> UnsubAckProperties \<Rightarrow> UnsubAckProperties result" where
  "UnsubAckProperties_arm property props =
     (case property of
        Property.ReasonString val \<Rightarrow> Ok (props\<lparr>uap_reason_string := Some val\<rparr>)
      | Property.UserProp val \<Rightarrow>
          Ok (props\<lparr>uap_user_properties := uap_user_properties props @ [val]\<rparr>)
      | _ \<Rightarrow> bad_prop)"

definition UnsubAckProperties_decode :: "UnsubAckProperties decoder" where
  "UnsubAckProperties_decode stream = props_decode user_prop_only UnsubAckProperties_arm UnsubAckProperties_default stream"

definition UnsubAckProperties_encode :: "UnsubAckProperties encoder" where
  "UnsubAckProperties_encode self =
     and_then (enc_prop_opt [] PropertyType.ReasonString String_encode (uap_reason_string self)) (\<lambda>data.
     and_then (enc_user_props data (uap_user_properties self)) finish_props)"

definition UnsubAckProperties_is_empty :: "UnsubAckProperties \<Rightarrow> bool" where
  "UnsubAckProperties_is_empty self \<longleftrightarrow>
     uap_reason_string self = None \<and>
     length (uap_user_properties self) = 0"

section \<open>The packet\<close>

record UnsubAck =
  ua_packet_id :: u16
  ua_properties :: "UnsubAckProperties option"
  ua_return_codes :: "UnsubAckReasonCode list"

definition UnsubAck_normalize :: "UnsubAck \<Rightarrow> UnsubAck" where
  "UnsubAck_normalize self =
     self\<lparr>ua_properties := norm_props UnsubAckProperties_is_empty (ua_properties self)\<rparr>"

abbreviation (input) UnsubAck_validate :: "UnsubAck \<Rightarrow> unit result" where
  "UnsubAck_validate self \<equiv> Ok ()"

definition UnsubAck_decode :: "UnsubAck decoder" where
  "UnsubAck_decode stream =
     and_then (dec_header stream) (\<lambda>(fh, fh_len).
     and_then (dec_field u16_decode stream fh_len) (\<lambda>(packet_id, n).
     and_then (dec_props UnsubAckProperties_decode stream n) (\<lambda>(properties, n).
     and_then (dec_payload stream fh fh_len n
         (err ErrorKind.MalformedPacket ReasonCode.MalformedPacket)) (\<lambda>(payload, n).
     and_then (try_each UnsubAckReasonCode_try_from payload) (\<lambda>return_codes.
       let val = \<lparr>ua_packet_id = packet_id, ua_properties = properties,
                  ua_return_codes = return_codes\<rparr>
       in and_then (UnsubAck_validate val) (\<lambda>_. Ok (val, n)))))))"

definition UnsubAck_encode :: "UnsubAck encoder" where
  "UnsubAck_encode self =
     and_then (extend_slice [] (u16_encode (ua_packet_id self))) (\<lambda>data.
     and_then (enc_opt_props data UnsubAckProperties_encode (ua_properties self)) (\<lambda>data.
       let data = data @ map UnsubAckReasonCode_as_u8 (ua_return_codes self)
       in finish_packet (FixedHeader_new PacketType.UnsubAck) data))"

section \<open>Facts on the reason codes and properties\<close>

lemma UnsubAckReasonCode_try_from_u8 [simp]: "UnsubAckReasonCode_try_from (UnsubAckReasonCode_as_u8 c) = Ok c"
  by (cases c) (simp_all add: UnsubAckReasonCode_try_from_def)

lemma UnsubAckReasonCode_try_from_no_panic [simp]: "\<not> panics (UnsubAckReasonCode_try_from v)"
  by (simp add: UnsubAckReasonCode_try_from_def)

text \<open>The properties of a \<open>UnsubAckProperties\<close> in the order in which they are sent.\<close>

definition UnsubAckProperties_props :: "UnsubAckProperties \<Rightarrow> Property list" where
  "UnsubAckProperties_props p =
     opt_prop Property.ReasonString (uap_reason_string p) @
     map Property.UserProp (uap_user_properties p)"

definition UnsubAckProperties_wf :: "UnsubAckProperties \<Rightarrow> bool" where
  "UnsubAckProperties_wf p \<longleftrightarrow> list_all Property_wf (UnsubAckProperties_props p)"

lemma UnsubAckProperties_arm_eval:
  "UnsubAckProperties_arm (Property.ReasonString v0) r = Ok (r\<lparr>uap_reason_string := Some v0\<rparr>)"
  "UnsubAckProperties_arm (Property.UserProp v1) r = Ok (r\<lparr>uap_user_properties := uap_user_properties r @ [v1]\<rparr>)"
  by (auto simp: UnsubAckProperties_arm_def bool_prop_def PayloadFormat_try_from_def intro: VarU32.expand)

lemmas UnsubAckProperties_steps =
  steps_opt [where arm = UnsubAckProperties_arm and con = "Property.ReasonString" and upd = uap_reason_string_update]
  steps_many [where arm = UnsubAckProperties_arm and con = Property.UserProp and upd = uap_user_properties_update]

lemma UnsubAckProperties_run: "UnsubAckProperties_wf p \<Longrightarrow> steps UnsubAckProperties_arm (UnsubAckProperties_props p) UnsubAckProperties_default = Ok p"
  by (cases p) (simp add: UnsubAckProperties_props_def UnsubAckProperties_wf_def PayloadFormat_default_def UnsubAckProperties_steps
      UnsubAckProperties_arm_eval)

lemma UnsubAckProperties_once: "no_repeat user_prop_only (\<lambda>_. False) (UnsubAckProperties_props p)"
  unfolding UnsubAckProperties_props_def
  by ((rule no_repeat_opt, simp add: bool_prop_def, simp) | (rule no_repeat_format, simp) |
      (rule no_repeat_many_append, simp add: user_prop_only_def) |
      (rule no_repeat_many, simp add: user_prop_only_def))+

lemma UnsubAckProperties_arm_wf: "\<lbrakk>UnsubAckProperties_wf r; Property_wf q; UnsubAckProperties_arm q r = Ok r'\<rbrakk> \<Longrightarrow> UnsubAckProperties_wf r'"
  by (cases q) (auto simp: UnsubAckProperties_wf_def UnsubAckProperties_props_def UnsubAckProperties_arm_def bool_prop_def and_then_eq_Inr
      split: if_splits)

lemma UnsubAckProperties_arm_no_panic: "\<not> panics (UnsubAckProperties_arm q r)"
  by (cases q) (auto simp: UnsubAckProperties_arm_def panics_and_then)

lemma UnsubAckProperties_wf_props: "UnsubAckProperties_wf p \<Longrightarrow> list_all Property_wf (UnsubAckProperties_props p)"
  by (simp add: UnsubAckProperties_wf_def)

lemma UnsubAckProperties_default_wf: "UnsubAckProperties_wf UnsubAckProperties_default"
  by (simp add: UnsubAckProperties_wf_def UnsubAckProperties_props_def PayloadFormat_default_def)

lemma UnsubAckProperties_empty_iff: "UnsubAckProperties_is_empty p \<longleftrightarrow> UnsubAckProperties_props p = []"
  by (auto simp: UnsubAckProperties_is_empty_def UnsubAckProperties_props_def)

lemma UnsubAckProperties_encode_eq: "UnsubAckProperties_encode p = encode_props (UnsubAckProperties_props p)"
  by (simp add: UnsubAckProperties_encode_def UnsubAckProperties_props_def encode_props_def enc_set_all enc_all_append and_then_assoc)

interpretation UAckSet: property_set UnsubAckProperties_decode UnsubAckProperties_encode UnsubAckProperties_wf UnsubAckProperties_is_empty
  UnsubAckProperties_props user_prop_only UnsubAckProperties_arm UnsubAckProperties_default "\<lambda>r. Ok r" UnsubAckProperties_wf
  by unfold_locales
     (auto simp: UnsubAckProperties_decode_def UnsubAckProperties_encode_eq UnsubAckProperties_run UnsubAckProperties_once UnsubAckProperties_empty_iff UnsubAckProperties_default_wf
       UnsubAckProperties_arm_no_panic UnsubAckProperties_wf_props intro: UnsubAckProperties_arm_wf)

section \<open>Facts on the packet\<close>

definition UnsubAck_wf :: "UnsubAck \<Rightarrow> bool" where
  "UnsubAck_wf v \<longleftrightarrow> pred_option UnsubAckProperties_wf (ua_properties v) \<and> ua_return_codes v \<noteq> []"

lemma UnsubAck_dec_enc:
  assumes wf: "UnsubAck_wf v" and enc: "UnsubAck_encode v = Ok b"
  shows "UnsubAck_decode (as_ref b @ rest) = Ok (UnsubAck_normalize v, length (as_ref b))"
    and "announces {PacketType.UnsubAck} (as_ref b) rest"
proof -
  have v: "pred_option UnsubAckProperties_wf (ua_properties v)" "ua_return_codes v \<noteq> []"
    using wf by (auto simp: UnsubAck_wf_def)
  define pl where "pl = map UnsubAckReasonCode_as_u8 (ua_return_codes v)"
  from enc obtain ib d where ib: "u16_encode (ua_packet_id v) = Ok ib"
    and d: "enc_opt_props (as_ref ib) UnsubAckProperties_encode (ua_properties v) = Ok d"
    and fin: "finish_packet (FixedHeader_new PacketType.UnsubAck) (d @ pl) = Ok b"
    by (auto simp: UnsubAck_encode_def and_then_eq_Inr extend_slice_Ok pl_def Let_def)
  from UAckSet.enc_opt_Ok [OF d v(1)] obtain pb where pb: "d = as_ref ib @ pb"
    "\<And>rest. props_here UnsubAckProperties_decode (pb @ rest) =
       Ok (norm_props UnsubAckProperties_is_empty (ua_properties v), length pb)" by blast
  have pl: "try_each UnsubAckReasonCode_try_from pl = Ok (ua_return_codes v)" "pl \<noteq> []"
    using v(2) by (simp_all add: pl_def try_each_map)
  from finish_packet_Ok [OF fin FixedHeader_new_Ok] obtain fh hb where h: "as_ref b = as_ref hb @ d @ pl"
    "FixedHeader_unwrap fh = Ok (PacketType.UnsubAck, False, AtMostOnce, False)"
    "unat (var_u32 (remaining_len fh)) = length (d @ pl)"
    "\<And>rest. FixedHeader_decode (as_ref hb @ rest) = Ok (fh, length (as_ref hb))" by blast
  have "dec_payload (as_ref b @ rest) fh (length (as_ref hb)) (length (as_ref hb @ as_ref ib @ pb))
      (err ErrorKind.MalformedPacket ReasonCode.MalformedPacket) = Ok (pl, length (as_ref b))"
    using h pl(2) pb(1) by (simp add: dec_payload_def slice_def add.assoc)
  moreover have n: "UnsubAck_normalize v = \<lparr>ua_packet_id = ua_packet_id v,
      ua_properties = norm_props UnsubAckProperties_is_empty (ua_properties v),
      ua_return_codes = ua_return_codes v\<rparr>" by (cases v) (simp add: UnsubAck_normalize_def)
  ultimately show "UnsubAck_decode (as_ref b @ rest) = Ok (UnsubAck_normalize v, length (as_ref b))"
    using pb h pl u16.dec_enc [OF TrueI ib]
    by (simp add: UnsubAck_decode_def dec_header_eq dec_field_def dec_props_here
        add.assoc)
  show "announces {PacketType.UnsubAck} (as_ref b) rest" by (rule announcesI [OF h(1,2) _ h(3,4)]) simp
qed

lemma UnsubAck_decode_Ok:
  assumes "UnsubAck_decode s = Ok (v, n)"
  shows "0 < n \<and> n \<le> length s \<and> UnsubAck_wf v"
proof -
  from assms obtain fh k m1 m2 pl where d: "FixedHeader_decode s = Ok (fh, k)"
    "dec_props UnsubAckProperties_decode s m1 = Ok (ua_properties v, m2)"
    "dec_payload s fh k m2 (err ErrorKind.MalformedPacket ReasonCode.MalformedPacket) = Ok (pl, n)"
    "try_each UnsubAckReasonCode_try_from pl = Ok (ua_return_codes v)"
    by (cases v) (auto simp: UnsubAck_decode_def dec_header_eq and_then_eq_Inr Let_def)
  show ?thesis
    using dec_payload_Ok [OF d(3)] UAckSet.props_bound [OF d(2)] try_each_length [OF d(4)]
    by (auto simp: UnsubAck_wf_def)
qed

interpretation UnsubAckCodec: packet_closed UnsubAck_decode UnsubAck_encode UnsubAck_wf UnsubAck_normalize "{PacketType.UnsubAck}"
proof (unfold_locales, rule UnsubAck_dec_enc, assumption+, rule UnsubAck_dec_enc, assumption+)
  show "\<not> panics (UnsubAck_decode s)" if "framed s" "FixedHeader_decode s = Ok (fh, k)" for s fh k
    using that framed_len [OF that]
    by (auto simp: UnsubAck_decode_def dec_header_eq panics_and_then Let_def u16.field_no_panic
        UAckSet.props_no_panic try_each_no_panic dec_payload_panics
        dest!: UAckSet.props_bound)
  show "\<not> panics (UnsubAck_encode v)" for v
    by (auto simp: UnsubAck_encode_def panics_and_then extend_slice_no_panic u16.enc_no_panic
        UAckSet.enc_opt_no_panic finish_packet_no_panic Let_def)
  show "UnsubAck_normalize (UnsubAck_normalize v) = UnsubAck_normalize v" for v
    by (auto simp: UnsubAck_normalize_def norm_props_def split: option.splits)
qed (use UnsubAck_decode_Ok in blast)+

end
