(* ===== verification/V5_Ping.thy ===== *)
theory V5_Ping
  imports PacketCodec
begin

text \<open>
  Model of \<open>src/v5/ping.rs\<close>: PINGREQ and PINGRESP, which are a fixed header and nothing else.
\<close>

section \<open>The packets\<close>

datatype PingReq = PingReq

datatype PingResp = PingResp

definition PingReq_decode :: "PingReq decoder" where
  "PingReq_decode stream = and_then (dec_header stream) (\<lambda>(fh, n). Ok (PingReq.PingReq, n))"

definition PingReq_encode :: "PingReq encoder" where
  "PingReq_encode self =
     and_then (FixedHeader_new PacketType.PingReq (VarU32 0)) (\<lambda>fh.
     and_then (FixedHeader_encode fh) (\<lambda>b.
     and_then (copy_from_slice zeros 0 2 (as_ref b)) (\<lambda>data.
     Ok (Small data 2))))"

definition PingResp_decode :: "PingResp decoder" where
  "PingResp_decode stream = and_then (dec_header stream) (\<lambda>(fh, n). Ok (PingResp.PingResp, n))"

definition PingResp_encode :: "PingResp encoder" where
  "PingResp_encode self =
     and_then (FixedHeader_new PacketType.PingResp (VarU32 0)) (\<lambda>fh.
     and_then (FixedHeader_encode fh) (\<lambda>b.
     and_then (copy_from_slice zeros 0 2 (as_ref b)) (\<lambda>data.
     Ok (Small data 2))))"

section \<open>Facts\<close>

lemma VarU32_encode_0: "\<exists>b. VarU32_encode (VarU32 0) = Ok b \<and> as_ref b = [0]"
  by (simp add: VarU32_encode_def VarU32_MAX_def VarU32_loop.simps copy_from_slice_def)

text \<open>What both encoders write: a header of two bytes.\<close>

lemma ping_encode:
  assumes "FixedHeader_new t (VarU32 0) = Ok fh"
  shows "\<exists>b. and_then (FixedHeader_encode fh) (\<lambda>b. and_then (copy_from_slice zeros 0 2 (as_ref b))
      (\<lambda>data. Ok (Small data 2))) = Ok b \<and> as_ref b = [byte1 fh, 0] \<and>
      FixedHeader_decode (as_ref b @ rest) = Ok (fh, 2)"
proof -
  note f = FixedHeader_new_Ok [OF assms]
  obtain r where r: "VarU32_encode (VarU32 0) = Ok r" "as_ref r = [0]" using VarU32_encode_0 by blast
  have e: "FixedHeader_encode fh = Ok (Small (byte1 fh # 0 # replicate 30 0) 2)"
    using FixedHeader_encode_eq [of fh r] f r by simp
  have "FixedHeader_decode ([byte1 fh, 0] @ rest) = Ok (fh, 2)"
    using Header.dec_enc [OF _ e, of rest] f by (simp add: FixedHeader_wf_def)
  then show ?thesis using e by (simp add: copy_from_slice_def)
qed

lemma ping_new: "t \<in> {PacketType.PingReq, PacketType.PingResp} \<Longrightarrow> \<exists>fh. FixedHeader_new t (VarU32 0) = Ok fh"
  by (auto simp: FixedHeader_new_def)

lemma PingReq_encode_Ok:
  "\<exists>b fh. PingReq_encode v = Ok b \<and> length (as_ref b) = 2 \<and>
     FixedHeader_unwrap fh = Ok (PacketType.PingReq, False, AtMostOnce, False) \<and>
     remaining_len fh = VarU32 0 \<and> FixedHeader_decode (as_ref b @ rest) = Ok (fh, 2)"
proof -
  obtain fh where fh: "FixedHeader_new PacketType.PingReq (VarU32 0) = Ok fh" using ping_new by blast
  from ping_encode [OF fh, of rest] FixedHeader_new_Ok [OF fh] show ?thesis
    by (auto simp: PingReq_encode_def fh)
qed

interpretation PingReqCodec: packet_closed PingReq_decode PingReq_encode "\<lambda>_. True" "\<lambda>v. v" "{PacketType.PingReq}"
proof unfold_locales
  fix v b rest
  assume "PingReq_encode v = Ok b"
  then obtain fh where "length (as_ref b) = 2" "remaining_len fh = VarU32 0"
    "FixedHeader_unwrap fh = Ok (PacketType.PingReq, False, AtMostOnce, False)"
    "FixedHeader_decode (as_ref b @ rest) = Ok (fh, 2)"
    using PingReq_encode_Ok [of v rest] by auto
  then show "PingReq_decode (as_ref b @ rest) = Ok (v, length (as_ref b))"
    and "announces {PacketType.PingReq} (as_ref b) rest"
    by (cases v, auto simp: PingReq_decode_def dec_header_eq announces_def)
next
  show "0 < n \<and> n \<le> length s" if "PingReq_decode s = Ok (v, n)" for s v n
    using that Header.dec_bound by (fastforce simp: PingReq_decode_def dec_header_eq and_then_eq_Inr)
  show "\<not> panics (PingReq_decode s)" for s
    by (auto simp: PingReq_decode_def dec_header_eq panics_and_then Header.dec_no_panic)
  show "\<not> panics (PingReq_encode v)" for v using PingReq_encode_Ok [of v "[]"] by auto
qed simp_all

lemma PingResp_encode_Ok:
  "\<exists>b fh. PingResp_encode v = Ok b \<and> length (as_ref b) = 2 \<and>
     FixedHeader_unwrap fh = Ok (PacketType.PingResp, False, AtMostOnce, False) \<and>
     remaining_len fh = VarU32 0 \<and> FixedHeader_decode (as_ref b @ rest) = Ok (fh, 2)"
proof -
  obtain fh where fh: "FixedHeader_new PacketType.PingResp (VarU32 0) = Ok fh" using ping_new by blast
  from ping_encode [OF fh, of rest] FixedHeader_new_Ok [OF fh] show ?thesis
    by (auto simp: PingResp_encode_def fh)
qed

interpretation PingRespCodec: packet_closed PingResp_decode PingResp_encode "\<lambda>_. True" "\<lambda>v. v" "{PacketType.PingResp}"
proof unfold_locales
  fix v b rest
  assume "PingResp_encode v = Ok b"
  then obtain fh where "length (as_ref b) = 2" "remaining_len fh = VarU32 0"
    "FixedHeader_unwrap fh = Ok (PacketType.PingResp, False, AtMostOnce, False)"
    "FixedHeader_decode (as_ref b @ rest) = Ok (fh, 2)"
    using PingResp_encode_Ok [of v rest] by auto
  then show "PingResp_decode (as_ref b @ rest) = Ok (v, length (as_ref b))"
    and "announces {PacketType.PingResp} (as_ref b) rest"
    by (cases v, auto simp: PingResp_decode_def dec_header_eq announces_def)
next
  show "0 < n \<and> n \<le> length s" if "PingResp_decode s = Ok (v, n)" for s v n
    using that Header.dec_bound by (fastforce simp: PingResp_decode_def dec_header_eq and_then_eq_Inr)
  show "\<not> panics (PingResp_decode s)" for s
    by (auto simp: PingResp_decode_def dec_header_eq panics_and_then Header.dec_no_panic)
  show "\<not> panics (PingResp_encode v)" for v using PingResp_encode_Ok [of v "[]"] by auto
qed simp_all

end
