(* ===== verification/V5_Disconnect.thy ===== *)
theory V5_Disconnect
  imports PacketCodec
begin

text \<open>
  Model of \<open>src/v5/disconnect.rs\<close>: the DISCONNECT packet. The code and the properties may be
  left out, and then mean a normal disconnect.
\<close>

section \<open>Reason codes\<close>

datatype DisconnReasonCode =
    NormalDisconnect
  | DiconnectWillMessage
  | UnspecifiedError
  | MalformedPacket
  | ProtocolError
  | ImplementationError
  | NotAuthorized
  | ServerBusy
  | ServerShutdown
  | KeepAliveTimeout
  | SessionTakenOver
  | InvalidTopicFilter
  | TopicNameInvalid
  | ExceededReceiveMaximum
  | TopicAliasInvalid
  | PacketTooLarge
  | ExceedMessageRate
  | QuotaExceeded
  | AdminAction
  | PayloadFormatInvalid
  | RetainNotSupported
  | QoSNotSupported
  | UseAnotherServer
  | ServerMoved
  | UnsupportedSharedSubscription
  | ExceedConnectionRate
  | ExceedMaximumConnectTime
  | SubscriptionIdNotSupported
  | WildcardSubscriptionsNotSupported

primrec DisconnReasonCode_as_u8 :: "DisconnReasonCode \<Rightarrow> u8" where
  "DisconnReasonCode_as_u8 DisconnReasonCode.NormalDisconnect = 0x00"
| "DisconnReasonCode_as_u8 DisconnReasonCode.DiconnectWillMessage = 0x04"
| "DisconnReasonCode_as_u8 DisconnReasonCode.UnspecifiedError = 0x80"
| "DisconnReasonCode_as_u8 DisconnReasonCode.MalformedPacket = 0x81"
| "DisconnReasonCode_as_u8 DisconnReasonCode.ProtocolError = 0x82"
| "DisconnReasonCode_as_u8 DisconnReasonCode.ImplementationError = 0x83"
| "DisconnReasonCode_as_u8 DisconnReasonCode.NotAuthorized = 0x87"
| "DisconnReasonCode_as_u8 DisconnReasonCode.ServerBusy = 0x89"
| "DisconnReasonCode_as_u8 DisconnReasonCode.ServerShutdown = 0x8B"
| "DisconnReasonCode_as_u8 DisconnReasonCode.KeepAliveTimeout = 0x8D"
| "DisconnReasonCode_as_u8 DisconnReasonCode.SessionTakenOver = 0x8E"
| "DisconnReasonCode_as_u8 DisconnReasonCode.InvalidTopicFilter = 0x8F"
| "DisconnReasonCode_as_u8 DisconnReasonCode.TopicNameInvalid = 0x90"
| "DisconnReasonCode_as_u8 DisconnReasonCode.ExceededReceiveMaximum = 0x93"
| "DisconnReasonCode_as_u8 DisconnReasonCode.TopicAliasInvalid = 0x94"
| "DisconnReasonCode_as_u8 DisconnReasonCode.PacketTooLarge = 0x95"
| "DisconnReasonCode_as_u8 DisconnReasonCode.ExceedMessageRate = 0x96"
| "DisconnReasonCode_as_u8 DisconnReasonCode.QuotaExceeded = 0x97"
| "DisconnReasonCode_as_u8 DisconnReasonCode.AdminAction = 0x98"
| "DisconnReasonCode_as_u8 DisconnReasonCode.PayloadFormatInvalid = 0x99"
| "DisconnReasonCode_as_u8 DisconnReasonCode.RetainNotSupported = 0x9A"
| "DisconnReasonCode_as_u8 DisconnReasonCode.QoSNotSupported = 0x9B"
| "DisconnReasonCode_as_u8 DisconnReasonCode.UseAnotherServer = 0x9C"
| "DisconnReasonCode_as_u8 DisconnReasonCode.ServerMoved = 0x9D"
| "DisconnReasonCode_as_u8 DisconnReasonCode.UnsupportedSharedSubscription = 0x9E"
| "DisconnReasonCode_as_u8 DisconnReasonCode.ExceedConnectionRate = 0x9F"
| "DisconnReasonCode_as_u8 DisconnReasonCode.ExceedMaximumConnectTime = 0xA0"
| "DisconnReasonCode_as_u8 DisconnReasonCode.SubscriptionIdNotSupported = 0xA1"
| "DisconnReasonCode_as_u8 DisconnReasonCode.WildcardSubscriptionsNotSupported = 0xA2"

definition DisconnReasonCode_try_from :: "u8 \<Rightarrow> DisconnReasonCode result" where
  "DisconnReasonCode_try_from val =
     (if val = 0x00 then Ok DisconnReasonCode.NormalDisconnect
      else if val = 0x04 then Ok DisconnReasonCode.DiconnectWillMessage
      else if val = 0x80 then Ok DisconnReasonCode.UnspecifiedError
      else if val = 0x81 then Ok DisconnReasonCode.MalformedPacket
      else if val = 0x82 then Ok DisconnReasonCode.ProtocolError
      else if val = 0x83 then Ok DisconnReasonCode.ImplementationError
      else if val = 0x87 then Ok DisconnReasonCode.NotAuthorized
      else if val = 0x89 then Ok DisconnReasonCode.ServerBusy
      else if val = 0x8B then Ok DisconnReasonCode.ServerShutdown
      else if val = 0x8D then Ok DisconnReasonCode.KeepAliveTimeout
      else if val = 0x8E then Ok DisconnReasonCode.SessionTakenOver
      else if val = 0x8F then Ok DisconnReasonCode.InvalidTopicFilter
      else if val = 0x90 then Ok DisconnReasonCode.TopicNameInvalid
      else if val = 0x93 then Ok DisconnReasonCode.ExceededReceiveMaximum
      else if val = 0x94 then Ok DisconnReasonCode.TopicAliasInvalid
      else if val = 0x95 then Ok DisconnReasonCode.PacketTooLarge
      else if val = 0x96 then Ok DisconnReasonCode.ExceedMessageRate
      else if val = 0x97 then Ok DisconnReasonCode.QuotaExceeded
      else if val = 0x98 then Ok DisconnReasonCode.AdminAction
      else if val = 0x99 then Ok DisconnReasonCode.PayloadFormatInvalid
      else if val = 0x9A then Ok DisconnReasonCode.RetainNotSupported
      else if val = 0x9B then Ok DisconnReasonCode.QoSNotSupported
      else if val = 0x9C then Ok DisconnReasonCode.UseAnotherServer
      else if val = 0x9D then Ok DisconnReasonCode.ServerMoved
      else if val = 0x9E then Ok DisconnReasonCode.UnsupportedSharedSubscription
      else if val = 0x9F then Ok DisconnReasonCode.ExceedConnectionRate
      else if val = 0xA0 then Ok DisconnReasonCode.ExceedMaximumConnectTime
      else if val = 0xA1 then Ok DisconnReasonCode.SubscriptionIdNotSupported
      else if val = 0xA2 then Ok DisconnReasonCode.WildcardSubscriptionsNotSupported
      else err ErrorKind.MalformedPacket ReasonCode.MalformedPacket)"

section \<open>Properties\<close>

record DisconnProperties =
  dp_session_expiry_interval :: "u32 option"
  dp_reason_string :: "rstring option"
  dp_user_properties :: "UserProperty list"
  dp_server_reference :: "rstring option"

definition DisconnProperties_default :: DisconnProperties where
  "DisconnProperties_default =
     \<lparr>dp_session_expiry_interval = None,
      dp_reason_string = None,
      dp_user_properties = [],
      dp_server_reference = None\<rparr>"

text \<open>The match on the property in \<open>decode\<close>.\<close>

definition DisconnProperties_arm :: "Property \<Rightarrow> DisconnProperties \<Rightarrow> DisconnProperties result" where
  "DisconnProperties_arm property props =
     (case property of
        Property.SessionExpiryInterval val \<Rightarrow> Ok (props\<lparr>dp_session_expiry_interval := Some val\<rparr>)
      | Property.ReasonString val \<Rightarrow> Ok (props\<lparr>dp_reason_string := Some val\<rparr>)
      | Property.ServerReference val \<Rightarrow> Ok (props\<lparr>dp_server_reference := Some val\<rparr>)
      | Property.UserProp val \<Rightarrow>
          Ok (props\<lparr>dp_user_properties := dp_user_properties props @ [val]\<rparr>)
      | _ \<Rightarrow> bad_prop)"

definition DisconnProperties_decode :: "DisconnProperties decoder" where
  "DisconnProperties_decode stream = props_decode user_prop_only DisconnProperties_arm DisconnProperties_default stream"

definition DisconnProperties_encode :: "DisconnProperties encoder" where
  "DisconnProperties_encode self =
     and_then (enc_prop_opt [] PropertyType.SessionExpiryInterval u32_encode (dp_session_expiry_interval self)) (\<lambda>data.
     and_then (enc_prop_opt data PropertyType.ReasonString String_encode (dp_reason_string self)) (\<lambda>data.
     and_then (enc_prop_opt data PropertyType.ServerReference String_encode (dp_server_reference self)) (\<lambda>data.
     and_then (enc_user_props data (dp_user_properties self)) finish_props)))"

definition DisconnProperties_is_empty :: "DisconnProperties \<Rightarrow> bool" where
  "DisconnProperties_is_empty self \<longleftrightarrow>
     dp_session_expiry_interval self = None \<and>
     dp_reason_string self = None \<and>
     length (dp_user_properties self) = 0 \<and>
     dp_server_reference self = None"

section \<open>The packet\<close>

record Disconnect =
  disc_code :: DisconnReasonCode
  disc_properties :: "DisconnProperties option"

abbreviation (input) Disconnect_new :: "DisconnReasonCode \<Rightarrow> DisconnProperties option \<Rightarrow> Disconnect" where
  "Disconnect_new code props \<equiv> \<lparr>disc_code = code, disc_properties = props\<rparr>"

definition Disconnect_normalize :: "Disconnect \<Rightarrow> Disconnect" where
  "Disconnect_normalize self =
     self\<lparr>disc_properties := norm_props DisconnProperties_is_empty (disc_properties self)\<rparr>"

abbreviation (input) Disconnect_validate :: "Disconnect \<Rightarrow> unit result" where
  "Disconnect_validate self \<equiv> Ok ()"

definition Disconnect_decode :: "Disconnect decoder" where
  "Disconnect_decode stream =
     and_then (dec_header stream) (\<lambda>(fh, n).
     and_then
       (if var_u32 (remaining_len fh) = 0
        then Ok (\<lparr>disc_code = DisconnReasonCode.NormalDisconnect, disc_properties = None\<rparr>, n)
        else if var_u32 (remaining_len fh) < 2
        then and_then (dec_field u8_decode stream n) (\<lambda>(code, n).
             and_then (DisconnReasonCode_try_from code) (\<lambda>code.
             Ok (\<lparr>disc_code = code, disc_properties = None\<rparr>, n)))
        else and_then (dec_field u8_decode stream n) (\<lambda>(code, n).
             and_then (DisconnReasonCode_try_from code) (\<lambda>code.
             and_then (dec_props DisconnProperties_decode stream n) (\<lambda>(properties, n).
             Ok (\<lparr>disc_code = code, disc_properties = properties\<rparr>, n))))) (\<lambda>(val, n).
     and_then (Disconnect_validate val) (\<lambda>_. Ok (val, n))))"

definition Disconnect_encode :: "Disconnect encoder" where
  "Disconnect_encode self =
     and_then (extend_slice [] (u8_encode (DisconnReasonCode_as_u8 (disc_code self)))) (\<lambda>data.
     and_then (enc_opt_props data DisconnProperties_encode (disc_properties self)) (\<lambda>data.
     finish_packet (FixedHeader_new PacketType.Disconnect) data))"

section \<open>Facts on the reason codes and properties\<close>

lemma DisconnReasonCode_try_from_u8 [simp]: "DisconnReasonCode_try_from (DisconnReasonCode_as_u8 c) = Ok c"
  by (cases c) (simp_all add: DisconnReasonCode_try_from_def)

lemma DisconnReasonCode_try_from_no_panic [simp]: "\<not> panics (DisconnReasonCode_try_from v)"
  by (simp add: DisconnReasonCode_try_from_def)

text \<open>The properties of a \<open>DisconnProperties\<close> in the order in which they are sent.\<close>

definition DisconnProperties_props :: "DisconnProperties \<Rightarrow> Property list" where
  "DisconnProperties_props p =
     opt_prop Property.SessionExpiryInterval (dp_session_expiry_interval p) @
     opt_prop Property.ReasonString (dp_reason_string p) @
     opt_prop Property.ServerReference (dp_server_reference p) @
     map Property.UserProp (dp_user_properties p)"

definition DisconnProperties_wf :: "DisconnProperties \<Rightarrow> bool" where
  "DisconnProperties_wf p \<longleftrightarrow> list_all Property_wf (DisconnProperties_props p)"

lemma DisconnProperties_arm_eval:
  "DisconnProperties_arm (Property.SessionExpiryInterval v0) r = Ok (r\<lparr>dp_session_expiry_interval := Some v0\<rparr>)"
  "DisconnProperties_arm (Property.ReasonString v1) r = Ok (r\<lparr>dp_reason_string := Some v1\<rparr>)"
  "DisconnProperties_arm (Property.ServerReference v2) r = Ok (r\<lparr>dp_server_reference := Some v2\<rparr>)"
  "DisconnProperties_arm (Property.UserProp v3) r = Ok (r\<lparr>dp_user_properties := dp_user_properties r @ [v3]\<rparr>)"
  by (auto simp: DisconnProperties_arm_def bool_prop_def PayloadFormat_try_from_def intro: VarU32.expand)

lemmas DisconnProperties_steps =
  steps_opt [where arm = DisconnProperties_arm and con = "Property.SessionExpiryInterval" and upd = dp_session_expiry_interval_update]
  steps_opt [where arm = DisconnProperties_arm and con = "Property.ReasonString" and upd = dp_reason_string_update]
  steps_opt [where arm = DisconnProperties_arm and con = "Property.ServerReference" and upd = dp_server_reference_update]
  steps_many [where arm = DisconnProperties_arm and con = Property.UserProp and upd = dp_user_properties_update]

lemma DisconnProperties_run: "DisconnProperties_wf p \<Longrightarrow> steps DisconnProperties_arm (DisconnProperties_props p) DisconnProperties_default = Ok p"
  by (cases p) (simp add: DisconnProperties_props_def DisconnProperties_wf_def DisconnProperties_default_def PayloadFormat_default_def DisconnProperties_steps
      DisconnProperties_arm_eval)

lemma DisconnProperties_once: "no_repeat user_prop_only (\<lambda>_. False) (DisconnProperties_props p)"
  unfolding DisconnProperties_props_def
  by ((rule no_repeat_opt, simp add: bool_prop_def, simp) | (rule no_repeat_format, simp) |
      (rule no_repeat_many_append, simp add: user_prop_only_def) |
      (rule no_repeat_many, simp add: user_prop_only_def))+

lemma DisconnProperties_arm_wf: "\<lbrakk>DisconnProperties_wf r; Property_wf q; DisconnProperties_arm q r = Ok r'\<rbrakk> \<Longrightarrow> DisconnProperties_wf r'"
  by (cases q) (auto simp: DisconnProperties_wf_def DisconnProperties_props_def DisconnProperties_arm_def bool_prop_def and_then_eq_Inr
      split: if_splits)

lemma DisconnProperties_arm_no_panic: "\<not> panics (DisconnProperties_arm q r)"
  by (cases q) (auto simp: DisconnProperties_arm_def panics_and_then)

lemma DisconnProperties_wf_props: "DisconnProperties_wf p \<Longrightarrow> list_all Property_wf (DisconnProperties_props p)"
  by (simp add: DisconnProperties_wf_def)

lemma DisconnProperties_default_wf: "DisconnProperties_wf DisconnProperties_default"
  by (simp add: DisconnProperties_wf_def DisconnProperties_props_def DisconnProperties_default_def PayloadFormat_default_def)

lemma DisconnProperties_empty_iff: "DisconnProperties_is_empty p \<longleftrightarrow> DisconnProperties_props p = []"
  by (auto simp: DisconnProperties_is_empty_def DisconnProperties_props_def)

lemma DisconnProperties_encode_eq: "DisconnProperties_encode p = encode_props (DisconnProperties_props p)"
  by (simp add: DisconnProperties_encode_def DisconnProperties_props_def encode_props_def enc_set_all enc_all_append and_then_assoc)

interpretation DiscPSet: property_set DisconnProperties_decode DisconnProperties_encode DisconnProperties_wf DisconnProperties_is_empty
  DisconnProperties_props user_prop_only DisconnProperties_arm DisconnProperties_default "\<lambda>r. Ok r" DisconnProperties_wf
  by unfold_locales
     (auto simp: DisconnProperties_decode_def DisconnProperties_encode_eq DisconnProperties_run DisconnProperties_once DisconnProperties_empty_iff DisconnProperties_default_wf
       DisconnProperties_arm_no_panic DisconnProperties_wf_props intro: DisconnProperties_arm_wf)

section \<open>Facts on the packet\<close>

definition Disconnect_wf :: "Disconnect \<Rightarrow> bool" where
  "Disconnect_wf v \<longleftrightarrow> pred_option DisconnProperties_wf (disc_properties v)"

lemma Disconnect_dec_enc:
  assumes wf: "Disconnect_wf v" and enc: "Disconnect_encode v = Ok b"
  shows "Disconnect_decode (as_ref b @ rest) = Ok (Disconnect_normalize v, length (as_ref b))"
    and "announces {PacketType.Disconnect} (as_ref b) rest"
proof -
  from enc obtain cb d where cb: "u8_encode (DisconnReasonCode_as_u8 (disc_code v)) = Ok cb"
    and d: "enc_opt_props (as_ref cb) DisconnProperties_encode (disc_properties v) = Ok d"
    and fin: "finish_packet (FixedHeader_new PacketType.Disconnect) d = Ok b"
    by (auto simp: Disconnect_encode_def and_then_eq_Inr extend_slice_Ok)
  from DiscPSet.enc_opt_Ok [OF d wf [unfolded Disconnect_wf_def]] obtain pb where pb: "d = as_ref cb @ pb"
    "\<And>rest. props_here DisconnProperties_decode (pb @ rest) =
       Ok (norm_props DisconnProperties_is_empty (disc_properties v), length pb)" by blast
  from finish_packet_Ok [OF fin FixedHeader_new_Ok] obtain fh hb where h: "as_ref b = as_ref hb @ d"
    "FixedHeader_unwrap fh = Ok (PacketType.Disconnect, False, AtMostOnce, False)"
    "unat (var_u32 (remaining_len fh)) = length d"
    "\<And>rest. FixedHeader_decode (as_ref hb @ rest) = Ok (fh, length (as_ref hb))" by blast
  have "length (as_ref cb) = 1" using cb by (auto simp: u8_encode_def)
  moreover have "0 < length pb" using DiscPSet.here_Ok [OF pb(2) [of "[]"]] by simp
  ultimately have "2 \<le> unat (var_u32 (remaining_len fh))" using h(3) pb(1) by (simp add: Suc_le_eq)
  then have rl: "var_u32 (remaining_len fh) \<noteq> 0" "\<not> var_u32 (remaining_len fh) < 2"
    by (auto simp: word_unat_eq_iff word_less_nat_alt)
  have n: "Disconnect_normalize v = \<lparr>disc_code = disc_code v,
      disc_properties = norm_props DisconnProperties_is_empty (disc_properties v)\<rparr>"
    by (cases v) (simp add: Disconnect_normalize_def)
  from pb h rl u8.dec_enc [OF TrueI cb]
  show "Disconnect_decode (as_ref b @ rest) = Ok (Disconnect_normalize v, length (as_ref b))"
    by (simp add: n Disconnect_decode_def dec_header_eq dec_field_def dec_props_here add.assoc)
  show "announces {PacketType.Disconnect} (as_ref b) rest" by (rule announcesI [OF h(1,2) _ h(3,4)]) simp
qed

lemma Disconnect_decode_Ok:
  assumes "Disconnect_decode s = Ok (v, n)"
  shows "0 < n \<and> n \<le> length s \<and> Disconnect_wf v"
proof -
  from assms obtain fh k where h: "FixedHeader_decode s = Ok (fh, k)"
    by (auto simp: Disconnect_decode_def dec_header_eq and_then_eq_Inr)
  note k = Header.dec_bound [OF h]
  show ?thesis
    using assms h k by (auto simp: Disconnect_decode_def dec_header_eq and_then_eq_Inr Let_def Disconnect_wf_def
        split: if_splits dest!: u8.field_bound DiscPSet.props_bound)
qed

interpretation DisconnectCodec: packet_closed Disconnect_decode Disconnect_encode Disconnect_wf Disconnect_normalize
    "{PacketType.Disconnect}"
proof (unfold_locales, rule Disconnect_dec_enc, assumption+, rule Disconnect_dec_enc, assumption+)
  show "\<not> panics (Disconnect_decode s)" for s
    by (auto simp: Disconnect_decode_def dec_header_eq panics_and_then Let_def u8.field_no_panic
        DiscPSet.props_no_panic Header.dec_no_panic)
  show "\<not> panics (Disconnect_encode v)" for v
    by (auto simp: Disconnect_encode_def panics_and_then extend_slice_no_panic u8.enc_no_panic
        DiscPSet.enc_opt_no_panic finish_packet_no_panic)
  show "Disconnect_normalize (Disconnect_normalize v) = Disconnect_normalize v" for v
    by (auto simp: Disconnect_normalize_def norm_props_def split: option.splits)
qed (use Disconnect_decode_Ok in blast)+

end
