(* ===== verification/V5_Auth.thy ===== *)
theory V5_Auth
  imports PacketCodec
begin

text \<open>
  Model of \<open>src/v5/auth.rs\<close>: the AUTH packet. Its properties have two fields that have to be
  present, so the decoder ends with a check.
\<close>

section \<open>Reason codes\<close>

datatype AuthReasonCode =
    Success
  | ContinueAuthentication
  | ReAuthenticate

primrec AuthReasonCode_as_u8 :: "AuthReasonCode \<Rightarrow> u8" where
  "AuthReasonCode_as_u8 AuthReasonCode.Success = 0x00"
| "AuthReasonCode_as_u8 AuthReasonCode.ContinueAuthentication = 0x18"
| "AuthReasonCode_as_u8 AuthReasonCode.ReAuthenticate = 0x19"

definition AuthReasonCode_try_from :: "u8 \<Rightarrow> AuthReasonCode result" where
  "AuthReasonCode_try_from val =
     (if val = 0x00 then Ok AuthReasonCode.Success
      else if val = 0x18 then Ok AuthReasonCode.ContinueAuthentication
      else if val = 0x19 then Ok AuthReasonCode.ReAuthenticate
      else err ErrorKind.ProtocolError ReasonCode.ProtocolError)"

section \<open>Properties\<close>

record AuthProperties =
  ap_authentication_method :: rstring
  ap_authentication_data :: bytes
  ap_reason_string :: "rstring option"
  ap_user_properties :: "UserProperty list"

definition AuthProperties_default :: AuthProperties where
  "AuthProperties_default =
     \<lparr>ap_authentication_method = [],
      ap_authentication_data = [],
      ap_reason_string = None,
      ap_user_properties = []\<rparr>"

text \<open>The locals of \<open>decode\<close>: \<open>props\<close>, \<open>authentication_method\<close> and \<open>authentication_data\<close>.\<close>

record AuthLocals =
  al_props :: AuthProperties
  al_method :: "rstring option"
  al_data :: "bytes option"

definition AuthLocals_init :: AuthLocals where
  "AuthLocals_init = \<lparr>al_props = AuthProperties_default, al_method = None, al_data = None\<rparr>"

definition AuthProperties_arm :: "Property \<Rightarrow> AuthLocals \<Rightarrow> AuthLocals result" where
  "AuthProperties_arm property st =
     (case property of
        Property.AuthenticationMethod val \<Rightarrow> Ok (st\<lparr>al_method := Some val\<rparr>)
      | Property.AuthenticationData val \<Rightarrow> Ok (st\<lparr>al_data := Some val\<rparr>)
      | Property.ReasonString val \<Rightarrow> Ok (st\<lparr>al_props := (al_props st)\<lparr>ap_reason_string := Some val\<rparr>\<rparr>)
      | Property.UserProp val \<Rightarrow>
          Ok (st\<lparr>al_props :=
            (al_props st)\<lparr>ap_user_properties := ap_user_properties (al_props st) @ [val]\<rparr>\<rparr>)
      | _ \<Rightarrow> bad_prop)"

text \<open>The checks after the loop.\<close>

definition AuthProperties_finish :: "AuthLocals \<Rightarrow> AuthProperties result" where
  "AuthProperties_finish st =
     and_then (case al_method st of
                 Some val \<Rightarrow> Ok ((al_props st)\<lparr>ap_authentication_method := val\<rparr>)
               | None \<Rightarrow> bad_prop) (\<lambda>props.
     case al_data st of
       Some val \<Rightarrow> Ok (props\<lparr>ap_authentication_data := val\<rparr>)
     | None \<Rightarrow> bad_prop)"

definition AuthProperties_decode :: "AuthProperties decoder" where
  "AuthProperties_decode stream =
     and_then (props_decode user_prop_only AuthProperties_arm AuthLocals_init stream) (\<lambda>(st, n).
     and_then (AuthProperties_finish st) (\<lambda>props. Ok (props, n)))"

definition AuthProperties_encode :: "AuthProperties encoder" where
  "AuthProperties_encode self =
     and_then (enc_prop [] PropertyType.AuthenticationMethod
       (String_encode (ap_authentication_method self))) (\<lambda>data.
     and_then (enc_prop data PropertyType.AuthenticationData
       (Vec_encode (ap_authentication_data self))) (\<lambda>data.
     and_then (enc_prop_opt data PropertyType.ReasonString String_encode (ap_reason_string self)) (\<lambda>data.
     and_then (enc_user_props data (ap_user_properties self)) finish_props)))"

section \<open>The packet\<close>

record Auth =
  auth_code :: AuthReasonCode
  auth_properties :: "AuthProperties option"

definition Auth_normalize :: "Auth \<Rightarrow> Auth" where
  "Auth_normalize self = self"

abbreviation (input) Auth_validate :: "Auth \<Rightarrow> unit result" where
  "Auth_validate self \<equiv> Ok ()"

definition Auth_decode :: "Auth decoder" where
  "Auth_decode stream =
     and_then (dec_header stream) (\<lambda>(fh, n).
     and_then
       (if var_u32 (remaining_len fh) = 0 then Ok (AuthReasonCode.Success, None, n)
        else and_then (dec_field u8_decode stream n) (\<lambda>(code, n).
             and_then (AuthReasonCode_try_from code) (\<lambda>code.
             and_then (dec_props AuthProperties_decode stream n) (\<lambda>(properties, n).
             Ok (code, properties, n))))) (\<lambda>(code, properties, n).
       let val = \<lparr>auth_code = code, auth_properties = properties\<rparr>
       in and_then (Auth_validate val) (\<lambda>_. Ok (val, n))))"

definition Auth_encode :: "Auth encoder" where
  "Auth_encode self =
     and_then (extend_slice [] (u8_encode (AuthReasonCode_as_u8 (auth_code self)))) (\<lambda>data.
     and_then (enc_opt_props data AuthProperties_encode (auth_properties self)) (\<lambda>data.
     finish_packet (FixedHeader_new PacketType.Auth) data))"

section \<open>Facts on the reason codes and properties\<close>

lemma AuthReasonCode_try_from_u8 [simp]: "AuthReasonCode_try_from (AuthReasonCode_as_u8 c) = Ok c"
  by (cases c) (simp_all add: AuthReasonCode_try_from_def)

lemma AuthReasonCode_try_from_no_panic [simp]: "\<not> panics (AuthReasonCode_try_from v)"
  by (simp add: AuthReasonCode_try_from_def)

text \<open>The properties in the order in which they are sent.\<close>

definition AuthProperties_props :: "AuthProperties \<Rightarrow> Property list" where
  "AuthProperties_props p =
     opt_prop Property.AuthenticationMethod (Some (ap_authentication_method p)) @
     opt_prop Property.AuthenticationData (Some (ap_authentication_data p)) @
     opt_prop Property.ReasonString (ap_reason_string p) @
     map Property.UserProp (ap_user_properties p)"

definition AuthProperties_wf :: "AuthProperties \<Rightarrow> bool" where
  "AuthProperties_wf p \<longleftrightarrow> list_all Property_wf (AuthProperties_props p)"

text \<open>The part of the invariant that holds while the loop runs.\<close>

definition AuthLocals_wf :: "AuthLocals \<Rightarrow> bool" where
  "AuthLocals_wf st \<longleftrightarrow>
     pred_option (\<lambda>x. Property_wf (Property.AuthenticationMethod x)) (al_method st) \<and>
     pred_option (\<lambda>x. Property_wf (Property.AuthenticationData x)) (al_data st) \<and>
     pred_option (\<lambda>x. Property_wf (Property.ReasonString x)) (ap_reason_string (al_props st)) \<and>
     list_all (\<lambda>x. Property_wf (Property.UserProp x)) (ap_user_properties (al_props st))"

lemma AuthProperties_users:
  "steps AuthProperties_arm (map Property.UserProp us) st =
     Ok (st\<lparr>al_props := (al_props st)\<lparr>ap_user_properties := ap_user_properties (al_props st) @ us\<rparr>\<rparr>)"
  by (induction us arbitrary: st) (simp_all add: AuthProperties_arm_def)

lemma AuthProperties_run:
  "\<exists>st. steps AuthProperties_arm (AuthProperties_props p) AuthLocals_init = Ok st \<and>
     AuthProperties_finish st = Ok p"
  by (cases p; cases "ap_reason_string p")
     (simp_all add: AuthProperties_props_def opt_prop_def AuthProperties_users AuthProperties_arm_def
       AuthProperties_finish_def AuthLocals_init_def AuthProperties_default_def)

lemma AuthProperties_once: "no_repeat user_prop_only (\<lambda>_. False) (AuthProperties_props p)"
  unfolding AuthProperties_props_def
  by ((rule no_repeat_opt, simp, simp) | (rule no_repeat_many, simp add: user_prop_only_def))+

lemma AuthProperties_arm_wf:
  "\<lbrakk>AuthLocals_wf r; Property_wf q; AuthProperties_arm q r = Ok r'\<rbrakk> \<Longrightarrow> AuthLocals_wf r'"
  by (cases q) (auto simp: AuthLocals_wf_def AuthProperties_arm_def)

lemma AuthProperties_finish_wf:
  "\<lbrakk>AuthLocals_wf r; AuthProperties_finish r = Ok p\<rbrakk> \<Longrightarrow> AuthProperties_wf p"
  by (auto simp: AuthLocals_wf_def AuthProperties_wf_def AuthProperties_finish_def AuthProperties_props_def
      and_then_eq_Inr split: option.splits)

lemma AuthProperties_no_panic:
  "\<not> panics (AuthProperties_arm q r)" "\<not> panics (AuthProperties_finish r)"
  by (cases q; auto simp: AuthProperties_arm_def)
     (auto simp: AuthProperties_finish_def panics_and_then split: option.splits)

lemma AuthProperties_encode_eq: "AuthProperties_encode p = encode_props (AuthProperties_props p)"
proof -
  have "enc_prop data PropertyType.AuthenticationMethod (String_encode m) =
      enc_all data (opt_prop Property.AuthenticationMethod (Some m))"
    "enc_prop data PropertyType.AuthenticationData (Vec_encode d) =
      enc_all data (opt_prop Property.AuthenticationData (Some d))" for data m d
    unfolding enc_set_all [symmetric] by (simp_all add: enc_prop_opt_def)
  then show ?thesis
    by (simp only: AuthProperties_encode_def AuthProperties_props_def encode_props_def enc_set_all
        enc_all_append and_then_assoc)
qed

interpretation AuthPSet: property_set AuthProperties_decode AuthProperties_encode AuthProperties_wf
  "\<lambda>_. False" AuthProperties_props user_prop_only AuthProperties_arm AuthLocals_init
  AuthProperties_finish AuthLocals_wf
proof (unfold_locales, rule AuthProperties_decode_def, rule AuthProperties_encode_eq,
    rule AuthProperties_run, rule AuthProperties_once)
  show "False \<longleftrightarrow> AuthProperties_props p = []" for p by (simp add: AuthProperties_props_def)
  show "AuthLocals_wf AuthLocals_init"
    by (simp add: AuthLocals_wf_def AuthLocals_init_def AuthProperties_default_def)
  show "list_all Property_wf (AuthProperties_props p)" if "AuthProperties_wf p" for p
    using that by (simp add: AuthProperties_wf_def)
qed (rule AuthProperties_arm_wf AuthProperties_finish_wf AuthProperties_no_panic; assumption)+

text \<open>No set of this struct is empty: both required properties are sent.\<close>

lemma norm_props_never: "norm_props (\<lambda>_. False) v = v"
  by (cases v) (simp_all add: norm_props_def)

section \<open>Facts on the packet\<close>

definition Auth_wf :: "Auth \<Rightarrow> bool" where
  "Auth_wf v \<longleftrightarrow> pred_option AuthProperties_wf (auth_properties v)"

lemma Auth_dec_enc:
  assumes wf: "Auth_wf v" and enc: "Auth_encode v = Ok b"
  shows "Auth_decode (as_ref b @ rest) = Ok (Auth_normalize v, length (as_ref b))"
    and "announces {PacketType.Auth} (as_ref b) rest"
proof -
  from enc obtain cb d where cb: "u8_encode (AuthReasonCode_as_u8 (auth_code v)) = Ok cb"
    and d: "enc_opt_props (as_ref cb) AuthProperties_encode (auth_properties v) = Ok d"
    and fin: "finish_packet (FixedHeader_new PacketType.Auth) d = Ok b"
    by (auto simp: Auth_encode_def and_then_eq_Inr extend_slice_Ok)
  from AuthPSet.enc_opt_Ok [OF d wf [unfolded Auth_wf_def]] obtain pb where pb: "d = as_ref cb @ pb"
    "\<And>rest. props_here AuthProperties_decode (pb @ rest) =
       Ok (norm_props (\<lambda>_. False) (auth_properties v), length pb)" by blast
  from finish_packet_Ok [OF fin FixedHeader_new_Ok] obtain fh hb where h: "as_ref b = as_ref hb @ d"
    "FixedHeader_unwrap fh = Ok (PacketType.Auth, False, AtMostOnce, False)"
    "unat (var_u32 (remaining_len fh)) = length d"
    "\<And>rest. FixedHeader_decode (as_ref hb @ rest) = Ok (fh, length (as_ref hb))" by blast
  have "length (as_ref cb) = 1" using cb by (auto simp: u8_encode_def)
  moreover have "0 < length pb" using AuthPSet.here_Ok [OF pb(2) [of "[]"]] by simp
  ultimately have "2 \<le> unat (var_u32 (remaining_len fh))" using h(3) pb(1) by (simp add: Suc_le_eq)
  then have rl: "var_u32 (remaining_len fh) \<noteq> 0" "\<not> var_u32 (remaining_len fh) < 2"
    by (auto simp: word_unat_eq_iff word_less_nat_alt)
  have n: "Auth_normalize v = \<lparr>auth_code = auth_code v,
      auth_properties = norm_props (\<lambda>_. False) (auth_properties v)\<rparr>"
    by (cases v) (simp add: Auth_normalize_def norm_props_never)
  from pb h rl u8.dec_enc [OF TrueI cb]
  show "Auth_decode (as_ref b @ rest) = Ok (Auth_normalize v, length (as_ref b))"
    by (simp add: n Auth_decode_def dec_header_eq dec_field_def dec_props_here add.assoc)
  show "announces {PacketType.Auth} (as_ref b) rest" by (rule announcesI [OF h(1,2) _ h(3,4)]) simp
qed

lemma Auth_decode_Ok:
  assumes "Auth_decode s = Ok (v, n)"
  shows "0 < n \<and> n \<le> length s \<and> Auth_wf v"
proof -
  from assms obtain fh k where h: "FixedHeader_decode s = Ok (fh, k)"
    by (auto simp: Auth_decode_def dec_header_eq and_then_eq_Inr)
  note k = Header.dec_bound [OF h]
  show ?thesis
    using assms h k by (auto simp: Auth_decode_def dec_header_eq and_then_eq_Inr Let_def Auth_wf_def
        split: if_splits dest!: u8.field_bound AuthPSet.props_bound)
qed

interpretation AuthCodec: packet_closed Auth_decode Auth_encode Auth_wf Auth_normalize
    "{PacketType.Auth}"
proof (unfold_locales, rule Auth_dec_enc, assumption+, rule Auth_dec_enc, assumption+)
  show "\<not> panics (Auth_decode s)" for s
    by (auto simp: Auth_decode_def dec_header_eq panics_and_then Let_def u8.field_no_panic
        AuthPSet.props_no_panic Header.dec_no_panic)
  show "\<not> panics (Auth_encode v)" for v
    by (auto simp: Auth_encode_def panics_and_then extend_slice_no_panic u8.enc_no_panic
        AuthPSet.enc_opt_no_panic finish_packet_no_panic)
  show "Auth_normalize (Auth_normalize v) = Auth_normalize v" for v
    by (auto simp: Auth_normalize_def norm_props_def split: option.splits)
qed (use Auth_decode_Ok in blast)+

end
