(* ===== verification/V5_Packet.thy ===== *)
theory V5_Packet
  imports V5_Connect V5_ConnAck V5_Publish V5_Pub V5_Subscribe V5_SubAck V5_Unsub V5_UnsubAck
    V5_Ping V5_Disconnect V5_Auth
begin

text \<open>
  Model of the enum \<open>Packet\<close> of \<open>src/v5/mod.rs\<close>: the packet type in the fixed header selects
  the decoder. The facts combine those of the fifteen packets: the round trip, the framing and
  the absence of panics for all of them at once.
\<close>

section \<open>Packets\<close>

datatype Packet =
    Connect Connect
  | ConnAck ConnAck
  | Publish Publish
  | PubAck Pub
  | PubRec Pub
  | PubRel Pub
  | PubComp Pub
  | Subscribe Subscribe
  | SubAck SubAck
  | UnSubscribe UnSubscribe
  | UnsubAck UnsubAck
  | PingReq
  | PingResp
  | Disconnect Disconnect
  | Auth Auth

text \<open>The arms of the match in \<open>decode\<close>, the same in \<open>MQTTRead::parse\<close>.\<close>

definition decode_as :: "PacketType \<Rightarrow> Packet decoder" where
  "decode_as pkt_type stream =
     (case pkt_type of
        PacketType.Connect \<Rightarrow> and_then (Connect_decode stream) (\<lambda>(pkt, n). Ok (Packet.Connect pkt, n))
      | PacketType.ConnAck \<Rightarrow> and_then (ConnAck_decode stream) (\<lambda>(pkt, n). Ok (Packet.ConnAck pkt, n))
      | PacketType.Publish \<Rightarrow> and_then (Publish_decode stream) (\<lambda>(pkt, n). Ok (Packet.Publish pkt, n))
      | PacketType.PubAck \<Rightarrow> and_then (Pub_decode stream) (\<lambda>(pkt, n). Ok (Packet.PubAck pkt, n))
      | PacketType.PubRec \<Rightarrow> and_then (Pub_decode stream) (\<lambda>(pkt, n). Ok (Packet.PubRec pkt, n))
      | PacketType.PubRel \<Rightarrow> and_then (Pub_decode stream) (\<lambda>(pkt, n). Ok (Packet.PubRel pkt, n))
      | PacketType.PubComp \<Rightarrow> and_then (Pub_decode stream) (\<lambda>(pkt, n). Ok (Packet.PubComp pkt, n))
      | PacketType.Subscribe \<Rightarrow> and_then (Subscribe_decode stream) (\<lambda>(pkt, n). Ok (Packet.Subscribe pkt, n))
      | PacketType.SubAck \<Rightarrow> and_then (SubAck_decode stream) (\<lambda>(pkt, n). Ok (Packet.SubAck pkt, n))
      | PacketType.UnSubscribe \<Rightarrow> and_then (UnSubscribe_decode stream) (\<lambda>(pkt, n). Ok (Packet.UnSubscribe pkt, n))
      | PacketType.UnsubAck \<Rightarrow> and_then (UnsubAck_decode stream) (\<lambda>(pkt, n). Ok (Packet.UnsubAck pkt, n))
      | PacketType.PingReq \<Rightarrow> and_then (PingReq_decode stream) (\<lambda>(_, n). Ok (Packet.PingReq, n))
      | PacketType.PingResp \<Rightarrow> and_then (PingResp_decode stream) (\<lambda>(_, n). Ok (Packet.PingResp, n))
      | PacketType.Disconnect \<Rightarrow> and_then (Disconnect_decode stream) (\<lambda>(pkt, n). Ok (Packet.Disconnect pkt, n))
      | PacketType.Auth \<Rightarrow> and_then (Auth_decode stream) (\<lambda>(pkt, n). Ok (Packet.Auth pkt, n)))"

definition Packet_decode :: "Packet decoder" where
  "Packet_decode stream =
     and_then (FixedHeader_decode stream) (\<lambda>(fh, _).
     and_then (FixedHeader_unwrap fh) (\<lambda>(pkt_type, _, _, _).
     decode_as pkt_type stream))"

definition Packet_encode :: "Packet encoder" where
  "Packet_encode self =
     (case self of
        Packet.Connect pkt \<Rightarrow> Connect_encode pkt
      | Packet.ConnAck pkt \<Rightarrow> ConnAck_encode pkt
      | Packet.Publish pkt \<Rightarrow> Publish_encode pkt
      | Packet.PubAck pkt \<Rightarrow> Pub_encode pkt
      | Packet.PubRec pkt \<Rightarrow> Pub_encode pkt
      | Packet.PubRel pkt \<Rightarrow> Pub_encode pkt
      | Packet.PubComp pkt \<Rightarrow> Pub_encode pkt
      | Packet.Subscribe pkt \<Rightarrow> Subscribe_encode pkt
      | Packet.SubAck pkt \<Rightarrow> SubAck_encode pkt
      | Packet.UnSubscribe pkt \<Rightarrow> UnSubscribe_encode pkt
      | Packet.UnsubAck pkt \<Rightarrow> UnsubAck_encode pkt
      | Packet.PingReq \<Rightarrow> PingReq_encode PingReq.PingReq
      | Packet.PingResp \<Rightarrow> PingResp_encode PingResp.PingResp
      | Packet.Disconnect pkt \<Rightarrow> Disconnect_encode pkt
      | Packet.Auth pkt \<Rightarrow> Auth_encode pkt)"

definition to_packet_type :: "Packet \<Rightarrow> PacketType" where
  "to_packet_type self =
     (case self of
        Packet.Connect _ \<Rightarrow> PacketType.Connect
      | Packet.ConnAck _ \<Rightarrow> PacketType.ConnAck
      | Packet.Publish _ \<Rightarrow> PacketType.Publish
      | Packet.PubAck _ \<Rightarrow> PacketType.PubAck
      | Packet.PubRec _ \<Rightarrow> PacketType.PubRec
      | Packet.PubRel _ \<Rightarrow> PacketType.PubRel
      | Packet.PubComp _ \<Rightarrow> PacketType.PubComp
      | Packet.Subscribe _ \<Rightarrow> PacketType.Subscribe
      | Packet.SubAck _ \<Rightarrow> PacketType.SubAck
      | Packet.UnSubscribe _ \<Rightarrow> PacketType.UnSubscribe
      | Packet.UnsubAck _ \<Rightarrow> PacketType.UnsubAck
      | Packet.PingReq \<Rightarrow> PacketType.PingReq
      | Packet.PingResp \<Rightarrow> PacketType.PingResp
      | Packet.Disconnect _ \<Rightarrow> PacketType.Disconnect
      | Packet.Auth _ \<Rightarrow> PacketType.Auth)"

definition Packet_normalize :: "Packet \<Rightarrow> Packet" where
  "Packet_normalize self =
     (case self of
        Packet.Connect val \<Rightarrow> Packet.Connect (Connect_normalize val)
      | Packet.ConnAck val \<Rightarrow> Packet.ConnAck (ConnAck_normalize val)
      | Packet.Publish val \<Rightarrow> Packet.Publish (Publish_normalize val)
      | Packet.PubAck val \<Rightarrow> Packet.PubAck (Pub_normalize val)
      | Packet.PubRec val \<Rightarrow> Packet.PubRec (Pub_normalize val)
      | Packet.PubRel val \<Rightarrow> Packet.PubRel (Pub_normalize val)
      | Packet.PubComp val \<Rightarrow> Packet.PubComp (Pub_normalize val)
      | Packet.Subscribe val \<Rightarrow> Packet.Subscribe (Subscribe_normalize val)
      | Packet.SubAck val \<Rightarrow> Packet.SubAck (SubAck_normalize val)
      | Packet.UnSubscribe val \<Rightarrow> Packet.UnSubscribe (UnSubscribe_normalize val)
      | Packet.UnsubAck val \<Rightarrow> Packet.UnsubAck (UnsubAck_normalize val)
      | Packet.PingReq \<Rightarrow> Packet.PingReq
      | Packet.PingResp \<Rightarrow> Packet.PingResp
      | Packet.Disconnect val \<Rightarrow> Packet.Disconnect (Disconnect_normalize val)
      | Packet.Auth val \<Rightarrow> Packet.Auth (Auth_normalize val))"

section \<open>Facts\<close>

text \<open>The packets that a client or a broker may send.\<close>

definition Packet_wf :: "Packet \<Rightarrow> bool" where
  "Packet_wf self \<longleftrightarrow>
     (case self of
        Packet.Connect p \<Rightarrow> Connect_sendable p
      | Packet.ConnAck p \<Rightarrow> ConnAck_wf p
      | Packet.Publish p \<Rightarrow> Publish_wf p
      | Packet.PubAck p \<Rightarrow> Pub_wf p \<and> pk_packet_type p = PacketType.PubAck
      | Packet.PubRec p \<Rightarrow> Pub_wf p \<and> pk_packet_type p = PacketType.PubRec
      | Packet.PubRel p \<Rightarrow> Pub_wf p \<and> pk_packet_type p = PacketType.PubRel
      | Packet.PubComp p \<Rightarrow> Pub_wf p \<and> pk_packet_type p = PacketType.PubComp
      | Packet.Subscribe p \<Rightarrow> Subscribe_wf p
      | Packet.SubAck p \<Rightarrow> SubAck_wf p
      | Packet.UnSubscribe p \<Rightarrow> UnSubscribe_wf p
      | Packet.UnsubAck p \<Rightarrow> UnsubAck_wf p
      | Packet.PingReq \<Rightarrow> True
      | Packet.PingResp \<Rightarrow> True
      | Packet.Disconnect p \<Rightarrow> Disconnect_wf p
      | Packet.Auth p \<Rightarrow> Auth_wf p)"

text \<open>The type that the header of a stream announces.\<close>

definition header_type :: "bytes \<Rightarrow> PacketType result" where
  "header_type s =
     and_then (FixedHeader_decode s) (\<lambda>(fh, _).
     and_then (FixedHeader_unwrap fh) (\<lambda>(pkt_type, _, _, _). Ok pkt_type))"

lemma header_type_Ok:
  "header_type s = Ok t \<longleftrightarrow>
     (\<exists>fh k r q d. FixedHeader_decode s = Ok (fh, k) \<and> FixedHeader_unwrap fh = Ok (t, r, q, d))"
  by (auto simp: header_type_def and_then_eq_Inr)

lemma header_decodes: "FixedHeader_decode s = Ok (fh, k) \<Longrightarrow> \<exists>t r q d. FixedHeader_unwrap fh = Ok (t, r, q, d)"
  by (auto simp: FixedHeader_decode_Ok FixedHeader_validate_iff)

lemma header_type_no_panic: "\<not> panics (header_type s)"
  by (auto simp: header_type_def panics_and_then Header.dec_no_panic dest!: header_decodes)

lemma Packet_decode_eq: "Packet_decode s = and_then (header_type s) (\<lambda>t. decode_as t s)"
  by (auto simp: Packet_decode_def header_type_def and_then_def split: sum.splits)

lemma announces_type: "announces types bs rest \<Longrightarrow> \<exists>t \<in> types. header_type (bs @ rest) = Ok t"
  by (fastforce simp: announces_def header_type_Ok)

lemma announces_one: "announces {t} bs rest \<Longrightarrow> header_type (bs @ rest) = Ok t"
  using announces_type by fastforce

lemma Pub_header_type: "Pub_decode s = Ok (v, n) \<Longrightarrow> header_type s = Ok (pk_packet_type v)"
  by (erule Pub_decode_Ok) (auto simp: header_type_Ok)

text \<open>The laws of the packets, as rules for a case distinction on the packet.\<close>

lemmas all_packet_dec_enc =
  ConnectCodec.packet_dec_enc
  ConnAckCodec.packet_dec_enc
  PublishCodec.packet_dec_enc
  PubCodec.packet_dec_enc
  SubscribeCodec.packet_dec_enc
  SubAckCodec.packet_dec_enc
  UnSubscribeCodec.packet_dec_enc
  UnsubAckCodec.packet_dec_enc
  PingReqCodec.packet_dec_enc
  PingRespCodec.packet_dec_enc
  DisconnectCodec.packet_dec_enc
  AuthCodec.packet_dec_enc

lemmas all_packet_header =
  ConnectCodec.packet_header
  ConnAckCodec.packet_header
  PublishCodec.packet_header
  PubCodec.packet_header
  SubscribeCodec.packet_header
  SubAckCodec.packet_header
  UnSubscribeCodec.packet_header
  UnsubAckCodec.packet_header
  PingReqCodec.packet_header
  PingRespCodec.packet_header
  DisconnectCodec.packet_header
  AuthCodec.packet_header

lemmas all_packet_bound =
  ConnectCodec.packet_bound
  ConnAckCodec.packet_bound
  PublishCodec.packet_bound
  PubCodec.packet_bound
  SubscribeCodec.packet_bound
  SubAckCodec.packet_bound
  UnSubscribeCodec.packet_bound
  UnsubAckCodec.packet_bound
  PingReqCodec.packet_bound
  PingRespCodec.packet_bound
  DisconnectCodec.packet_bound
  AuthCodec.packet_bound

lemmas all_packet_no_panic =
  ConnectCodec.packet_no_panic
  ConnAckCodec.packet_no_panic
  PublishCodec.packet_no_panic
  PubCodec.packet_no_panic
  SubscribeCodec.packet_no_panic
  SubAckCodec.packet_no_panic
  UnSubscribeCodec.packet_no_panic
  UnsubAckCodec.packet_no_panic
  PingReqCodec.packet_no_panic
  PingRespCodec.packet_no_panic
  DisconnectCodec.packet_no_panic
  AuthCodec.packet_no_panic

lemmas all_packet_enc_no_panic =
  ConnectCodec.packet_enc_no_panic
  ConnAckCodec.packet_enc_no_panic
  PublishCodec.packet_enc_no_panic
  PubCodec.packet_enc_no_panic
  SubscribeCodec.packet_enc_no_panic
  SubAckCodec.packet_enc_no_panic
  UnSubscribeCodec.packet_enc_no_panic
  UnsubAckCodec.packet_enc_no_panic
  PingReqCodec.packet_enc_no_panic
  PingRespCodec.packet_enc_no_panic
  DisconnectCodec.packet_enc_no_panic
  AuthCodec.packet_enc_no_panic

lemmas all_norm_norm =
  ConnectCodec.norm_norm
  ConnAckCodec.norm_norm
  PublishCodec.norm_norm
  PubCodec.norm_norm
  SubscribeCodec.norm_norm
  SubAckCodec.norm_norm
  UnSubscribeCodec.norm_norm
  UnsubAckCodec.norm_norm
  PingReqCodec.norm_norm
  PingRespCodec.norm_norm
  DisconnectCodec.norm_norm
  AuthCodec.norm_norm

lemmas all_packet_wf =
  ConnAckCodec.packet_wf
  PublishCodec.packet_wf
  PubCodec.packet_wf
  SubscribeCodec.packet_wf
  SubAckCodec.packet_wf
  UnSubscribeCodec.packet_wf
  UnsubAckCodec.packet_wf
  PingReqCodec.packet_wf
  PingRespCodec.packet_wf
  DisconnectCodec.packet_wf
  AuthCodec.packet_wf

lemma Packet_header:
  assumes "Packet_wf v" and "Packet_encode v = Ok b"
  shows "announces {to_packet_type v} (as_ref b) rest"
proof (cases "\<exists>p. v \<in> {Packet.PubAck p, Packet.PubRec p, Packet.PubRel p, Packet.PubComp p}")
  case True
  then obtain p where p: "Pub_wf p" "pk_packet_type p = to_packet_type v" "Pub_encode p = Ok b"
    using assms by (auto simp: Packet_wf_def Packet_encode_def to_packet_type_def)
  have "header_type (as_ref b @ rest) = Ok (to_packet_type v)"
    using Pub_header_type [OF PubCodec.packet_dec_enc [OF p(1,3), of rest]] p(2)
    by (simp add: Pub_normalize_def)
  with PubCodec.packet_header [OF p(1,3), of rest] show ?thesis
    by (auto simp: announces_def header_type_Ok)
next
  case False
  with assms show ?thesis
    by (cases v) (simp_all add: Packet_wf_def Packet_encode_def to_packet_type_def all_packet_header)
qed

lemma Packet_dec_enc:
  assumes "Packet_wf v" and "Packet_encode v = Ok b"
  shows "Packet_decode (as_ref b @ rest) = Ok (Packet_normalize v, length (as_ref b))"
  using assms all_packet_dec_enc [of _ b rest] announces_one [OF Packet_header [OF assms], of rest]
  by (cases v) (auto simp: Packet_wf_def Packet_encode_def to_packet_type_def Packet_decode_eq
      decode_as_def Packet_normalize_def)

lemma decode_as_Ok: "decode_as t s = Ok (v, n) \<Longrightarrow> t = to_packet_type v \<and> 0 < n \<and> n \<le> length s"
  by (cases t) (auto simp: decode_as_def to_packet_type_def and_then_eq_Inr dest!: all_packet_bound)

lemma Packet_decode_Ok:
  "Packet_decode s = Ok (v, n) \<longleftrightarrow>
     header_type s = Ok (to_packet_type v) \<and> decode_as (to_packet_type v) s = Ok (v, n)"
  by (auto simp: Packet_decode_eq and_then_eq_Inr dest: decode_as_Ok)

lemma Packet_decode_bound: "Packet_decode s = Ok (v, n) \<Longrightarrow> 0 < n \<and> n \<le> length s"
  by (auto simp: Packet_decode_Ok dest: decode_as_Ok)

lemma decode_as_no_panic:
  assumes "framed s" and "header_type s = Ok t"
  shows "\<not> panics (decode_as t s)"
proof -
  from assms(2) obtain fh k r q d where h: "FixedHeader_decode s = Ok (fh, k)"
    "FixedHeader_unwrap fh = Ok (t, r, q, d)" by (auto simp: header_type_Ok)
  show ?thesis
    using all_packet_no_panic [OF assms(1) h] by (cases t) (simp_all add: decode_as_def panics_and_then
        pub_types_def split_beta)
qed

lemma Packet_decode_no_panic: "framed s \<Longrightarrow> \<not> panics (Packet_decode s)"
  by (auto simp: Packet_decode_eq panics_and_then header_type_no_panic decode_as_no_panic)

interpretation AnyPacket: packet_codec Packet_decode Packet_encode Packet_wf Packet_normalize UNIV
proof unfold_locales
  show "announces UNIV (as_ref b) rest" if "Packet_wf v" "Packet_encode v = Ok b" for v b rest
    using Packet_header [OF that, of rest] by (auto simp: announces_def)
  show "\<not> panics (Packet_encode v)" if "Packet_wf v" for v
    using that by (cases v) (simp_all add: Packet_wf_def Packet_encode_def all_packet_enc_no_panic)
  show "Packet_normalize (Packet_normalize v) = Packet_normalize v" for v
    by (cases v) (simp_all add: Packet_normalize_def all_norm_norm)
qed (use Packet_dec_enc Packet_decode_bound Packet_decode_no_panic in blast)+

text \<open>What is decoded may be sent again, but for a CONNECT whose will has no property set.\<close>

definition will_sendable :: "Packet \<Rightarrow> bool" where
  "will_sendable v \<longleftrightarrow> (case v of Packet.Connect c \<Rightarrow> Connect_will_sendable c | _ \<Rightarrow> True)"

lemma Packet_decode_wf:
  assumes dec: "Packet_decode s = Ok (v, n)" and will: "will_sendable v"
  shows "Packet_wf v"
proof -
  from dec have ty: "header_type s = Ok (to_packet_type v)" and as: "decode_as (to_packet_type v) s = Ok (v, n)"
    by (simp_all add: Packet_decode_Ok)
  from ty obtain fh k r q d where h: "FixedHeader_decode s = Ok (fh, k)"
    "FixedHeader_unwrap fh = Ok (to_packet_type v, r, q, d)" by (auto simp: header_type_Ok)
  note wfs = all_packet_wf [OF _ h] Connect_decode_Ok
  show ?thesis
    using as will ty by (cases v) (auto simp: Packet_wf_def to_packet_type_def decode_as_def and_then_eq_Inr
        pub_types_def will_sendable_def Connect_sendable_def dest: wfs Pub_header_type)
qed

end
