(* ===== verification/PacketIO.thy ===== *)
theory PacketIO
  imports V5_Packet "HOL-Library.Monad_Syntax"
begin

text \<open>
  Model of \<open>src/packet.rs\<close>: the state machines \<open>MQTTRead\<close> and \<open>MQTTWrite\<close> that move packets
  over a non-blocking socket. A call of \<open>io::Read::read\<close> or \<open>io::Write::write\<close> is a parameter:
  what the socket answers to a buffer. The facts relate the states of the reader to the bytes
  that came in, whatever the pieces in which the socket delivers them.
\<close>

section \<open>Sockets\<close>

text \<open>The kinds of \<open>io::Error\<close> that the code tells apart.\<close>

datatype io_kind = Interrupted | WouldBlock | OtherIO

text \<open>The answer to \<open>read(buf)\<close>: the bytes put into the buffer, or an error.\<close>

datatype io_read = ReadOk bytes | ReadErr io_kind

datatype io_write = WriteOk usize | WriteErr io_kind

text \<open>\<open>io::Read\<close> and \<open>io::Write\<close> never move more than the buffer holds.\<close>

definition read_fits :: "(usize \<Rightarrow> io_read) \<Rightarrow> bool" where
  "read_fits rd \<longleftrightarrow> (\<forall>k bs. rd k = ReadOk bs \<longrightarrow> length bs \<le> k)"

definition write_fits :: "(bytes \<Rightarrow> io_write) \<Rightarrow> bool" where
  "write_fits wr \<longleftrightarrow> (\<forall>buf n. wr buf = WriteOk n \<longrightarrow> n \<le> length buf)"

section \<open>Reading packets\<close>

datatype MQTTRead =
    RInit bytes usize
  | RHeader u8 bytes usize
  | RRemain bytes usize FixedHeader usize
  | RFin bytes bytes FixedHeader usize
  | RNone

abbreviation (input) MQTTRead_default :: MQTTRead where
  "MQTTRead_default \<equiv> RNone"

definition MQTTRead_new :: "u32 \<Rightarrow> MQTTRead" where
  "MQTTRead_new max_size = RInit [] (unat max_size)"

definition check_packet_limit :: "usize \<Rightarrow> usize \<Rightarrow> unit result" where
  "check_packet_limit pkt_len max_size =
     (if pkt_len > max_size then err ErrorKind.MalformedPacket ReasonCode.PacketTooLarge else Ok ())"

definition pre_read :: "MQTTRead \<Rightarrow> (MQTTRead \<times> bool) result" where
  "pre_read self =
     (case self of
        RInit data max_size \<Rightarrow>
          if length data > 1
          then let b1 = data ! 0 in
            case VarU32_decode (drop 1 data) of
              Inl Panic \<Rightarrow> panic
            | Inl (Err _) \<Rightarrow> Ok (RInit data max_size, False)
            | Inr (rem_len, m) \<Rightarrow>
                let pkt_len = 1 + m + unat (var_u32 rem_len) in
                and_then (check_packet_limit pkt_len max_size) (\<lambda>_.
                  let fh = \<lparr>byte1 = b1, remaining_len = rem_len\<rparr> in
                  if pkt_len \<le> length data
                  then Ok (RFin (take pkt_len data) (drop pkt_len data) fh max_size, True)
                  else Ok (RInit data max_size, False))
          else Ok (RInit data max_size, False)
      | val \<Rightarrow> Ok (val, False))"

text \<open>
  The common end of the arms \<open>Init\<close> and \<open>Header\<close>, once the bytes of the socket are in \<open>data\<close>:
  \<open>data.resize(pkt_len, 0)\<close> makes room for the rest of the packet.
\<close>

definition read_header :: "u8 \<Rightarrow> bytes \<Rightarrow> usize \<Rightarrow> (MQTTRead \<times> bool) result" where
  "read_header b1 data max_size =
     (if dropWhile (\<lambda>b. b \<ge> 0x80) (drop 1 data) \<noteq> []
      then and_then (VarU32_decode (drop 1 data)) (\<lambda>(rem_len, m).
             let pkt_len = 1 + m + unat (var_u32 rem_len) in
             and_then (check_packet_limit pkt_len max_size) (\<lambda>_.
               let fh = \<lparr>byte1 = b1, remaining_len = rem_len\<rparr> in
               if pkt_len \<le> length data
               then Ok (RFin (take pkt_len data) (drop pkt_len data) fh max_size, False)
               else Ok (RRemain (data @ replicate (pkt_len - length data) 0) (length data) fh max_size, False)))
      else Ok (RHeader b1 data max_size, False))"

text \<open>The scratch buffer has five bytes; \<open>&scratch[..n]\<close> panics when the socket claims more.\<close>

definition MQTTRead_read :: "(usize \<Rightarrow> io_read) \<Rightarrow> MQTTRead \<Rightarrow> (MQTTRead \<times> bool) result" where
  "MQTTRead_read rd self =
     and_then (pre_read self) (\<lambda>(self, ready).
     if ready then Ok (self, False)
     else
       (case self of
          RInit data max_size \<Rightarrow>
            (case rd 5 of
               ReadOk bs \<Rightarrow>
                 if length bs = 0 then err_desc ErrorKind.Disconnected
                 else if length bs > 5 then panic
                 else let data = data @ bs in read_header (data ! 0) data max_size
             | ReadErr Interrupted \<Rightarrow> Ok (RInit data max_size, False)
             | ReadErr WouldBlock \<Rightarrow> Ok (RInit data max_size, True)
             | ReadErr OtherIO \<Rightarrow> err_desc ErrorKind.Disconnected)
        | RHeader b1 data max_size \<Rightarrow>
            (case rd 5 of
               ReadOk bs \<Rightarrow>
                 if length bs = 0 then err_desc ErrorKind.Disconnected
                 else if length bs > 5 then panic
                 else read_header b1 (data @ bs) max_size
             | ReadErr Interrupted \<Rightarrow> Ok (RHeader b1 data max_size, False)
             | ReadErr WouldBlock \<Rightarrow> Ok (RHeader b1 data max_size, True)
             | ReadErr OtherIO \<Rightarrow> err_desc ErrorKind.Disconnected)
        | RRemain data start fh max_size \<Rightarrow>
            (if start > length data then panic
             else case rd (length data - start) of
               ReadOk bs \<Rightarrow>
                 let n = length bs; filled = take start data @ bs @ drop (start + n) data in
                 if n = 0 then err_desc ErrorKind.Disconnected
                 else if start + n = length data then Ok (RFin filled [] fh max_size, False)
                 else if start + n < length data then Ok (RRemain filled (start + n) fh max_size, False)
                 else panic
             | ReadErr Interrupted \<Rightarrow> Ok (RRemain data start fh max_size, False)
             | ReadErr WouldBlock \<Rightarrow> Ok (RRemain data start fh max_size, True)
             | ReadErr OtherIO \<Rightarrow> err_desc ErrorKind.Disconnected)
        | RFin data rem fh max_size \<Rightarrow> Ok (RFin data rem fh max_size, False)
        | RNone \<Rightarrow> panic))"

definition MQTTRead_parse :: "MQTTRead \<Rightarrow> Packet result" where
  "MQTTRead_parse self =
     (case self of
        RFin data rem fh max_size \<Rightarrow>
          and_then (FixedHeader_unwrap fh) (\<lambda>(pkt_type, _, _, _).
          and_then (decode_as pkt_type data) (\<lambda>(pkt, n).
            let m = length data in
            if n \<noteq> m then err ErrorKind.MalformedPacket ReasonCode.MalformedPacket else Ok pkt))
      | _ \<Rightarrow> panic)"

definition MQTTRead_reset :: "MQTTRead \<Rightarrow> MQTTRead result" where
  "MQTTRead_reset self =
     (case self of
        RFin data rem fh max_size \<Rightarrow> Ok (RInit rem max_size)
      | RInit data max_size \<Rightarrow> Ok (RInit data max_size)
      | _ \<Rightarrow> panic)"

section \<open>Writing packets\<close>

datatype MQTTWrite =
    WInit bytes usize
  | WRemain bytes usize usize
  | WFin bytes usize
  | WNone

abbreviation (input) MQTTWrite_default :: MQTTWrite where
  "MQTTWrite_default \<equiv> WNone"

definition MQTTWrite_new :: "bytes \<Rightarrow> u32 \<Rightarrow> MQTTWrite" where
  "MQTTWrite_new buf max_size = WInit buf (unat max_size)"

definition MQTTWrite_write :: "(bytes \<Rightarrow> io_write) \<Rightarrow> MQTTWrite \<Rightarrow> (MQTTWrite \<times> bool) result" where
  "MQTTWrite_write wr self =
     (case self of
        WInit data max_size \<Rightarrow>
          if length data > max_size then Ok (WFin data max_size, False)
          else if length data = 0 then Ok (WFin data max_size, False)
          else
            (case wr data of
               WriteOk n \<Rightarrow>
                 if n = 0 then err_desc ErrorKind.Disconnected
                 else if n = length data then Ok (WFin data max_size, False)
                 else if n < length data then Ok (WRemain data n max_size, False)
                 else panic
             | WriteErr Interrupted \<Rightarrow> Ok (WRemain data 0 max_size, False)
             | WriteErr WouldBlock \<Rightarrow> Ok (WRemain data 0 max_size, True)
             | WriteErr OtherIO \<Rightarrow> err_desc ErrorKind.Disconnected)
      | WRemain data start max_size \<Rightarrow>
          if start > length data then panic
          else if length (drop start data) = 0 then Ok (WFin data max_size, False)
          else
            (case wr (drop start data) of
               WriteOk n \<Rightarrow>
                 if n = 0 then err_desc ErrorKind.Disconnected
                 else if start + n = length data then Ok (WFin data max_size, False)
                 else if start + n < length data then Ok (WRemain data (start + n) max_size, False)
                 else panic
             | WriteErr Interrupted \<Rightarrow> Ok (WRemain data start max_size, False)
             | WriteErr WouldBlock \<Rightarrow> Ok (WRemain data start max_size, True)
             | WriteErr OtherIO \<Rightarrow> err_desc ErrorKind.Disconnected)
      | WFin data max_size \<Rightarrow> Ok (WFin data max_size, False)
      | WNone \<Rightarrow> panic)"

definition MQTTWrite_reset :: "bytes \<Rightarrow> MQTTWrite \<Rightarrow> MQTTWrite result" where
  "MQTTWrite_reset buf self =
     (case self of
        WInit data max_size \<Rightarrow> Ok (WInit buf max_size)
      | WFin data max_size \<Rightarrow> Ok (WInit buf max_size)
      | _ \<Rightarrow> panic)"

text \<open>
  The loop of \<open>send_disconnect\<close>. The \<open>i\<close>-th turn writes to the socket \<open>wr i\<close> and reads the clock
  \<open>now i\<close>; the loop may never end, so its result is an option.
\<close>

partial_function (option) send_disconnect_loop ::
  "(nat \<Rightarrow> bytes \<Rightarrow> io_write) \<Rightarrow> (nat \<Rightarrow> nat) \<Rightarrow> nat \<Rightarrow> nat \<Rightarrow> MQTTWrite \<Rightarrow> unit result option" where
  "send_disconnect_loop wr now timeout i packetw =
     (case MQTTWrite_write (wr i) packetw of
        Inl e \<Rightarrow> Some (Inl e)
      | Inr (packetw, would_block) \<Rightarrow>
          if would_block \<and> timeout < now i
          then send_disconnect_loop wr now timeout (Suc i) packetw
          else if would_block then Some (err_desc ErrorKind.Disconnected)
          else Some (Ok ()))"

definition send_disconnect ::
  "(nat \<Rightarrow> bytes \<Rightarrow> io_write) \<Rightarrow> (nat \<Rightarrow> nat) \<Rightarrow> DisconnReasonCode \<Rightarrow> nat \<Rightarrow> u32 \<Rightarrow> unit result option" where
  "send_disconnect wr now code timeout max_size =
     (let dc = Disconnect_new code None
      in case Disconnect_encode dc of
           Inl _ \<Rightarrow> Some panic
         | Inr b \<Rightarrow> send_disconnect_loop wr now timeout 0 (MQTTWrite_new (as_ref b) max_size))"

section \<open>Frames\<close>

text \<open>What \<open>VarU32::decode\<close> reads ends at the first byte below 128 and depends on no other bytes.\<close>

lemma VarU32_loop_end:
  "VarU32_loop s [i..<M] out = Ok (v, n) \<Longrightarrow>
     i < n \<and> n \<le> M \<and> s ! (n - 1) < 0x80 \<and> (\<forall>j. i \<le> j \<and> j < n - 1 \<longrightarrow> 0x80 \<le> s ! j)"
proof (induction "M - i" arbitrary: i out)
  case (Suc k)
  then have iM: "i < M" by simp
  show ?case
  proof (cases "s ! i < 0x80")
    case True
    with Suc.prems iM show ?thesis by (auto simp: VarU32_loop_step simp del: push_bit_and)
  next
    case False
    with Suc.prems iM have l: "VarU32_loop s [Suc i..<M]
        (out + push_bit (7 * i) (ucast (s ! i) AND 0x7F)) = Ok (v, n)"
      by (simp add: VarU32_loop_step del: push_bit_and)
    have k: "k = M - Suc i" using Suc.hyps(2) by simp
    have ih: "0x80 \<le> s ! j" if "Suc i \<le> j" "j < n - 1" for j
      using Suc.hyps(1) [OF k l] that by auto
    have "0x80 \<le> s ! j" if "i \<le> j" "j < n - 1" for j
      using ih [of j] that False by (cases "j = i") (auto simp: linorder_not_less)
    then show ?thesis using Suc.hyps(1) [OF k l] by auto
  qed
qed simp

lemma VarU32_loop_prefix:
  "\<lbrakk>VarU32_loop s [i..<M] out = Ok (v, n); \<And>j. j < n \<Longrightarrow> s ! j = s' ! j; n \<le> M'\<rbrakk>
   \<Longrightarrow> VarU32_loop s' [i..<M'] out = Ok (v, n)"
proof (induction "M - i" arbitrary: i out)
  case (Suc k)
  then have iM: "i < M" by simp
  have e: "i < n" "s ! i = s' ! i" using VarU32_loop_end [OF Suc.prems(1)] Suc.prems(2) by auto
  show ?case
  proof (cases "s ! i < 0x80")
    case True
    with Suc.prems e iM show ?thesis by (auto simp: VarU32_loop_step simp del: push_bit_and)
  next
    case False
    with Suc.prems(1) iM have l: "VarU32_loop s [Suc i..<M]
        (out + push_bit (7 * i) (ucast (s ! i) AND 0x7F)) = Ok (v, n)"
      by (simp add: VarU32_loop_step del: push_bit_and)
    have "k = M - Suc i" using Suc.hyps(2) by simp
    from Suc.hyps(1) [OF this l Suc.prems(2,3)] Suc.prems(3) False e show ?thesis
      by (simp add: VarU32_loop_step del: push_bit_and)
  qed
qed simp

lemma VarU32_decode_prefix:
  assumes "VarU32_decode s = Ok (v, n)" and "take n s' = take n s"
  shows "VarU32_decode s' = Ok (v, n)"
proof -
  have n: "n \<le> length s" "n \<le> 4" using VarU32_decode_Ok [OF assms(1)] by auto
  have "min (length s') n = n" using assms(2) n(1) by (metis length_take min.absorb2)
  then have "n \<le> length s'" by simp
  moreover have "s ! j = s' ! j" if "j < n" for j using assms(2) that by (metis nth_take)
  ultimately show ?thesis
    using n(2) by (auto simp: VarU32_decode_def intro: VarU32_loop_prefix [OF assms(1) [unfolded VarU32_decode_def]])
qed

lemma VarU32_decode_end:
  assumes "VarU32_decode s = Ok (v, n)"
  shows "s ! (n - 1) < 0x80 \<and> (\<forall>j < n - 1. 0x80 \<le> s ! j)"
  using VarU32_loop_end [OF assms [unfolded VarU32_decode_def]] by auto

text \<open>The bytes start with the header \<open>fh\<close>, which takes \<open>m + 1\<close> of them.\<close>

definition starts :: "bytes \<Rightarrow> FixedHeader \<Rightarrow> usize \<Rightarrow> bool" where
  "starts d fh m \<longleftrightarrow> d \<noteq> [] \<and> d ! 0 = byte1 fh \<and> VarU32_decode (drop 1 d) = Ok (remaining_len fh, m)"

text \<open>A frame: a header and as many bytes as it announces.\<close>

definition frame :: "bytes \<Rightarrow> FixedHeader \<Rightarrow> bool" where
  "frame d fh \<longleftrightarrow> (\<exists>m. starts d fh m \<and> length d = 1 + m + unat (var_u32 (remaining_len fh)))"

lemma starts_bound: "starts d fh m \<Longrightarrow> 0 < m \<and> 1 + m \<le> length d"
  using VarU32_decode_Ok [of "drop 1 d" "remaining_len fh" m] by (auto simp: starts_def)

lemma starts_prefix:
  assumes "starts d fh m" and "take (1 + m) d' = take (1 + m) d"
  shows "starts d' fh m"
proof -
  from assms(1) obtain b t where d: "d = b # t" by (cases d) (auto simp: starts_def)
  with assms(2) obtain b' t' where d': "d' = b' # t'" by (cases d') auto
  have "b' = b" "take m t' = take m t" using assms(2) d d' by simp_all
  then show ?thesis using assms(1) VarU32_decode_prefix [of t _ m t'] d d' by (simp add: starts_def)
qed

lemma starts_append: "starts d fh m \<Longrightarrow> starts (d @ x) fh m"
  using starts_prefix [of d fh m "d @ x"] starts_bound [of d fh m] by simp

lemma starts_unique: "\<lbrakk>starts d fh m; starts d fh' m'\<rbrakk> \<Longrightarrow> fh = fh' \<and> m = m'"
  by (cases fh; cases fh') (auto simp: starts_def)

text \<open>Frames delimit themselves.\<close>

lemma frame_unique:
  assumes "frame p fh" and "frame q fh'" and "p @ x = q @ y"
  shows "p = q \<and> fh = fh' \<and> x = y"
proof -
  from assms obtain m m' where m: "starts p fh m" "length p = 1 + m + unat (var_u32 (remaining_len fh))"
    "starts q fh' m'" "length q = 1 + m' + unat (var_u32 (remaining_len fh'))" by (auto simp: frame_def)
  have "starts (p @ x) fh m" "starts (p @ x) fh' m'"
    using starts_append m(1,3) assms(3) by metis+
  then have "fh = fh'" "m = m'" using starts_unique by blast+
  with m assms(3) show ?thesis by simp
qed

section \<open>The invariant of the reader\<close>

text \<open>The bytes that came in and were not handed out, the limit, and what each state knows of them.\<close>

fun rcontent :: "MQTTRead \<Rightarrow> bytes" where
  "rcontent (RInit data _) = data"
| "rcontent (RHeader _ data _) = data"
| "rcontent (RRemain data start _ _) = take start data"
| "rcontent (RFin data rem _ _) = data @ rem"
| "rcontent RNone = []"

fun rmax :: "MQTTRead \<Rightarrow> usize" where
  "rmax (RInit _ max_size) = max_size"
| "rmax (RHeader _ _ max_size) = max_size"
| "rmax (RRemain _ _ _ max_size) = max_size"
| "rmax (RFin _ _ _ max_size) = max_size"
| "rmax RNone = 0"

fun rinv :: "MQTTRead \<Rightarrow> bool" where
  "rinv (RInit data max_size) \<longleftrightarrow> True"
| "rinv (RHeader b1 data max_size) \<longleftrightarrow> data \<noteq> [] \<and> data ! 0 = b1 \<and> (\<forall>b\<in>set (drop 1 data). 0x80 \<le> b)"
| "rinv (RRemain data start fh max_size) \<longleftrightarrow>
     (\<exists>m. starts data fh m \<and> 1 + m \<le> start \<and> start < length data \<and>
        length data = 1 + m + unat (var_u32 (remaining_len fh)) \<and> length data \<le> max_size)"
| "rinv (RFin data rem fh max_size) \<longleftrightarrow> frame data fh \<and> length data \<le> max_size"
| "rinv RNone \<longleftrightarrow> False"

fun is_fin :: "MQTTRead \<Rightarrow> bool" where
  "is_fin (RFin _ _ _ _) \<longleftrightarrow> True"
| "is_fin _ \<longleftrightarrow> False"

lemma frame_take:
  assumes "starts data fh m" and "1 + m + unat (var_u32 (remaining_len fh)) \<le> length data"
  shows "frame (take (1 + m + unat (var_u32 (remaining_len fh))) data) fh"
proof -
  have "starts (take (1 + m + unat (var_u32 (remaining_len fh))) data) fh m"
    by (rule starts_prefix [OF assms(1)]) simp
  with assms(2) show ?thesis unfolding frame_def by (intro exI [of _ m]) simp
qed

lemma check_packet_limit_Ok [simp]: "check_packet_limit n mx = Ok u \<longleftrightarrow> n \<le> mx"
  by (auto simp: check_packet_limit_def)

lemma check_packet_limit_no_panic [simp]: "\<not> panics (check_packet_limit n mx)"
  by (simp add: check_packet_limit_def)

lemma pre_read_simps [simp]:
  "pre_read (RHeader b data mx) = Ok (RHeader b data mx, False)"
  "pre_read (RRemain data start fh mx) = Ok (RRemain data start fh mx, False)"
  "pre_read (RFin data rem fh mx) = Ok (RFin data rem fh mx, False)"
  "pre_read RNone = Ok (RNone, False)"
  by (simp_all add: pre_read_def)

lemma pre_read_init:
  assumes "pre_read (RInit data mx) = Ok (st', ready)"
  shows "rinv st' \<and> rcontent st' = data \<and> rmax st' = mx \<and>
    (if ready then is_fin st' else st' = RInit data mx)"
proof (cases "ready")
  case False
  with assms show ?thesis
    by (auto simp: pre_read_def Let_def and_then_eq_Inr split: if_split_asm sum.splits fault.splits)
next
  case True
  with assms obtain rl m where d: "1 < length data" "VarU32_decode (drop 1 data) = Ok (rl, m)"
    "1 + m + unat (var_u32 rl) \<le> mx" "1 + m + unat (var_u32 rl) \<le> length data"
    "st' = RFin (take (1 + m + unat (var_u32 rl)) data) (drop (1 + m + unat (var_u32 rl)) data)
       \<lparr>byte1 = data ! 0, remaining_len = rl\<rparr> mx"
    by (auto simp: pre_read_def Let_def and_then_eq_Inr split: if_split_asm sum.splits fault.splits)
  have "starts data \<lparr>byte1 = data ! 0, remaining_len = rl\<rparr> m" using d by (auto simp: starts_def)
  from frame_take [OF this] d True show ?thesis by simp
qed

lemma read_header_Ok:
  assumes "read_header (data ! 0) data mx = Ok (st', wb)" and "data \<noteq> []"
  shows "rinv st' \<and> rcontent st' = data \<and> rmax st' = mx \<and> \<not> wb"
proof (cases "dropWhile (\<lambda>b. b \<ge> 0x80) (drop 1 data) = []")
  case True
  with assms show ?thesis by (auto simp: read_header_def dropWhile_eq_Nil_conv)
next
  case False
  with assms(1) obtain rl m where d: "VarU32_decode (drop 1 data) = Ok (rl, m)"
    "1 + m + unat (var_u32 rl) \<le> mx" and st': "\<not> wb" "st' =
      (let pkt_len = 1 + m + unat (var_u32 rl); fh = \<lparr>byte1 = data ! 0, remaining_len = rl\<rparr> in
       if pkt_len \<le> length data then RFin (take pkt_len data) (drop pkt_len data) fh mx
       else RRemain (data @ replicate (pkt_len - length data) 0) (length data) fh mx)"
    by (auto simp: read_header_def Let_def and_then_eq_Inr split: if_split_asm)
  have s: "starts data \<lparr>byte1 = data ! 0, remaining_len = rl\<rparr> m" using d assms(2) by (auto simp: starts_def)
  show ?thesis
    using st' d frame_take [OF s] starts_append [OF s] starts_bound [OF s] by (auto simp: Let_def)
qed

lemma read_remain_inv:
  assumes "starts data fh m" and "1 + m \<le> start" and "start + length bs \<le> length data"
  shows "starts (take start data @ bs @ drop (start + length bs) data) fh m"
  by (rule starts_prefix [OF assms(1)]) (use assms(2,3) in simp)

text \<open>The call of \<open>read\<close> once \<open>pre_read\<close> found no packet.\<close>

lemma read_ready: "pre_read st = Ok (st', True) \<Longrightarrow> MQTTRead_read rd st = Ok (st', False)"
  by (simp add: MQTTRead_read_def)

lemma read_init:
  "pre_read (RInit data mx) = Ok (RInit data mx, False) \<Longrightarrow> MQTTRead_read rd (RInit data mx) =
     (case rd 5 of
        ReadOk bs \<Rightarrow>
          if length bs = 0 then err_desc ErrorKind.Disconnected
          else if length bs > 5 then panic
          else read_header ((data @ bs) ! 0) (data @ bs) mx
      | ReadErr Interrupted \<Rightarrow> Ok (RInit data mx, False)
      | ReadErr WouldBlock \<Rightarrow> Ok (RInit data mx, True)
      | ReadErr OtherIO \<Rightarrow> err_desc ErrorKind.Disconnected)"
  by (simp add: MQTTRead_read_def Let_def split: io_read.split)

lemma pre_read_init_cases:
  obtains (ready) st' where "pre_read (RInit data mx) = Ok (st', True)"
  | (more) "pre_read (RInit data mx) = Ok (RInit data mx, False)"
  | (err) e where "pre_read (RInit data mx) = Inl (Err e)"
proof (cases "pre_read (RInit data mx)")
  case (Inl e)
  have "\<not> panics (pre_read (RInit data mx))"
    using VarU32_decode_no_panic [of "drop 1 data"]
    by (auto simp: pre_read_def Let_def panics_and_then split: sum.splits fault.splits)
  with Inl err show thesis by (cases e) (auto simp: panics_def)
next
  case (Inr r)
  obtain st' b where "r = (st', b)" by (cases r)
  with Inr pre_read_init [of data mx st' b] ready more show thesis by (cases b) auto
qed

definition grows :: "(usize \<Rightarrow> io_read) \<Rightarrow> MQTTRead \<Rightarrow> MQTTRead \<Rightarrow> bool" where
  "grows rd st st' \<longleftrightarrow>
     (\<exists>bs. rcontent st' = rcontent st @ bs \<and> (bs = [] \<or> (\<exists>k. rd k = ReadOk bs)))"

lemma read_header_hd: "data \<noteq> [] \<Longrightarrow> data ! 0 = b \<Longrightarrow> (data @ bs) ! 0 = b"
  by (cases data) auto

lemma read_Ok:
  assumes "MQTTRead_read rd st = Ok (st', wb)" and "rinv st"
  shows "rinv st' \<and> rmax st' = rmax st \<and> grows rd st st'"
proof (cases st)
  case (RInit data mx)
  show ?thesis
  proof (cases rule: pre_read_init_cases [of data mx])
    case (ready st1)
    with assms RInit pre_read_init [OF ready] show ?thesis by (auto simp: read_ready grows_def)
  next
    case more
    note eq = assms(1) [unfolded RInit read_init [OF more]]
    show ?thesis
    proof (cases "rd 5")
      case (ReadOk bs)
      with eq have "read_header ((data @ bs) ! 0) (data @ bs) mx = Ok (st', wb)" "bs \<noteq> []"
        by (auto split: if_split_asm)
      from read_header_Ok [OF this(1)] this(2) RInit ReadOk show ?thesis by (auto simp: grows_def)
    next
      case (ReadErr e)
      with eq RInit show ?thesis by (cases e) (auto simp: grows_def)
    qed
  next
    case (err e)
    with assms(1) RInit show ?thesis by (simp add: MQTTRead_read_def)
  qed
next
  case (RHeader b1 data mx)
  show ?thesis
  proof (cases "rd 5")
    case (ReadOk bs)
    with assms RHeader have "read_header ((data @ bs) ! 0) (data @ bs) mx = Ok (st', wb)" "data @ bs \<noteq> []"
      by (auto simp: MQTTRead_read_def read_header_hd split: if_split_asm)
    from read_header_Ok [OF this] RHeader ReadOk show ?thesis by (auto simp: grows_def)
  next
    case (ReadErr e)
    with assms RHeader show ?thesis by (cases e) (auto simp: MQTTRead_read_def grows_def)
  qed
next
  case (RRemain data start fh mx)
  show ?thesis
  proof (cases "rd (length data - start)")
    case (ReadOk bs)
    let ?filled = "take start data @ bs @ drop (start + length bs) data"
    from assms(2) RRemain obtain m where m: "starts data fh m" "1 + m \<le> start" "start < length data"
      "length data = 1 + m + unat (var_u32 (remaining_len fh))" "length data \<le> mx" by auto
    from assms(1) RRemain ReadOk m have le: "start + length bs \<le> length data" "bs \<noteq> []"
      and st': "st' = (if start + length bs = length data then RFin ?filled [] fh mx
        else RRemain ?filled (start + length bs) fh mx)"
      by (auto simp: MQTTRead_read_def Let_def split: if_split_asm)
    have len: "length ?filled = length data" using le by simp
    have "rcontent st' = rcontent st @ bs" using st' le RRemain by auto
    with ReadOk have "grows rd st st'" unfolding grows_def by blast
    moreover have "rinv st'"
      using st' le m len read_remain_inv [OF m(1,2) le(1)] by (auto simp: frame_def intro!: exI [of _ m])
    ultimately show ?thesis using st' RRemain by simp
  next
    case (ReadErr e)
    with assms RRemain show ?thesis by (cases e) (auto simp: MQTTRead_read_def grows_def split: if_split_asm)
  qed
qed (use assms in \<open>auto simp: MQTTRead_read_def grows_def\<close>)

lemma read_header_no_panic: "\<not> panics (read_header b data mx)"
  by (auto simp: read_header_def panics_and_then Let_def VarU32_decode_no_panic)

lemma read_fitsD: "\<lbrakk>read_fits rd; rd k = ReadOk bs\<rbrakk> \<Longrightarrow> length bs \<le> k"
  by (simp add: read_fits_def)

lemma read_no_panic:
  assumes "rinv st" and "read_fits rd"
  shows "\<not> panics (MQTTRead_read rd st)"
proof (cases st)
  case (RInit data mx)
  show ?thesis
  proof (cases rule: pre_read_init_cases [of data mx])
    case (ready st1)
    with RInit show ?thesis by (simp add: read_ready)
  next
    case more
    with RInit assms(2) show ?thesis
      by (auto simp: read_init read_header_no_panic dest: read_fitsD split: io_read.splits io_kind.splits)
  next
    case (err e)
    with RInit show ?thesis by (simp add: MQTTRead_read_def)
  qed
qed (use assms in \<open>auto simp: MQTTRead_read_def read_header_no_panic Let_def dest: read_fitsD
    split: io_read.splits io_kind.splits\<close>)

section \<open>Progress\<close>

text \<open>
  A socket with bytes that wait in it: it hands over at most \<open>n\<close> of them, and tells the reader to
  come back when it has none.
\<close>

definition sock_read :: "nat \<Rightarrow> bytes \<Rightarrow> usize \<Rightarrow> io_read" where
  "sock_read n inp k = (if n = 0 \<or> inp = [] then ReadErr WouldBlock else ReadOk (take (min n k) inp))"

lemma sock_read_fits: "read_fits (sock_read n inp)"
  by (auto simp: read_fits_def sock_read_def min_le_iff_disj)

lemma take_length_take: "take (length (take j xs)) xs = take j xs"
  by (cases "j \<le> length xs") simp_all

lemma sock_read_prefix: "sock_read n inp k = ReadOk bs \<Longrightarrow> bs = take (length bs) inp"
  by (auto simp only: sock_read_def io_read.inject take_length_take split: if_split_asm)

lemma grows_sock:
  assumes "grows (sock_read n inp) st st'"
  shows "rcontent st' @ drop (length (rcontent st') - length (rcontent st)) inp = rcontent st @ inp \<and>
    length (rcontent st) \<le> length (rcontent st') \<and>
    length (rcontent st') - length (rcontent st) \<le> length inp"
proof -
  from assms obtain bs where "rcontent st' = rcontent st @ bs" "bs = take (length bs) inp"
    using sock_read_prefix by (auto simp: grows_def)
  then show ?thesis using append_take_drop_id [of "length bs" inp] length_take [of "length bs" inp] by auto
qed

lemma frame_prefix:
  assumes "frame p fh" and "starts data fh' m" and "data @ y = p @ x"
  shows "fh' = fh \<and> length p = 1 + m + unat (var_u32 (remaining_len fh'))"
proof -
  from assms(1) obtain k where k: "starts p fh k" "length p = 1 + k + unat (var_u32 (remaining_len fh))"
    by (auto simp: frame_def)
  have "starts (p @ x) fh' m" "starts (p @ x) fh k"
    using starts_append [OF assms(2), of y] starts_append [OF k(1), of x] assms(3) by simp_all
  from starts_unique [OF this] k(2) show ?thesis by auto
qed

text \<open>A piece of a frame that has a byte below 128 after its first has the whole header.\<close>

lemma frame_header_end:
  assumes "frame p fh" and "data @ y = p @ x" and "data \<noteq> []" and "\<not> (\<forall>b\<in>set (drop 1 data). 0x80 \<le> b)"
  shows "\<exists>m. starts data fh m"
proof -
  from assms(1) obtain m where m: "starts p fh m" by (auto simp: frame_def)
  then have e: "\<forall>j < m - 1. 0x80 \<le> drop 1 p ! j" and lp: "1 + m \<le> length p"
    using VarU32_decode_end [of "drop 1 p"] starts_bound by (auto simp: starts_def)
  have same: "data ! j = p ! j" if "j < length data" "j < length p" for j
    using arg_cong [OF assms(2), of "\<lambda>l. l ! j"] that by (simp add: nth_append)
  have "1 + m \<le> length data"
  proof (rule ccontr)
    assume short: "\<not> 1 + m \<le> length data"
    have "0x80 \<le> drop 1 data ! j" if j: "j < length data - 1" for j
    proof -
      have "drop 1 data ! j = drop 1 p ! j" using same [of "Suc j"] j short lp by simp
      moreover have "j < m - 1" using j short by linarith
      ultimately show ?thesis using e by simp
    qed
    with assms(4) show False by (auto simp: in_set_conv_nth)
  qed
  moreover from this lp have "take (1 + m) data = take (1 + m) p"
    using arg_cong [OF assms(2), of "take (1 + m)"] by simp
  ultimately show ?thesis using starts_prefix [OF m] by blast
qed

lemma read_header_total:
  assumes "frame p fh" and "data @ y = p @ x" and "data \<noteq> []" and "length p \<le> mx"
  shows "\<exists>st'. read_header (data ! 0) data mx = Ok (st', False)"
proof (cases "\<forall>b\<in>set (drop 1 data). 0x80 \<le> b")
  case True
  then show ?thesis by (simp add: read_header_def dropWhile_eq_Nil_conv)
next
  case False
  from frame_header_end [OF assms(1-3) False] obtain m where m: "starts data fh m" ..
  from frame_prefix [OF assms(1) m assms(2)] m assms(4)
  show ?thesis by (auto simp: read_header_def starts_def Let_def check_packet_limit_def)
qed

lemma read_header_grows:
  assumes "read_header (data ! 0) data mx = Ok (st', wb)" and "data = old @ bs" and "data \<noteq> []" and "bs \<noteq> []"
  shows "length old < length (rcontent st')"
  using read_header_Ok [OF assms(1,3)] assms(2,4) by simp

lemma sock_read_cases:
  assumes "0 < k"
  obtains (block) "sock_read n inp k = ReadErr WouldBlock" and "n = 0 \<or> inp = []"
  | (bytes) bs where "sock_read n inp k = ReadOk bs" and "bs \<noteq> []" and "length bs \<le> k" and "0 < n"
      and "inp = bs @ drop (length bs) inp"
proof (cases "n = 0 \<or> inp = []")
  case True
  then show thesis by (intro block) (auto simp: sock_read_def)
next
  case False
  show thesis
  proof (rule bytes [of "take (min n k) inp"])
    show "inp = take (min n k) inp @ drop (length (take (min n k) inp)) inp"
      by (metis append_take_drop_id take_length_take)
  qed (use False assms in \<open>auto simp: sock_read_def min_le_iff_disj\<close>)
qed

text \<open>
  When the bytes in the reader and in the socket start with a frame that is not too large, a call
  of \<open>read\<close> succeeds, and the frame is complete or the reader has more bytes than before.
\<close>

definition advances :: "nat \<Rightarrow> bytes \<Rightarrow> MQTTRead \<Rightarrow> bool" where
  "advances n inp st \<longleftrightarrow> (\<exists>st' wb. MQTTRead_read (sock_read n inp) st = Ok (st', wb) \<and>
     (0 < n \<longrightarrow> is_fin st' \<or> length (rcontent st) < length (rcontent st')))"

lemma advancesI:
  "\<lbrakk>MQTTRead_read (sock_read n inp) st = Ok (st', wb);
    0 < n \<Longrightarrow> is_fin st' \<or> length (rcontent st) < length (rcontent st')\<rbrakk> \<Longrightarrow> advances n inp st"
  unfolding advances_def by blast

lemma pre_read_frame:
  assumes "frame p fh" and "length p \<le> mx"
  shows "\<exists>st'. pre_read (RInit (p @ x) mx) = Ok (st', True)"
proof -
  from assms(1) obtain k where k: "starts p fh k" "length p = 1 + k + unat (var_u32 (remaining_len fh))"
    by (auto simp: frame_def)
  from starts_append [OF k(1), of x] have "VarU32_decode (drop 1 (p @ x)) = Ok (remaining_len fh, k)"
    by (simp add: starts_def)
  moreover have "1 < length (p @ x)" using starts_bound [OF k(1)] by simp
  ultimately show ?thesis using k(2) assms(2) by (simp add: pre_read_def Let_def check_packet_limit_def)
qed

lemma pre_read_frame_ok:
  assumes "frame p fh" and "data @ inp = p @ x" and "length p \<le> mx"
  shows "pre_read (RInit data mx) \<noteq> Inl (Err e)"
proof
  assume "pre_read (RInit data mx) = Inl (Err e)"
  then obtain rl k where k: "VarU32_decode (drop 1 data) = Ok (rl, k)" "1 < length data"
    "mx < 1 + k + unat (var_u32 rl)"
    by (auto simp: pre_read_def Let_def check_packet_limit_def split: if_split_asm sum.splits fault.splits)
  then have "starts data \<lparr>byte1 = data ! 0, remaining_len = rl\<rparr> k" by (auto simp: starts_def)
  from frame_prefix [OF assms(1) this assms(2)] k(3) assms(3) show False by auto
qed

lemma read_header_advances:
  assumes "frame p fh" and "data @ inp = p @ x" and "length p \<le> mx"
    and "sock_read n inp 5 = ReadOk bs" and "bs \<noteq> []" and "inp = bs @ drop (length bs) inp"
  obtains st' where "read_header ((data @ bs) ! 0) (data @ bs) mx = Ok (st', False)"
    and "length data < length (rcontent st')"
proof -
  have "(data @ bs) @ drop (length bs) inp = p @ x"
    using assms(2) by (simp only: append_assoc assms(6) [symmetric])
  from read_header_total [OF assms(1) this _ assms(3)] assms(5) obtain st'
    where st': "read_header ((data @ bs) ! 0) (data @ bs) mx = Ok (st', False)" by auto
  from read_header_Ok [OF st'] assms(5) have "length data < length (rcontent st')" by simp
  with st' show thesis by (rule that)
qed

lemma advances_init:
  assumes "frame p fh" and "data @ inp = p @ x" and "length p \<le> mx"
  shows "advances n inp (RInit data mx)"
proof (cases rule: pre_read_init_cases [of data mx])
  case (ready st1)
  from read_ready [OF ready] pre_read_init [OF ready] show ?thesis by (intro advancesI) auto
next
  case more
  have "0 < (5 :: nat)" by simp
  then show ?thesis
  proof (cases rule: sock_read_cases [of _ n inp])
    case block
    have "n = 0" using block(2) pre_read_frame [OF assms(1,3), of x] assms(2) more by auto
    with block(1) read_init [OF more] show ?thesis by (intro advancesI) auto
  next
    case (bytes bs)
    obtain st' where st': "read_header ((data @ bs) ! 0) (data @ bs) mx = Ok (st', False)"
      "length data < length (rcontent st')"
      by (rule read_header_advances [OF assms bytes(1,2,5)])
    then have "MQTTRead_read (sock_read n inp) (RInit data mx) = Ok (st', False)"
      using read_init [OF more, of "sock_read n inp"] bytes(1-3) by simp
    then show ?thesis by (rule advancesI) (simp add: st'(2))
  qed
next
  case (err e)
  with pre_read_frame_ok [OF assms] show ?thesis by blast
qed

lemma frame_not_header:
  assumes "frame p fh" and "\<forall>b\<in>set (drop 1 (p @ x)). 0x80 \<le> b"
  shows False
proof -
  from assms(1) obtain k where k: "starts p fh k" by (auto simp: frame_def)
  have d: "VarU32_decode (drop 1 (p @ x)) = Ok (remaining_len fh, k)" "0 < k" "1 + k \<le> length (p @ x)"
    using starts_append [OF k, of x] starts_bound [OF k] by (auto simp: starts_def)
  from VarU32_decode_end [OF d(1)] have lt: "drop 1 (p @ x) ! (k - 1) < 0x80" by simp
  have "drop 1 (p @ x) ! (k - 1) \<in> set (drop 1 (p @ x))" using d(2,3) by (intro nth_mem) auto
  with assms(2) have "0x80 \<le> drop 1 (p @ x) ! (k - 1)" by (rule bspec)
  with lt show False by (rule less_le_not_le [THEN iffD1, THEN conjunct2, THEN notE])
qed

lemma advances_header:
  assumes "rinv (RHeader b1 data mx)" and "frame p fh" and "data @ inp = p @ x" and "length p \<le> mx"
  shows "advances n inp (RHeader b1 data mx)"
proof -
  have h: "data \<noteq> []" "data ! 0 = b1" "\<forall>b\<in>set (drop 1 data). 0x80 \<le> b" using assms(1) by simp_all
  have "0 < (5 :: nat)" by simp
  then show ?thesis
  proof (cases rule: sock_read_cases [of _ n inp])
    case block
    have "inp \<noteq> []"
    proof
      assume "inp = []"
      with assms(3) have "data = p @ x" by simp
      with frame_not_header [OF assms(2), of x] h(3) show False by simp
    qed
    with block show ?thesis by (intro advancesI) (auto simp: MQTTRead_read_def)
  next
    case (bytes bs)
    obtain st' where st': "read_header ((data @ bs) ! 0) (data @ bs) mx = Ok (st', False)"
      "length data < length (rcontent st')"
      by (rule read_header_advances [OF assms(2-4) bytes(1,2,5)])
    have "MQTTRead_read (sock_read n inp) (RHeader b1 data mx) = read_header b1 (data @ bs) mx"
      using bytes(1-3) by (simp add: MQTTRead_read_def)
    also have "\<dots> = Ok (st', False)" using st'(1) h(1,2) by (simp add: read_header_hd)
    finally show ?thesis by (rule advancesI) (simp add: st'(2))
  qed
qed

lemma advances_remain:
  assumes "rinv (RRemain data start fh' mx)" and "frame p fh" and "take start data @ inp = p @ x"
  shows "advances n inp (RRemain data start fh' mx)"
proof -
  from assms(1) obtain k where k: "starts data fh' k" "1 + k \<le> start" "start < length data"
    "length data = 1 + k + unat (var_u32 (remaining_len fh'))" by auto
  have "starts (take start data) fh' k" by (rule starts_prefix [OF k(1)]) (use k(2) in simp)
  from frame_prefix [OF assms(2) this assms(3)] k(4) have len: "length p = length data" by simp
  have "0 < length data - start" using k(3) by simp
  then show ?thesis
  proof (cases rule: sock_read_cases [of _ n inp])
    case block
    have "start + length inp = length data + length x"
      using arg_cong [OF assms(3), of length] k(3) len by simp
    then have "inp \<noteq> []" using k(3) by auto
    with block k(3) show ?thesis by (intro advancesI) (auto simp: MQTTRead_read_def)
  next
    case (bytes bs)
    have le: "start + length bs \<le> length data" "0 < length bs" using bytes(2,3) k(3) by auto
    let ?filled = "take start data @ bs @ drop (start + length bs) data"
    have "MQTTRead_read (sock_read n inp) (RRemain data start fh' mx) =
        Ok (if start + length bs = length data then RFin ?filled [] fh' mx
            else RRemain ?filled (start + length bs) fh' mx, False)"
      using bytes(1) le k(3) by (simp add: MQTTRead_read_def Let_def)
    then show ?thesis by (rule advancesI) (use le k(3) in auto)
  qed
qed

lemma read_progress:
  assumes "rinv st" and "\<not> is_fin st" and "frame p fh" and "rcontent st @ inp = p @ x" and "length p \<le> rmax st"
  shows "advances n inp st"
  using assms by (cases st) (auto simp del: rinv.simps intro: advances_init advances_header advances_remain
      simp: rinv.simps(4,5))

section \<open>From the socket to packets\<close>

text \<open>
  How the threads of the broker use the reader: as long as no packet is complete they call
  \<open>read\<close>, then they call \<open>parse\<close> and \<open>reset\<close>. The list says how many bytes the socket hands
  over at each call.
\<close>

fun serve :: "nat list \<Rightarrow> MQTTRead \<Rightarrow> bytes \<Rightarrow> Packet result list result" where
  "serve [] st inp = Ok []"
| "serve (n # ns) st inp =
     (if is_fin st
      then and_then (MQTTRead_reset st) (\<lambda>st'.
           and_then (serve ns st' inp) (\<lambda>ps. Ok (MQTTRead_parse st # ps)))
      else and_then (MQTTRead_read (sock_read n inp) st) (\<lambda>(st', _).
           serve ns st' (drop (length (rcontent st') - length (rcontent st)) inp)))"

lemma FixedHeader_decode_starts:
  "FixedHeader_decode s = Ok (fh, n) \<longleftrightarrow> (\<exists>m. starts s fh m \<and> n = 1 + m \<and> FixedHeader_validate fh = Ok ())"
  by (cases s) (auto simp: FixedHeader_decode_Ok starts_def)

lemma announces_frame:
  assumes "announces {t} bs []"
  obtains fh r q d where "frame bs fh" and "FixedHeader_unwrap fh = Ok (t, r, q, d)"
    and "FixedHeader_validate fh = Ok ()"
proof -
  from assms obtain fh m r q d where fh: "starts bs fh m" "FixedHeader_validate fh = Ok ()"
    "FixedHeader_unwrap fh = Ok (t, r, q, d)" "length bs = 1 + m + unat (var_u32 (remaining_len fh))"
    by (auto simp: announces_def FixedHeader_decode_starts)
  then have "frame bs fh" unfolding frame_def by blast
  with fh that show thesis by blast
qed

lemma to_packet_type_normalize [simp]: "to_packet_type (Packet_normalize v) = to_packet_type v"
  by (cases v) (simp_all add: to_packet_type_def Packet_normalize_def)

lemma parse_encoded:
  assumes wf: "Packet_wf v" and enc: "Packet_encode v = Ok b" and fr: "frame (as_ref b) fh"
  shows "MQTTRead_parse (RFin (as_ref b) rem fh mx) = Ok (Packet_normalize v)"
proof -
  obtain fh' r q d where fh': "frame (as_ref b) fh'" "FixedHeader_unwrap fh' = Ok (to_packet_type v, r, q, d)"
    by (rule announces_frame [OF Packet_header [OF wf enc]])
  have "fh' = fh" using frame_unique [OF fr fh'(1) refl] by simp
  moreover have "decode_as (to_packet_type v) (as_ref b) = Ok (Packet_normalize v, length (as_ref b))"
    using Packet_dec_enc [OF wf enc, of "[]"] by (simp add: Packet_decode_Ok)
  ultimately show ?thesis using fh'(2) by (simp add: MQTTRead_parse_def)
qed

text \<open>A packet that is sent: its bytes, within the limit of the receiver.\<close>

definition sent :: "usize \<Rightarrow> Packet \<Rightarrow> Blob \<Rightarrow> bool" where
  "sent mx v b \<longleftrightarrow> Packet_wf v \<and> Packet_encode v = Ok b \<and> length (as_ref b) \<le> mx"

lemma sent_frame:
  assumes "sent mx v b"
  shows "\<exists>fh. frame (as_ref b) fh"
proof -
  have "announces {to_packet_type v} (as_ref b) []" using assms by (simp add: sent_def Packet_header)
  then show ?thesis by (rule announces_frame) blast
qed

lemma frame_nonempty: "frame p fh \<Longrightarrow> p \<noteq> []"
  by (auto simp: frame_def starts_def)

text \<open>The steps that are still needed at most to deliver everything.\<close>

definition todo :: "MQTTRead \<Rightarrow> bytes \<Rightarrow> Packet list \<Rightarrow> nat" where
  "todo st inp vs = length inp + 2 * length vs - (if is_fin st then 1 else 0)"

lemma serve_fin:
  assumes "rinv st" and "is_fin st" and "rcontent st @ inp = concat (map as_ref bs)"
    and "list_all2 (sent (rmax st)) vs bs"
  obtains v vs' b bs' st' where "vs = v # vs'" and "bs = b # bs'" and "MQTTRead_reset st = Ok st'"
    and "MQTTRead_parse st = Ok (Packet_normalize v)" and "rinv st'" and "\<not> is_fin st'" and "rmax st' = rmax st"
    and "rcontent st' @ inp = concat (map as_ref bs')" and "list_all2 (sent (rmax st')) vs' bs'"
proof -
  from assms(1,2) obtain d r fh mx where st: "st = RFin d r fh mx" "frame d fh" by (cases st) auto
  with assms(3) frame_nonempty [OF st(2)] obtain b bs' where bs: "bs = b # bs'" by (cases bs) auto
  with assms(4) obtain v vs' where vs: "vs = v # vs'" "sent mx v b" "list_all2 (sent mx) vs' bs'"
    using st(1) by (cases vs) auto
  from sent_frame [OF vs(2)] obtain fh' where fh': "frame (as_ref b) fh'" ..
  have "d @ (r @ inp) = as_ref b @ concat (map as_ref bs')" using assms(3) st(1) bs by simp
  from frame_unique [OF st(2) fh' this] have d: "d = as_ref b" "r @ inp = concat (map as_ref bs')" by simp_all
  have "MQTTRead_parse st = Ok (Packet_normalize v)"
    using parse_encoded [of v b fh r mx] vs(2) st d(1) by (simp add: sent_def)
  then show thesis
    by (rule that [OF vs(1) bs, of "RInit r mx", rotated])
       (use st vs d in \<open>simp_all add: MQTTRead_reset_def\<close>)
qed

lemma serve_run:
  assumes "rinv st" and "rcontent st @ inp = concat (map as_ref bs)" and "list_all2 (sent (rmax st)) vs bs"
  shows "\<exists>k \<le> length vs. serve ns st inp = Ok (map (\<lambda>v. Ok (Packet_normalize v)) (take k vs)) \<and>
    (list_all (\<lambda>n. 0 < n) ns \<and> todo st inp vs \<le> length ns \<longrightarrow> k = length vs)"
  using assms
proof (induction ns arbitrary: st inp vs bs)
  case Nil
  then show ?case
    by (cases vs) (auto simp: todo_def intro!: exI [of _ 0] split: if_split_asm)
next
  case (Cons n ns)
  show ?case
  proof (cases "is_fin st")
    case True
    obtain v vs' b bs' st' where *: "vs = v # vs'" "bs = b # bs'" "MQTTRead_reset st = Ok st'"
      "MQTTRead_parse st = Ok (Packet_normalize v)" "rinv st'" "\<not> is_fin st'" "rmax st' = rmax st"
      "rcontent st' @ inp = concat (map as_ref bs')" "list_all2 (sent (rmax st')) vs' bs'"
      by (rule serve_fin [OF Cons.prems(1) True Cons.prems(2,3)])
    from Cons.IH [OF *(5,8,9)] obtain k where k: "k \<le> length vs'"
      "serve ns st' inp = Ok (map (\<lambda>v. Ok (Packet_normalize v)) (take k vs'))"
      "list_all (\<lambda>n. 0 < n) ns \<and> todo st' inp vs' \<le> length ns \<longrightarrow> k = length vs'" by blast
    show ?thesis
      using * k True by (intro exI [of _ "Suc k"]) (auto simp: todo_def)
  next
    case False
    have "\<exists>st' wb. MQTTRead_read (sock_read n inp) st = Ok (st', wb) \<and>
      (0 < n \<longrightarrow> vs = [] \<or> is_fin st' \<or> length (rcontent st) < length (rcontent st'))"
    proof (cases vs)
      case Nil
      with Cons.prems have "rcontent st = []" "inp = []" by auto
      with False Cons.prems(1) obtain mx where "st = RInit [] mx" by (cases st) (auto simp: starts_def)
      with \<open>inp = []\<close> Nil show ?thesis by (auto simp: MQTTRead_read_def pre_read_def sock_read_def)
    next
      case (Cons v vs')
      with Cons.prems(3) obtain b bs' where b: "bs = b # bs'" "sent (rmax st) v b" by (cases bs) auto
      from sent_frame [OF b(2)] obtain fh where "frame (as_ref b) fh" ..
      from read_progress [OF Cons.prems(1) False this, of inp "concat (map as_ref bs')" n] Cons.prems(2) b
      show ?thesis by (auto simp: sent_def advances_def)
    qed
    then obtain st' wb where r: "MQTTRead_read (sock_read n inp) st = Ok (st', wb)"
      "0 < n \<Longrightarrow> vs = [] \<or> is_fin st' \<or> length (rcontent st) < length (rcontent st')" by blast
    let ?inp = "drop (length (rcontent st') - length (rcontent st)) inp"
    note ok = read_Ok [OF r(1) Cons.prems(1)]
    note g = grows_sock [of n inp st st']
    from ok Cons.prems(3) have l2: "list_all2 (sent (rmax st')) vs bs" by simp
    from ok g Cons.prems(2) have c: "rcontent st' @ ?inp = concat (map as_ref bs)" by simp
    from Cons.IH [OF _ c l2] ok obtain k where k: "k \<le> length vs"
      "serve ns st' ?inp = Ok (map (\<lambda>v. Ok (Packet_normalize v)) (take k vs))"
      "list_all (\<lambda>n. 0 < n) ns \<and> todo st' ?inp vs \<le> length ns \<longrightarrow> k = length vs" by blast
    have "todo st' ?inp vs \<le> length ns" if "0 < n" "todo st inp vs \<le> Suc (length ns)" "vs \<noteq> []"
      using that r(2) False ok g by (auto simp: todo_def split: if_split_asm)
    with k r(1) False show ?thesis by (cases "vs = []") auto
  qed
qed

section \<open>When parsing panics\<close>

text \<open>The first bytes on which \<open>FixedHeader::unwrap\<close> panics.\<close>

lemma unat_high_nibble: "unat (drop_bit 4 (b :: u8)) = unat b div 16"
  by (simp add: unat_drop_bit_eq) (simp add: drop_bit_eq_div)

lemma high_nibble: "drop_bit 4 (b :: u8) = 0 \<longleftrightarrow> b < 16"
  using unat_high_nibble [of b] by (auto simp: word_less_nat_alt word_unat_eq_iff)

lemma unwrap_and_then_panics:
  "panics (and_then (unwrap r) f) \<longleftrightarrow> (case r of Inl _ \<Rightarrow> True | Inr x \<Rightarrow> panics (f x))"
  by (cases r) (simp_all add: unwrap_def)

lemma type_known: "(\<exists>t. PacketType_try_from (drop_bit 4 b) = Ok t) \<longleftrightarrow> 16 \<le> b"
proof -
  have "unat b < 256" using unsigned_less [of b, where ?'a = nat] by simp
  then have "unat (drop_bit 4 b) < 16" by (simp only: unat_high_nibble)
  then have "unat (drop_bit 4 b) \<in> {0, 1, 2, 3, 4, 5, 6, 7, 8, 9, 10, 11, 12, 13, 14, 15}"
    by (simp add: less_Suc_eq eval_nat_numeral)
  then have "(\<exists>t. PacketType_try_from (drop_bit 4 b) = Ok t) \<longleftrightarrow> drop_bit 4 b \<noteq> 0"
    by (auto simp: PacketType_try_from_def word_unat_eq_iff)
  then show ?thesis by (simp add: high_nibble linorder_not_less)
qed

lemma and_exp: "(b :: u8) AND 2 ^ n = (if bit b n then 2 ^ n else 0)"
  by (rule bit_word_eqI) (auto simp: bit_and_iff bit_exp_iff)

lemma qos_bits: "(b :: u8) AND 6 = (if bit b 1 then 2 else 0) OR (if bit b 2 then 4 else 0)"
proof -
  have "b AND 6 = (b AND 2) OR (b AND 4)" by (simp flip: bit.conj_disj_distrib)
  then show ?thesis using and_exp [of b 1] and_exp [of b 2] by simp
qed

lemma qos_known: "(\<exists>q. QoS_try_from (drop_bit 1 (b AND HDR_QOS)) = Ok q) \<longleftrightarrow> b AND 6 \<noteq> 6"
  by (simp add: HDR_QOS_def QoS_try_from_def qos_bits del: drop_bit_and)

lemma FixedHeader_unwrap_panics: "panics (FixedHeader_unwrap fh) \<longleftrightarrow> byte1 fh < 16 \<or> byte1 fh AND 6 = 6"
proof -
  have "panics (FixedHeader_unwrap fh) \<longleftrightarrow> \<not> ((\<exists>t. PacketType_try_from (drop_bit 4 (byte1 fh)) = Ok t) \<and>
      (\<exists>q. QoS_try_from (drop_bit 1 (byte1 fh AND HDR_QOS)) = Ok q))"
    unfolding FixedHeader_unwrap_def Let_def unwrap_and_then_panics
    by (cases "PacketType_try_from (drop_bit 4 (byte1 fh))";
        cases "QoS_try_from (drop_bit 1 (byte1 fh AND HDR_QOS))")
       (simp_all add: unwrap_and_then_panics del: drop_bit_and)
  then show ?thesis unfolding type_known qos_known by (simp add: linorder_not_le)
qed

text \<open>Every decoder starts with the fixed header and hands on its error.\<close>

lemma decode_as_header_err:
  "FixedHeader_decode s = Inl e \<Longrightarrow> decode_as t s = Inl e"
  by (cases t) (simp_all add: decode_as_def Connect_decode_def ConnAck_decode_def Publish_decode_def
      Pub_decode_def Subscribe_decode_def SubAck_decode_def UnSubscribe_decode_def UnsubAck_decode_def
      PingReq_decode_def PingResp_decode_def Disconnect_decode_def Auth_decode_def dec_header_eq)

lemma frame_framed: "frame d fh \<Longrightarrow> framed d"
  using starts_unique by (fastforce simp: framed_def frame_def FixedHeader_decode_starts)

lemma frame_decode:
  assumes "frame d fh"
  shows "FixedHeader_decode d = (case FixedHeader_validate fh of Inl e \<Rightarrow> Inl e | Inr _ \<Rightarrow>
    Ok (fh, length d - unat (var_u32 (remaining_len fh))))"
proof -
  from assms obtain k where k: "starts d fh k" "length d = 1 + k + unat (var_u32 (remaining_len fh))"
    by (auto simp: frame_def)
  then show ?thesis
    by (cases d; cases fh) (auto simp: starts_def FixedHeader_decode_def u8_decode_def dec_field_def advance_def Let_def split: sum.split)
qed

text \<open>
  A complete packet is parsed, or refused with an error, unless \<open>fh.unwrap()\<close> itself panics.
\<close>

lemma parse_panics_iff:
  assumes "rinv (RFin data rem fh mx)"
  shows "panics (MQTTRead_parse (RFin data rem fh mx)) \<longleftrightarrow> panics (FixedHeader_unwrap fh)"
proof -
  have fr: "frame data fh" using assms by simp
  have "\<not> panics (decode_as t data)" if "FixedHeader_unwrap fh = Ok (t, r)" for t r
  proof (cases "FixedHeader_validate fh")
    case (Inl e)
    with frame_decode [OF fr] have "decode_as t data = Inl e" by (simp add: decode_as_header_err)
    moreover have "e \<noteq> Panic" using Inl FixedHeader_validate_no_panic [of fh] by (auto simp: panics_def)
    ultimately show ?thesis by (simp add: panics_def)
  next
    case (Inr u)
    with frame_decode [OF fr] that have "header_type data = Ok t" by (cases r) (auto simp: header_type_Ok)
    with frame_framed [OF fr] show ?thesis by (rule decode_as_no_panic)
  qed
  then show ?thesis
    by (cases "FixedHeader_unwrap fh")
       (auto simp: MQTTRead_parse_def panics_and_then Let_def split_beta, simp_all add: panics_def)
qed

section \<open>What is written\<close>

fun wpending :: "MQTTWrite \<Rightarrow> bytes" where
  "wpending (WInit data mx) = (if length data > mx then [] else data)"
| "wpending (WRemain data start mx) = drop start data"
| "wpending (WFin data mx) = []"
| "wpending WNone = []"

fun wmax :: "MQTTWrite \<Rightarrow> usize" where
  "wmax (WInit data mx) = mx"
| "wmax (WRemain data start mx) = mx"
| "wmax (WFin data mx) = mx"
| "wmax WNone = 0"

fun winv :: "MQTTWrite \<Rightarrow> bool" where
  "winv (WRemain data start mx) \<longleftrightarrow> start < length data"
| "winv WNone \<longleftrightarrow> False"
| "winv _ \<longleftrightarrow> True"

fun is_wfin :: "MQTTWrite \<Rightarrow> bool" where
  "is_wfin (WFin data mx) \<longleftrightarrow> True"
| "is_wfin _ \<longleftrightarrow> False"

text \<open>What the answer to a write takes away from the pending bytes.\<close>

definition taken :: "io_write \<Rightarrow> usize" where
  "taken r = (case r of WriteOk n \<Rightarrow> n | WriteErr _ \<Rightarrow> 0)"

lemma write_Ok:
  assumes "MQTTWrite_write wr st = Ok (st', wb)" and "winv st"
  shows "winv st' \<and> wmax st' = wmax st \<and>
    (if wpending st = [] then is_wfin st' else
       wpending st' = drop (taken (wr (wpending st))) (wpending st) \<and>
       taken (wr (wpending st)) \<le> length (wpending st) \<and> (wpending st' = [] \<longrightarrow> is_wfin st') \<and>
       (wb \<longleftrightarrow> wr (wpending st) = WriteErr WouldBlock))"
  using assms
  by (cases st) (auto simp: MQTTWrite_write_def taken_def add.commute split: if_split_asm io_write.splits io_kind.splits)

lemma write_no_panic:
  assumes "write_fits wr" and "winv st"
  shows "\<not> panics (MQTTWrite_write wr st)"
proof -
  have fits: "n \<le> length buf" if "wr buf = WriteOk n" for buf n using assms(1) that by (simp add: write_fits_def)
  show ?thesis
    using assms(2) by (cases st) (auto simp: MQTTWrite_write_def split: io_write.splits io_kind.splits dest!: fits)
qed

text \<open>A socket that takes at most \<open>n\<close> bytes, and none when \<open>n\<close> is zero.\<close>

definition sock_write :: "nat \<Rightarrow> bytes \<Rightarrow> io_write" where
  "sock_write n buf = (if n = 0 \<or> buf = [] then WriteErr WouldBlock else WriteOk (min n (length buf)))"

text \<open>
  How the threads use the writer: as long as the packet is not out they call \<open>write\<close>, then they
  call \<open>reset\<close> with the next one. The result is what the socket took.
\<close>

fun flush :: "nat list \<Rightarrow> MQTTWrite \<Rightarrow> bytes list \<Rightarrow> bytes result" where
  "flush [] st q = Ok []"
| "flush (n # ns) st q =
     (if is_wfin st
      then (case q of [] \<Rightarrow> flush ns st []
            | b # q' \<Rightarrow> and_then (MQTTWrite_reset b st) (\<lambda>st'. flush ns st' q'))
      else and_then (MQTTWrite_write (sock_write n) st) (\<lambda>(st', _).
           and_then (flush ns st' q) (\<lambda>out.
             Ok (take (taken (sock_write n (wpending st))) (wpending st) @ out))))"

definition unsent :: "MQTTWrite \<Rightarrow> bytes list \<Rightarrow> nat" where
  "unsent st q = length (wpending st) + length (concat q) + 2 * length q + (if is_wfin st then 0 else 1)"

lemma sock_write_fits: "write_fits (sock_write n)"
  by (auto simp: write_fits_def sock_write_def split: if_split_asm)

lemma sock_write_Ok:
  assumes "winv st"
  obtains st' wb where "MQTTWrite_write (sock_write n) st = Ok (st', wb)"
proof -
  have "\<exists>r. MQTTWrite_write (sock_write n) st = Ok r"
    using assms by (cases st) (auto simp: MQTTWrite_write_def sock_write_def)
  with that show thesis by (cases "MQTTWrite_write (sock_write n) st") auto
qed

lemma flush_run:
  assumes "winv st" and "\<forall>b\<in>set q. length b \<le> wmax st"
  shows "\<exists>out rest. flush ns st q = Ok out \<and> out @ rest = wpending st @ concat q \<and>
    (list_all (\<lambda>n. 0 < n) ns \<and> unsent st q \<le> length ns \<longrightarrow> rest = [])"
  using assms
proof (induction ns arbitrary: st q)
  case Nil
  then show ?case by (auto simp: unsent_def)
next
  case (Cons n ns)
  show ?case
  proof (cases "is_wfin st")
    case True
    then obtain d mx where st: "st = WFin d mx" by (cases st) auto
    show ?thesis
    proof (cases q)
      case Nil
      from Cons.IH [of st "[]"] st Nil show ?thesis by (auto simp: unsent_def)
    next
      case (Cons b q')
      with Cons.prems st have "length b \<le> mx" "\<forall>b\<in>set q'. length b \<le> wmax (WInit b mx)" by auto
      with Cons.IH [of "WInit b mx" q'] st Cons show ?thesis
        by (auto simp: unsent_def MQTTWrite_reset_def)
    qed
  next
    case False
    obtain st' wb where r: "MQTTWrite_write (sock_write n) st = Ok (st', wb)" by (rule sock_write_Ok [OF Cons.prems(1)])
    note ok = write_Ok [OF r Cons.prems(1)]
    from ok Cons.prems(2) Cons.IH [of st' q] obtain out rest where o: "flush ns st' q = Ok out"
      "out @ rest = wpending st' @ concat q"
      "list_all (\<lambda>n. 0 < n) ns \<and> unsent st' q \<le> length ns \<longrightarrow> rest = []" by auto
    have p: "take (taken (sock_write n (wpending st))) (wpending st) @ wpending st' = wpending st"
      using ok by (cases "wpending st = []") (cases st', auto)
    have u: "unsent st' q < unsent st q" if "0 < n"
      using that ok False by (cases "wpending st = []") (cases st', auto simp: unsent_def sock_write_def taken_def)
    have "flush (n # ns) st q = Ok (take (taken (sock_write n (wpending st))) (wpending st) @ out)"
      using o(1) r False by simp
    moreover have "(take (taken (sock_write n (wpending st))) (wpending st) @ out) @ rest = wpending st @ concat q"
      using arg_cong [OF p, of "\<lambda>x. x @ concat q"] o(2) by simp
    moreover have "list_all (\<lambda>n. 0 < n) (n # ns) \<and> unsent st q \<le> length (n # ns) \<longrightarrow> rest = []"
      using o(3) u by auto
    ultimately show ?thesis by blast
  qed
qed

section \<open>The last packet\<close>

lemma send_disconnect_eq:
  assumes "Disconnect_encode (Disconnect_new code None) = Ok b"
  shows "send_disconnect wr now code timeout mx =
    send_disconnect_loop wr now timeout 0 (MQTTWrite_new (as_ref b) mx)"
  using assms by (simp add: send_disconnect_def)

text \<open>A blocked socket ends the loop at once, and only before the timeout.\<close>

lemma write_blocked:
  assumes "wpending st \<noteq> []" and "winv st" and "wr (wpending st) = WriteErr WouldBlock"
  shows "\<exists>st'. MQTTWrite_write wr st = Ok (st', True) \<and> wpending st' = wpending st \<and> winv st'"
  using assms by (cases st) (auto simp: MQTTWrite_write_def split: if_split_asm)

lemma send_disconnect_early:
  assumes "wpending st \<noteq> []" and "winv st" and "wr i (wpending st) = WriteErr WouldBlock" and "now i \<le> timeout"
  shows "send_disconnect_loop wr now timeout i st = Some (err_desc ErrorKind.Disconnected)"
proof -
  from write_blocked [where wr = "wr i", OF assms(1-3)] obtain st'
    where "MQTTWrite_write (wr i) st = Ok (st', True)" by blast
  then show ?thesis using assms(4) by (subst send_disconnect_loop.simps) simp
qed

lemma send_disconnect_returns:
  assumes "send_disconnect_loop wr now timeout i st = Some r"
  shows "(\<forall>i buf. wr i buf = WriteErr WouldBlock) \<and> (\<forall>i. timeout < now i) \<longrightarrow> wpending st = [] \<or> \<not> winv st"
proof (rule send_disconnect_loop.raw_induct [where P = "\<lambda>wr now timeout i st r.
    (\<forall>i buf. wr i buf = WriteErr WouldBlock) \<and> (\<forall>i. timeout < now i) \<longrightarrow> wpending st = [] \<or> \<not> winv st", OF _ assms],
    intro impI, rule ccontr)
  fix f and wr :: "nat \<Rightarrow> bytes \<Rightarrow> io_write" and now timeout i st r
  assume ih: "\<And>wr now timeout i st r. f wr now timeout i st = Some r \<Longrightarrow>
      (\<forall>i buf. wr i buf = WriteErr WouldBlock) \<and> (\<forall>i. timeout < now i) \<longrightarrow> wpending st = [] \<or> \<not> winv st"
    and step: "(case MQTTWrite_write (wr i) st of Inl e \<Rightarrow> Some (Inl e)
      | Inr (packetw, would_block) \<Rightarrow>
          if would_block \<and> timeout < now i then f wr now timeout (Suc i) packetw
          else if would_block then Some (err_desc ErrorKind.Disconnected) else Some (Ok ())) = Some r"
    and blocked: "(\<forall>i buf. wr i buf = WriteErr WouldBlock) \<and> (\<forall>i. timeout < now i)"
    and "\<not> (wpending st = [] \<or> \<not> winv st)"
  then obtain st' where st': "MQTTWrite_write (wr i) st = Ok (st', True)" "wpending st' = wpending st"
    "winv st'" "wpending st \<noteq> []"
    using write_blocked [of st "wr i"] by blast
  then have "f wr now timeout (Suc i) st' = Some r" using step blocked by simp
  from ih [OF this] st' blocked show False by simp
qed

lemma send_disconnect_blocked:
  assumes "\<And>i buf. wr i buf = WriteErr WouldBlock" and "\<And>i. timeout < now i"
    and "wpending st \<noteq> []" and "winv st"
  shows "send_disconnect_loop wr now timeout i st = None"
  using send_disconnect_returns [of wr now timeout i st] assms
  by (cases "send_disconnect_loop wr now timeout i st") auto

text \<open>Continuation bytes keep the reader in its header state: nothing bounds what it keeps.\<close>

lemma header_keeps_bytes:
  assumes "rinv (RHeader b1 data mx)" and "\<forall>b\<in>set bs. 0x80 \<le> b" and "bs \<noteq> []" and "length bs \<le> 5"
  shows "MQTTRead_read (\<lambda>_. ReadOk bs) (RHeader b1 data mx) = Ok (RHeader b1 (data @ bs) mx, False)"
proof -
  have "dropWhile (\<lambda>b. b \<ge> 0x80) (drop 1 (data @ bs)) = []"
    using assms by (auto simp: dropWhile_eq_Nil_conv dest: in_set_dropD)
  then show ?thesis using assms(3,4) by (simp add: MQTTRead_read_def read_header_def)
qed

end
