(* ===== verification/V5_Subscription.thy ===== *)
theory V5_Subscription
  imports V5_Subscribe V5_Publish "HOL-Library.List_Lexorder" "HOL-Library.Product_Lexorder"
begin

text \<open>
  Model of the struct \<open>Subscription\<close> in \<open>src/v5/mod.rs\<close>: a subscription of a client, its two
  comparisons and the quality of service of a routed message. Strings compare byte by byte, which
  is the lexicographic order of the library on lists.
\<close>

datatype ordering = Less | Equal | Greater

definition cmp_of :: "'a :: linorder \<Rightarrow> 'a \<Rightarrow> ordering" where
  "cmp_of x y = (if x < y then Less else if x = y then Equal else Greater)"

record Subscription =
  subn_topic_filter :: TopicFilter
  subn_client_id :: ClientID
  subn_shard_id :: u32
  subn_subscription_id :: "u32 option"
  subn_qos :: QoS
  subn_no_local :: bool
  subn_retain_as_published :: bool
  subn_retain_forward_rule :: RetainForwardRule

definition Subscription_eq :: "Subscription \<Rightarrow> Subscription \<Rightarrow> bool" where
  "Subscription_eq self other \<longleftrightarrow>
     subn_topic_filter self = subn_topic_filter other
     \<and> subn_client_id self = subn_client_id other
     \<and> subn_subscription_id self = subn_subscription_id other
     \<and> subn_qos self = subn_qos other
     \<and> subn_no_local self = subn_no_local other
     \<and> subn_retain_as_published self = subn_retain_as_published other
     \<and> subn_retain_forward_rule self = subn_retain_forward_rule other"

definition Subscription_partial_cmp :: "Subscription \<Rightarrow> Subscription \<Rightarrow> ordering option" where
  "Subscription_partial_cmp self other =
     (case cmp_of (client_id (subn_client_id self)) (client_id (subn_client_id other)) of
        Equal \<Rightarrow> Some (cmp_of (topic_filter (subn_topic_filter self)) (topic_filter (subn_topic_filter other)))
      | val \<Rightarrow> Some val)"

definition Subscription_cmp :: "Subscription \<Rightarrow> Subscription \<Rightarrow> ordering result" where
  "Subscription_cmp self other =
     (case Subscription_partial_cmp self other of Some val \<Rightarrow> Ok val | None \<Rightarrow> panic)"

definition Subscription_route_qos :: "Subscription \<Rightarrow> Publish \<Rightarrow> u8 \<Rightarrow> QoS result" where
  "Subscription_route_qos self publish mqtt_maximum_qos =
     and_then (unwrap (QoS_try_from mqtt_maximum_qos)) (\<lambda>server_qos.
       Ok (min (min server_qos (pub_qos publish)) (subn_qos self)))"

section \<open>The order of subscriptions\<close>

text \<open>The comparison is that of the pair of the client and the filter.\<close>

definition Subscription_key :: "Subscription \<Rightarrow> rstring \<times> rstring" where
  "Subscription_key s = (client_id (subn_client_id s), topic_filter (subn_topic_filter s))"

lemma Subscription_cmp_key: "Subscription_cmp x y = Ok (cmp_of (Subscription_key x) (Subscription_key y))"
  by (auto simp: Subscription_cmp_def Subscription_partial_cmp_def Subscription_key_def cmp_of_def)

lemma Subscription_eq_key: "Subscription_eq x y \<Longrightarrow> Subscription_key x = Subscription_key y"
  by (simp add: Subscription_eq_def Subscription_key_def)

lemma Subscription_eq_refl [simp]: "Subscription_eq x x"
  by (simp add: Subscription_eq_def)

text \<open>A message is never routed with more than the server, the publisher and the subscriber allow.\<close>

lemma Subscription_route_qos_min:
  assumes "Subscription_route_qos s p m = Ok q"
  shows "q \<le> pub_qos p \<and> q \<le> subn_qos s \<and> unat (u8_from_QoS q) \<le> unat m"
proof -
  from assms obtain sq where sq: "QoS_try_from m = Ok sq" "q = min (min sq (pub_qos p)) (subn_qos s)"
    by (auto simp: Subscription_route_qos_def and_then_eq_Inr unwrap_def split: sum.split_asm)
  have "m = u8_from_QoS sq" using sq(1) by (auto simp: QoS_try_from_def split: if_split_asm)
  moreover have "q \<le> sq" using sq(2) by (simp add: min.coboundedI1)
  then have "unat (u8_from_QoS q) \<le> unat (u8_from_QoS sq)"
    by (simp add: less_eq_QoS_def word_le_nat_alt)
  ultimately show ?thesis using sq(2) by (simp add: min.coboundedI1 min.coboundedI2)
qed

end
