(* ===== verification/Ttrie.thy ===== *)
theory Ttrie
  imports V5_Subscription PacketCodec
begin

text \<open>
  Model of \<open>src/broker/ttrie.rs\<close>: the tries of subscriptions and of retained messages. The node
  operations recurse over the levels of a topic; the two structs hold a root and counters behind a
  lock, and every operation reads a snapshot, computes a new one and stores it. The facts relate a
  trie to the list of its paths and values, which is what the matching is specified against.
\<close>

section \<open>Nodes\<close>

datatype 'v Node =
    Root "'v Node list"
  | Child rstring "'v Node list" "'v list"

fun children_of :: "'v Node \<Rightarrow> 'v Node list" where
  "children_of (Root cs) = cs"
| "children_of (Child _ cs _) = cs"

fun with_children :: "'v Node \<Rightarrow> 'v Node list \<Rightarrow> 'v Node" where
  "with_children (Root _) cs = Root cs"
| "with_children (Child name _ vs) cs = Child name cs vs"

fun is_root :: "'v Node \<Rightarrow> bool" where
  "is_root (Root _) \<longleftrightarrow> True"
| "is_root (Child _ _ _) \<longleftrightarrow> False"

definition new_node :: "rstring \<Rightarrow> 'v Node" where
  "new_node name = Child name [] []"

primrec cow_clone :: "'v Node \<Rightarrow> 'v Node" where
  "cow_clone (Root children) = Root children"
| "cow_clone (Child name children values) = Child name children values"

primrec as_name :: "'v Node \<Rightarrow> rstring result" where
  "as_name (Child name _ _) = Ok name"
| "as_name (Root _) = panic"

primrec is_empty :: "'v Node \<Rightarrow> bool" where
  "is_empty (Child name children values) \<longleftrightarrow> length children = 0 \<and> length values = 0"
| "is_empty (Root children) \<longleftrightarrow> False"

text \<open>
  The trait \<open>Ord\<close> of the values is given by a key in a linear order, \<open>PartialEq\<close> by a function.
\<close>

definition insert_value :: "('v \<Rightarrow> 'k :: linorder) \<Rightarrow> 'v Node \<Rightarrow> 'v \<Rightarrow> ('v Node \<times> bool \<times> bool) result" where
  "insert_value key self v =
     (case self of
        Child name children values \<Rightarrow>
          if length values = 0 then Ok (Child name children [v], True, False)
          else (case binary_search (key v) (map key values) of
                  Inl off \<Rightarrow> Ok (Child name children (insert_at off v values), False, False)
                | Inr _ \<Rightarrow> Ok (self, False, True))
      | Root _ \<Rightarrow> panic)"

definition replace_value :: "'v Node \<Rightarrow> 'v \<Rightarrow> ('v Node \<times> bool) result" where
  "replace_value self v =
     (case self of
        Child name children values \<Rightarrow> Ok (Child name children [v], length values = 0)
      | Root _ \<Rightarrow> panic)"

definition remove_value ::
  "('v \<Rightarrow> 'k :: linorder) \<Rightarrow> ('v \<Rightarrow> 'v \<Rightarrow> bool) \<Rightarrow> 'v Node \<Rightarrow> 'v \<Rightarrow> ('v Node \<times> bool \<times> bool) result" where
  "remove_value key eq self v =
     (case self of
        Child name children values \<Rightarrow>
          if length values = 0 then panic
          else if length values = 1
          then if eq (values ! 0) v then Ok (Child name children (remove_at 0 values), True, False)
               else Ok (self, False, True)
          else (case binary_search (key v) (map key values) of
                  Inr off \<Rightarrow> Ok (Child name children (remove_at off values), False, False)
                | Inl _ \<Rightarrow> Ok (self, False, True))
      | Root _ \<Rightarrow> panic)"

definition remove_topic :: "'v Node \<Rightarrow> ('v Node \<times> bool) result" where
  "remove_topic self =
     (case self of
        Child name children values \<Rightarrow>
          if length values = 1 then Ok (Child name children (remove_at 0 values), False) else panic
      | Root _ \<Rightarrow> panic)"

text \<open>
  The search among the children. A child that is no \<open>Child\<close> panics; the search asks the names that
  it compares, here all names are asked.
\<close>

definition search_child :: "rstring \<Rightarrow> 'v Node list \<Rightarrow> (nat + nat) result" where
  "search_child level children = and_then (try_each as_name children) (\<lambda>names. Ok (binary_search level names))"

fun sub :: "('v \<Rightarrow> 'k :: linorder) \<Rightarrow> 'v Node \<Rightarrow> rstring list \<Rightarrow> 'v \<Rightarrow> ('v Node \<times> bool \<times> bool) result" where
  "sub key self [] v = insert_value key (cow_clone self) v"
| "sub key self (in_level # in_levels) v =
     (let cow_node = cow_clone self; children = children_of cow_node in
      and_then (search_child in_level children) (\<lambda>r.
        case r of
          Inr off \<Rightarrow>
            and_then (sub key (children ! off) in_levels v) (\<lambda>(child, first, repeat).
              Ok (with_children cow_node (insert_at off child (remove_at off children)), first, repeat))
        | Inl off \<Rightarrow>
            and_then (sub key (new_node in_level) in_levels v) (\<lambda>(child, first, repeat).
              Ok (with_children cow_node (insert_at off child children), first, repeat))))"

fun unsub ::
  "('v \<Rightarrow> 'k :: linorder) \<Rightarrow> ('v \<Rightarrow> 'v \<Rightarrow> bool) \<Rightarrow> 'v Node \<Rightarrow> rstring list \<Rightarrow> 'v \<Rightarrow>
    ('v Node option \<times> bool \<times> bool) result" where
  "unsub key eq self [] v =
     and_then (remove_value key eq (cow_clone self) v) (\<lambda>(cow_node, last, miss).
       if is_empty cow_node then Ok (None, last, miss) else Ok (Some cow_node, last, miss))"
| "unsub key eq self (in_level # inl) v =
     (let cow_node = cow_clone self; children = children_of cow_node in
      and_then (search_child in_level children) (\<lambda>r.
        case r of
          Inr off \<Rightarrow>
            and_then (unsub key eq (children ! off) inl v) (\<lambda>(child, last, miss).
              let rest = with_children cow_node (remove_at off children) in
              case child of
                Some child \<Rightarrow>
                  Ok (Some (with_children cow_node (insert_at off child (remove_at off children))), last, miss)
              | None \<Rightarrow>
                  if is_root self then Ok (Some rest, last, miss)
                  else if is_empty rest then Ok (None, last, miss)
                  else Ok (Some rest, last, miss))
        | Inl _ \<Rightarrow> Ok (Some cow_node, False, True)))"

fun set_topic :: "'v Node \<Rightarrow> rstring list \<Rightarrow> 'v \<Rightarrow> ('v Node \<times> bool) result" where
  "set_topic self [] v = replace_value (cow_clone self) v"
| "set_topic self (in_level # in_levels) v =
     (let cow_node = cow_clone self; children = children_of cow_node in
      and_then (search_child in_level children) (\<lambda>r.
        case r of
          Inr off \<Rightarrow>
            and_then (set_topic (children ! off) in_levels v) (\<lambda>(child, first).
              Ok (with_children cow_node (insert_at off child (remove_at off children)), first))
        | Inl off \<Rightarrow>
            and_then (set_topic (new_node in_level) in_levels v) (\<lambda>(child, first).
              Ok (with_children cow_node (insert_at off child children), first))))"

fun remove_path :: "'v Node \<Rightarrow> rstring list \<Rightarrow> ('v Node option \<times> bool) result" where
  "remove_path self [] =
     and_then (remove_topic (cow_clone self)) (\<lambda>(cow_node, missing).
       if is_empty cow_node then Ok (None, missing) else Ok (Some cow_node, missing))"
| "remove_path self (in_level # inl) =
     (let cow_node = cow_clone self; children = children_of cow_node in
      and_then (search_child in_level children) (\<lambda>r.
        case r of
          Inr off \<Rightarrow>
            and_then (remove_path (children ! off) inl) (\<lambda>(child, missing).
              let rest = with_children cow_node (remove_at off children) in
              case child of
                Some child \<Rightarrow>
                  Ok (Some (with_children cow_node (insert_at off child (remove_at off children))), missing)
              | None \<Rightarrow>
                  if is_root self then Ok (Some rest, missing)
                  else if is_empty rest then Ok (None, missing)
                  else Ok (Some rest, missing))
        | Inl _ \<Rightarrow> Ok (Some cow_node, True)))"

section \<open>Matching\<close>

text \<open>The strings \<open>"#"\<close> and \<open>"+"\<close>.\<close>

definition hash_level :: rstring where "hash_level = [0x23]"
definition plus_level :: rstring where "plus_level = [0x2B]"

definition compare_level :: "rstring \<Rightarrow> rstring \<Rightarrow> bool" where
  "compare_level in_level trie_level = (if in_level = trie_level then True else False)"

definition match_level :: "rstring \<Rightarrow> rstring \<Rightarrow> bool \<times> bool" where
  "match_level in_lvl trie_level =
     (if in_lvl = hash_level then (True, True)
      else if trie_level = hash_level then (True, True)
      else if in_lvl = plus_level then (True, False)
      else if trie_level = plus_level then (True, False)
      else if compare_level in_lvl trie_level then (True, False)
      else (False, False))"

fun values_of :: "'v Node \<Rightarrow> 'v list" where
  "values_of (Child _ _ vs) = vs"
| "values_of (Root _) = []"

fun match_topic :: "'v Node \<Rightarrow> rstring list \<Rightarrow> bool \<Rightarrow> 'v list option result" where
  "match_topic self [] dollar =
     (case self of Child _ _ values \<Rightarrow> Ok (Some values) | Root _ \<Rightarrow> Ok None)"
| "match_topic self (in_level # in_levels) dollar =
     and_then (try_each (\<lambda>child. and_then (as_name child) (\<lambda>name.
         if is_root self \<and> dollar \<and> (name = hash_level \<or> name = plus_level) then Ok []
         else case match_level in_level name of
                (_, True) \<Rightarrow> Ok (values_of child)
              | (True, _) \<Rightarrow>
                  and_then (match_topic child in_levels dollar) (\<lambda>r.
                    case r of Some values \<Rightarrow> Ok values | None \<Rightarrow> Ok [])
              | (False, False) \<Rightarrow> Ok []))
       (children_of self))
     (\<lambda>acc. Ok (Some (concat acc)))"

section \<open>The tries behind the lock\<close>

record Stats =
  st_count :: usize
  st_repeat :: usize
  st_missing :: usize
  st_lookups :: usize
  st_hits :: usize

definition Stats_default :: Stats where
  "Stats_default = \<lparr>st_count = 0, st_repeat = 0, st_missing = 0, st_lookups = 0, st_hits = 0\<rparr>"

text \<open>\<open>usize::saturating_add\<close> on a target with 64 bits; \<open>saturating_sub\<close> is the subtraction of \<open>nat\<close>.\<close>

definition usize_MAX :: usize where "usize_MAX = 2 ^ 64 - 1"

definition saturating_add :: "usize \<Rightarrow> usize \<Rightarrow> usize" where
  "saturating_add x y = min (x + y) usize_MAX"

definition saturating_sub :: "usize \<Rightarrow> usize \<Rightarrow> usize" where
  "saturating_sub x y = x - y"

record 'v Inner =
  in_stats :: Stats
  in_root :: "'v Node"

definition Inner_default :: "'v Inner" where
  "Inner_default = \<lparr>in_stats = Stats_default, in_root = Root []\<rparr>"

text \<open>
  Each operation: from the snapshot that it read to the one that it writes, and its result. The
  reading and the writing of the lock are the steps of the section on interleavings.
\<close>

definition match_topic_name :: "Subscription Inner \<Rightarrow> rstring \<Rightarrow> (Subscription Inner \<times> Subscription list) result" where
  "match_topic_name inner key =
     (let in_levels = iter_topic_path key;
          stats = in_stats inner;
          stats = stats\<lparr>st_lookups := saturating_add (st_lookups stats) 1\<rparr>
      in and_then (match_topic (in_root inner) in_levels True) (\<lambda>r.
           case r of
             Some vals \<Rightarrow>
               Ok (inner\<lparr>in_stats := stats\<lparr>st_hits := saturating_add (st_hits stats) 1\<rparr>\<rparr>, vals)
           | None \<Rightarrow> Ok (inner\<lparr>in_stats := stats\<rparr>, [])))"

definition do_subscribe :: "Subscription Inner \<Rightarrow> rstring \<Rightarrow> Subscription \<Rightarrow> Subscription Inner result" where
  "do_subscribe inner key v =
     (let in_levels = iter_topic_path key; stats = in_stats inner
      in and_then (sub Subscription_key (in_root inner) in_levels v) (\<lambda>(root, first, repeat).
         let stats = (if first then stats\<lparr>st_count := saturating_add (st_count stats) 1\<rparr> else stats);
             stats = (if repeat then stats\<lparr>st_repeat := saturating_add (st_repeat stats) 1\<rparr> else stats)
         in Ok \<lparr>in_stats = stats, in_root = root\<rparr>))"

definition do_unsubscribe :: "Subscription Inner \<Rightarrow> rstring \<Rightarrow> Subscription \<Rightarrow> Subscription Inner result" where
  "do_unsubscribe inner key v =
     (let in_levels = iter_topic_path key; stats = in_stats inner
      in and_then (unsub Subscription_key Subscription_eq (in_root inner) in_levels v) (\<lambda>(root, last, missing).
         case root of
           None \<Rightarrow> panic
         | Some root \<Rightarrow>
             let stats = (if last then stats\<lparr>st_count := saturating_sub (st_count stats) 1\<rparr> else stats);
                 stats = (if missing then stats\<lparr>st_missing := saturating_sub (st_missing stats) 1\<rparr> else stats)
             in Ok \<lparr>in_stats = stats, in_root = root\<rparr>))"

definition match_topic_filter :: "Publish Inner \<Rightarrow> rstring \<Rightarrow> (Publish Inner \<times> Publish option) result" where
  "match_topic_filter inner key =
     (let in_levels = iter_topic_path key;
          stats = in_stats inner;
          stats = stats\<lparr>st_lookups := saturating_add (st_lookups stats) 1\<rparr>
      in and_then (match_topic (in_root inner) in_levels False) (\<lambda>r.
           case r of
             Some vals \<Rightarrow>
               if length vals = 1
               then Ok (inner\<lparr>in_stats := stats\<lparr>st_hits := saturating_add (st_hits stats) 1\<rparr>\<rparr>, Some (vals ! 0))
               else panic
           | None \<Rightarrow> Ok (inner\<lparr>in_stats := stats\<rparr>, None)))"

definition do_set :: "Publish Inner \<Rightarrow> rstring \<Rightarrow> Publish \<Rightarrow> Publish Inner result" where
  "do_set inner key v =
     (let in_levels = iter_topic_path key; stats = in_stats inner
      in and_then (set_topic (in_root inner) in_levels v) (\<lambda>(root, first).
         let stats = (if first then stats\<lparr>st_count := saturating_add (st_count stats) 1\<rparr> else stats)
         in Ok \<lparr>in_stats = stats, in_root = root\<rparr>))"

definition do_remove :: "Publish Inner \<Rightarrow> rstring \<Rightarrow> Publish Inner result" where
  "do_remove inner key =
     (let in_levels = iter_topic_path key; stats = in_stats inner
      in and_then (remove_path (in_root inner) in_levels) (\<lambda>(root, missing).
         case root of
           None \<Rightarrow> panic
         | Some root \<Rightarrow>
             let stats = (if missing then stats\<lparr>st_missing := saturating_sub (st_missing stats) 1\<rparr>
                          else stats\<lparr>st_count := saturating_sub (st_count stats) 1\<rparr>)
             in Ok \<lparr>in_stats = stats, in_root = root\<rparr>))"

section \<open>Well-formed tries\<close>

fun name_of :: "'v Node \<Rightarrow> rstring" where
  "name_of (Child name _ _) = name"
| "name_of (Root _) = []"

fun node_wf :: "('v \<Rightarrow> 'k :: linorder) \<Rightarrow> 'v Node \<Rightarrow> bool" where
  "node_wf key (Root cs) \<longleftrightarrow>
     (\<forall>c\<in>set cs. \<not> is_root c \<and> node_wf key c \<and> \<not> is_empty c) \<and> sorted_wrt (<) (map name_of cs)"
| "node_wf key (Child name cs vs) \<longleftrightarrow>
     (\<forall>c\<in>set cs. \<not> is_root c \<and> node_wf key c \<and> \<not> is_empty c) \<and> sorted_wrt (<) (map name_of cs) \<and>
     sorted_wrt (<) (map key vs)"

text \<open>The node at a path, and its values.\<close>

definition child_at :: "'v Node list \<Rightarrow> rstring \<Rightarrow> 'v Node option" where
  "child_at cs l = find (\<lambda>c. name_of c = l) cs"

fun node_at :: "'v Node \<Rightarrow> rstring list \<Rightarrow> 'v Node option" where
  "node_at n [] = Some n"
| "node_at n (l # ls) = (case child_at (children_of n) l of None \<Rightarrow> None | Some c \<Rightarrow> node_at c ls)"

definition lookup :: "'v Node \<Rightarrow> rstring list \<Rightarrow> 'v list" where
  "lookup n p = (case node_at n p of None \<Rightarrow> [] | Some m \<Rightarrow> values_of m)"

definition lookup_opt :: "'v Node option \<Rightarrow> rstring list \<Rightarrow> 'v list" where
  "lookup_opt r p = (case r of None \<Rightarrow> [] | Some n \<Rightarrow> lookup n p)"

section \<open>Children\<close>

definition kids_wf :: "('v \<Rightarrow> 'k :: linorder) \<Rightarrow> 'v Node list \<Rightarrow> bool" where
  "kids_wf key cs \<longleftrightarrow>
     (\<forall>c\<in>set cs. \<not> is_root c \<and> node_wf key c \<and> \<not> is_empty c) \<and> sorted_wrt (<) (map name_of cs)"

lemma node_wf_kids: "node_wf key n \<longleftrightarrow> kids_wf key (children_of n) \<and> sorted_wrt (<) (map key (values_of n))"
  by (cases n) (auto simp: kids_wf_def)

lemma cow_clone_id [simp]: "cow_clone n = n"
  by (cases n) simp_all

lemma with_children_simps [simp]:
  "children_of (with_children n cs) = cs"
  "values_of (with_children n cs) = values_of n"
  "name_of (with_children n cs) = name_of n"
  "is_root (with_children n cs) = is_root n"
  by (cases n; simp)+

lemma is_empty_iff: "is_empty n \<longleftrightarrow> \<not> is_root n \<and> children_of n = [] \<and> values_of n = []"
  by (cases n) simp_all

lemma is_empty_root [simp]: "is_root n \<Longrightarrow> \<not> is_empty n"
  by (cases n) simp_all

lemma names_Ok: "kids_wf key cs \<Longrightarrow> try_each as_name cs = Ok (map name_of cs)"
proof -
  have "\<forall>c\<in>set cs. \<not> is_root c \<Longrightarrow> try_each as_name cs = Ok (map name_of cs)"
  proof (induction cs)
    case (Cons c cs)
    then show ?case by (cases c) simp_all
  qed simp
  then show "kids_wf key cs \<Longrightarrow> ?thesis" by (simp add: kids_wf_def)
qed

lemma child_at_Some:
  "child_at cs l = Some c \<Longrightarrow> c \<in> set cs \<and> name_of c = l"
  unfolding child_at_def by (auto simp: find_Some_iff)

lemma child_at_None: "child_at cs l = None \<longleftrightarrow> l \<notin> set (map name_of cs)"
  unfolding child_at_def by (auto simp: find_None_iff)

lemma child_at_append: "child_at (xs @ ys) l = (case child_at xs l of None \<Rightarrow> child_at ys l | Some c \<Rightarrow> Some c)"
  unfolding child_at_def by (induction xs) simp_all

lemma child_at_Cons: "child_at (c # cs) l = (if name_of c = l then Some c else child_at cs l)"
  by (simp add: child_at_def)

lemma sorted_names_distinct: "sorted_wrt (<) (ks :: 'a :: linorder list) \<Longrightarrow> distinct ks"
  by (simp add: strict_sorted_iff)

lemma child_at_split:
  assumes "distinct (map name_of cs)" and "i < length cs"
  shows "child_at (take i cs) (name_of (cs ! i)) = None" and "child_at (drop (Suc i) cs) (name_of (cs ! i)) = None"
proof -
  have "distinct (map name_of (take i cs @ cs ! i # drop (Suc i) cs))"
    using assms id_take_nth_drop [OF assms(2)] by simp
  then show "child_at (take i cs) (name_of (cs ! i)) = None"
    and "child_at (drop (Suc i) cs) (name_of (cs ! i)) = None" by (auto simp: child_at_None)
qed

lemma child_at_remove:
  assumes "distinct (map name_of cs)" and "i < length cs"
  shows "child_at (remove_at i cs) l = (if l = name_of (cs ! i) then None else child_at cs l)"
proof -
  have "child_at cs l = child_at (take i cs @ cs ! i # drop (Suc i) cs) l"
    using id_take_nth_drop [OF assms(2)] by simp
  then show ?thesis using child_at_split [OF assms]
    by (cases "child_at (take i cs) l") (auto simp: remove_at_def child_at_append child_at_Cons)
qed

lemma child_at_insert:
  assumes "name_of c \<notin> set (map name_of cs)"
  shows "child_at (insert_at i c cs) l = (if l = name_of c then Some c else child_at cs l)"
proof -
  have "child_at cs l = child_at (take i cs @ drop i cs) l" by simp
  moreover have "child_at (take i cs) (name_of c) = None"
    using assms by (auto simp: child_at_None dest: in_set_takeD)
  ultimately show ?thesis
    unfolding insert_at_def child_at_append child_at_Cons by auto
qed

lemma insert_remove: "i < length cs \<Longrightarrow> insert_at i c (remove_at i cs) = cs[i := c]"
  by (simp add: insert_at_def remove_at_def upd_conv_take_nth_drop)

lemma kids_remove: "kids_wf key cs \<Longrightarrow> kids_wf key (remove_at i cs)"
proof -
  have "set (remove_at i cs) \<subseteq> set cs" by (auto simp: remove_at_def dest: in_set_takeD in_set_dropD)
  then show "kids_wf key cs \<Longrightarrow> ?thesis" by (auto simp: kids_wf_def map_remove_at sorted_remove_at)
qed

lemma kids_update:
  assumes "kids_wf key cs" and "i < length cs" and "\<not> is_root c" and "node_wf key c" and "\<not> is_empty c"
    and "name_of c = name_of (cs ! i)"
  shows "kids_wf key (cs[i := c])"
proof -
  have "map name_of (cs[i := c]) = map name_of cs"
    using assms(2,6) by (simp add: map_update) (metis list_update_id nth_map length_map)
  with assms show ?thesis unfolding kids_wf_def by (auto dest!: set_update_subset_insert [THEN subsetD])
qed

lemma child_at_update:
  assumes "distinct (map name_of cs)" and "i < length cs" and "name_of c = name_of (cs ! i)"
  shows "child_at (cs[i := c]) l = (if l = name_of c then Some c else child_at cs l)"
proof -
  have "name_of c \<notin> set (map name_of (remove_at i cs))"
    using child_at_split [OF assms(1,2)] assms(3) by (auto simp: remove_at_def child_at_None)
  from child_at_insert [OF this, of i l] child_at_remove [OF assms(1,2), of l] assms(2,3)
  show ?thesis by (simp add: insert_remove)
qed

text \<open>The two outcomes of the search.\<close>

lemma search_child_cases:
  assumes "kids_wf key cs"
  obtains (found) i where "search_child l cs = Ok (Inr i)" and "i < length cs" and "name_of (cs ! i) = l"
      and "child_at cs l = Some (cs ! i)"
  | (absent) i where "search_child l cs = Ok (Inl i)" and "child_at cs l = None"
      and "\<And>c. \<lbrakk>name_of c = l; \<not> is_root c; node_wf key c; \<not> is_empty c\<rbrakk> \<Longrightarrow> kids_wf key (insert_at i c cs)"
      and "\<And>c m. name_of c = l \<Longrightarrow> child_at (insert_at i c cs) m = (if m = l then Some c else child_at cs m)"
proof -
  have so: "sorted_wrt (<) (map name_of cs)" using assms by (simp add: kids_wf_def)
  have s: "search_child l cs = Ok (binary_search l (map name_of cs))"
    using names_Ok [OF assms] by (simp add: search_child_def)
  show thesis
  proof (cases "binary_search l (map name_of cs)")
    case (Inr i)
    from binary_search_Inr [OF this] have i: "i < length cs" "name_of (cs ! i) = l" by auto
    have "child_at (take i cs @ cs ! i # drop (Suc i) cs) l = Some (cs ! i)"
      using child_at_split [OF sorted_names_distinct [OF so] i(1)] i(2)
      by (auto simp: child_at_append child_at_Cons)
    then have "child_at cs l = Some (cs ! i)" using id_take_nth_drop [OF i(1)] by simp
    with s Inr i found show thesis by simp
  next
    case (Inl i)
    have sorted: "sorted (map name_of cs)" using so by (simp add: strict_sorted_imp_sorted)
    note b = binary_search_Inl [OF Inl sorted]
    have no: "l \<notin> set (map name_of cs)" by (rule binary_search_Inl_notin [OF Inl sorted])
    show thesis
    proof (rule absent)
      show "search_child l cs = Ok (Inl i)" using s Inl by simp
      show "child_at cs l = None" using no by (simp add: child_at_None)
      show "child_at (insert_at i c cs) m = (if m = l then Some c else child_at cs m)" if "name_of c = l" for c m
        using child_at_insert [of c cs i m] no that by simp
      show "kids_wf key (insert_at i c cs)"
        if "name_of c = l" "\<not> is_root c" "node_wf key c" "\<not> is_empty c" for c
        using that assms sorted_insert_at [OF so, of i l] b by (simp add: kids_wf_def map_insert_at)
    qed
  qed
qed

section \<open>Subscribing\<close>

text \<open>The list of values after an insertion, in the order of the keys and without replacement.\<close>

definition ins_values :: "('v \<Rightarrow> 'k :: linorder) \<Rightarrow> 'v \<Rightarrow> 'v list \<Rightarrow> 'v list" where
  "ins_values key v vs = (if key v \<in> set (map key vs) then vs
     else [w \<leftarrow> vs. key w < key v] @ v # [w \<leftarrow> vs. key v < key w])"

lemma filter_split_sorted:
  assumes "\<forall>j<i. key (vs ! j) < (k :: 'k :: linorder)" and "\<forall>j<length vs. i \<le> j \<longrightarrow> k < key (vs ! j)"
    and "i \<le> length vs"
  shows "[w \<leftarrow> vs. key w < k] = take i vs" and "[w \<leftarrow> vs. k < key w] = drop i vs"
proof -
  have t: "\<forall>w\<in>set (take i vs). key w < k" using assms(1,3) by (auto simp: in_set_conv_nth)
  have d: "\<forall>w\<in>set (drop i vs). k < key w" using assms(2,3) by (fastforce simp: in_set_conv_nth)
  have "[w \<leftarrow> take i vs @ drop i vs. key w < k] = take i vs" "[w \<leftarrow> take i vs @ drop i vs. k < key w] = drop i vs"
    unfolding filter_append using t d by (auto simp: filter_empty_conv filter_id_conv dest: order.asym)
  then show "[w \<leftarrow> vs. key w < k] = take i vs" and "[w \<leftarrow> vs. k < key w] = drop i vs" by simp_all
qed

lemma ins_values_nonempty [simp]: "ins_values key v vs \<noteq> []"
  by (auto simp: ins_values_def)

lemma insert_value_Ok:
  assumes "sorted_wrt (<) (map key vs)"
  shows "insert_value key (Child nm cs vs) v =
      Ok (Child nm cs (ins_values key v vs), vs = [], key v \<in> set (map key vs))"
    and "sorted_wrt (<) (map key (ins_values key v vs))"
proof -
  have so: "sorted (map key vs)" using assms by (simp add: strict_sorted_imp_sorted)
  consider (nil) "vs = []" | (old) i where "vs \<noteq> []" "binary_search (key v) (map key vs) = Inr i"
    | (new) i where "vs \<noteq> []" "binary_search (key v) (map key vs) = Inl i"
    by (cases "binary_search (key v) (map key vs)") auto
  then have "insert_value key (Child nm cs vs) v =
      Ok (Child nm cs (ins_values key v vs), vs = [], key v \<in> set (map key vs)) \<and>
    sorted_wrt (<) (map key (ins_values key v vs))"
  proof cases
    case nil
    then show ?thesis by (simp add: insert_value_def ins_values_def)
  next
    case old
    have "key v \<in> set (map key vs)"
      using binary_search_Inr [OF old(2)] by (metis length_map nth_mem)
    then show ?thesis using old assms by (auto simp: insert_value_def ins_values_def)
  next
    case new
    note b = binary_search_Inl [OF new(2) so]
    have no: "key v \<notin> set (map key vs)" by (rule binary_search_Inl_notin [OF new(2) so])
    have below: "\<forall>j<i. key (vs ! j) < key v" using b by (metis length_map nth_map order_less_le_trans)
    have "ins_values key v vs = insert_at i v vs"
      using filter_split_sorted [OF below] b no by (simp add: ins_values_def insert_at_def)
    moreover have "sorted_wrt (<) (map key (insert_at i v vs))"
      using sorted_insert_at [of "map key vs" i "key v"] assms b by (simp add: map_insert_at)
    ultimately show ?thesis using new no by (auto simp: insert_value_def)
  qed
  then show "insert_value key (Child nm cs vs) v =
      Ok (Child nm cs (ins_values key v vs), vs = [], key v \<in> set (map key vs))"
    and "sorted_wrt (<) (map key (ins_values key v vs))" by blast+
qed

section \<open>Changing the values at a path\<close>

lemma lookup_Nil [simp]: "lookup n [] = values_of n"
  by (simp add: lookup_def)

lemma lookup_Cons:
  "lookup n (l # ls) = (case child_at (children_of n) l of None \<Rightarrow> [] | Some c \<Rightarrow> lookup c ls)"
  by (auto simp: lookup_def split: option.split)

lemma lookup_empty [simp]: "lookup (Root []) p = []"
  by (cases p) (simp_all add: lookup_Cons child_at_def)

lemma new_node_simps [simp]:
  "children_of (new_node l) = []" "values_of (new_node l) = []" "name_of (new_node l) = l"
  "\<not> is_root (new_node l)" "node_wf key (new_node l)"
  by (simp_all add: new_node_def)

lemma lookup_new_node [simp]: "lookup (new_node l) p = []"
  by (cases p) (simp_all add: lookup_Cons child_at_def)

lemma kids_distinct: "kids_wf key cs \<Longrightarrow> distinct (map name_of cs)"
  by (simp add: kids_wf_def sorted_names_distinct)

lemma kids_nth:
  "\<lbrakk>kids_wf key cs; i < length cs\<rbrakk> \<Longrightarrow> \<not> is_root (cs ! i) \<and> node_wf key (cs ! i) \<and> \<not> is_empty (cs ! i)"
  by (simp add: kids_wf_def)

text \<open>
  \<open>sub\<close> and \<open>set\<close> are the same walk with another operation at its end, and so are \<open>unsub\<close> and
  \<open>remove\<close>. The walks are stated once; what they need of the operation is the locale.
\<close>

fun put_path :: "('v Node \<Rightarrow> ('v Node \<times> 'r) result) \<Rightarrow> 'v Node \<Rightarrow> rstring list \<Rightarrow> ('v Node \<times> 'r) result" where
  "put_path leaf n [] = leaf n"
| "put_path leaf n (l # p) =
     and_then (search_child l (children_of n)) (\<lambda>r.
       case r of
         Inr i \<Rightarrow> and_then (put_path leaf (children_of n ! i) p) (\<lambda>(c, res).
           Ok (with_children n ((children_of n)[i := c]), res))
       | Inl i \<Rightarrow> and_then (put_path leaf (new_node l) p) (\<lambda>(c, res).
           Ok (with_children n (insert_at i c (children_of n)), res)))"

locale put_leaf =
  fixes key :: "'v \<Rightarrow> 'k :: linorder" and leaf :: "'v Node \<Rightarrow> ('v Node \<times> 'r) result"
    and f :: "'v list \<Rightarrow> 'v list" and out :: "'v list \<Rightarrow> 'r"
  assumes leaf_Ok: "sorted_wrt (<) (map key vs) \<Longrightarrow> leaf (Child nm cs vs) = Ok (Child nm cs (f vs), out vs)"
    and f_sorted: "sorted_wrt (<) (map key vs) \<Longrightarrow> sorted_wrt (<) (map key (f vs))"
    and f_nonempty: "f vs \<noteq> []"
begin

lemma put_path_Ok:
  assumes "node_wf key n" and "is_root n \<longrightarrow> p \<noteq> []"
  shows "\<exists>n'. put_path leaf n p = Ok (n', out (lookup n p)) \<and>
    node_wf key n' \<and> name_of n' = name_of n \<and> is_root n' = is_root n \<and> \<not> is_empty n' \<and>
    (\<forall>q. lookup n' q = (if q = p then f (lookup n p) else lookup n q))"
  using assms
proof (induction p arbitrary: n)
  case Nil
  then obtain nm cs vs where n: "n = Child nm cs vs" by (cases n) auto
  have so: "sorted_wrt (<) (map key vs)" using Nil n by simp
  have "lookup (Child nm cs (f vs)) q = (if q = [] then f vs else lookup n q)" for q
    using n by (cases q) (simp_all add: lookup_Cons)
  then show ?case using Nil n leaf_Ok [OF so] f_sorted [OF so] f_nonempty by auto
next
  case (Cons l p)
  have wf: "kids_wf key (children_of n)" using Cons.prems(1) by (simp add: node_wf_kids)
  then show ?case
  proof (cases rule: search_child_cases [where l = l])
    case (found i)
    let ?c = "children_of n ! i"
    from kids_nth [OF wf found(2)] Cons.IH [of ?c] obtain c' where c': "put_path leaf ?c p = Ok (c', out (lookup ?c p))"
      "node_wf key c'" "name_of c' = l" "\<not> is_root c'" "\<not> is_empty c'"
      "\<forall>q. lookup c' q = (if q = p then f (lookup ?c p) else lookup ?c q)"
      using found(3) by auto
    let ?n' = "with_children n ((children_of n)[i := c'])"
    have "lookup ?n' q = (if q = l # p then f (lookup ?c p) else lookup n q)" for q
      using child_at_update [OF kids_distinct [OF wf] found(2), of c'] c'(3,6) found(3,4)
      by (cases q) (auto simp: lookup_Cons)
    moreover have "node_wf key ?n'"
      using kids_update [OF wf found(2)] c' found(3) Cons.prems(1) by (simp add: node_wf_kids)
    moreover have "lookup n (l # p) = lookup ?c p" using found(4) by (simp add: lookup_Cons)
    ultimately show ?thesis using found c'(1) by (auto simp: is_empty_iff)
  next
    case (absent i)
    from Cons.IH [of "new_node l"] obtain c' where c': "put_path leaf (new_node l) p = Ok (c', out [])"
      "node_wf key c'" "name_of c' = l" "\<not> is_root c'" "\<not> is_empty c'"
      "\<forall>q. lookup c' q = (if q = p then f [] else [])"
      by auto
    let ?n' = "with_children n (insert_at i c' (children_of n))"
    have "lookup ?n' q = (if q = l # p then f [] else lookup n q)" for q
      using absent(4) [OF c'(3)] c'(6) absent(2) by (cases q) (auto simp: lookup_Cons)
    moreover have "node_wf key ?n'"
      using absent(3) [of c'] c' Cons.prems(1) by (simp add: node_wf_kids)
    moreover have "lookup n (l # p) = []" using absent(2) by (simp add: lookup_Cons)
    ultimately show ?thesis using absent(1) c'(1) by (auto simp: is_empty_iff insert_at_def)
  qed
qed

end

lemma search_child_bound: "search_child l cs = Ok (Inr i) \<Longrightarrow> i < length cs"
  by (auto simp: search_child_def and_then_eq_Inr dest!: binary_search_Inr dest: try_each_length)

lemma and_then_search_cong:
  "(\<And>r. search_child l cs = Ok r \<Longrightarrow> f r = g r) \<Longrightarrow> and_then (search_child l cs) f = and_then (search_child l cs) g"
  by (cases "search_child l cs") auto

lemma sub_put: "sub key n p v = put_path (\<lambda>n. insert_value key n v) n p"
  by (induction p arbitrary: n)
     (auto simp: Let_def insert_remove search_child_bound case_prod_beta' split: sum.split intro!: and_then_search_cong)

lemma set_topic_put: "set_topic n p v = put_path (\<lambda>n. replace_value n v) n p"
  by (induction p arbitrary: n)
     (auto simp: Let_def insert_remove search_child_bound case_prod_beta' split: sum.split intro!: and_then_search_cong)

interpretation sub_leaf: put_leaf key "\<lambda>n. insert_value key n v" "ins_values key v"
  "\<lambda>vs. (vs = [], key v \<in> set (map key vs))" for key :: "'v \<Rightarrow> 'k :: linorder" and v
  by unfold_locales (simp_all add: insert_value_Ok)

interpretation set_leaf: put_leaf key "\<lambda>n. replace_value n v" "\<lambda>_. [v]" "\<lambda>vs. vs = []"
  for key :: "'v \<Rightarrow> 'k :: linorder" and v
  by unfold_locales (simp_all add: replace_value_def)

text \<open>What \<open>sub\<close> does: it changes the values at its path and nothing else.\<close>

lemma sub_Ok:
  assumes "node_wf key n" and "is_root n \<longrightarrow> p \<noteq> []"
  obtains n' where "sub key n p v = Ok (n', lookup n p = [], key v \<in> set (map key (lookup n p)))"
    and "node_wf key n'" and "is_root n' = is_root n"
    and "\<And>q. lookup n' q = (if q = p then ins_values key v (lookup n p) else lookup n q)"
  using sub_leaf.put_path_Ok [OF assms, of v] by (auto simp: sub_put)

lemma set_topic_Ok:
  assumes "node_wf key n" and "is_root n \<longrightarrow> p \<noteq> []"
  obtains n' where "set_topic n p v = Ok (n', lookup n p = [])"
    and "node_wf key n'" and "is_root n' = is_root n"
    and "\<And>q. lookup n' q = (if q = p then [v] else lookup n q)"
  using set_leaf.put_path_Ok [OF assms, of v] by (auto simp: set_topic_put)

section \<open>Removing the values at a path\<close>

fun cut_path ::
  "('v Node \<Rightarrow> ('v Node \<times> 'r) result) \<Rightarrow> 'r \<Rightarrow> 'v Node \<Rightarrow> rstring list \<Rightarrow> ('v Node option \<times> 'r) result" where
  "cut_path leaf none n [] =
     and_then (leaf n) (\<lambda>(n', res). Ok (if is_empty n' then None else Some n', res))"
| "cut_path leaf none n (l # p) =
     and_then (search_child l (children_of n)) (\<lambda>r.
       case r of
         Inr i \<Rightarrow> and_then (cut_path leaf none (children_of n ! i) p) (\<lambda>(c, res).
           let rest = with_children n (remove_at i (children_of n)) in
           Ok (case c of Some c \<Rightarrow> Some (with_children n ((children_of n)[i := c]))
               | None \<Rightarrow> if is_empty rest then None else Some rest, res))
       | Inl _ \<Rightarrow> Ok (Some n, none))"

locale cut_leaf =
  fixes key :: "'v \<Rightarrow> 'k :: linorder" and leaf :: "'v Node \<Rightarrow> ('v Node \<times> 'r) result"
    and f :: "'v list \<Rightarrow> 'v list" and out :: "'v list \<Rightarrow> 'r"
  assumes leaf_Ok: "\<lbrakk>sorted_wrt (<) (map key vs); vs \<noteq> []\<rbrakk> \<Longrightarrow>
      leaf (Child nm cs vs) = Ok (Child nm cs (f vs), out vs)"
    and leaf_panic: "leaf (Child nm cs []) = panic" "leaf (Root cs) = panic"
    and f_sorted: "sorted_wrt (<) (map key vs) \<Longrightarrow> sorted_wrt (<) (map key (f vs))"
    and f_Nil: "f [] = []"
begin

lemma cut_path_Ok:
  assumes "node_wf key n" and "\<not> is_empty n" and "\<And>m. node_at n p = Some m \<Longrightarrow> values_of m \<noteq> []"
  shows "\<exists>r. cut_path leaf (out []) n p = Ok (r, out (lookup n p)) \<and> (is_root n \<longrightarrow> r \<noteq> None) \<and>
    (\<forall>n'. r = Some n' \<longrightarrow> node_wf key n' \<and> name_of n' = name_of n \<and> is_root n' = is_root n \<and> \<not> is_empty n') \<and>
    (\<forall>q. lookup_opt r q = (if q = p then f (lookup n p) else lookup n q))"
  using assms
proof (induction p arbitrary: n)
  case Nil
  then obtain nm cs vs where n: "n = Child nm cs vs" "vs \<noteq> []" by (cases n) auto
  have so: "sorted_wrt (<) (map key vs)" using Nil n by simp
  have "lookup (Child nm cs (f vs)) q = (if q = [] then f vs else lookup n q)" for q
    using n by (cases q) (simp_all add: lookup_Cons)
  moreover have "lookup n q = []" if "cs = []" "q \<noteq> []" for q
    using that n by (cases q) (simp_all add: lookup_Cons child_at_def)
  ultimately show ?case using Nil n leaf_Ok [OF so n(2)] f_sorted [OF so] by (auto simp: lookup_opt_def)
next
  case (Cons l p)
  have wf: "kids_wf key (children_of n)" using Cons.prems(1) by (simp add: node_wf_kids)
  then show ?case
  proof (cases rule: search_child_cases [where l = l])
    case (found i)
    let ?c = "children_of n ! i"
    have "values_of m \<noteq> []" if "node_at ?c p = Some m" for m using Cons.prems(3) [of m] that found(4) by simp
    with kids_nth [OF wf found(2)] Cons.IH [of ?c] obtain r where r: "cut_path leaf (out []) ?c p = Ok (r, out (lookup ?c p))"
      "\<And>c'. r = Some c' \<Longrightarrow> node_wf key c' \<and> name_of c' = l \<and> \<not> is_root c' \<and> \<not> is_empty c'"
      "\<And>q. lookup_opt r q = (if q = p then f (lookup ?c p) else lookup ?c q)"
      using found(3) by auto
    have l: "lookup n (l # p) = lookup ?c p" using found(4) by (simp add: lookup_Cons)
    show ?thesis
    proof (cases r)
      case (Some c')
      let ?n' = "with_children n ((children_of n)[i := c'])"
      have "lookup ?n' q = (if q = l # p then f (lookup ?c p) else lookup n q)" for q
        using child_at_update [OF kids_distinct [OF wf] found(2), of c'] r(2) [OF Some] r(3) Some found(3,4)
        by (cases q) (auto simp: lookup_Cons lookup_opt_def)
      moreover have "node_wf key ?n'"
        using kids_update [OF wf found(2)] r(2) [OF Some] found(3) Cons.prems(1) by (simp add: node_wf_kids)
      ultimately show ?thesis using found r(1) Some l by (auto simp: is_empty_iff lookup_opt_def)
    next
      case None
      let ?n' = "with_children n (remove_at i (children_of n))"
      have "f (lookup ?c p) = []" using r(3) [of p] None by (simp add: lookup_opt_def)
      moreover have "lookup ?c q = []" if "q \<noteq> p" for q using r(3) [of q] None that by (simp add: lookup_opt_def)
      ultimately have gone: "f (lookup ?c p) = []" "\<And>q. q \<noteq> p \<Longrightarrow> lookup ?c q = []" by blast+
      have lk: "lookup ?n' q = (if q = l # p then f (lookup ?c p) else lookup n q)" for q
        using child_at_remove [OF kids_distinct [OF wf] found(2)] gone found(3,4)
        by (cases q) (auto simp: lookup_Cons)
      have "lookup ?n' q = []" if "is_empty ?n'" for q
        using that by (cases q) (auto simp: is_empty_iff lookup_Cons child_at_def)
      with lk have "lookup_opt (if is_empty ?n' then None else Some ?n') q =
          (if q = l # p then f (lookup ?c p) else lookup n q)" for q
        by (simp add: lookup_opt_def) metis
      moreover have "node_wf key ?n'"
        using kids_remove [OF wf] Cons.prems(1) by (simp add: node_wf_kids)
      ultimately show ?thesis using found r(1) None l by (auto simp: Let_def)
    qed
  next
    case (absent i)
    then have "lookup n (l # p) = []" by (simp add: lookup_Cons)
    then show ?thesis using absent(1) Cons.prems by (auto simp: lookup_opt_def f_Nil)
  qed
qed

lemma cut_path_panic:
  assumes "node_wf key n" and "node_at n p = Some m" and "values_of m = []"
  shows "cut_path leaf (out []) n p = panic"
  using assms
proof (induction p arbitrary: n)
  case Nil
  then show ?case by (cases n) (auto simp: leaf_panic)
next
  case (Cons l p)
  have wf: "kids_wf key (children_of n)" using Cons.prems(1) by (simp add: node_wf_kids)
  then show ?case
  proof (cases rule: search_child_cases [where l = l])
    case (found i)
    with Cons kids_nth [OF wf found(2)] show ?thesis by simp
  next
    case (absent i)
    with Cons.prems show ?thesis by simp
  qed
qed

end

lemma unsub_cut: "unsub key eq n p v = cut_path (\<lambda>n. remove_value key eq n v) (False, True) n p"
proof (induction p arbitrary: n)
  case (Cons l p)
  show ?case
    unfolding unsub.simps cut_path.simps cow_clone_id Let_def Cons.IH
    by (rule and_then_search_cong)
       (auto simp: insert_remove case_prod_beta' dest!: search_child_bound
         split: sum.split option.split intro!: arg_cong [where f = "and_then _"] ext)
qed (auto intro!: arg_cong [where f = "and_then _"] ext)

lemma remove_cut: "remove_path n p = cut_path remove_topic True n p"
proof (induction p arbitrary: n)
  case (Cons l p)
  show ?case
    unfolding remove_path.simps cut_path.simps cow_clone_id Let_def Cons.IH
    by (rule and_then_search_cong)
       (auto simp: insert_remove case_prod_beta' dest!: search_child_bound
         split: sum.split option.split intro!: arg_cong [where f = "and_then _"] ext)
qed (auto intro!: arg_cong [where f = "and_then _"] ext)

text \<open>
  The values after a removal: a single value is compared with \<open>PartialEq\<close>, one of several is found
  by its key.
\<close>

definition del_values :: "('v \<Rightarrow> 'k :: linorder) \<Rightarrow> ('v \<Rightarrow> 'v \<Rightarrow> bool) \<Rightarrow> 'v \<Rightarrow> 'v list \<Rightarrow> 'v list" where
  "del_values key eq v vs =
     (if length vs = 1 then (if eq (vs ! 0) v then [] else vs) else [w \<leftarrow> vs. key w \<noteq> key v])"

lemma del_values_Nil [simp]: "del_values key eq v [] = []"
  by (simp add: del_values_def)

lemma filter_remove_at:
  assumes "distinct (map key vs)" and "i < length vs"
  shows "[w \<leftarrow> vs. key w \<noteq> key (vs ! i)] = remove_at i vs"
proof -
  have "distinct (map key (take i vs @ vs ! i # drop (Suc i) vs))"
    using assms id_take_nth_drop [OF assms(2)] by simp
  then have "key (vs ! i) \<notin> key ` set (take i vs)" "key (vs ! i) \<notin> key ` set (drop (Suc i) vs)" by auto
  then have "\<forall>w\<in>set (take i vs). key w \<noteq> key (vs ! i)" "\<forall>w\<in>set (drop (Suc i) vs). key w \<noteq> key (vs ! i)"
    by (metis image_eqI)+
  then have "[w \<leftarrow> take i vs @ vs ! i # drop (Suc i) vs. key w \<noteq> key (vs ! i)] = remove_at i vs"
    by (simp add: remove_at_def filter_id_conv)
  then show ?thesis using id_take_nth_drop [OF assms(2)] by simp
qed

lemma remove_value_Ok:
  assumes "sorted_wrt (<) (map key vs)" and "vs \<noteq> []"
  shows "remove_value key eq (Child nm cs vs) v =
    Ok (Child nm cs (del_values key eq v vs), vs \<noteq> [] \<and> del_values key eq v vs = [], del_values key eq v vs = vs)"
proof (cases "length vs = 1")
  case True
  then show ?thesis by (cases vs) (auto simp: remove_value_def del_values_def remove_at_def)
next
  case False
  then have two: "2 \<le> length vs" using assms(2) by (cases vs; cases "tl vs") auto
  have so: "sorted (map key vs)" using assms(1) by (simp add: strict_sorted_imp_sorted)
  show ?thesis
  proof (cases "binary_search (key v) (map key vs)")
    case (Inl i)
    have "key v \<notin> set (map key vs)" by (rule binary_search_Inl_notin [OF Inl so])
    then have "\<forall>w\<in>set vs. key w \<noteq> key v" by (metis image_eqI set_map)
    then have "[w \<leftarrow> vs. key w \<noteq> key v] = vs" by (simp add: filter_id_conv)
    with False Inl assms(2) show ?thesis by (auto simp: remove_value_def del_values_def)
  next
    case (Inr i)
    from binary_search_Inr [OF this] have i: "i < length vs" "key (vs ! i) = key v" by auto
    then have "[w \<leftarrow> vs. key w \<noteq> key v] = remove_at i vs"
      using filter_remove_at [OF sorted_names_distinct [OF assms(1)] i(1)] by simp
    moreover have "length (remove_at i vs) = length vs - 1" using i(1) by (simp add: remove_at_def)
    ultimately show ?thesis using False Inr two by (auto simp: remove_value_def del_values_def)
  qed
qed

interpretation unsub_leaf: cut_leaf key "\<lambda>n. remove_value key eq n v" "del_values key eq v"
  "\<lambda>vs. (vs \<noteq> [] \<and> del_values key eq v vs = [], del_values key eq v vs = vs)"
  for key :: "'v \<Rightarrow> 'k :: linorder" and eq v
proof
  fix vs :: "'v list"
  show "sorted_wrt (<) (map key (del_values key eq v vs))" if "sorted_wrt (<) (map key vs)"
    using that sorted_wrt_filter [OF that, of "\<lambda>k. k \<noteq> key v"]
    by (auto simp: del_values_def filter_map o_def)
qed (simp_all add: remove_value_Ok, simp_all add: remove_value_def del_values_def)

text \<open>A trie of retained messages holds at most one message per topic: its order has one key.\<close>

abbreviation one_key :: "'v \<Rightarrow> nat" where "one_key \<equiv> \<lambda>_. 0"

lemma sorted_one_key: "sorted_wrt (<) (map one_key vs) \<longleftrightarrow> length vs \<le> 1"
  by (cases vs; cases "tl vs") auto

interpretation remove_leaf: cut_leaf one_key remove_topic "\<lambda>_. []" "\<lambda>vs. vs = []"
proof
  fix nm cs and vs :: "'v list"
  assume "sorted_wrt (<) (map one_key vs)" "vs \<noteq> []"
  then have "length vs = 1" using sorted_one_key [of vs] by (cases vs) auto
  then show "remove_topic (Child nm cs vs) = Ok (Child nm cs [], vs = [])"
    by (cases vs) (auto simp: remove_topic_def remove_at_def)
qed (simp_all add: remove_topic_def)

lemma unsub_Ok:
  assumes "node_wf key n" and "\<not> is_empty n" and "\<And>m. node_at n p = Some m \<Longrightarrow> values_of m \<noteq> []"
  obtains r where "unsub key eq n p v = Ok (r, lookup n p \<noteq> [] \<and> del_values key eq v (lookup n p) = [],
      del_values key eq v (lookup n p) = lookup n p)"
    and "is_root n \<longrightarrow> r \<noteq> None"
    and "\<And>n'. r = Some n' \<Longrightarrow> node_wf key n' \<and> is_root n' = is_root n \<and> \<not> is_empty n'"
    and "\<And>q. lookup_opt r q = (if q = p then del_values key eq v (lookup n p) else lookup n q)"
  using unsub_leaf.cut_path_Ok [where p = p and eq = eq and v = v, OF assms]
  by (auto simp: unsub_cut)

section \<open>Canonical tries\<close>

lemma child_at_in:
  assumes "distinct (map name_of cs)" and "c \<in> set cs"
  shows "child_at cs (name_of c) = Some c"
  using assms unfolding child_at_def by (induction cs) auto

text \<open>No node is there for nothing: some path below it has values.\<close>

lemma nonempty_path:
  "\<lbrakk>node_wf key n; \<not> is_root n; \<not> is_empty n\<rbrakk> \<Longrightarrow> \<exists>p. lookup n p \<noteq> []"
proof (induction n)
  case (Child nm cs vs)
  show ?case
  proof (cases vs)
    case Nil
    with Child.prems obtain c where c: "c \<in> set cs" by (cases cs) auto
    with Child obtain p where p: "lookup c p \<noteq> []" by auto
    have "child_at cs (name_of c) = Some c"
      using c Child.prems(1) sorted_names_distinct by (intro child_at_in) auto
    with p have "lookup (Child nm cs vs) (name_of c # p) \<noteq> []" by (simp add: lookup_Cons)
    then show ?thesis ..
  next
    case (Cons v vs')
    then have "lookup (Child nm cs vs) [] \<noteq> []" by simp
    then show ?thesis ..
  qed
qed simp

lemma name_iff_path:
  assumes "kids_wf key (children_of n)"
  shows "l \<in> set (map name_of (children_of n)) \<longleftrightarrow> (\<exists>p. lookup n (l # p) \<noteq> [])"
proof
  assume "l \<in> set (map name_of (children_of n))"
  then obtain c where c: "c \<in> set (children_of n)" "name_of c = l" by auto
  have "node_wf key c" "\<not> is_root c" "\<not> is_empty c" using assms c(1) by (simp_all add: kids_wf_def)
  from nonempty_path [OF this] child_at_in [OF kids_distinct [OF assms] c(1)] c(2)
  show "\<exists>p. lookup n (l # p) \<noteq> []" by (simp add: lookup_Cons)
next
  assume "\<exists>p. lookup n (l # p) \<noteq> []"
  then show "l \<in> set (map name_of (children_of n))"
    using child_at_None [of "children_of n" l] by (auto simp: lookup_Cons split: option.split_asm)
qed

lemma trie_ext_kids:
  assumes ih: "\<And>c d. \<lbrakk>c \<in> set (children_of n); node_wf key c; node_wf key d; is_root d = is_root c;
      name_of d = name_of c; lookup d = lookup c\<rbrakk> \<Longrightarrow> d = c"
    and wf: "kids_wf key (children_of n)" "kids_wf key (children_of m)" and same: "lookup m = lookup n"
  shows "children_of m = children_of n"
proof -
  have "set (map name_of (children_of m)) = set (map name_of (children_of n))"
    by (rule set_eqI) (simp only: name_iff_path [OF wf(1)] name_iff_path [OF wf(2)] same)
  then have names: "map name_of (children_of m) = map name_of (children_of n)"
    using wf unfolding kids_wf_def by (intro strict_sorted_equal) auto
  show ?thesis
  proof (rule nth_equalityI)
    show len: "length (children_of m) = length (children_of n)" using arg_cong [OF names, of length] by simp
    fix i assume i: "i < length (children_of m)"
    let ?c = "children_of n ! i" and ?d = "children_of m ! i"
    have nm: "name_of ?d = name_of ?c" using names i len by (metis nth_map)
    have at: "lookup n (name_of ?c # p) = lookup ?c p" "lookup m (name_of ?d # p) = lookup ?d p" for p
      using child_at_in [OF kids_distinct [OF wf(1)], of ?c] child_at_in [OF kids_distinct [OF wf(2)], of ?d] i len
      by (simp_all add: lookup_Cons)
    have "lookup ?d = lookup ?c"
    proof
      show "lookup ?d p = lookup ?c p" for p by (simp only: at [symmetric] same nm)
    qed
    then show "?d = ?c" using ih [of ?c ?d] nm i len kids_nth [OF wf(1), of i] kids_nth [OF wf(2), of i] by simp
  qed
qed

text \<open>A well-formed trie is determined by the values at its paths.\<close>

lemma trie_ext:
  "\<lbrakk>node_wf key n; node_wf key m; is_root m = is_root n; name_of m = name_of n; lookup m = lookup n\<rbrakk> \<Longrightarrow> m = n"
proof (induction n arbitrary: m)
  case (Root cs)
  have "children_of m = children_of (Root cs)"
    by (rule trie_ext_kids [where key = key]) (use Root in \<open>auto simp: node_wf_kids\<close>)
  with Root.prems(3) show ?case by (cases m) auto
next
  case (Child nm cs vs)
  have "children_of m = children_of (Child nm cs vs)"
    by (rule trie_ext_kids [where key = key]) (use Child in \<open>auto simp: node_wf_kids\<close>)
  moreover have "values_of m = vs" using fun_cong [OF Child.prems(5), of "[]"] by simp
  ultimately show ?case using Child.prems(3,4) by (cases m) auto
qed

lemma node_at_wf: "\<lbrakk>node_wf key n; node_at n p = Some m\<rbrakk> \<Longrightarrow> node_wf key m"
proof (induction p arbitrary: n)
  case (Cons l p)
  then obtain c where c: "child_at (children_of n) l = Some c" "node_at c p = Some m"
    by (auto split: option.split_asm)
  have "kids_wf key (children_of n)" using Cons.prems(1) by (simp add: node_wf_kids)
  then have "node_wf key c" using child_at_Some [OF c(1)] by (simp add: kids_wf_def)
  with Cons.IH c(2) show ?case by blast
qed simp

lemma lookup_sorted: "node_wf key n \<Longrightarrow> sorted_wrt (<) (map key (lookup n p))"
  using node_at_wf [of key n p] by (auto simp: lookup_def node_wf_kids split: option.split)

section \<open>Subscribing and unsubscribing\<close>

text \<open>What the order and the equality of the values must have to do with each other.\<close>

locale keyed_values =
  fixes key :: "'v \<Rightarrow> 'k :: linorder" and eq :: "'v \<Rightarrow> 'v \<Rightarrow> bool"
  assumes eq_key: "eq x y \<Longrightarrow> key x = key y" and eq_refl: "eq x x"
begin

lemma del_ins:
  assumes "sorted_wrt (<) (map key vs)" and "key v \<notin> set (map key vs)"
  shows "del_values key eq v (ins_values key v vs) = vs"
proof (cases "vs = []")
  case True
  then show ?thesis by (simp add: ins_values_def del_values_def eq_refl)
next
  case False
  have so: "sorted (map key vs)" using assms(1) by (simp add: strict_sorted_imp_sorted)
  from assms(2) obtain i where i: "binary_search (key v) (map key vs) = Inl i" by (rule binary_search_absent)
  note b = binary_search_Inl [OF i so]
  have below: "\<forall>j<i. key (vs ! j) < key v" using b by (metis length_map nth_map order_less_le_trans)
  have ins: "ins_values key v vs = take i vs @ v # drop i vs"
    using filter_split_sorted [OF below] b assms(2) by (simp add: ins_values_def)
  have "\<forall>w\<in>set vs. key w \<noteq> key v" using assms(2) by (metis image_eqI set_map)
  then have "[w \<leftarrow> take i vs @ drop i vs. key w \<noteq> key v] = vs"
    unfolding append_take_drop_id by (simp add: filter_id_conv)
  then have "[w \<leftarrow> ins_values key v vs. key w \<noteq> key v] = vs" unfolding ins filter_append by simp
  moreover have "length (ins_values key v vs) = Suc (length vs)" unfolding ins by simp
  ultimately show ?thesis using False by (simp add: del_values_def)
qed

lemma del_others:
  assumes "w \<in> set vs" and "key w \<noteq> key v"
  shows "w \<in> set (del_values key eq v vs)"
  using assms eq_key [of w v] by (cases vs) (auto simp: del_values_def)

lemma del_present:
  assumes "sorted_wrt (<) (map key vs)" and "v \<in> set vs"
  shows "key v \<notin> set (map key (del_values key eq v vs))"
  using assms(2) eq_refl by (cases vs) (auto simp: del_values_def)

text \<open>Unsubscribing undoes subscribing, down to the nodes.\<close>

lemma sub_unsub:
  assumes "node_wf key n" and "is_root n" and "p \<noteq> []" and "key v \<notin> set (map key (lookup n p))"
    and "sub key n p v = Ok (n', first, repeat)"
  shows "unsub key eq n' p v = Ok (Some n, first, False) \<and> \<not> repeat"
proof -
  obtain n2 where n2: "sub key n p v = Ok (n2, lookup n p = [], key v \<in> set (map key (lookup n p)))"
    "node_wf key n2" "is_root n2 = is_root n"
    "\<And>q. lookup n2 q = (if q = p then ins_values key v (lookup n p) else lookup n q)"
    by (rule sub_Ok [OF assms(1), of p v]) (use assms(3) in auto)
  then have n': "n' = n2" "first \<longleftrightarrow> lookup n p = []" "\<not> repeat" using assms(4,5) by auto
  have ne: "values_of m \<noteq> []" if "node_at n2 p = Some m" for m
    using n2(4) [of p] that by (auto simp: lookup_def)
  have so: "sorted_wrt (<) (map key (lookup n p))" by (rule lookup_sorted [OF assms(1)])
  have del: "del_values key eq v (lookup n2 p) = lookup n p" using del_ins [OF so assms(4)] n2(4) [of p] by simp
  obtain r where r: "unsub key eq n2 p v = Ok (r, lookup n2 p \<noteq> [] \<and> del_values key eq v (lookup n2 p) = [],
      del_values key eq v (lookup n2 p) = lookup n2 p)" "is_root n2 \<longrightarrow> r \<noteq> None"
    "\<And>n'. r = Some n' \<Longrightarrow> node_wf key n' \<and> is_root n' = is_root n2 \<and> \<not> is_empty n'"
    "\<And>q. lookup_opt r q = (if q = p then del_values key eq v (lookup n2 p) else lookup n2 q)"
    by (rule unsub_Ok [OF n2(2) _ ne, where eq = eq and v = v]) (use n2(3) assms(2) in auto)
  from r(2) n2(3) assms(2) obtain m where m: "r = Some m" by auto
  have "lookup m = lookup n" using r(4) del n2(4) m by (auto simp: lookup_opt_def fun_eq_iff)
  moreover have "name_of m = name_of n" using r(3) [OF m] n2(3) assms(2) by (cases m; cases n) auto
  ultimately have "m = n" using trie_ext [OF assms(1), of m] r(3) [OF m] n2(3) by simp
  moreover have "v \<in> set (lookup n2 p)" "v \<notin> set (lookup n p)"
    using n2(4) [of p] assms(4) by (auto simp: ins_values_def)
  then have "lookup n p \<noteq> lookup n2 p" "lookup n2 p \<noteq> []" by auto
  ultimately show ?thesis using r(1) m n' del by simp
qed

end

interpretation subscription: keyed_values Subscription_key Subscription_eq
  by unfold_locales (simp_all add: Subscription_eq_key)

end
