(* ===== verification/Ttrie_Match.thy ===== *)
theory Ttrie_Match
  imports Ttrie
begin

text \<open>
  What \<open>match_topic\<close> of \<open>src/broker/ttrie.rs\<close> returns: the values of the paths in a trie that
  match, in the order of the trie. The rule by which the code matches is compared with the rule of
  the protocol for topic filters.
\<close>

section \<open>The paths of a trie\<close>

fun entries :: "'v Node \<Rightarrow> (rstring list \<times> 'v list) list" where
  "entries (Root cs) = ([], []) # concat (map (\<lambda>c. map (\<lambda>(p, vs). (name_of c # p, vs)) (entries c)) cs)"
| "entries (Child nm cs vs) = ([], vs) # concat (map (\<lambda>c. map (\<lambda>(p, vs). (name_of c # p, vs)) (entries c)) cs)"

definition select :: "(rstring list \<Rightarrow> bool) \<Rightarrow> 'v Node \<Rightarrow> 'v list" where
  "select P n = concat (map snd (filter (\<lambda>(p, _). P p) (entries n)))"

lemma entries_eq:
  "entries n = ([], values_of n) #
     concat (map (\<lambda>c. map (\<lambda>(p, vs). (name_of c # p, vs)) (entries c)) (children_of n))"
  by (cases n) simp_all

lemma select_step:
  "select P n = (if P [] then values_of n else []) @
     concat (map (\<lambda>c. select (\<lambda>p. P (name_of c # p)) c) (children_of n))"
proof -
  have "concat (map snd (filter (\<lambda>(p, _). P p) (map (\<lambda>(p, vs). (l # p, vs)) es))) =
      concat (map snd (filter (\<lambda>(p, _). P (l # p)) es))" for l and es :: "(rstring list \<times> 'a list) list"
    by (induction es) auto
  moreover have "concat (map snd (filter Q (concat (map h cs)))) = concat (map (\<lambda>c. concat (map snd (filter Q (h c)))) cs)"
    for Q and h :: "'a Node \<Rightarrow> (rstring list \<times> 'a list) list" and cs
    by (induction cs) simp_all
  ultimately show ?thesis
    unfolding select_def entries_eq [of n] by simp
qed

lemma select_none [simp]: "select (\<lambda>_. False) n = []"
  by (simp add: select_def case_prod_beta)

lemma select_here [simp]: "select (\<lambda>p. p = []) n = values_of n"
  by (subst select_step) simp

lemma entries_node_at:
  "node_wf key n \<Longrightarrow> (p, vs) \<in> set (entries n) \<longleftrightarrow> (\<exists>m. node_at n p = Some m \<and> vs = values_of m)"
proof (induction p arbitrary: n)
  case Nil
  then show ?case by (subst entries_eq) auto
next
  case (Cons l p)
  have wf: "kids_wf key (children_of n)" using Cons.prems by (simp add: node_wf_kids)
  have "(l # p, vs) \<in> set (entries n) \<longleftrightarrow> (\<exists>c\<in>set (children_of n). name_of c = l \<and> (p, vs) \<in> set (entries c))"
    by (subst entries_eq) auto
  also have "\<dots> \<longleftrightarrow> (\<exists>c\<in>set (children_of n). name_of c = l \<and> (\<exists>m. node_at c p = Some m \<and> vs = values_of m))"
    using Cons.IH wf by (simp add: kids_wf_def)
  also have "\<dots> \<longleftrightarrow> (\<exists>c. child_at (children_of n) l = Some c \<and> (\<exists>m. node_at c p = Some m \<and> vs = values_of m))"
    using child_at_in [OF kids_distinct [OF wf]] child_at_Some [of "children_of n" l] by blast
  finally show ?case by (auto split: option.split)
qed

lemma in_lookup: "v \<in> set (lookup n p) \<longleftrightarrow> (\<exists>m. node_at n p = Some m \<and> v \<in> set (values_of m))"
  by (cases "node_at n p") (simp_all add: lookup_def)

lemma set_select:
  assumes "node_wf key n"
  shows "v \<in> set (select P n) \<longleftrightarrow> (\<exists>p. P p \<and> v \<in> set (lookup n p))"
proof -
  have "v \<in> set (select P n) \<longleftrightarrow> (\<exists>p vs. (p, vs) \<in> set (entries n) \<and> P p \<and> v \<in> set vs)"
    by (auto simp: select_def)
  also have "\<dots> \<longleftrightarrow> (\<exists>p. P p \<and> v \<in> set (lookup n p))"
    unfolding entries_node_at [OF assms] in_lookup by blast
  finally show ?thesis .
qed

lemma finite_paths:
  assumes "node_wf key n"
  shows "finite {p. lookup n p \<noteq> []}"
proof (rule finite_subset)
  show "{p. lookup n p \<noteq> []} \<subseteq> fst ` set (entries n)"
  proof clarify
    fix p assume "lookup n p \<noteq> []"
    then obtain m where "node_at n p = Some m" by (auto simp: lookup_def split: option.split_asm)
    then have "(p, values_of m) \<in> set (entries n)" using entries_node_at [OF assms] by blast
    then show "p \<in> fst ` set (entries n)" by force
  qed
qed simp

section \<open>The rule of the code\<close>

text \<open>When a path of the trie matches the levels of a topic.\<close>

fun trie_match :: "rstring list \<Rightarrow> rstring list \<Rightarrow> bool" where
  "trie_match [] [] \<longleftrightarrow> True"
| "trie_match (f # fs) (t # ts) \<longleftrightarrow>
     (if t = hash_level \<or> f = hash_level then fs = []
      else if t = plus_level \<or> f = plus_level \<or> t = f then trie_match fs ts
      else False)"
| "trie_match _ _ \<longleftrightarrow> False"

lemma trie_match_Nil [simp]: "trie_match p [] \<longleftrightarrow> p = []"
  by (cases p) simp_all

text \<open>The level of the root at which the wildcards are left out when \<open>dollar\<close> is set.\<close>

definition root_ok :: "bool \<Rightarrow> 'v Node \<Rightarrow> rstring list \<Rightarrow> bool" where
  "root_ok dollar n p \<longleftrightarrow> \<not> (is_root n \<and> dollar \<and> p \<noteq> [] \<and> (hd p = hash_level \<or> hd p = plus_level))"

lemma match_topic_step:
  assumes "kids_wf key (children_of n)"
    and "\<And>c. c \<in> set (children_of n) \<Longrightarrow> match_topic c ts dollar = Ok (Some (select (\<lambda>p. trie_match p ts) c))"
  shows "match_topic n (t # ts) dollar =
    Ok (Some (concat (map (\<lambda>c. select (\<lambda>p. root_ok dollar n (name_of c # p) \<and> trie_match (name_of c # p) (t # ts)) c)
      (children_of n))))"
proof -
  have nr: "\<forall>c\<in>set (children_of n). \<not> is_root c" using assms(1) by (simp add: kids_wf_def)
  have each: "try_each f cs = Ok (map g cs)" if "\<And>c. c \<in> set cs \<Longrightarrow> f c = Ok (g c)"
    for f :: "'a Node \<Rightarrow> 'a list result" and g cs
    using that by (induction cs) simp_all
  have as: "as_name c = Ok (name_of c)" if "c \<in> set (children_of n)" for c
    using bspec [OF nr that] by (cases c) simp_all
  show ?thesis
    unfolding match_topic.simps
    by (subst each [where g = "\<lambda>c. select (\<lambda>p. root_ok dollar n (name_of c # p) \<and>
          trie_match (name_of c # p) (t # ts)) c"])
       (auto simp: as assms(2) root_ok_def match_level_def compare_level_def)
qed

lemma match_topic_child:
  assumes "node_wf key n" and "\<not> is_root n"
  shows "match_topic n ts dollar = Ok (Some (select (\<lambda>p. trie_match p ts) n))"
  using assms
proof (induction ts arbitrary: n)
  case Nil
  then show ?case by (cases n) simp_all
next
  case (Cons t ts)
  have wf: "kids_wf key (children_of n)" using Cons.prems(1) by (simp add: node_wf_kids)
  have "match_topic c ts dollar = Ok (Some (select (\<lambda>p. trie_match p ts) c))" if "c \<in> set (children_of n)" for c
    using Cons.IH [of c] wf that by (simp add: kids_wf_def)
  from match_topic_step [OF wf this] Cons.prems(2) show ?case
    by (simp add: root_ok_def select_step [of _ n])
qed

lemma match_topic_root:
  assumes "node_wf key n" and "is_root n" and "ts \<noteq> []"
  shows "match_topic n ts dollar = Ok (Some (select (\<lambda>p. root_ok dollar n p \<and> trie_match p ts) n))"
proof -
  from assms(3) obtain t ts' where ts: "ts = t # ts'" by (cases ts) auto
  have wf: "kids_wf key (children_of n)" using assms(1) by (simp add: node_wf_kids)
  have "match_topic c ts' dollar = Ok (Some (select (\<lambda>p. trie_match p ts') c))" if "c \<in> set (children_of n)" for c
    using match_topic_child [of key c] wf that by (simp add: kids_wf_def)
  from match_topic_step [OF wf this] ts show ?thesis
    by (simp add: select_step [of _ n])
qed

section \<open>The rule of the protocol\<close>

text \<open>Section 4.7 of the protocol, on levels: \<open>#\<close> matches its parent and everything below.\<close>

fun mqtt_match :: "rstring list \<Rightarrow> rstring list \<Rightarrow> bool" where
  "mqtt_match [] [] \<longleftrightarrow> True"
| "mqtt_match [] (t # ts) \<longleftrightarrow> False"
| "mqtt_match (f # fs) [] \<longleftrightarrow> f = hash_level \<and> fs = []"
| "mqtt_match (f # fs) (t # ts) \<longleftrightarrow>
     (if f = hash_level then fs = [] else (f = plus_level \<or> f = t) \<and> mqtt_match fs ts)"

text \<open>The rules differ in one point: a trailing \<open>#\<close> does not match its parent level.\<close>

lemma trie_match_mqtt:
  assumes "hash_level \<notin> set ts" and "plus_level \<notin> set ts"
  shows "trie_match fs ts \<longleftrightarrow> mqtt_match fs ts \<and> length fs \<le> length ts"
  using assms by (induction fs ts rule: mqtt_match.induct) auto

end
