(* ===== verification/Spinlock.thy ===== *)
theory Spinlock
  imports Prelude
begin

text \<open>
  Model of \<open>src/broker/spinlock.rs\<close>: the lock word under interleaving. A thread is a program
  counter; every atomic operation of \<open>read\<close>, \<open>write\<close> and the two guards is one step on the shared
  word, in sequential consistency as the code asks for. The counters of the \<open>debug\<close> feature are
  left out. The invariant ties the word to the program counters.
\<close>

unbundle bit_operations_syntax

section \<open>The lock word\<close>

definition LATCH_FLAG :: u32 where "LATCH_FLAG = 0x40000000"
definition LOCK_FLAG :: u32 where "LOCK_FLAG = 0x80000000"
definition LATCH_LOCK_FLAG :: u32 where "LATCH_LOCK_FLAG = 0xC0000000"
definition READERS_FLAG :: u32 where "READERS_FLAG = 0x3FFFFFFF"

text \<open>
  Where a thread is: outside, in the loop of \<open>read\<close> before and after its load, holding a
  \<open>ReadGuard\<close>, in the two loops of \<open>write\<close>, holding a \<open>WriteGuard\<close>, between the load and the
  exchange of its \<open>drop\<close>, or after a panic.
\<close>

datatype pc =
    Idle
  | ReadTop | ReadGot u32 | Reading
  | LatchTop | LatchGot u32 | LockTop | LockGot u32 | Writing
  | DropGot u32
  | Panicked

text \<open>\<open>AtomicU32::compare_exchange\<close>: the new word and whether it was exchanged.\<close>

definition compare_exchange :: "u32 \<Rightarrow> u32 \<Rightarrow> u32 \<Rightarrow> u32 \<times> bool" where
  "compare_exchange word old new = (if word = old then (new, True) else (word, False))"

definition read_load :: "u32 \<Rightarrow> pc" where
  "read_load word = ReadGot word"

definition read_exchange :: "u32 \<Rightarrow> u32 \<Rightarrow> u32 \<times> pc" where
  "read_exchange word old =
     (if old AND LATCH_LOCK_FLAG = 0
      then case compare_exchange word old (old + 1) of
             (word, True) \<Rightarrow> (word, Reading)
           | (word, False) \<Rightarrow> (word, ReadTop)
      else (word, ReadTop))"

definition ReadGuard_drop :: "u32 \<Rightarrow> u32 \<times> pc" where
  "ReadGuard_drop word = (word - 1, Idle)"

definition latch_exchange :: "u32 \<Rightarrow> u32 \<Rightarrow> u32 \<times> pc" where
  "latch_exchange word old =
     (if old AND LATCH_FLAG = 0
      then if old AND LOCK_FLAG \<noteq> 0 then (word, Panicked)
           else case compare_exchange word old (old OR LATCH_FLAG) of
                  (word, True) \<Rightarrow> (word, LockTop)
                | (word, False) \<Rightarrow> (word, LatchTop)
      else (word, LatchTop))"

definition lock_exchange :: "u32 \<Rightarrow> u32 \<Rightarrow> u32 \<times> pc" where
  "lock_exchange word old =
     (if old AND READERS_FLAG = 0
      then case compare_exchange word old (old OR LOCK_FLAG) of
             (word, True) \<Rightarrow> (word, Writing)
           | (word, False) \<Rightarrow> (word, Panicked)
      else (word, LockTop))"

definition WriteGuard_drop :: "u32 \<Rightarrow> u32 \<Rightarrow> u32 \<times> pc" where
  "WriteGuard_drop word old =
     (if old AND READERS_FLAG > 0 then (word, Panicked)
      else case compare_exchange word old 0 of
             (word, True) \<Rightarrow> (word, Idle)
           | (word, False) \<Rightarrow> (word, Panicked))"

text \<open>One atomic operation of a thread.\<close>

inductive thread_step :: "u32 \<Rightarrow> pc \<Rightarrow> u32 \<Rightarrow> pc \<Rightarrow> bool" where
  read_call: "thread_step w Idle w ReadTop"
| read_load: "thread_step w ReadTop w (read_load w)"
| read_cas: "read_exchange w old = (w', p') \<Longrightarrow> thread_step w (ReadGot old) w' p'"
| read_drop: "ReadGuard_drop w = (w', p') \<Longrightarrow> thread_step w Reading w' p'"
| write_call: "thread_step w Idle w LatchTop"
| latch_load: "thread_step w LatchTop w (LatchGot w)"
| latch_cas: "latch_exchange w old = (w', p') \<Longrightarrow> thread_step w (LatchGot old) w' p'"
| lock_load: "thread_step w LockTop w (LockGot w)"
| lock_cas: "lock_exchange w old = (w', p') \<Longrightarrow> thread_step w (LockGot old) w' p'"
| drop_load: "thread_step w Writing w (DropGot w)"
| drop_cas: "WriteGuard_drop w old = (w', p') \<Longrightarrow> thread_step w (DropGot old) w' p'"

inductive_cases thread_stepE: "thread_step w p w' p'"

type_synonym lock_state = "u32 \<times> (nat \<Rightarrow> pc)"

text \<open>The threads are numbered below \<open>n\<close>; any of them may be next.\<close>

inductive lock_step :: "nat \<Rightarrow> lock_state \<Rightarrow> lock_state \<Rightarrow> bool" for n where
  step: "\<lbrakk>t < n; thread_step w (pcs t) w' p'\<rbrakk> \<Longrightarrow> lock_step n (w, pcs) (w', pcs(t := p'))"

inductive_cases lock_stepE: "lock_step n (w, pcs) s'"

definition lock_new :: lock_state where
  "lock_new = (0, \<lambda>_. Idle)"

inductive lock_reach :: "nat \<Rightarrow> lock_state \<Rightarrow> bool" for n where
  start: "lock_reach n lock_new"
| more: "\<lbrakk>lock_reach n s; lock_step n s s'\<rbrakk> \<Longrightarrow> lock_reach n s'"

section \<open>The layout of the word\<close>

definition encode_word :: "nat \<Rightarrow> bool \<Rightarrow> bool \<Rightarrow> u32" where
  "encode_word r latch lock = word_of_nat (r + 2 ^ 30 * (of_bool latch + 2 * of_bool lock))"

lemma unat_u32: "n < 2 ^ 32 \<Longrightarrow> unat (word_of_nat n :: u32) = n"
  by (simp add: unsigned_of_nat take_bit_nat_eq_self)

lemma unat_encode:
  assumes "r < 2 ^ 30"
  shows "unat (encode_word r latch lock) = r + 2 ^ 30 * (of_bool latch + 2 * of_bool lock)"
proof -
  have "r + 2 ^ 30 * (of_bool latch + 2 * of_bool lock) < 2 ^ 32"
    using assms by (cases latch; cases lock) simp_all
  then show ?thesis unfolding encode_word_def by (rule unat_u32)
qed

lemma bit_u32_unat: "k < 32 \<Longrightarrow> bit (w :: u32) k \<longleftrightarrow> odd (unat w div 2 ^ k)"
  using bit_unsigned_iff [where ?'a = nat, of w k] by (simp add: bit_iff_odd)

lemma encode_high:
  assumes "r < 2 ^ 30"
  shows "unat (encode_word r latch lock) div 2 ^ 30 = of_bool latch + 2 * of_bool lock"
  unfolding unat_encode [OF assms] using assms by (subst div_mult_self2) simp_all

lemma encode_latch:
  assumes "r < 2 ^ 30"
  shows "encode_word r latch lock AND LATCH_FLAG = 0 \<longleftrightarrow> \<not> latch"
proof -
  have "bit (encode_word r latch lock) 30 \<longleftrightarrow> latch"
    by (subst bit_u32_unat) (simp_all only: encode_high [OF assms], simp_all)
  then show ?thesis using and_exp_eq_0_iff_not_bit [of "encode_word r latch lock" 30] by (simp add: LATCH_FLAG_def)
qed

lemma encode_lock:
  assumes "r < 2 ^ 30"
  shows "encode_word r latch lock AND LOCK_FLAG = 0 \<longleftrightarrow> \<not> lock"
proof -
  have "unat (encode_word r latch lock) div 2 ^ 31 = unat (encode_word r latch lock) div 2 ^ 30 div 2"
    by (simp flip: div_mult2_eq)
  also have "\<dots> = of_bool lock" unfolding encode_high [OF assms] by simp
  finally have "bit (encode_word r latch lock) 31 \<longleftrightarrow> lock"
    by (subst bit_u32_unat) (simp_all del: power_numeral)
  then show ?thesis using and_exp_eq_0_iff_not_bit [of "encode_word r latch lock" 31] by (simp add: LOCK_FLAG_def)
qed

lemma encode_readers:
  assumes "r < 2 ^ 30"
  shows "encode_word r latch lock AND READERS_FLAG = 0 \<longleftrightarrow> r = 0"
proof -
  let ?w = "encode_word r latch lock"
  have "READERS_FLAG = mask 30" by (simp add: READERS_FLAG_def mask_eq_exp_minus_1)
  then have "unat (?w AND READERS_FLAG) = unat (take_bit 30 ?w)" by (simp only: take_bit_eq_mask)
  also have "\<dots> = unat ?w mod 2 ^ 30" by (simp only: unsigned_take_bit_eq) (simp only: take_bit_eq_mod)
  also have "\<dots> = r" unfolding unat_encode [OF assms] mod_mult_self2 using assms by (rule mod_less)
  finally show ?thesis by (metis unat_eq_zero)
qed

lemma encode_latch_lock:
  assumes "r < 2 ^ 30"
  shows "encode_word r latch lock AND LATCH_LOCK_FLAG = 0 \<longleftrightarrow> \<not> latch \<and> \<not> lock"
proof -
  have flags: "LATCH_LOCK_FLAG = LATCH_FLAG OR LOCK_FLAG"
    by (simp add: LATCH_LOCK_FLAG_def LATCH_FLAG_def LOCK_FLAG_def)
  show ?thesis
    unfolding flags bit.conj_disj_distrib or_eq_0_iff encode_latch [OF assms] encode_lock [OF assms] ..
qed

lemma encode_or_latch:
  assumes "r < 2 ^ 30"
  shows "encode_word r False lock OR LATCH_FLAG = encode_word r True lock"
proof -
  have "encode_word r False lock OR LATCH_FLAG = encode_word r False lock + LATCH_FLAG"
    using encode_latch [OF assms, of False lock] by (simp add: disjunctive_add_eq_or)
  then show ?thesis by (simp add: encode_word_def LATCH_FLAG_def)
qed

lemma encode_or_lock:
  assumes "r < 2 ^ 30"
  shows "encode_word r latch False OR LOCK_FLAG = encode_word r latch True"
proof -
  have "encode_word r latch False OR LOCK_FLAG = encode_word r latch False + LOCK_FLAG"
    using encode_lock [OF assms, of latch False] by (simp add: disjunctive_add_eq_or)
  then show ?thesis by (simp add: encode_word_def LOCK_FLAG_def)
qed

lemma encode_plus: "encode_word r latch lock + 1 = encode_word (Suc r) latch lock"
  by (simp add: encode_word_def)

lemma encode_minus: "encode_word (Suc r) latch lock - 1 = encode_word r latch lock"
  by (simp add: encode_word_def)

lemma encode_zero: "encode_word 0 False False = 0"
  by (simp add: encode_word_def)

section \<open>The invariant\<close>

fun latched :: "pc \<Rightarrow> bool" where
  "latched LockTop \<longleftrightarrow> True"
| "latched (LockGot _) \<longleftrightarrow> True"
| "latched Writing \<longleftrightarrow> True"
| "latched (DropGot _) \<longleftrightarrow> True"
| "latched _ \<longleftrightarrow> False"

fun locked :: "pc \<Rightarrow> bool" where
  "locked Writing \<longleftrightarrow> True"
| "locked (DropGot _) \<longleftrightarrow> True"
| "locked _ \<longleftrightarrow> False"

definition readers :: "(nat \<Rightarrow> pc) \<Rightarrow> nat set" where
  "readers pcs = {t. pcs t = Reading}"

text \<open>What a thread remembers of the word between its load and its exchange.\<close>

fun remembers :: "u32 \<Rightarrow> nat set \<Rightarrow> pc \<Rightarrow> bool" where
  "remembers w rs (DropGot old) \<longleftrightarrow> old = w"
| "remembers w rs (LockGot old) \<longleftrightarrow> (old AND READERS_FLAG = 0 \<longrightarrow> old = w \<and> rs = {})"
| "remembers w rs (LatchGot old) \<longleftrightarrow> (old AND LATCH_FLAG = 0 \<longrightarrow> old AND LOCK_FLAG = 0)"
| "remembers w rs Panicked \<longleftrightarrow> False"
| "remembers w rs _ \<longleftrightarrow> True"

definition lock_inv :: "nat \<Rightarrow> lock_state \<Rightarrow> bool" where
  "lock_inv n s = (case s of (w, pcs) \<Rightarrow>
     (\<forall>t\<ge>n. pcs t = Idle) \<and>
     w = encode_word (card (readers pcs)) (\<exists>t. latched (pcs t)) (\<exists>t. locked (pcs t)) \<and>
     (\<forall>t u. latched (pcs t) \<and> latched (pcs u) \<longrightarrow> t = u) \<and>
     (\<forall>t. locked (pcs t) \<longrightarrow> readers pcs = {}) \<and>
     (\<forall>t. remembers w (readers pcs) (pcs t)))"

lemma lock_invI:
  assumes "\<And>t. n \<le> t \<Longrightarrow> pcs t = Idle" and "w = encode_word (card (readers pcs)) L K"
    and "L \<longleftrightarrow> (\<exists>t. latched (pcs t))" and "K \<longleftrightarrow> (\<exists>t. locked (pcs t))"
    and "\<And>t u. \<lbrakk>latched (pcs t); latched (pcs u)\<rbrakk> \<Longrightarrow> t = u" and "\<And>t. locked (pcs t) \<Longrightarrow> readers pcs = {}"
    and "\<And>t. remembers w (readers pcs) (pcs t)"
  shows "lock_inv n (w, pcs)"
  unfolding lock_inv_def prod.case using assms by blast

lemma readers_bound:
  assumes "\<forall>t\<ge>n. pcs t = Idle"
  shows "finite (readers pcs)" and "card (readers pcs) \<le> n" and "\<lbrakk>t < n; pcs t \<noteq> Reading\<rbrakk> \<Longrightarrow> Suc (card (readers pcs)) \<le> n"
proof -
  have sub: "readers pcs \<subseteq> {..<n}" using assms by (force simp: readers_def not_le [symmetric])
  then show "finite (readers pcs)" by (rule finite_subset) simp
  show "card (readers pcs) \<le> n" using card_mono [OF _ sub] by simp
  assume "t < n" "pcs t \<noteq> Reading"
  with sub have "readers pcs \<subset> {..<n}" by (auto simp: readers_def)
  from psubset_card_mono [OF _ this] show "Suc (card (readers pcs)) \<le> n" by simp
qed

lemma locked_latched: "locked p \<Longrightarrow> latched p"
  by (cases p) simp_all

text \<open>Only a thread that has the latch remembers anything that matters.\<close>

lemma remembers_free: "\<lbrakk>remembers w rs p; \<not> latched p\<rbrakk> \<Longrightarrow> remembers w' rs' p"
  by (cases p) simp_all

lemma readers_update:
  "readers (pcs(t := p)) = (if p = Reading then insert t (readers pcs) else readers pcs - {t})"
  by (auto simp: readers_def)

text \<open>Steps that leave the word and the role of the thread alone.\<close>

lemma inv_same:
  assumes "lock_inv n (w, pcs)" and "t < n" and "latched p = latched (pcs t)" and "locked p = locked (pcs t)"
    and "p = Reading \<longleftrightarrow> pcs t = Reading" and "remembers w (readers pcs) p"
  shows "lock_inv n (w, pcs(t := p))"
proof -
  have r: "readers (pcs(t := p)) = readers pcs" using assms(5) by (auto simp: readers_def)
  have "latched ((pcs(t := p)) u) = latched (pcs u)" "locked ((pcs(t := p)) u) = locked (pcs u)" for u
    using assms(3,4) by simp_all
  then show ?thesis using assms(1,2,6) unfolding lock_inv_def prod.case r by auto
qed

text \<open>Steps that change the role of the thread.\<close>

lemma inv_enter_read:
  assumes inv: "lock_inv n (w, pcs)" and t: "t < n" "pcs t = ReadGot w" and free: "w AND LATCH_LOCK_FLAG = 0"
    and n: "n < 2 ^ 30"
  shows "lock_inv n (w + 1, pcs(t := Reading))"
proof -
  note i = inv [unfolded lock_inv_def prod.case]
  have rem: "remembers w (readers pcs) (pcs u)" for u using i by blast
  have b: "finite (readers pcs)" "card (readers pcs) < 2 ^ 30" "t \<notin> readers pcs"
    using readers_bound [of n pcs] i n t(2) by (auto simp: readers_def)
  from free i encode_latch_lock [OF b(2)] have no: "\<forall>u. \<not> latched (pcs u)" "\<forall>u. \<not> locked (pcs u)" by auto
  then have "\<forall>u. \<not> latched ((pcs(t := Reading)) u)" "\<forall>u. \<not> locked ((pcs(t := Reading)) u)" by auto
  moreover have "remembers (w + 1) (readers (pcs(t := Reading))) ((pcs(t := Reading)) u)" for u
    using remembers_free [OF rem] no(1) by simp
  moreover have "card (readers (pcs(t := Reading))) = Suc (card (readers pcs))"
    using b by (simp add: readers_update)
  moreover have "w = encode_word (card (readers pcs)) False False" using i no by simp
  ultimately show ?thesis unfolding lock_inv_def prod.case using i t(1) by (auto simp: encode_plus)
qed

lemma inv_leave_read:
  assumes inv: "lock_inv n (w, pcs)" and t: "t < n" "pcs t = Reading" and n: "n < 2 ^ 30"
  shows "lock_inv n (w - 1, pcs(t := Idle))"
proof -
  note i = inv [unfolded lock_inv_def prod.case]
  have rem: "remembers w (readers pcs) (pcs u)" for u using i by blast
  have b: "finite (readers pcs)" "t \<in> readers pcs" using readers_bound [of n pcs] i t(2) by (auto simp: readers_def)
  have nl: "\<forall>u. \<not> locked (pcs u)" using i b(2) by auto
  have l: "latched ((pcs(t := Idle)) u) = latched (pcs u)" "locked ((pcs(t := Idle)) u) = locked (pcs u)" for u
    using t(2) by auto
  have c: "card (readers pcs) = Suc (card (readers (pcs(t := Idle))))"
    using card.remove [OF b] by (simp add: readers_update)
  have "remembers (w - 1) (readers (pcs(t := Idle))) ((pcs(t := Idle)) u)" for u
    using rem [of u] b(2) spec [OF nl, of u] by (cases "pcs u") auto
  moreover have "w - 1 = encode_word (card (readers (pcs(t := Idle)))) (\<exists>u. latched (pcs u)) (\<exists>u. locked (pcs u))"
    using i unfolding c by (simp only: encode_minus)
  ultimately show ?thesis unfolding lock_inv_def prod.case l using i t(1) nl by auto
qed

lemma inv_latch:
  assumes inv: "lock_inv n (w, pcs)" and t: "t < n" "pcs t = LatchGot w" and free: "w AND LATCH_FLAG = 0"
    and n: "n < 2 ^ 30"
  shows "lock_inv n (w OR LATCH_FLAG, pcs(t := LockTop))"
proof -
  note i = inv [unfolded lock_inv_def prod.case]
  have rem: "remembers w (readers pcs) (pcs u)" for u using i by blast
  have b: "card (readers pcs) < 2 ^ 30" using readers_bound [of n pcs] i n by auto
  from free i encode_latch [OF b] have no: "\<forall>u. \<not> latched (pcs u)" by auto
  then have nl: "\<forall>u. \<not> locked (pcs u)" using locked_latched by blast
  have rd: "readers (pcs(t := LockTop)) = readers pcs" using t(2) by (auto simp: readers_def)
  show ?thesis
  proof (rule lock_invI [where L = True and K = False])
    show "remembers (w OR LATCH_FLAG) (readers (pcs(t := LockTop))) ((pcs(t := LockTop)) u)" for u
      using remembers_free [OF rem] no by simp
    show "w OR LATCH_FLAG = encode_word (card (readers (pcs(t := LockTop)))) True False"
      using i no nl encode_or_latch [OF b, of False] by (simp add: rd)
    show "True \<longleftrightarrow> (\<exists>u. latched ((pcs(t := LockTop)) u))" by (auto intro: exI [of _ t])
    show "(pcs(t := LockTop)) u = Idle" if "n \<le> u" for u using i t(1) that by auto
  qed (use no nl in \<open>auto split: if_split_asm\<close>)
qed

lemma inv_lock:
  assumes inv: "lock_inv n (w, pcs)" and t: "t < n" "pcs t = LockGot w" and free: "readers pcs = {}"
  shows "lock_inv n (w OR LOCK_FLAG, pcs(t := Writing))"
proof -
  note i = inv [unfolded lock_inv_def prod.case]
  have rem: "remembers w (readers pcs) (pcs u)" for u using i by blast
  have only: "latched (pcs u) \<longleftrightarrow> u = t" for u using i t(2) by auto
  have nl: "\<forall>u. \<not> locked (pcs u)"
  proof
    show "\<not> locked (pcs u)" for u using only [of u] t(2) locked_latched [of "pcs u"] by (cases "u = t") auto
  qed
  have rd: "readers (pcs(t := Writing)) = readers pcs" using t(2) by (auto simp: readers_def)
  have la: "latched ((pcs(t := Writing)) u) \<longleftrightarrow> u = t" "locked ((pcs(t := Writing)) u) \<longleftrightarrow> u = t" for u
    using only nl by auto
  have "remembers (w OR LOCK_FLAG) (readers pcs) ((pcs(t := Writing)) u)" for u
    using remembers_free [OF rem] only [of u] by (cases "u = t") simp_all
  moreover have "w OR LOCK_FLAG = encode_word 0 True True"
    using i only nl free encode_or_lock [of 0 True] by simp
  ultimately show ?thesis unfolding lock_inv_def prod.case rd la using i t(1) free by auto
qed

lemma inv_unlock:
  assumes inv: "lock_inv n (w, pcs)" and t: "t < n" "pcs t = DropGot w"
  shows "lock_inv n (0, pcs(t := Idle))"
proof -
  note i = inv [unfolded lock_inv_def prod.case]
  have rem: "remembers w (readers pcs) (pcs u)" for u using i by blast
  have only: "latched (pcs u) \<longleftrightarrow> u = t" for u using i t(2) by auto
  have free: "readers pcs = {}" using i t(2) by (metis locked.simps(2))
  have rd: "readers (pcs(t := Idle)) = {}" using free by (auto simp: readers_def)
  have "\<not> latched ((pcs(t := Idle)) u)" for u using only by simp
  moreover from this have "\<not> locked ((pcs(t := Idle)) u)" for u
    using locked_latched by blast
  moreover have "remembers 0 {} ((pcs(t := Idle)) u)" for u
    using remembers_free [OF rem] only [of u] by (cases "u = t") simp_all
  ultimately show ?thesis unfolding lock_inv_def prod.case rd using i t(1) by (auto simp: encode_zero)
qed

text \<open>Every step of every thread keeps the invariant.\<close>

lemma inv_word_latch:
  assumes "lock_inv n (w, pcs)" and "n < 2 ^ 30" and "w AND LATCH_FLAG = 0"
  shows "w AND LOCK_FLAG = 0"
proof -
  note i = assms(1) [unfolded lock_inv_def prod.case]
  have r: "card (readers pcs) < 2 ^ 30" using readers_bound [of n pcs] i assms(2) by auto
  have "\<not> (\<exists>t. latched (pcs t))" using assms(3) i encode_latch [OF r] by auto
  then have "\<not> (\<exists>t. locked (pcs t))" using locked_latched by blast
  then show ?thesis using i encode_lock [OF r] by auto
qed

lemma inv_word_readers:
  assumes "lock_inv n (w, pcs)" and "n < 2 ^ 30" and "w AND READERS_FLAG = 0"
  shows "readers pcs = {}"
proof -
  note i = assms(1) [unfolded lock_inv_def prod.case]
  have r: "finite (readers pcs)" "card (readers pcs) < 2 ^ 30" using readers_bound [of n pcs] i assms(2) by auto
  have "card (readers pcs) = 0" using assms(3) i encode_readers [OF r(2)] by auto
  with r(1) show ?thesis by simp
qed

lemma lock_inv_step:
  assumes "lock_inv n s" and "lock_step n s s'" and n: "n < 2 ^ 30"
  shows "lock_inv n s'"
proof -
  obtain w pcs where s: "s = (w, pcs)" by (cases s)
  from assms(2) [unfolded s] obtain t w' p' where t: "t < n" and st: "thread_step w (pcs t) w' p'"
    and s': "s' = (w', pcs(t := p'))" by (auto elim: lock_stepE)
  note inv = assms(1) [unfolded s]
  have rem: "remembers w (readers pcs) (pcs t)" and quiet: "locked (pcs t) \<Longrightarrow> readers pcs = {}"
    using inv unfolding lock_inv_def by auto
  note same = inv_same [OF inv t] and word = compare_exchange_def
  have drop_word: "w AND READERS_FLAG = 0" if "locked (pcs t)"
  proof -
    have "w = encode_word 0 (\<exists>t. latched (pcs t)) (\<exists>t. locked (pcs t))"
      using inv quiet [OF that] unfolding lock_inv_def by simp
    then show ?thesis using encode_readers [of 0] by simp
  qed
  have "lock_inv n (w', pcs(t := p'))"
    using st
  proof (cases rule: thread_step.cases)
    case (read_cas old)
    then show ?thesis
      using inv_enter_read [OF inv t _ _ n] same [of ReadTop]
      by (auto simp: read_exchange_def word split: if_split_asm)
  next
    case read_drop
    then show ?thesis using inv_leave_read [OF inv t _ n] by (simp add: ReadGuard_drop_def)
  next
    case latch_load
    then show ?thesis using inv_word_latch [OF inv n] by (auto intro!: same)
  next
    case (latch_cas old)
    then show ?thesis
      using rem inv_latch [OF inv t _ _ n] same [of LatchTop]
      by (auto simp: latch_exchange_def word split: if_split_asm)
  next
    case lock_load
    then show ?thesis using inv_word_readers [OF inv n] by (auto intro!: same)
  next
    case (lock_cas old)
    then show ?thesis
      using rem inv_lock [OF inv t] same [of LockTop]
      by (auto simp: lock_exchange_def word split: if_split_asm)
  next
    case (drop_cas old)
    then show ?thesis
      using rem inv_unlock [OF inv t] drop_word by (auto simp: WriteGuard_drop_def word split: if_split_asm)
  qed (auto intro!: same simp: read_load_def)
  then show ?thesis by (simp only: s')
qed

lemma lock_inv_new: "lock_inv n lock_new"
  unfolding lock_new_def by (rule lock_invI [where L = False and K = False]) (simp_all add: readers_def encode_zero)

lemma lock_reach_inv: "\<lbrakk>lock_reach n s; n < 2 ^ 30\<rbrakk> \<Longrightarrow> lock_inv n s"
  by (induction rule: lock_reach.induct) (auto intro: lock_inv_new lock_inv_step)

section \<open>Every thread can finish\<close>

text \<open>The steps of one thread alone.\<close>

inductive thread_run :: "u32 \<Rightarrow> pc \<Rightarrow> u32 \<Rightarrow> pc \<Rightarrow> bool" where
  stop: "thread_run w p w p"
| go: "\<lbrakk>thread_step w p w1 p1; thread_run w1 p1 w2 p2\<rbrakk> \<Longrightarrow> thread_run w p w2 p2"

lemma thread_run_lift:
  assumes "thread_run w p w' p'" and "t < n"
  shows "pcs t = p \<Longrightarrow> (lock_step n)\<^sup>*\<^sup>* (w, pcs) (w', pcs(t := p'))"
  using assms(1)
proof (induction arbitrary: pcs rule: thread_run.induct)
  case (stop w p)
  then show ?case by (simp add: fun_upd_idem)
next
  case (go w p w1 p1 w2 p2)
  have same: "(pcs(t := p1)) t = p1" and upd: "pcs(t := p1, t := p2) = pcs(t := p2)" by simp_all
  have "lock_step n (w, pcs) (w1, pcs(t := p1))"
    by (rule lock_step.step [OF assms(2)]) (use go in simp)
  moreover have "(lock_step n)\<^sup>*\<^sup>* (w1, pcs(t := p1)) (w2, pcs(t := p2))" 
    using go.IH [of "pcs(t := p1)", OF same] unfolding upd .
  ultimately show ?case by (rule converse_rtranclp_into_rtranclp)
qed

lemma run_drop: "w AND READERS_FLAG = 0 \<Longrightarrow> thread_run w (DropGot w) 0 Idle"
  by (rule thread_run.go [OF drop_cas thread_run.stop]) (simp add: WriteGuard_drop_def compare_exchange_def)

lemma run_write: "w AND READERS_FLAG = 0 \<Longrightarrow> thread_run w Writing 0 Idle"
  by (rule thread_run.go [OF drop_load run_drop])

lemma run_lock:
  assumes "w = encode_word 0 True False"
  shows "thread_run w (LockGot w) 0 Idle"
proof (rule thread_run.go [OF lock_cas run_write])
  show "lock_exchange w w = (w OR LOCK_FLAG, Writing)"
    using assms encode_readers [of 0 True False] by (simp add: lock_exchange_def compare_exchange_def)
  show "(w OR LOCK_FLAG) AND READERS_FLAG = 0"
    using assms encode_or_lock [of 0 True] encode_readers [of 0 True True] by simp
qed

lemma run_lock_top: "w = encode_word 0 True False \<Longrightarrow> thread_run w LockTop 0 Idle"
  by (rule thread_run.go [OF lock_load run_lock])

lemma run_latch_got: "thread_run 0 (LatchGot 0) 0 Idle"
proof (rule thread_run.go [OF latch_cas run_lock_top])
  show "latch_exchange 0 0 = (LATCH_FLAG, LockTop)" by (simp add: latch_exchange_def compare_exchange_def)
  show "LATCH_FLAG = encode_word 0 True False" by (simp add: encode_word_def LATCH_FLAG_def)
qed

lemma run_latch_top: "thread_run 0 LatchTop 0 Idle"
  by (rule thread_run.go [OF latch_load run_latch_got])

lemma run_read_got: "thread_run 0 (ReadGot 0) 0 Idle"
proof (rule thread_run.go [OF read_cas thread_run.go [OF read_drop thread_run.stop]])
  show "read_exchange 0 0 = (1, Reading)" by (simp add: read_exchange_def compare_exchange_def)
  show "ReadGuard_drop 1 = (0, Idle)" by (simp add: ReadGuard_drop_def)
qed

lemma run_read_top: "thread_run 0 ReadTop 0 Idle"
  using thread_run.go [OF thread_step.read_load] run_read_got by (simp add: Spinlock.read_load_def)

text \<open>Whatever the state, some thread can run to its end on its own.\<close>

lemma some_thread_finishes:
  assumes inv: "lock_inv n (w, pcs)" and n: "n < 2 ^ 30" and busy: "pcs t \<noteq> Idle"
  obtains u w' where "pcs u \<noteq> Idle" and "u < n" and "thread_run w (pcs u) w' Idle"
proof -
  note i = inv [unfolded lock_inv_def prod.case]
  have word: "w = encode_word (card (readers pcs)) (\<exists>v. latched (pcs v)) (\<exists>v. locked (pcs v))" using i by blast
  have in_n: "u < n" if "pcs u \<noteq> Idle" for u using i that by (meson not_le)
  have rem: "remembers w (readers pcs) (pcs u)" for u using i by blast
  consider (locked) u where "locked (pcs u)" | (reading) u where "pcs u = Reading"
    | (latched) u where "latched (pcs u)" "\<forall>v. \<not> locked (pcs v)" "readers pcs = {}"
    | (free) "\<forall>v. \<not> latched (pcs v)" "\<forall>v. \<not> locked (pcs v)" "readers pcs = {}"
    by (cases "\<exists>u. locked (pcs u)"; cases "\<exists>u. pcs u = Reading"; cases "\<exists>u. latched (pcs u)")
       (auto simp: readers_def)
  then show thesis
  proof cases
    case locked
    then have "readers pcs = {}" using i by blast
    then have "w AND READERS_FLAG = 0" using i encode_readers [of 0] by simp
    with rem [of u] locked have "thread_run w (pcs u) 0 Idle" by (cases "pcs u") (auto intro: run_drop run_write)
    moreover have "pcs u \<noteq> Idle" using locked by auto
    ultimately show thesis using in_n that by blast
  next
    case reading
    have "thread_run w (pcs u) (w - 1) Idle"
      unfolding reading by (rule thread_run.go [OF read_drop thread_run.stop]) (simp add: ReadGuard_drop_def)
    then show thesis using in_n [of u] reading that [of u "w - 1"] by simp
  next
    case latched
    have "(\<exists>v. latched (pcs v)) = True" "(\<exists>v. locked (pcs v)) = False" using latched by blast+
    with word latched(3) have w: "w = encode_word 0 True False" by simp
    have "thread_run w (pcs u) 0 Idle"
    proof (cases "pcs u")
      case (LockGot old)
      show ?thesis
      proof (cases "old AND READERS_FLAG = 0")
        case True
        then show ?thesis using rem [of u] LockGot run_lock [OF w] by simp
      next
        case False
        then show ?thesis unfolding LockGot
          by (intro thread_run.go [OF lock_cas run_lock_top [OF w]]) (simp add: lock_exchange_def)
      qed
    qed (use latched(1) spec [OF latched(2), of u] run_lock_top [OF w] in auto)
    moreover have "pcs u \<noteq> Idle" using latched(1) by auto
    ultimately show thesis using in_n that by blast
  next
    case free
    with word have w: "w = 0" by (simp add: encode_zero)
    have "thread_run w (pcs t) 0 Idle"
    proof (cases "pcs t")
      case (ReadGot old)
      then show ?thesis
        using w run_read_got thread_run.go [OF read_cas run_read_top, of 0 old]
        by (cases "old = 0") (auto simp: read_exchange_def compare_exchange_def)
    next
      case (LatchGot old)
      then show ?thesis
        using w rem [of t] run_latch_got thread_run.go [OF latch_cas run_latch_top, of 0 old]
        by (cases "old = 0") (auto simp: latch_exchange_def compare_exchange_def)
    qed (use spec [OF free(1), of t] free(3) busy rem [of t] w run_read_top run_latch_top in \<open>auto simp: readers_def\<close>)
    then show thesis using in_n [OF busy] busy that by blast
  qed
qed

text \<open>So no state is a deadlock: the threads can always bring the lock back to its start.\<close>

lemma lock_can_reset:
  assumes "lock_inv n (w, pcs)" and "n < 2 ^ 30"
  shows "(lock_step n)\<^sup>*\<^sup>* (w, pcs) lock_new"
  using assms
proof (induction "card {t. pcs t \<noteq> Idle}" arbitrary: w pcs rule: less_induct)
  case less
  note i = less.prems(1) [unfolded lock_inv_def prod.case]
  show ?case
  proof (cases "\<exists>t. pcs t \<noteq> Idle")
    case False
    then have "pcs = (\<lambda>_. Idle)" by auto
    with i have "w = 0" by (simp add: readers_def encode_zero)
    with \<open>pcs = _\<close> show ?thesis by (simp add: lock_new_def)
  next
    case True
    then obtain t where "pcs t \<noteq> Idle" ..
    then obtain u w' where u: "pcs u \<noteq> Idle" "u < n" "thread_run w (pcs u) w' Idle"
      by (rule some_thread_finishes [OF less.prems])
    have run: "(lock_step n)\<^sup>*\<^sup>* (w, pcs) (w', pcs(u := Idle))" by (rule thread_run_lift [OF u(3,2)]) simp
    then have inv: "lock_inv n (w', pcs(u := Idle))" using less.prems
      by (induction rule: rtranclp_induct) (auto intro: lock_inv_step)
    have "{t. pcs t \<noteq> Idle} \<subseteq> {..<n}" using i by (auto simp: not_le [symmetric])
    then have fin: "finite {t. pcs t \<noteq> Idle}" by (rule finite_subset) simp
    have "{t. (pcs(u := Idle)) t \<noteq> Idle} \<subset> {t. pcs t \<noteq> Idle}" using u(1) by auto
    from less.hyps [OF psubset_card_mono [OF fin this] inv less.prems(2)] run show ?thesis by simp
  qed
qed

end
