(* ===== verification/Ttrie_Shared.thy ===== *)
theory Ttrie_Shared
  imports Ttrie_Match Spinlock
begin

text \<open>
  The two structs of \<open>src/broker/ttrie.rs\<close> as shared objects: what each of their operations keeps,
  when it panics, and what happens when operations of several threads overlap. The lock of
  \<open>Spinlock\<close> is held while a snapshot is taken and while one is stored, not in between.
\<close>

section \<open>One operation at a time\<close>

lemma iter_topic_path_nonempty [simp]: "iter_topic_path s \<noteq> []"
  by (simp add: iter_topic_path_def)

definition trie_wf :: "Subscription Inner \<Rightarrow> bool" where
  "trie_wf s \<longleftrightarrow> is_root (in_root s) \<and> node_wf Subscription_key (in_root s)"

lemma trie_wf_default: "trie_wf Inner_default"
  by (simp add: trie_wf_def Inner_default_def)

text \<open>The subscriptions for a topic filter.\<close>

definition subs_at :: "Subscription Inner \<Rightarrow> rstring \<Rightarrow> Subscription list" where
  "subs_at s f = lookup (in_root s) (iter_topic_path f)"

definition topics :: "'v Inner \<Rightarrow> rstring list set" where
  "topics s = {p. lookup (in_root s) p \<noteq> []}"

lemma do_subscribe_Ok:
  assumes "trie_wf s"
  obtains s' where "do_subscribe s f v = Ok s'" and "trie_wf s'"
    and "\<And>p. lookup (in_root s') p = (if p = iter_topic_path f
        then ins_values Subscription_key v (subs_at s f) else lookup (in_root s) p)"
    and "st_count (in_stats s') = (if subs_at s f = [] then saturating_add (st_count (in_stats s)) 1
        else st_count (in_stats s))"
proof -
  obtain n' where n': "sub Subscription_key (in_root s) (iter_topic_path f) v =
      Ok (n', subs_at s f = [], Subscription_key v \<in> set (map Subscription_key (subs_at s f)))"
    "node_wf Subscription_key n'" "is_root n' = is_root (in_root s)"
    "\<And>q. lookup n' q = (if q = iter_topic_path f then ins_values Subscription_key v (subs_at s f)
       else lookup (in_root s) q)"
    unfolding subs_at_def
    by (rule sub_Ok [of Subscription_key "in_root s" "iter_topic_path f" v]) (use assms in \<open>auto simp: trie_wf_def\<close>)
  show thesis
    by (rule that, unfold do_subscribe_def Let_def n'(1) and_then_Inr prod.case, rule refl)
       (use n' assms in \<open>simp_all add: trie_wf_def\<close>)
qed

lemma unsub_at_node:
  assumes "trie_wf s" and "\<And>m. node_at (in_root s) (iter_topic_path f) = Some m \<Longrightarrow> values_of m \<noteq> []"
  obtains s' where "do_unsubscribe s f v = Ok s'" and "trie_wf s'"
    and "\<And>p. lookup (in_root s') p = (if p = iter_topic_path f
        then del_values Subscription_key Subscription_eq v (subs_at s f) else lookup (in_root s) p)"
    and "st_count (in_stats s') =
      (if subs_at s f \<noteq> [] \<and> del_values Subscription_key Subscription_eq v (subs_at s f) = []
       then saturating_sub (st_count (in_stats s)) 1 else st_count (in_stats s))"
proof -
  let ?del = "del_values Subscription_key Subscription_eq v (subs_at s f)"
  have root: "is_root (in_root s)" "node_wf Subscription_key (in_root s)" using assms(1) by (simp_all add: trie_wf_def)
  obtain r where r: "unsub Subscription_key Subscription_eq (in_root s) (iter_topic_path f) v =
      Ok (r, subs_at s f \<noteq> [] \<and> ?del = [], ?del = subs_at s f)" "is_root (in_root s) \<longrightarrow> r \<noteq> None"
    "\<And>n'. r = Some n' \<Longrightarrow> node_wf Subscription_key n' \<and> is_root n' = is_root (in_root s) \<and> \<not> is_empty n'"
    "\<And>q. lookup_opt r q = (if q = iter_topic_path f then ?del else lookup (in_root s) q)"
    unfolding subs_at_def
    by (rule unsub_Ok [OF root(2), where eq = Subscription_eq and v = v and p = "iter_topic_path f"])
       (use root assms(2) in auto)
  from r(2) root obtain n' where n': "r = Some n'" by auto
  show thesis
    by (rule that, unfold do_unsubscribe_def Let_def r(1) n' and_then_Inr prod.case option.case, rule refl)
       (use r(3) [OF n'] r(4) n' root in \<open>auto simp: trie_wf_def lookup_opt_def\<close>)
qed

text \<open>Unsubscribing from a node that has children only is the panic of \<open>remove_value\<close>.\<close>

lemma unsub_at_inner:
  assumes "trie_wf s" and "node_at (in_root s) (iter_topic_path f) = Some m" and "values_of m = []"
  shows "do_unsubscribe s f v = panic"
  using unsub_leaf.cut_path_panic [of Subscription_key "in_root s" "iter_topic_path f" m Subscription_eq v] assms
  by (simp add: do_unsubscribe_def Let_def unsub_cut trie_wf_def)

lemma match_topic_name_Ok:
  assumes "trie_wf s"
  obtains s' where "match_topic_name s k = Ok (s', select (\<lambda>p. hd p \<noteq> hash_level \<and> hd p \<noteq> plus_level \<and>
      trie_match p (iter_topic_path k)) (in_root s))"
    and "in_root s' = in_root s" and "st_count (in_stats s') = st_count (in_stats s)"
proof -
  have root: "is_root (in_root s)" "node_wf Subscription_key (in_root s)" using assms by (simp_all add: trie_wf_def)
  have eq: "(\<lambda>p. root_ok True (in_root s) p \<and> trie_match p (iter_topic_path k)) =
      (\<lambda>p. hd p \<noteq> hash_level \<and> hd p \<noteq> plus_level \<and> trie_match p (iter_topic_path k))"
  proof
    show "(root_ok True (in_root s) p \<and> trie_match p (iter_topic_path k)) =
        (hd p \<noteq> hash_level \<and> hd p \<noteq> plus_level \<and> trie_match p (iter_topic_path k))" for p
      using root(1) by (cases p; cases "iter_topic_path k") (auto simp: root_ok_def)
  qed
  show thesis
    by (rule that, unfold match_topic_name_def Let_def match_topic_root [OF root(2,1) iter_topic_path_nonempty] eq
          and_then_Inr option.case, rule refl) simp_all
qed

lemma trie_wf_root: "trie_wf s \<Longrightarrow> in_root s' = in_root s \<Longrightarrow> trie_wf s'"
  by (simp add: trie_wf_def)

text \<open>The counter of topics is right, as long as it does not saturate.\<close>

definition counted :: "Subscription Inner \<Rightarrow> bool" where
  "counted s \<longleftrightarrow> st_count (in_stats s) = card (topics s)"

lemma finite_topics: "trie_wf s \<Longrightarrow> finite (topics s)"
  by (auto simp: trie_wf_def topics_def intro: finite_paths)

lemma do_subscribe_counted:
  assumes "trie_wf s" and "counted s" and "card (topics s) < usize_MAX" and "do_subscribe s f v = Ok s'"
  shows "counted s'"
proof -
  obtain s2 where s2: "do_subscribe s f v = Ok s2" "trie_wf s2"
    "\<And>p. lookup (in_root s2) p = (if p = iter_topic_path f
        then ins_values Subscription_key v (subs_at s f) else lookup (in_root s) p)"
    "st_count (in_stats s2) = (if subs_at s f = [] then saturating_add (st_count (in_stats s)) 1
        else st_count (in_stats s))" by (rule do_subscribe_Ok [OF assms(1), of f v]) blast
  have "topics s2 = insert (iter_topic_path f) (topics s)" using s2(3) by (auto simp: topics_def)
  moreover have "iter_topic_path f \<in> topics s \<longleftrightarrow> subs_at s f \<noteq> []" by (simp add: topics_def subs_at_def)
  ultimately show ?thesis
    using s2(1,4) assms(2-4) finite_topics [OF assms(1)]
    by (auto simp: counted_def saturating_add_def insert_absorb)
qed

lemma do_unsubscribe_counted:
  assumes "trie_wf s" and "counted s" and "do_unsubscribe s f v = Ok s'"
  shows "counted s'"
proof -
  let ?del = "del_values Subscription_key Subscription_eq v (subs_at s f)"
  have "values_of m \<noteq> []" if "node_at (in_root s) (iter_topic_path f) = Some m" for m
    using unsub_at_inner [OF assms(1) that, of v] assms(3) by auto
  then obtain s2 where s2: "do_unsubscribe s f v = Ok s2" "trie_wf s2"
    "\<And>p. lookup (in_root s2) p = (if p = iter_topic_path f then ?del else lookup (in_root s) p)"
    "st_count (in_stats s2) = (if subs_at s f \<noteq> [] \<and> ?del = [] then saturating_sub (st_count (in_stats s)) 1
       else st_count (in_stats s))" by (rule unsub_at_node [OF assms(1), of f v]) blast+
  have here: "iter_topic_path f \<in> topics s \<longleftrightarrow> subs_at s f \<noteq> []" by (simp add: topics_def subs_at_def)
  have "topics s2 = (if ?del = [] then topics s - {iter_topic_path f} else topics s)"
    using s2(3) here by (auto simp: topics_def subs_at_def)
  then show ?thesis
    using s2(1,4) assms(2,3) finite_topics [OF assms(1)] here
    by (auto simp: counted_def saturating_sub_def)
qed

section \<open>Retained messages\<close>

definition retained_wf :: "Publish Inner \<Rightarrow> bool" where
  "retained_wf s \<longleftrightarrow> is_root (in_root s) \<and> node_wf (one_key :: Publish \<Rightarrow> nat) (in_root s)"

lemma do_set_Ok:
  assumes "retained_wf s"
  obtains s' where "do_set s k v = Ok s'" and "retained_wf s'"
    and "\<And>p. lookup (in_root s') p = (if p = iter_topic_path k then [v] else lookup (in_root s) p)"
proof -
  obtain n' where n': "set_topic (in_root s) (iter_topic_path k) v =
      Ok (n', lookup (in_root s) (iter_topic_path k) = [])"
    "node_wf (one_key :: Publish \<Rightarrow> nat) n'" "is_root n' = is_root (in_root s)"
    "\<And>q. lookup n' q = (if q = iter_topic_path k then [v] else lookup (in_root s) q)"
    by (rule set_topic_Ok [of one_key "in_root s" "iter_topic_path k" v])
       (use assms in \<open>auto simp: retained_wf_def\<close>)
  show thesis
    by (rule that, unfold do_set_def Let_def n'(1) and_then_Inr prod.case, rule refl)
       (use n' assms in \<open>simp_all add: retained_wf_def\<close>)
qed

lemma do_remove_cases:
  assumes "retained_wf s"
  shows "case node_at (in_root s) (iter_topic_path k) of
      Some m \<Rightarrow> if values_of m = [] then do_remove s k = panic
        else \<exists>s'. do_remove s k = Ok s' \<and> retained_wf s' \<and>
          (\<forall>p. lookup (in_root s') p = (if p = iter_topic_path k then [] else lookup (in_root s) p))
    | None \<Rightarrow> \<exists>s'. do_remove s k = Ok s' \<and> retained_wf s' \<and> lookup (in_root s') = lookup (in_root s)"
proof -
  let ?p = "iter_topic_path k" and ?n = "in_root s"
  have root: "is_root ?n" "node_wf (one_key :: Publish \<Rightarrow> nat) ?n" using assms by (simp_all add: retained_wf_def)
  have ok: "\<exists>s'. do_remove s k = Ok s' \<and> retained_wf s' \<and>
      (\<forall>p. lookup (in_root s') p = (if p = ?p then [] else lookup ?n p))"
    if "\<And>m. node_at ?n ?p = Some m \<Longrightarrow> values_of m \<noteq> []"
  proof -
    from remove_leaf.cut_path_Ok [where p = ?p, OF root(2) _ that] root(1) obtain n' where n':
      "remove_path ?n ?p = Ok (Some n', lookup ?n ?p = [])" "node_wf (one_key :: Publish \<Rightarrow> nat) n'" "is_root n'"
      "\<And>q. lookup n' q = (if q = ?p then [] else lookup ?n q)"
      by (auto simp: remove_cut lookup_opt_def simp flip: not_Some_eq)
    show ?thesis
      by (rule exI conjI | unfold do_remove_def Let_def n'(1) and_then_Inr prod.case option.case, rule refl)+
         (use n' in \<open>simp_all add: retained_wf_def\<close>)
  qed
  show ?thesis
  proof (cases "node_at ?n ?p")
    case None
    then have "lookup ?n ?p = []" by (simp add: lookup_def)
    with None ok show ?thesis by (fastforce simp: fun_eq_iff)
  next
    case (Some m)
    with ok remove_leaf.cut_path_panic [OF root(2) Some] show ?thesis
      by (auto simp: do_remove_def Let_def remove_cut)
  qed
qed

text \<open>The assertion in \<open>match_topic_filter\<close> fails unless exactly one message matches.\<close>

lemma match_topic_filter_eq:
  assumes "retained_wf s"
  shows "panics (match_topic_filter s k) \<longleftrightarrow>
    length (select (\<lambda>p. trie_match p (iter_topic_path k)) (in_root s)) \<noteq> 1"
proof -
  have root: "is_root (in_root s)" "node_wf (one_key :: Publish \<Rightarrow> nat) (in_root s)"
    using assms by (simp_all add: retained_wf_def)
  have "(\<lambda>p. root_ok False (in_root s) p \<and> trie_match p (iter_topic_path k)) = (\<lambda>p. trie_match p (iter_topic_path k))"
    by (simp add: root_ok_def)
  then show ?thesis
    using match_topic_root [OF root(2,1) iter_topic_path_nonempty, where dollar = False]
    by (simp add: match_topic_filter_def Let_def)
qed

section \<open>Operations that overlap\<close>

datatype trie_op = OpSubscribe rstring Subscription | OpUnsubscribe rstring Subscription | OpMatch rstring

definition trie_apply :: "trie_op \<Rightarrow> Subscription Inner \<Rightarrow> Subscription Inner result" where
  "trie_apply c s =
     (case c of
        OpSubscribe f v \<Rightarrow> do_subscribe s f v
      | OpUnsubscribe f v \<Rightarrow> do_unsubscribe s f v
      | OpMatch k \<Rightarrow> and_then (match_topic_name s k) (\<lambda>(s', _). Ok s'))"

text \<open>
  A schedule says when each thread reads its snapshot, \<open>self.inner.read()\<close>, and when it stores its
  result, \<open>*self.inner.write() = ...\<close>.
\<close>

datatype trie_event = Load nat trie_op | Store nat

fun trie_exec ::
  "trie_event list \<Rightarrow> Subscription Inner \<Rightarrow> (nat \<Rightarrow> (trie_op \<times> Subscription Inner) option) \<Rightarrow>
    Subscription Inner result" where
  "trie_exec [] s held = Ok s"
| "trie_exec (Load t c # evs) s held = trie_exec evs s (held(t \<mapsto> (c, s)))"
| "trie_exec (Store t # evs) s held =
     (case held t of
        None \<Rightarrow> trie_exec evs s held
      | Some (c, snap) \<Rightarrow> and_then (trie_apply c snap) (\<lambda>s'. trie_exec evs s' (held(t := None))))"

lemma trie_apply_wf:
  assumes "trie_apply c s = Ok s'" and "trie_wf s"
  shows "trie_wf s'"
proof (cases c)
  case (OpSubscribe f v)
  obtain s2 where "do_subscribe s f v = Ok s2" "trie_wf s2" by (rule do_subscribe_Ok [OF assms(2)])
  with assms(1) OpSubscribe show ?thesis by (simp add: trie_apply_def)
next
  case (OpUnsubscribe f v)
  then have ok: "do_unsubscribe s f v = Ok s'" using assms(1) by (simp add: trie_apply_def)
  then have "values_of m \<noteq> []" if "node_at (in_root s) (iter_topic_path f) = Some m" for m
    using unsub_at_inner [OF assms(2) that, of v] by auto
  then obtain s2 where "do_unsubscribe s f v = Ok s2" "trie_wf s2" by (rule unsub_at_node [OF assms(2)])
  with ok show ?thesis by simp
next
  case (OpMatch k)
  obtain s2 vs where "match_topic_name s k = Ok (s2, vs)" "in_root s2 = in_root s"
    by (rule match_topic_name_Ok [OF assms(2), of k])
  with assms OpMatch trie_wf_root show ?thesis by (auto simp: trie_apply_def)
qed

text \<open>Whatever the schedule, readers and writers only ever see well-formed tries.\<close>

lemma trie_exec_wf:
  "\<lbrakk>trie_exec evs s held = Ok s'; trie_wf s; \<And>t c snap. held t = Some (c, snap) \<Longrightarrow> trie_wf snap\<rbrakk> \<Longrightarrow> trie_wf s'"
proof (induction evs s held rule: trie_exec.induct)
  case (2 t c evs s held)
  have "trie_exec evs s (held(t \<mapsto> (c, s))) = Ok s'" using "2.prems"(1) by simp
  moreover have "trie_wf snap" if "(held(t \<mapsto> (c, s))) u = Some (d, snap)" for u d snap
    using that "2.prems"(2,3) by (cases "u = t") auto
  ultimately show ?case using "2.IH" "2.prems"(2) by blast
next
  case (3 t evs s held)
  show ?case
  proof (cases "held t")
    case None
    with 3 show ?thesis by auto
  next
    case (Some cs)
    obtain c snap where cs: "cs = (c, snap)" by (cases cs)
    from "3.prems"(1) Some cs obtain s2 where s2: "trie_apply c snap = Ok s2"
      "trie_exec evs s2 (held(t := None)) = Ok s'" by (auto simp: and_then_eq_Inr)
    have "trie_wf s2" using trie_apply_wf [OF s2(1)] "3.prems"(3) Some cs by blast
    moreover have "trie_wf snap" if "(held(t := None)) u = Some (d, snap)" for u d snap
      using that "3.prems"(3) by (cases "u = t") auto
    ultimately show ?thesis using "3.IH"(2) [OF Some cs [symmetric]] s2 by blast
  qed
qed simp

text \<open>Without overlap a schedule is the sequence of its operations.\<close>

fun one_by_one :: "(nat \<times> trie_op) list \<Rightarrow> trie_event list" where
  "one_by_one [] = []"
| "one_by_one ((t, c) # ops) = Load t c # Store t # one_by_one ops"

fun apply_all :: "(nat \<times> trie_op) list \<Rightarrow> Subscription Inner \<Rightarrow> Subscription Inner result" where
  "apply_all [] s = Ok s"
| "apply_all ((t, c) # ops) s = and_then (trie_apply c s) (apply_all ops)"

lemma trie_exec_serial:
  "(\<And>t. held t = None) \<Longrightarrow> trie_exec (one_by_one ops) s held = apply_all ops s"
  by (induction ops arbitrary: s held) (auto simp: and_then_def split: sum.split)

end
