(* ===== verification/Timer.thy ===== *)
theory Timer
  imports Errors
begin

text \<open>
  Model of \<open>src/timer.rs\<close>: the differential timer, a linked list in which every entry holds the
  microseconds after the entry before it. The clock is a parameter: \<open>now\<close> is what
  \<open>Instant::now()\<close> reads, in microseconds. The trait \<open>TimeoutValue\<close> of the values is a parameter
  as well. The facts compare the list with the deadlines that it stands for.
\<close>

datatype 'v Titem =
    Head "'v Titem"
  | Timeout nat 'v "'v Titem"
  | Sentinel

record 'v Timer =
  tm_instant :: nat
  tm_head :: "'v Titem"

definition Timer_default :: "nat \<Rightarrow> 'v Timer" where
  "Timer_default now = \<lparr>tm_instant = now, tm_head = Head Sentinel\<rparr>"

text \<open>\<open>Instant::elapsed\<close> as microseconds in a \<open>u64\<close>, zero when the instant lies ahead.\<close>

definition elapsed_micros :: "nat \<Rightarrow> 'v Timer \<Rightarrow> nat" where
  "elapsed_micros now self = (now - tm_instant self) mod 2 ^ 64"

text \<open>The loop of \<open>add_timeout\<close> from the link \<open>prev.next\<close>.\<close>

fun add_loop :: "nat \<Rightarrow> 'v \<Rightarrow> 'v Titem \<Rightarrow> 'v Titem result" where
  "add_loop ndelta value Sentinel = Ok (Timeout ndelta value Sentinel)"
| "add_loop ndelta value (Timeout delta v nn) =
     (if ndelta < delta then Ok (Timeout ndelta value (Timeout (delta - ndelta) v nn))
      else and_then (add_loop (ndelta - delta) value nn) (\<lambda>n. Ok (Timeout delta v n)))"
| "add_loop ndelta value (Head _) = panic"

definition Timer_add_timeout :: "nat \<Rightarrow> nat \<Rightarrow> 'v \<Rightarrow> 'v Timer \<Rightarrow> 'v Timer result" where
  "Timer_add_timeout now secs value self =
     (let micros = (secs * 1000000) mod 2 ^ 64; ndelta = micros - elapsed_micros now self
      in case tm_head self of
           Head next \<Rightarrow> and_then (add_loop ndelta value next) (\<lambda>n. Ok (self\<lparr>tm_head := Head n\<rparr>))
         | Timeout d v next \<Rightarrow>
             and_then (add_loop ndelta value next) (\<lambda>n. Ok (self\<lparr>tm_head := Timeout d v n\<rparr>))
         | Sentinel \<Rightarrow> panic)"

text \<open>The loop of \<open>expired\<close> from \<open>self.head.next\<close>: the list that remains and the values.\<close>

fun expired_loop :: "('v \<Rightarrow> bool) \<Rightarrow> nat \<Rightarrow> 'v Titem \<Rightarrow> ('v Titem \<times> 'v list) result" where
  "expired_loop deleted micros Sentinel = Ok (Sentinel, [])"
| "expired_loop deleted micros (Timeout delta value next) =
     (if delta > micros then Ok (Timeout (delta - micros) value next, [])
      else if deleted value then expired_loop deleted micros next
      else and_then (expired_loop deleted micros next) (\<lambda>(n, vs). Ok (n, value # vs)))"
| "expired_loop deleted micros (Head _) = panic"

definition Timer_expired ::
  "('v \<Rightarrow> bool) \<Rightarrow> nat \<Rightarrow> nat option \<Rightarrow> 'v Timer \<Rightarrow> ('v Timer \<times> 'v list) result" where
  "Timer_expired deleted now elapsed self =
     (let micros = (case elapsed of Some m \<Rightarrow> m | None \<Rightarrow> elapsed_micros now self);
          self = self\<lparr>tm_instant := tm_instant self + micros\<rparr>
      in case tm_head self of
           Head next \<Rightarrow>
             and_then (expired_loop deleted micros next) (\<lambda>(n, vs). Ok (self\<lparr>tm_head := Head n\<rparr>, vs))
         | Timeout d v next \<Rightarrow>
             and_then (expired_loop deleted micros next) (\<lambda>(n, vs). Ok (self\<lparr>tm_head := Timeout d v n\<rparr>, vs))
         | Sentinel \<Rightarrow> panic)"

fun gc_loop :: "('v \<Rightarrow> bool) \<Rightarrow> 'v Titem \<Rightarrow> ('v Titem \<times> 'v list) result" where
  "gc_loop deleted Sentinel = Ok (Sentinel, [])"
| "gc_loop deleted (Timeout delta value next) =
     (if deleted value
      then and_then (gc_loop deleted next) (\<lambda>(n, vs). Ok (n, value # vs))
      else and_then (gc_loop deleted next) (\<lambda>(n, vs). Ok (Timeout delta value n, vs)))"
| "gc_loop deleted (Head _) = panic"

definition Timer_gc :: "('v \<Rightarrow> bool) \<Rightarrow> 'v Timer \<Rightarrow> ('v Timer \<times> 'v list) result" where
  "Timer_gc deleted self =
     (case tm_head self of
        Head next \<Rightarrow> and_then (gc_loop deleted next) (\<lambda>(n, vs). Ok (self\<lparr>tm_head := Head n\<rparr>, vs))
      | Timeout d v next \<Rightarrow>
          and_then (gc_loop deleted next) (\<lambda>(n, vs). Ok (self\<lparr>tm_head := Timeout d v n\<rparr>, vs))
      | Sentinel \<Rightarrow> panic)"

fun close_loop :: "'v Titem \<Rightarrow> 'v list" where
  "close_loop (Head next) = close_loop next"
| "close_loop (Timeout _ value next) = value # close_loop next"
| "close_loop Sentinel = []"

definition Timer_close :: "'v Timer \<Rightarrow> 'v list" where
  "Timer_close self = close_loop (tm_head self)"

section \<open>Deadlines\<close>

text \<open>A list of entries, as the operations leave it: one \<open>Head\<close> and no other.\<close>

fun entries_only :: "'v Titem \<Rightarrow> bool" where
  "entries_only Sentinel \<longleftrightarrow> True"
| "entries_only (Timeout _ _ n) \<longleftrightarrow> entries_only n"
| "entries_only (Head _) \<longleftrightarrow> False"

definition timer_wf :: "'v Timer \<Rightarrow> bool" where
  "timer_wf t \<longleftrightarrow> (\<exists>n. tm_head t = Head n \<and> entries_only n)"

text \<open>The times at which the entries are due, counted from \<open>b\<close>.\<close>

fun due_from :: "nat \<Rightarrow> 'v Titem \<Rightarrow> (nat \<times> 'v) list" where
  "due_from b Sentinel = []"
| "due_from b (Timeout d v n) = (b + d, v) # due_from (b + d) n"
| "due_from b (Head n) = due_from b n"

definition due :: "'v Timer \<Rightarrow> (nat \<times> 'v) list" where
  "due t = due_from (tm_instant t) (tm_head t)"

lemma due_from_least: "x \<in> set (due_from b n) \<Longrightarrow> b \<le> fst x"
  by (induction n arbitrary: b) (auto, fastforce)

lemma due_sorted: "sorted (map fst (due_from b n))"
  by (induction n arbitrary: b) (auto dest: due_from_least)

definition put_due :: "nat \<Rightarrow> 'v \<Rightarrow> (nat \<times> 'v) list \<Rightarrow> (nat \<times> 'v) list" where
  "put_due t v xs = [x \<leftarrow> xs. fst x \<le> t] @ (t, v) # [x \<leftarrow> xs. t < fst x]"

lemma add_loop_due:
  assumes "entries_only n"
  shows "\<exists>n'. add_loop nd v n = Ok n' \<and> entries_only n' \<and> due_from b n' = put_due (b + nd) v (due_from b n)"
  using assms
proof (induction n arbitrary: nd b)
  case (Timeout d w n)
  show ?case
  proof (cases "nd < d")
    case True
    have "\<forall>x\<in>set (due_from (b + d) n). b + nd < fst x" using True by (auto dest!: due_from_least)
    then have "[x \<leftarrow> due_from (b + d) n. fst x \<le> b + nd] = []" "[x \<leftarrow> due_from (b + d) n. b + nd < fst x] = due_from (b + d) n"
      by (auto simp: filter_empty_conv filter_id_conv)
    with True Timeout.prems show ?thesis by (simp add: put_due_def)
  next
    case False
    from Timeout.IH [of "nd - d" "b + d"] Timeout.prems obtain n' where "add_loop (nd - d) v n = Ok n'" "entries_only n'"
      "due_from (b + d) n' = put_due (b + d + (nd - d)) v (due_from (b + d) n)" by auto
    with False show ?thesis by (simp add: put_due_def)
  qed
qed (simp_all add: put_due_def)

text \<open>What \<open>expired\<close> takes: the entries up to the first one whose own delta is too large.\<close>

fun deltas :: "'v Titem \<Rightarrow> (nat \<times> 'v) list" where
  "deltas Sentinel = []"
| "deltas (Timeout d v n) = (d, v) # deltas n"
| "deltas (Head n) = deltas n"

lemma expired_loop_eq:
  assumes "entries_only n"
  shows "\<exists>n'. expired_loop del m n = Ok (n', [v \<leftarrow> map snd (takeWhile (\<lambda>x. fst x \<le> m) (deltas n)). \<not> del v]) \<and>
    entries_only n' \<and> deltas n' = (case dropWhile (\<lambda>x. fst x \<le> m) (deltas n) of
      [] \<Rightarrow> [] | (d, v) # xs \<Rightarrow> (d - m, v) # xs)"
  using assms by (induction n) auto

lemma gc_loop_eq:
  assumes "entries_only n"
  shows "\<exists>n'. gc_loop del n = Ok (n', [v \<leftarrow> map snd (deltas n). del v]) \<and> entries_only n' \<and>
    deltas n' = [x \<leftarrow> deltas n. \<not> del (snd x)]"
  using assms by (induction n) auto

lemma close_loop_eq: "close_loop n = map snd (deltas n)"
  by (induction n) simp_all

text \<open>An entry that comes with its own delta is never due later than its neighbours allow.\<close>

lemma deltas_due: "map snd (deltas n) = map snd (due_from b n)"
  by (induction n arbitrary: b) simp_all

lemma due_overtaken:
  assumes "(t, v) \<in> set (due_from b n)" and "t \<le> b + m"
  shows "(t, v) \<in> set (take (length (takeWhile (\<lambda>x. fst x \<le> m) (deltas n))) (due_from b n))"
  using assms
proof (induction n arbitrary: b)
  case (Timeout d w n)
  have "d \<le> m" using Timeout.prems due_from_least by fastforce
  moreover have "(t, v) \<in> set (take (length (takeWhile (\<lambda>x. fst x \<le> m) (deltas n))) (due_from (b + d) n))"
    if "(t, v) \<in> set (due_from (b + d) n)" using Timeout.IH [OF that] Timeout.prems(2) by simp
  ultimately show ?case using Timeout.prems(1) by auto
qed simp_all

text \<open>The values in the timer, and what the operations do to them, whatever the clock reads.\<close>

definition timer_values :: "'v Timer \<Rightarrow> 'v list" where
  "timer_values t = map snd (deltas (tm_head t))"

lemma timer_values_default [simp]: "timer_wf (Timer_default now)" "timer_values (Timer_default now) = []"
  by (simp_all add: timer_wf_def Timer_default_def timer_values_def)

lemma put_due_distinct:
  assumes "distinct (map snd xs)" and "v \<notin> snd ` set xs"
  shows "distinct (map snd (put_due t v xs))"
  using assms by (fastforce simp: put_due_def distinct_map inj_on_def image_iff)

lemma put_due_set: "snd ` set (put_due t v xs) = insert v (snd ` set xs)"
  by (force simp: put_due_def not_le)

lemma Timer_add_values:
  assumes "timer_wf t"
  obtains t' where "Timer_add_timeout now secs v t = Ok t'" and "timer_wf t'"
    and "set (timer_values t') = insert v (set (timer_values t))"
    and "\<lbrakk>distinct (timer_values t); v \<notin> set (timer_values t)\<rbrakk> \<Longrightarrow> distinct (timer_values t')"
proof -
  let ?nd = "(secs * 1000000) mod 2 ^ 64 - elapsed_micros now t"
  from assms obtain n where n: "tm_head t = Head n" "entries_only n" by (auto simp: timer_wf_def)
  from add_loop_due [OF n(2), of ?nd v 0] obtain n' where n': "add_loop ?nd v n = Ok n'" "entries_only n'"
    "due_from 0 n' = put_due ?nd v (due_from 0 n)" by auto
  let ?t = "t\<lparr>tm_head := Head n'\<rparr>"
  have vals: "timer_values ?t = map snd (put_due ?nd v (due_from 0 n))" "timer_values t = map snd (due_from 0 n)"
    by (simp_all add: timer_values_def n n'(3) deltas_due [of _ 0])
  show thesis
    by (rule that [of ?t]) (use n n' in \<open>simp_all add: Timer_add_timeout_def Let_def timer_wf_def vals put_due_set
        put_due_distinct\<close>)
qed

lemma Timer_expired_values:
  assumes "timer_wf t"
  obtains t' taken where "Timer_expired del now el t = Ok (t', [v \<leftarrow> taken. \<not> del v])" and "timer_wf t'"
    and "timer_values t = taken @ timer_values t'"
proof -
  let ?m = "case el of Some m \<Rightarrow> m | None \<Rightarrow> elapsed_micros now t"
  from assms obtain n where n: "tm_head t = Head n" "entries_only n" by (auto simp: timer_wf_def)
  from expired_loop_eq [OF n(2), of del ?m] obtain n' where n':
    "expired_loop del ?m n = Ok (n', [v \<leftarrow> map snd (takeWhile (\<lambda>x. fst x \<le> ?m) (deltas n)). \<not> del v])"
    "entries_only n'" "deltas n' = (case dropWhile (\<lambda>x. fst x \<le> ?m) (deltas n) of
      [] \<Rightarrow> [] | (d, v) # xs \<Rightarrow> (d - ?m, v) # xs)" by blast
  have "map snd (deltas n') = map snd (dropWhile (\<lambda>x. fst x \<le> ?m) (deltas n))"
    unfolding n'(3) by (auto split: list.split)
  then have "map snd (deltas n) = map snd (takeWhile (\<lambda>x. fst x \<le> ?m) (deltas n)) @ map snd (deltas n')"
    by (metis map_append takeWhile_dropWhile_id)
  then show thesis
    by (intro that [of "t\<lparr>tm_instant := tm_instant t + ?m, tm_head := Head n'\<rparr>" "map snd (takeWhile (\<lambda>x. fst x \<le> ?m) (deltas n))"])
      (use n n' in \<open>simp_all add: Timer_expired_def Let_def timer_wf_def timer_values_def\<close>)
qed

end
