(* ===== verification/Queue.thy ===== *)
theory Queue
  imports Errors
begin

text \<open>
  Model of \<open>QueueStatus\<close> of \<open>src/broker/mod.rs\<close> and of the loops of \<open>try_sends\<close> and \<open>try_recvs\<close>,
  which \<open>src/broker/socket.rs\<close> and \<open>src/broker/message.rs\<close> share word for word, on top of the bounded
  channel of the standard library. A channel is one value; the two handles are its two ends. The
  locale is what the users of a queue rely on: nothing is lost, nothing changes its order.
\<close>

section \<open>Bounded channels\<close>

text \<open>\<open>mpsc::sync_channel(bound)\<close>: what waits in it, and which of its ends still exist.\<close>

record 'a chan =
  ch_bound :: usize
  ch_queue :: "'a list"
  ch_rx :: bool
  ch_tx :: bool

definition sync_channel :: "usize \<Rightarrow> 'a chan" where
  "sync_channel bound = \<lparr>ch_bound = bound, ch_queue = [], ch_rx = True, ch_tx = True\<rparr>"

datatype 'a try_send = Sent "'a chan" | Full | NoReceiver

definition chan_try_send :: "'a chan \<Rightarrow> 'a \<Rightarrow> 'a try_send" where
  "chan_try_send c x =
     (if \<not> ch_rx c then NoReceiver
      else if length (ch_queue c) < ch_bound c then Sent (c\<lparr>ch_queue := ch_queue c @ [x]\<rparr>)
      else Full)"

datatype 'a try_recv = Received 'a "'a chan" | NothingYet | NoSender

definition chan_try_recv :: "'a chan \<Rightarrow> 'a try_recv" where
  "chan_try_recv c =
     (case ch_queue c of
        x # xs \<Rightarrow> Received x (c\<lparr>ch_queue := xs\<rparr>)
      | [] \<Rightarrow> if ch_tx c then NothingYet else NoSender)"

section \<open>The status of a queue\<close>

datatype 'a QueueStatus =
    QOk (queue_values: "'a list")
  | QBlock (queue_values: "'a list")
  | QDisconnected (queue_values: "'a list")

definition take_values :: "'a QueueStatus \<Rightarrow> 'a list \<times> 'a QueueStatus" where
  "take_values self =
     (case self of
        QOk val \<Rightarrow> (val, QOk [])
      | QBlock val \<Rightarrow> (val, QBlock [])
      | QDisconnected val \<Rightarrow> (val, QDisconnected []))"

definition set_values :: "'a QueueStatus \<Rightarrow> 'a list \<Rightarrow> 'a QueueStatus result" where
  "set_values self vals =
     (if length (queue_values self) \<noteq> 0 then panic
      else case self of
             QOk _ \<Rightarrow> Ok (QOk vals)
           | QBlock _ \<Rightarrow> Ok (QBlock vals)
           | QDisconnected _ \<Rightarrow> Ok (QDisconnected vals))"

definition QueueStatus_map :: "'a QueueStatus \<Rightarrow> 'b list \<Rightarrow> 'b QueueStatus result" where
  "QueueStatus_map self vals =
     (if length (queue_values self) \<noteq> 0 then panic
      else case self of
             QOk _ \<Rightarrow> Ok (QOk vals)
           | QBlock _ \<Rightarrow> Ok (QBlock vals)
           | QDisconnected _ \<Rightarrow> Ok (QDisconnected vals))"

section \<open>The loops of the handles\<close>

fun try_sends_loop :: "'a chan \<Rightarrow> usize \<Rightarrow> 'a list \<Rightarrow> 'a chan \<times> usize \<times> 'a QueueStatus" where
  "try_sends_loop c count [] = (c, count, QOk [])"
| "try_sends_loop c count (x # xs) =
     (case chan_try_send c x of
        Sent c \<Rightarrow> try_sends_loop c (count + 1) xs
      | Full \<Rightarrow> (c, count, QBlock (x # xs))
      | NoReceiver \<Rightarrow> (c, count, QDisconnected (x # xs)))"

function try_recvs_loop :: "usize \<Rightarrow> 'a list \<Rightarrow> 'a chan \<Rightarrow> 'a chan \<times> 'a QueueStatus" where
  "try_recvs_loop batch xs c =
     (case chan_try_recv c of
        Received x c' \<Rightarrow>
          if length xs < batch then try_recvs_loop batch (xs @ [x]) c' else (c', QOk (xs @ [x]))
      | NothingYet \<Rightarrow> (c, QBlock xs)
      | NoSender \<Rightarrow> (c, QDisconnected xs))"
  by pat_completeness auto
termination
  by (relation "measure (\<lambda>(_, _, c). length (ch_queue c))")
    (auto simp: chan_try_recv_def split: list.split_asm if_split_asm)

declare try_recvs_loop.simps [simp del]

section \<open>What the users rely on\<close>

locale fifo_queue =
  fixes send :: "'c \<Rightarrow> 'a list \<Rightarrow> 'c \<times> 'a QueueStatus"
    and recv :: "'c \<Rightarrow> 'c \<times> 'a QueueStatus"
    and items :: "'c \<Rightarrow> 'a list"
    and bound :: "'c \<Rightarrow> usize"
  assumes send_items: "send c xs = (c', st) \<Longrightarrow> items c' @ queue_values st = items c @ xs"
    and recv_items: "recv c = (c', st) \<Longrightarrow> queue_values st @ items c' = items c"
    and send_bound: "send c xs = (c', st) \<Longrightarrow> bound c' = bound c \<and> (length (items c) \<le> bound c \<longrightarrow> length (items c') \<le> bound c')"
    and recv_bound: "recv c = (c', st) \<Longrightarrow> bound c' = bound c"
begin

text \<open>
  A sender that keeps what was not taken and a receiver, in any order of their turns. The state is the
  channel, what the sender still holds and what was received.
\<close>

primrec turn :: "'a list option \<Rightarrow> 'c \<times> 'a list \<times> 'a list \<Rightarrow> 'c \<times> 'a list \<times> 'a list" where
  "turn (Some xs) s = (case s of (c, kept, got) \<Rightarrow>
     case send c (kept @ xs) of (c', st) \<Rightarrow> (c', queue_values st, got))"
| "turn None s = (case s of (c, kept, got) \<Rightarrow>
     case recv c of (c', st) \<Rightarrow> (c', kept, got @ queue_values st))"

lemma turns_fifo:
  "fold turn ts (c, kept, got) = (c', kept', got') \<Longrightarrow>
   got' @ items c' @ kept' = got @ items c @ kept @ concat (map (case_option [] (\<lambda>xs. xs)) ts)"
proof (induction ts arbitrary: c kept got)
  case (Cons t ts)
  obtain c1 k1 g1 where s: "turn t (c, kept, got) = (c1, k1, g1)" by (cases "turn t (c, kept, got)")
  then have "g1 @ items c1 @ k1 = got @ items c @ kept @ case_option [] (\<lambda>xs. xs) t"
    by (cases t) (auto dest: send_items recv_items split: prod.split_asm)
  with Cons s show ?case by simp
qed simp

lemma turns_bound:
  "\<lbrakk>fold turn ts (c, kept, got) = (c', kept', got'); length (items c) \<le> bound c\<rbrakk> \<Longrightarrow>
   bound c' = bound c \<and> length (items c') \<le> bound c'"
proof (induction ts arbitrary: c kept got)
  case (Cons t ts)
  obtain c1 k1 g1 where s: "turn t (c, kept, got) = (c1, k1, g1)" by (cases "turn t (c, kept, got)")
  have "bound c1 = bound c \<and> length (items c1) \<le> bound c1"
  proof (cases t)
    case None
    with s obtain st where r: "recv c = (c1, st)" by (auto split: prod.split_asm)
    from recv_items [OF r] have "length (items c1) \<le> length (items c)" by (metis le_add2 length_append)
    with recv_bound [OF r] Cons.prems(2) show ?thesis by simp
  next
    case (Some xs)
    with s obtain st where "send c (kept @ xs) = (c1, st)" by (auto split: prod.split_asm)
    with send_bound Cons.prems(2) show ?thesis by blast
  qed
  with Cons.IH [of c1 k1 g1] Cons.prems s show ?case by simp
qed simp

end

section \<open>The loops meet it\<close>

lemma try_sends_loop_eq:
  assumes "length (ch_queue c) \<le> ch_bound c \<or> \<not> ch_rx c"
  shows "try_sends_loop c count xs =
    (let k = (if ch_rx c then min (ch_bound c - length (ch_queue c)) (length xs) else 0);
         rest = drop k xs
     in (c\<lparr>ch_queue := ch_queue c @ take k xs\<rparr>, count + k,
         if rest = [] then QOk [] else if ch_rx c then QBlock rest else QDisconnected rest))"
  using assms
proof (induction xs arbitrary: c count)
  case (Cons x xs)
  show ?case
  proof (cases "ch_rx c \<and> length (ch_queue c) < ch_bound c")
    case True
    then have *: "length (ch_queue (c\<lparr>ch_queue := ch_queue c @ [x]\<rparr>)) \<le> ch_bound (c\<lparr>ch_queue := ch_queue c @ [x]\<rparr>)" by simp
    have "ch_bound c - length (ch_queue c) = Suc (ch_bound c - Suc (length (ch_queue c)))" using True by linarith
    then show ?thesis using True Cons.IH [of "c\<lparr>ch_queue := ch_queue c @ [x]\<rparr>" "count + 1"] *
      by (simp add: chan_try_send_def Let_def)
  next
    case False
    then show ?thesis using Cons.prems by (auto simp: chan_try_send_def Let_def)
  qed
qed (simp add: Let_def)

lemma try_sends_loop_items:
  "try_sends_loop c count xs = (c', n, st) \<Longrightarrow>
     ch_queue c' @ queue_values st = ch_queue c @ xs \<and> ch_bound c' = ch_bound c \<and>
     ch_rx c' = ch_rx c \<and> ch_tx c' = ch_tx c \<and>
     (length (ch_queue c) \<le> ch_bound c \<longrightarrow> length (ch_queue c') \<le> ch_bound c') \<and>
     n + length (queue_values st) = count + length xs"
proof (induction c count xs rule: try_sends_loop.induct)
  case (2 c count x xs)
  then show ?case by (auto simp: chan_try_send_def split: if_split_asm)
qed auto

lemma try_sends_loop_ok:
  "try_sends_loop c count xs = (c', n, QOk vs) \<Longrightarrow>
     vs = [] \<and> (xs \<noteq> [] \<longrightarrow> length (ch_queue c') \<le> ch_bound c')"
proof (induction c count xs rule: try_sends_loop.induct)
  case (2 c count x xs)
  then show ?case by (cases xs) (auto simp: chan_try_send_def split: if_split_asm)
qed simp

lemma try_recvs_loop_items:
  "try_recvs_loop batch xs c = (c', st) \<Longrightarrow>
     queue_values st @ ch_queue c' = xs @ ch_queue c \<and> ch_bound c' = ch_bound c \<and>
     ch_rx c' = ch_rx c \<and> ch_tx c' = ch_tx c"
proof (induction batch xs c rule: try_recvs_loop.induct)
  case (1 batch xs c)
  then show ?case
    by (subst (asm) (2) try_recvs_loop.simps)
      (auto simp: chan_try_recv_def split: list.split_asm if_split_asm)
qed

text \<open>A batch holds one item more than its size, when that many wait.\<close>

lemma try_recvs_loop_eq:
  assumes "length xs \<le> batch"
  shows "try_recvs_loop batch xs c =
    (let k = Suc (batch - length xs)
     in if k \<le> length (ch_queue c)
        then (c\<lparr>ch_queue := drop k (ch_queue c)\<rparr>, QOk (xs @ take k (ch_queue c)))
        else (c\<lparr>ch_queue := []\<rparr>, (if ch_tx c then QBlock else QDisconnected) (xs @ ch_queue c)))"
  using assms
proof (induction "ch_queue c" arbitrary: xs c)
  case Nil
  from Nil.hyps [symmetric] show ?case
    by (subst try_recvs_loop.simps) (simp add: chan_try_recv_def Let_def)
next
  case (Cons y ys)
  note q = Cons.hyps(2) [symmetric]
  show ?case
  proof (cases "length xs < batch")
    case True
    from Cons.hyps(1) [of "c\<lparr>ch_queue := ys\<rparr>" "xs @ [y]"] True q show ?thesis
      by (subst try_recvs_loop.simps) (simp add: chan_try_recv_def Let_def Suc_diff_Suc)
  next
    case False
    with Cons.prems q show ?thesis
      by (subst try_recvs_loop.simps) (simp add: chan_try_recv_def Let_def)
  qed
qed

definition chan_send :: "'a chan \<Rightarrow> 'a list \<Rightarrow> 'a chan \<times> 'a QueueStatus" where
  "chan_send c xs = (case try_sends_loop c 0 xs of (c', _, st) \<Rightarrow> (c', st))"

interpretation chan: fifo_queue chan_send "try_recvs_loop batch []" ch_queue ch_bound
  by unfold_locales
    (auto simp: chan_send_def split: prod.split_asm dest: try_sends_loop_items try_recvs_loop_items)

end
