(* ===== verification/Message.thy ===== *)
theory Message
  imports Queue V5_Packet
begin

text \<open>
  Model of \<open>src/broker/message.rs\<close>: the messages between sessions and shards, and the handles of the
  message queue. What a handle writes to the log is left out; that it wakes the receiving thread when
  it is dropped is \<open>MsgTx_drop\<close>.
\<close>

type_synonym PacketID = u16
type_synonym InpSeqno = u64
type_synonym OutSeqno = u64

record MsgRouted =
  rt_src_shard_id :: u32
  rt_client_id :: ClientID
  rt_inp_seqno :: InpSeqno
  rt_out_seqno :: OutSeqno
  rt_publish :: Publish
  rt_ack_needed :: bool

datatype Message =
    ClientAck Packet
  | MsgPacket OutSeqno "PacketID option" Publish
  | MsgIndex ClientID PacketID
  | Routed MsgRouted
  | LocalAck u32 InpSeqno

abbreviation (input) new_ping_resp :: Message where
  "new_ping_resp \<equiv> ClientAck Packet.PingResp"

abbreviation (input) new_conn_ack :: "ConnAck \<Rightarrow> Message" where
  "new_conn_ack connack \<equiv> ClientAck (Packet.ConnAck connack)"

abbreviation (input) new_pub_ack :: "Pub \<Rightarrow> Message" where
  "new_pub_ack puback \<equiv> ClientAck (Packet.PubAck puback)"

text \<open>Of the session, \<open>new_routed\<close> reads the id of its shard.\<close>

definition new_routed :: "u32 \<Rightarrow> InpSeqno \<Rightarrow> Publish \<Rightarrow> ClientID \<Rightarrow> bool \<Rightarrow> Message" where
  "new_routed sess_shard_id seqno publish cid ack_needed =
     Routed \<lparr>rt_src_shard_id = sess_shard_id, rt_client_id = cid, rt_inp_seqno = seqno,
       rt_out_seqno = 0, rt_publish = publish, rt_ack_needed = ack_needed\<rparr>"

abbreviation (input) new_index :: "ClientID \<Rightarrow> PacketID \<Rightarrow> Message" where
  "new_index src_client_id packet_id \<equiv> MsgIndex src_client_id packet_id"

definition into_packet :: "Message \<Rightarrow> PacketID option \<Rightarrow> Message result" where
  "into_packet self pktid =
     (case self of
        Routed r \<Rightarrow>
          let publish = (case pktid of
                           Some packet_id \<Rightarrow> Publish_set_packet_id (rt_publish r) packet_id
                         | None \<Rightarrow> rt_publish r)
          in Ok (MsgPacket (rt_out_seqno r) pktid publish)
      | _ \<Rightarrow> panic)"

definition to_v5_packet :: "Message \<Rightarrow> Packet result" where
  "to_v5_packet self =
     (case self of
        ClientAck packet \<Rightarrow> Ok packet
      | MsgPacket _ _ publish \<Rightarrow> Ok (Packet.Publish publish)
      | _ \<Rightarrow> panic)"

definition to_out_seqno :: "Message \<Rightarrow> OutSeqno result" where
  "to_out_seqno self =
     (case self of
        Routed r \<Rightarrow> Ok (rt_out_seqno r)
      | MsgPacket out_seqno _ _ \<Rightarrow> Ok out_seqno
      | _ \<Rightarrow> panic)"

definition to_packet_id :: "Message \<Rightarrow> PacketID result" where
  "to_packet_id self =
     (case self of
        MsgPacket _ (Some packet_id) _ \<Rightarrow> Ok packet_id
      | _ \<Rightarrow> panic)"

definition as_client_id :: "Message \<Rightarrow> ClientID result" where
  "as_client_id self = (case self of Routed r \<Rightarrow> Ok (rt_client_id r) | _ \<Rightarrow> panic)"

definition to_qos :: "Message \<Rightarrow> QoS result" where
  "to_qos self = (case self of Routed r \<Rightarrow> Ok (pub_qos (rt_publish r)) | _ \<Rightarrow> panic)"

section \<open>The message queue\<close>

record MsgTx =
  mt_shard_id :: u32
  mt_tx :: "Message chan"
  mt_count :: usize

record MsgRx =
  mr_shard_id :: u32
  mr_msg_batch_size :: usize
  mr_rx :: "Message chan"

definition MsgTx_try_sends :: "MsgTx \<Rightarrow> Message list \<Rightarrow> MsgTx \<times> Message QueueStatus" where
  "MsgTx_try_sends self msgs =
     (case try_sends_loop (mt_tx self) (mt_count self) msgs of
        (tx, count, status) \<Rightarrow> (self\<lparr>mt_tx := tx, mt_count := count\<rparr>, status))"

abbreviation (input) MsgTx_count :: "MsgTx \<Rightarrow> usize" where
  "MsgTx_count self \<equiv> mt_count self"

text \<open>Whether dropping the handle wakes the shard that receives.\<close>

definition MsgTx_drop :: "MsgTx \<Rightarrow> bool" where
  "MsgTx_drop self \<longleftrightarrow> mt_count self > 0"

definition MsgRx_try_recvs :: "MsgRx \<Rightarrow> MsgRx \<times> Message QueueStatus" where
  "MsgRx_try_recvs self =
     (case try_recvs_loop (mr_msg_batch_size self) [] (mr_rx self) of
        (rx, status) \<Rightarrow> (self\<lparr>mr_rx := rx\<rparr>, status))"

definition msg_channel :: "u32 \<Rightarrow> usize \<Rightarrow> MsgTx \<times> MsgRx" where
  "msg_channel shard_id sz =
     (\<lparr>mt_shard_id = shard_id, mt_tx = sync_channel sz, mt_count = 0\<rparr>,
      \<lparr>mr_shard_id = shard_id, mr_msg_batch_size = sz, mr_rx = sync_channel sz\<rparr>)"

section \<open>Facts\<close>

lemma into_packet_Ok:
  "into_packet m p = Ok m' \<longleftrightarrow>
     (\<exists>r. m = Routed r \<and> m' = MsgPacket (rt_out_seqno r) p
        (case p of Some i \<Rightarrow> Publish_set_packet_id (rt_publish r) i | None \<Rightarrow> rt_publish r))"
  by (cases m) (auto simp: into_packet_def Let_def)

text \<open>The messages that a session can hand to its socket.\<close>

fun sendable :: "Message \<Rightarrow> bool" where
  "sendable (ClientAck _) \<longleftrightarrow> True"
| "sendable (MsgPacket _ _ _) \<longleftrightarrow> True"
| "sendable _ \<longleftrightarrow> False"

fun packet_of :: "Message \<Rightarrow> Packet" where
  "packet_of (ClientAck p) = p"
| "packet_of (MsgPacket _ _ p) = Packet.Publish p"
| "packet_of _ = Packet.PingResp"

lemma to_v5_packet_eq: "to_v5_packet m = (if sendable m then Ok (packet_of m) else panic)"
  by (cases m) (simp_all add: to_v5_packet_def)

end
