(* ===== verification/Config.thy ===== *)
theory Config
  imports Util
begin

text \<open>
  Model of \<open>src/broker/config.rs\<close>: the settings with their defaults, the conversion from a TOML value
  and the accessors. The \<open>toml\<close> crate is a parameter, a record of the accessors of its \<open>Value\<close>; so are
  the uuid and the number of processors of the defaults, and the parser of socket addresses. A value of
  the type \<open>f32\<close> is \<open>m * 2 ^ e\<close>; the products and conversions that the code makes of it stay far inside
  the range of the exponent, so that only the rounding to 24 bits is written out.
\<close>

section \<open>Single precision\<close>

type_synonym f32 = "int \<times> int"

fun bit_len :: "nat \<Rightarrow> nat" where
  "bit_len n = (if n = 0 then 0 else Suc (bit_len (n div 2)))"

declare bit_len.simps [simp del]

text \<open>Rounding to the nearest number with 24 significant bits, ties to even.\<close>

definition f32_round :: "int \<Rightarrow> int \<Rightarrow> f32" where
  "f32_round m e =
     (let a = nat \<bar>m\<bar>; k = bit_len a - 24; q = a div 2 ^ k; r = a mod 2 ^ k;
          q = (if 2 * r > 2 ^ k \<or> 2 * r = 2 ^ k \<and> odd q then q + 1 else q)
      in if a < 2 ^ 24 then (m, e) else (sgn m * int q, e + int k))"

definition f32_mul :: "f32 \<Rightarrow> f32 \<Rightarrow> f32" where
  "f32_mul x y = f32_round (fst x * fst y) (snd x + snd y)"

text \<open>\<open>n as f32\<close> and, rounding towards zero and saturating, \<open>x as u16\<close>.\<close>

definition f32_of_int :: "int \<Rightarrow> f32" where
  "f32_of_int n = f32_round n 0"

definition f32_as_u16 :: "f32 \<Rightarrow> u16" where
  "f32_as_u16 x =
     (let m = nat (fst x); e = snd x;
          v = (if e \<ge> 0 then m * 2 ^ nat e else m div 2 ^ nat (- e))
      in of_nat (min v 65535))"

section \<open>The settings\<close>

record SocketAddr =
  sa_ip :: bytes
  sa_port :: u16

record ConfigNode =
  cn_uuid :: bytes
  cn_mqtt_address :: SocketAddr
  cn_path :: bytes
  cn_weight :: "u16 option"

record Config =
  cfg_name :: bytes
  cfg_max_nodes :: u32
  cfg_num_shards :: u32
  cfg_port :: u16
  cfg_nodes :: "ConfigNode list"
  cfg_sock_mqtt_connect_timeout :: u32
  cfg_sock_mqtt_read_timeout :: u32
  cfg_sock_mqtt_write_timeout :: u32
  cfg_sock_mqtt_flush_timeout :: u32
  cfg_mqtt_max_packet_size :: u32
  cfg_mqtt_pkt_batch_size :: u32
  cfg_mqtt_keep_alive :: "u32 option"
  cfg_mqtt_keep_alive_factor :: f32
  cfg_mqtt_receive_maximum :: u16
  cfg_mqtt_session_expiry_interval :: "u32 option"
  cfg_mqtt_maximum_qos :: u8
  cfg_mqtt_retain_available :: bool
  cfg_mqtt_topic_alias_max :: "u16 option"
  cfg_mqtt_ignore_duplicate :: bool

abbreviation (input) DEF_MQTT_PORT :: u16 where "DEF_MQTT_PORT \<equiv> 1883"
abbreviation (input) DEF_MAX_NODES :: u32 where "DEF_MAX_NODES \<equiv> 1"
abbreviation (input) DEF_SOCK_MQTT_CONNECT_TIMEOUT :: u32 where "DEF_SOCK_MQTT_CONNECT_TIMEOUT \<equiv> 5"
abbreviation (input) DEF_SOCK_MQTT_READ_TIMEOUT :: u32 where "DEF_SOCK_MQTT_READ_TIMEOUT \<equiv> 5"
abbreviation (input) DEF_SOCK_MQTT_WRITE_TIMEOUT :: u32 where "DEF_SOCK_MQTT_WRITE_TIMEOUT \<equiv> 5"
abbreviation (input) DEF_SOCK_MQTT_FLUSH_TIMEOUT :: u32 where "DEF_SOCK_MQTT_FLUSH_TIMEOUT \<equiv> 10"
abbreviation (input) DEF_MQTT_MAX_PACKET_SIZE :: u32 where "DEF_MQTT_MAX_PACKET_SIZE \<equiv> 1024 * 1024"
abbreviation (input) DEF_MQTT_PKT_BATCH_SIZE :: u32 where "DEF_MQTT_PKT_BATCH_SIZE \<equiv> 1024"
abbreviation (input) DEF_MQTT_KEEP_ALIVE_FACTOR :: f32 where "DEF_MQTT_KEEP_ALIVE_FACTOR \<equiv> (3, -1)"
abbreviation (input) DEF_MQTT_RECEIVE_MAXIMUM :: u16 where "DEF_MQTT_RECEIVE_MAXIMUM \<equiv> 256"
abbreviation (input) DEF_MQTT_MAX_QOS :: u8 where "DEF_MQTT_MAX_QOS \<equiv> 1"
abbreviation (input) DEF_MQTT_RETAIN_AVAILABLE :: bool where "DEF_MQTT_RETAIN_AVAILABLE \<equiv> True"
abbreviation (input) DEF_MQTT_TOPIC_ALIAS_MAX :: u16 where "DEF_MQTT_TOPIC_ALIAS_MAX \<equiv> 65535"
abbreviation (input) DEF_MQTT_IGNORE_DUPLICATE :: bool where "DEF_MQTT_IGNORE_DUPLICATE \<equiv> True"

definition ConfigNode_default :: "bytes \<Rightarrow> u16 \<Rightarrow> ConfigNode" where
  "ConfigNode_default uuid num_cpus =
     \<lparr>cn_uuid = uuid, cn_mqtt_address = \<lparr>sa_ip = [0, 0, 0, 0], sa_port = 1883\<rparr>,
      cn_path = ascii ''/'', cn_weight = Some num_cpus\<rparr>"

definition Config_default :: "u32 \<Rightarrow> ConfigNode \<Rightarrow> Config" where
  "Config_default num_shards node =
     \<lparr>cfg_name = ascii ''mqttd'', cfg_max_nodes = DEF_MAX_NODES, cfg_num_shards = num_shards,
      cfg_port = DEF_MQTT_PORT, cfg_nodes = [node],
      cfg_sock_mqtt_connect_timeout = DEF_SOCK_MQTT_CONNECT_TIMEOUT,
      cfg_sock_mqtt_read_timeout = DEF_SOCK_MQTT_READ_TIMEOUT,
      cfg_sock_mqtt_write_timeout = DEF_SOCK_MQTT_WRITE_TIMEOUT,
      cfg_sock_mqtt_flush_timeout = DEF_SOCK_MQTT_FLUSH_TIMEOUT,
      cfg_mqtt_max_packet_size = DEF_MQTT_MAX_PACKET_SIZE,
      cfg_mqtt_pkt_batch_size = DEF_MQTT_PKT_BATCH_SIZE, cfg_mqtt_keep_alive = None,
      cfg_mqtt_keep_alive_factor = DEF_MQTT_KEEP_ALIVE_FACTOR,
      cfg_mqtt_receive_maximum = DEF_MQTT_RECEIVE_MAXIMUM,
      cfg_mqtt_session_expiry_interval = None, cfg_mqtt_maximum_qos = DEF_MQTT_MAX_QOS,
      cfg_mqtt_retain_available = DEF_MQTT_RETAIN_AVAILABLE,
      cfg_mqtt_topic_alias_max = Some DEF_MQTT_TOPIC_ALIAS_MAX,
      cfg_mqtt_ignore_duplicate = DEF_MQTT_IGNORE_DUPLICATE\<rparr>"

section \<open>From TOML\<close>

record 'v toml =
  tv_as_table :: "'v \<Rightarrow> (bytes \<Rightarrow> 'v option) option"
  tv_as_array :: "'v \<Rightarrow> 'v list option"
  tv_as_str :: "'v \<Rightarrow> bytes option"
  tv_as_integer :: "'v \<Rightarrow> int option"
  tv_as_bool :: "'v \<Rightarrow> bool option"

text \<open>
  A number printed in decimal and parsed back as an unsigned integer of the given width, as a float,
  and a printed truth value parsed back as a truth value or, in one place, as a number.
\<close>

definition parse_uint :: "int \<Rightarrow> 'a :: len word result" where
  "parse_uint n =
     (if 0 \<le> n \<and> n < 2 ^ LENGTH('a) then Ok (word_of_int n) else err_desc ParseIntError)"

definition parse_f32 :: "int \<Rightarrow> f32 result" where
  "parse_f32 n = Ok (f32_of_int n)"

definition parse_bool :: "bool \<Rightarrow> bool result" where
  "parse_bool b = Ok b"

definition parse_bool_uint :: "bool \<Rightarrow> u16 result" where
  "parse_bool_uint b = err_desc ParseIntError"

text \<open>The macro \<open>config_field!\<close>, and its variant for a field that is an \<open>Option\<close>.\<close>

definition config_field ::
  "(bytes \<Rightarrow> 'v option) \<Rightarrow> string \<Rightarrow> ('v \<Rightarrow> 's option) \<Rightarrow> ('s \<Rightarrow> 'f result) \<Rightarrow> 'f \<Rightarrow> 'f result" where
  "config_field t field as parse cur =
     (case t (ascii field) of
        None \<Rightarrow> Ok cur
      | Some val \<Rightarrow> (case as val of Some s \<Rightarrow> parse s | None \<Rightarrow> err_desc InvalidInput))"

definition config_field_opt ::
  "(bytes \<Rightarrow> 'v option) \<Rightarrow> string \<Rightarrow> ('v \<Rightarrow> 's option) \<Rightarrow> ('s \<Rightarrow> 'f result) \<Rightarrow> 'f option \<Rightarrow> 'f option result" where
  "config_field_opt t field as parse cur =
     (case t (ascii field) of
        None \<Rightarrow> Ok cur
      | Some val \<Rightarrow>
          (case as val of
             Some s \<Rightarrow> and_then (parse s) (\<lambda>v. Ok (Some v))
           | None \<Rightarrow> err_desc InvalidInput))"

definition ConfigNode_try_from ::
  "'v toml \<Rightarrow> (bytes \<Rightarrow> SocketAddr option) \<Rightarrow> ConfigNode \<Rightarrow> 'v \<Rightarrow> ConfigNode result" where
  "ConfigNode_try_from tv parse_addr def val =
     (case tv_as_table tv val of
        None \<Rightarrow> Ok def
      | Some t \<Rightarrow>
          and_then (config_field t ''uuid'' (tv_as_str tv) Ok (cn_uuid def)) (\<lambda>uuid.
          and_then (config_field t ''path'' (tv_as_str tv) Ok (cn_path def)) (\<lambda>path.
          and_then (config_field_opt t ''weight'' (tv_as_integer tv) parse_uint (cn_weight def)) (\<lambda>weight.
          and_then (config_field t ''mqtt_address'' (tv_as_str tv)
              (\<lambda>s. case parse_addr s of Some a \<Rightarrow> Ok a | None \<Rightarrow> err_desc TryFromAddrError)
              (cn_mqtt_address def)) (\<lambda>addr.
            Ok \<lparr>cn_uuid = uuid, cn_mqtt_address = addr, cn_path = path, cn_weight = weight\<rparr>)))))"

text \<open>The loop over the nodes; the \<open>i\<close>-th node starts from its own defaults.\<close>

fun config_nodes ::
  "'v toml \<Rightarrow> (bytes \<Rightarrow> SocketAddr option) \<Rightarrow> (nat \<Rightarrow> ConfigNode) \<Rightarrow> nat \<Rightarrow> 'v list \<Rightarrow> ConfigNode list result" where
  "config_nodes tv parse_addr def i [] = Ok []"
| "config_nodes tv parse_addr def i (val # vals) =
     and_then (ConfigNode_try_from tv parse_addr (def i) val) (\<lambda>node.
     and_then (config_nodes tv parse_addr def (Suc i) vals) (\<lambda>nodes. Ok (node # nodes)))"

definition Config_try_from ::
  "'v toml \<Rightarrow> (bytes \<Rightarrow> SocketAddr option) \<Rightarrow> (nat \<Rightarrow> ConfigNode) \<Rightarrow> Config \<Rightarrow> 'v \<Rightarrow> Config result" where
  "Config_try_from tv parse_addr node def val =
     (case tv_as_table tv val of
        None \<Rightarrow> Ok def
      | Some t \<Rightarrow>
          let uint = \<lambda>field. config_field t field (tv_as_integer tv) parse_uint in
          and_then (config_field t ''name'' (tv_as_str tv) Ok (cfg_name def)) (\<lambda>name.
          and_then (uint ''max_nodes'' (cfg_max_nodes def)) (\<lambda>max_nodes.
          and_then (uint ''num_shards'' (cfg_num_shards def)) (\<lambda>num_shards.
          and_then (config_field t ''port'' (tv_as_integer tv) parse_uint (cfg_port def)) (\<lambda>port.
          and_then (uint ''sock_mqtt_connect_timeout'' (cfg_sock_mqtt_connect_timeout def)) (\<lambda>connect_timeout.
          and_then (uint ''sock_mqtt_read_timeout'' (cfg_sock_mqtt_read_timeout def)) (\<lambda>read_timeout.
          and_then (uint ''sock_mqtt_write_timeout'' (cfg_sock_mqtt_write_timeout def)) (\<lambda>write_timeout.
          and_then (uint ''sock_mqtt_flush_timeout'' (cfg_sock_mqtt_flush_timeout def)) (\<lambda>flush_timeout.
          and_then (uint ''mqtt_max_packet_size'' (cfg_mqtt_max_packet_size def)) (\<lambda>max_packet_size.
          and_then (uint ''mqtt_pkt_batch_size'' (cfg_mqtt_pkt_batch_size def)) (\<lambda>pkt_batch_size.
          and_then (config_field_opt t ''mqtt_keep_alive'' (tv_as_integer tv) parse_uint
              (cfg_mqtt_keep_alive def)) (\<lambda>keep_alive.
          and_then (config_field t ''mqtt_keep_alive_factor'' (tv_as_integer tv) parse_f32
              (cfg_mqtt_keep_alive_factor def)) (\<lambda>keep_alive_factor.
          and_then (config_field t ''mqtt_receive_maximum'' (tv_as_integer tv) parse_uint
              (cfg_mqtt_receive_maximum def)) (\<lambda>receive_maximum.
          and_then (config_field_opt t ''mqtt_session_expiry_interval'' (tv_as_integer tv) parse_uint
              (cfg_mqtt_session_expiry_interval def)) (\<lambda>session_expiry_interval.
          and_then (config_field t ''mqtt_maximum_qos'' (tv_as_integer tv) parse_uint
              (cfg_mqtt_maximum_qos def)) (\<lambda>maximum_qos.
          and_then (config_field t ''mqtt_retain_available'' (tv_as_bool tv) parse_bool
              (cfg_mqtt_retain_available def)) (\<lambda>retain_available.
          and_then (config_field_opt t ''mqtt_topic_alias_max'' (tv_as_bool tv) parse_bool_uint
              (cfg_mqtt_topic_alias_max def)) (\<lambda>topic_alias_max.
          and_then (config_field t ''mqtt_ignore_duplicate'' (tv_as_bool tv) parse_bool
              (cfg_mqtt_ignore_duplicate def)) (\<lambda>ignore_duplicate.
          and_then (case Option.bind (t (ascii ''node'')) (tv_as_array tv) of
                      None \<Rightarrow> Ok (cfg_nodes def)
                    | Some vals \<Rightarrow> config_nodes tv parse_addr node 0 vals) (\<lambda>nodes.
            Ok \<lparr>cfg_name = name, cfg_max_nodes = max_nodes, cfg_num_shards = num_shards, cfg_port = port,
                cfg_nodes = nodes, cfg_sock_mqtt_connect_timeout = connect_timeout,
                cfg_sock_mqtt_read_timeout = read_timeout, cfg_sock_mqtt_write_timeout = write_timeout,
                cfg_sock_mqtt_flush_timeout = flush_timeout, cfg_mqtt_max_packet_size = max_packet_size,
                cfg_mqtt_pkt_batch_size = pkt_batch_size, cfg_mqtt_keep_alive = keep_alive,
                cfg_mqtt_keep_alive_factor = keep_alive_factor, cfg_mqtt_receive_maximum = receive_maximum,
                cfg_mqtt_session_expiry_interval = session_expiry_interval,
                cfg_mqtt_maximum_qos = maximum_qos, cfg_mqtt_retain_available = retain_available,
                cfg_mqtt_topic_alias_max = topic_alias_max,
                cfg_mqtt_ignore_duplicate = ignore_duplicate\<rparr>))))))))))))))))))))"

section \<open>Accessors\<close>

definition Config_validate :: "Config \<Rightarrow> unit result" where
  "Config_validate self =
     (let val = cfg_mqtt_max_packet_size self
      in if val > 268435456 then err_desc InvalidInput else Ok ())"

definition Config_mqtt_keep_alive :: "Config \<Rightarrow> u32 option" where
  "Config_mqtt_keep_alive self =
     (case cfg_mqtt_keep_alive self of
        None \<Rightarrow> None
      | Some val \<Rightarrow> if val = 0 then None else Some val)"

definition Config_mqtt_topic_alias_max :: "Config \<Rightarrow> u16 option" where
  "Config_mqtt_topic_alias_max self =
     (case cfg_mqtt_topic_alias_max self of
        Some val \<Rightarrow> if val = 0 then None else Some val
      | None \<Rightarrow> cfg_mqtt_topic_alias_max self)"

section \<open>Facts\<close>

lemma config_field_Ok:
  "config_field t f as parse cur = Ok v \<Longrightarrow>
     (t (ascii f) = None \<and> v = cur) \<or> (\<exists>x s. t (ascii f) = Some x \<and> as x = Some s \<and> parse s = Ok v)"
  by (auto simp: config_field_def split: option.split_asm)

text \<open>A table that has the field \<open>mqtt_topic_alias_max\<close> is refused, whatever its value.\<close>

lemma config_field_bool_uint:
  "t (ascii f) = Some x \<Longrightarrow> \<exists>e. config_field_opt t f as parse_bool_uint cur = Inl (Err e)"
  by (auto simp: config_field_opt_def parse_bool_uint_def err_desc_def split: option.split)

lemma config_alias_max_kept:
  assumes "Config_try_from tv parse_addr node def val = Ok c"
  shows "cfg_mqtt_topic_alias_max c = cfg_mqtt_topic_alias_max def"
  using assms
  by (auto simp: Config_try_from_def Let_def and_then_eq_Inr parse_bool_uint_def config_field_opt_def
      split: option.split_asm)

end
