(* ===== verification/Socket.thy ===== *)
theory Socket
  imports PacketIO Message Config
begin

text \<open>
  Model of \<open>src/broker/socket.rs\<close>: the packet queue between a socket and its session, and the loops
  that read packets from a connection into the queue and write packets of the queue to a connection.
  The TCP stream and the clock are parameters: a connection has the bytes of the peer that are still to
  be read, delivers them in pieces of any size or fails, and remembers how many calls were made and
  which bytes it took. Log lines and \<open>mio::Token\<close> are left out.
\<close>

section \<open>The packet queue\<close>

type_synonym QueuePkt = "Packet QueueStatus"

record PktTx =
  pt_miot_id :: u32
  pt_tx :: "Packet chan"
  pt_count :: usize

record PktRx =
  pr_pkt_batch_size :: usize
  pr_rx :: "Packet chan"

definition PktTx_try_sends :: "PktTx \<Rightarrow> Packet list \<Rightarrow> PktTx \<times> QueuePkt" where
  "PktTx_try_sends self pkts =
     (case try_sends_loop (pt_tx self) (pt_count self) pkts of
        (tx, count, status) \<Rightarrow> (self\<lparr>pt_tx := tx, pt_count := count\<rparr>, status))"

text \<open>Whether dropping the handle wakes the thread that receives.\<close>

definition PktTx_drop :: "PktTx \<Rightarrow> bool" where
  "PktTx_drop self \<longleftrightarrow> pt_count self > 0"

definition PktRx_try_recvs :: "PktRx \<Rightarrow> PktRx \<times> QueuePkt" where
  "PktRx_try_recvs self =
     (case try_recvs_loop (pr_pkt_batch_size self) [] (pr_rx self) of
        (rx, status) \<Rightarrow> (self\<lparr>pr_rx := rx\<rparr>, status))"

definition pkt_channel :: "u32 \<Rightarrow> usize \<Rightarrow> PktTx \<times> PktRx" where
  "pkt_channel miot_id sz =
     (\<lparr>pt_miot_id = miot_id, pt_tx = sync_channel sz, pt_count = 0\<rparr>,
      \<lparr>pr_pkt_batch_size = sz, pr_rx = sync_channel sz\<rparr>)"

section \<open>Statistics\<close>

record SockStats =
  ss_items :: usize
  ss_bytes :: usize

abbreviation (input) SockStats_default :: SockStats where
  "SockStats_default \<equiv> \<lparr>ss_items = 0, ss_bytes = 0\<rparr>"

definition SockStats_update :: "SockStats \<Rightarrow> SockStats \<Rightarrow> SockStats" where
  "SockStats_update self other = self\<lparr>ss_items := ss_items other, ss_bytes := ss_bytes other\<rparr>"

section \<open>Connections and sockets\<close>

text \<open>
  The \<open>i\<close>-th call on the connection finds the clock at \<open>tcp_now i\<close>. A read delivers up to \<open>tcp_chunk i\<close>
  bytes of the input, blocks when that is zero, and fails or finds the end of the stream when
  \<open>tcp_fault i\<close> says so; a write is answered by \<open>tcp_write i\<close>, and a flush succeeds if \<open>tcp_flush i\<close>.
\<close>

record conn =
  tcp_input :: bytes
  tcp_chunk :: "nat \<Rightarrow> nat"
  tcp_fault :: "nat \<Rightarrow> io_kind option option"
  tcp_write :: "nat \<Rightarrow> bytes \<Rightarrow> io_write"
  tcp_flush :: "nat \<Rightarrow> bool"
  tcp_now :: "nat \<Rightarrow> nat"
  tcp_calls :: nat
  tcp_sent :: bytes

definition conn_read :: "conn \<Rightarrow> usize \<Rightarrow> io_read" where
  "conn_read c =
     (case tcp_fault c (tcp_calls c) of
        Some (Some e) \<Rightarrow> (\<lambda>_. ReadErr e)
      | Some None \<Rightarrow> (\<lambda>_. ReadOk [])
      | None \<Rightarrow> sock_read (tcp_chunk c (tcp_calls c)) (tcp_input c))"

text \<open>A call on the connection: what it took from the input, or what was sent.\<close>

abbreviation conn_consumed :: "MQTTRead \<Rightarrow> MQTTRead \<Rightarrow> conn \<Rightarrow> conn" where
  "conn_consumed pr pr' c \<equiv>
     c\<lparr>tcp_input := drop (length (rcontent pr') - length (rcontent pr)) (tcp_input c),
       tcp_calls := Suc (tcp_calls c)\<rparr>"

abbreviation conn_wrote :: "bytes \<Rightarrow> conn \<Rightarrow> conn" where
  "conn_wrote bs c \<equiv> c\<lparr>tcp_sent := tcp_sent c @ bs, tcp_calls := Suc (tcp_calls c)\<rparr>"

abbreviation clock :: "conn \<Rightarrow> nat" where
  "clock c \<equiv> tcp_now c (tcp_calls c)"

record Source =
  rd_pr :: MQTTRead
  rd_timeout :: "nat option"
  rd_session_tx :: PktTx
  rd_packets :: "Packet list"

record Sink =
  wt_pw :: MQTTWrite
  wt_timeout :: "nat option"
  wt_miot_rx :: PktRx
  wt_packets :: "Packet list"

record Socket =
  so_client_id :: ClientID
  so_conn :: conn
  so_rd :: Source
  so_wt :: Sink

definition time_now :: "Socket \<Rightarrow> nat" where
  "time_now self = tcp_now (so_conn self) (tcp_calls (so_conn self))"

definition read_elapsed :: "Socket \<Rightarrow> bool" where
  "read_elapsed self =
     (case rd_timeout (so_rd self) of Some timeout \<Rightarrow> time_now self > timeout | None \<Rightarrow> False)"

definition set_read_timeout :: "Socket \<Rightarrow> bool \<Rightarrow> nat \<Rightarrow> Socket" where
  "set_read_timeout self retry timeout =
     (if retry \<and> rd_timeout (so_rd self) = None
      then self\<lparr>so_rd := (so_rd self)\<lparr>rd_timeout := Some (time_now self + timeout * 1000000000)\<rparr>\<rparr>
      else if \<not> retry then self\<lparr>so_rd := (so_rd self)\<lparr>rd_timeout := None\<rparr>\<rparr>
      else self)"

definition write_elapsed :: "Socket \<Rightarrow> bool" where
  "write_elapsed self =
     (case wt_timeout (so_wt self) of Some timeout \<Rightarrow> time_now self > timeout | None \<Rightarrow> False)"

definition set_write_timeout :: "Socket \<Rightarrow> bool \<Rightarrow> nat \<Rightarrow> Socket" where
  "set_write_timeout self retry timeout =
     (if retry \<and> wt_timeout (so_wt self) = None
      then self\<lparr>so_wt := (so_wt self)\<lparr>wt_timeout := Some (time_now self + timeout * 1000000000)\<rparr>\<rparr>
      else if \<not> retry then self\<lparr>so_wt := (so_wt self)\<lparr>wt_timeout := None\<rparr>\<rparr>
      else self)"

definition next_call :: "Socket \<Rightarrow> Socket" where
  "next_call self = self\<lparr>so_conn := (so_conn self)\<lparr>tcp_calls := Suc (tcp_calls (so_conn self))\<rparr>\<rparr>"

section \<open>Reading\<close>

text \<open>The connection after the reader went from \<open>pr\<close> to \<open>pr'\<close>: what is in the reader has left the input.\<close>

definition consume :: "MQTTRead \<Rightarrow> MQTTRead \<Rightarrow> Socket \<Rightarrow> Socket" where
  "consume pr pr' self =
     self\<lparr>so_conn := (so_conn self)\<lparr>tcp_input :=
       drop (length (rcontent pr') - length (rcontent pr)) (tcp_input (so_conn self))\<rparr>\<rparr>"

definition set_pr :: "MQTTRead \<Rightarrow> Socket \<Rightarrow> Socket" where
  "set_pr pr self = self\<lparr>so_rd := (so_rd self)\<lparr>rd_pr := pr\<rparr>\<rparr>"

definition set_rd_packets :: "Packet list \<Rightarrow> Socket \<Rightarrow> Socket" where
  "set_rd_packets pkts self = self\<lparr>so_rd := (so_rd self)\<lparr>rd_packets := pkts\<rparr>\<rparr>"

text \<open>
  While \<open>read_packet\<close> runs, the state of the reader is taken out of the socket and the default is in
  its place; an early return leaves it there.
\<close>

definition read_packet :: "Config \<Rightarrow> Socket \<Rightarrow> Socket \<times> QueuePkt result" where
  "read_packet config self =
     (let timeout = unat (cfg_sock_mqtt_read_timeout config);
          pr = rd_pr (so_rd self); taken_out = set_pr MQTTRead_default self
      in case MQTTRead_read (conn_read (so_conn self)) pr of
           Inl (Err e) \<Rightarrow>
             (next_call taken_out,
              if err_kind e = ErrorKind.Disconnected then Ok (QDisconnected []) else Inl (Err e))
         | Inl Panic \<Rightarrow> (taken_out, panic)
         | Inr (pr', would_block) \<Rightarrow>
             let taken_out = consume pr pr' taken_out; pr = pr' in
             (case pr of
                RFin _ _ _ _ \<Rightarrow>
                  let self = set_read_timeout taken_out False timeout in
                  (case MQTTRead_parse pr of
                     Inl e \<Rightarrow> (next_call self, Inl e)
                   | Inr pkt \<Rightarrow>
                       (case MQTTRead_reset pr of
                          Inl e \<Rightarrow> (next_call self, Inl e)
                        | Inr pr \<Rightarrow> (next_call (set_pr pr self), Ok (QOk [pkt]))))
              | RNone \<Rightarrow> (taken_out, panic)
              | _ \<Rightarrow>
                  if \<not> read_elapsed taken_out
                  then (next_call (set_pr pr (set_read_timeout taken_out True timeout)), Ok (QBlock []))
                  else (next_call (set_pr pr (set_read_timeout taken_out False timeout)), Ok (QDisconnected []))))"

text \<open>The handle that sends is a clone, dropped at the end; the channel is shared with the original.\<close>

definition send_upstream :: "Socket \<Rightarrow> Socket \<times> QueuePkt" where
  "send_upstream self =
     (case PktTx_try_sends (rd_session_tx (so_rd self)) (rd_packets (so_rd self)) of
        (tx, status) \<Rightarrow>
          (case take_values status of
             (pkts, status) \<Rightarrow>
               (self\<lparr>so_rd := (so_rd self)\<lparr>
                  rd_session_tx := (rd_session_tx (so_rd self))\<lparr>pt_tx := pt_tx tx\<rparr>, rd_packets := pkts\<rparr>\<rparr>,
                status)))"

partial_function (option) read_packets :: "Config \<Rightarrow> Socket \<Rightarrow> (Socket \<times> QueuePkt result) option" where
  "read_packets config self =
     (case send_upstream self of
        (self, status) \<Rightarrow>
          (case status of
             QBlock _ \<Rightarrow> Some (self, Ok status)
           | QDisconnected _ \<Rightarrow> Some (self, Ok status)
           | QOk _ \<Rightarrow>
               (case read_packet config self of
                  (self, Inl e) \<Rightarrow> Some (self, Inl e)
                | (self, Inr status) \<Rightarrow>
                    (let self = set_rd_packets (rd_packets (so_rd self) @ queue_values status) self;
                         upstream = (case send_upstream self of (self, status) \<Rightarrow> Some (self, Ok status))
                     in case status of
                          QOk _ \<Rightarrow>
                            if length (rd_packets (so_rd self)) < unat (cfg_mqtt_pkt_batch_size config)
                            then read_packets config self
                            else upstream
                        | QBlock _ \<Rightarrow> upstream
                        | QDisconnected _ \<Rightarrow>
                            if length (rd_packets (so_rd self)) = 0
                            then Some (self, Ok (QDisconnected []))
                            else upstream))))"

section \<open>Writing\<close>

definition set_pw :: "MQTTWrite \<Rightarrow> Socket \<Rightarrow> Socket" where
  "set_pw pw self = self\<lparr>so_wt := (so_wt self)\<lparr>wt_pw := pw\<rparr>\<rparr>"

definition set_wt_packets :: "Packet list \<Rightarrow> Socket \<Rightarrow> Socket" where
  "set_wt_packets pkts self = self\<lparr>so_wt := (so_wt self)\<lparr>wt_packets := pkts\<rparr>\<rparr>"

text \<open>The bytes that the connection takes when the writer \<open>pw\<close> is driven once.\<close>

definition conn_takes :: "(bytes \<Rightarrow> io_write) \<Rightarrow> MQTTWrite \<Rightarrow> bytes" where
  "conn_takes wr pw = take (taken (wr (wpending pw))) (wpending pw)"

definition add_sent :: "bytes \<Rightarrow> Socket \<Rightarrow> Socket" where
  "add_sent bs self = self\<lparr>so_conn := (so_conn self)\<lparr>tcp_sent := tcp_sent (so_conn self) @ bs\<rparr>\<rparr>"

definition write_packet :: "Config \<Rightarrow> Socket \<Rightarrow> (Socket \<times> QueuePkt) result" where
  "write_packet config self =
     (let timeout = unat (cfg_sock_mqtt_write_timeout config);
          pw = wt_pw (so_wt self); wr = tcp_write (so_conn self) (tcp_calls (so_conn self));
          self = add_sent (conn_takes wr pw) (set_pw MQTTWrite_default self)
      in case MQTTWrite_write wr pw of
           Inr (pw, would_block) \<Rightarrow>
             (case pw of
                WFin _ _ \<Rightarrow> Ok (next_call (set_pw pw (set_write_timeout self False timeout)), QOk [])
              | WNone \<Rightarrow> panic
              | _ \<Rightarrow>
                  if \<not> write_elapsed self
                  then Ok (next_call (set_pw pw (set_write_timeout self True timeout)), QBlock [])
                  else Ok (next_call (set_pw pw (set_write_timeout self False timeout)), QDisconnected []))
         | Inl (Err e) \<Rightarrow>
             if err_kind e = ErrorKind.Disconnected
             then Ok (next_call (set_pw MQTTWrite_default self), QDisconnected [])
             else panic
         | Inl Panic \<Rightarrow> panic)"

text \<open>The loop of \<open>flush_packets\<close> with the packets that its iterator still holds.\<close>

fun flush_loop ::
  "Config \<Rightarrow> Packet list \<Rightarrow> Socket \<Rightarrow> SockStats \<Rightarrow> (Socket \<times> Packet list \<times> QueuePkt \<times> SockStats) result" where
  "flush_loop config iter self stats =
     and_then (write_packet config self) (\<lambda>(self, res).
       case res of
         QBlock _ \<Rightarrow> Ok (self, iter, res, stats)
       | QDisconnected _ \<Rightarrow> Ok (self, iter, res, stats)
       | QOk _ \<Rightarrow>
           (case iter of
              [] \<Rightarrow> Ok (self, [], QOk [], stats)
            | packet # iter \<Rightarrow>
                (case Packet_encode packet of
                   Inl Panic \<Rightarrow> panic
                 | Inl (Err _) \<Rightarrow> flush_loop config iter self stats
                 | Inr blob \<Rightarrow>
                     let stats = stats\<lparr>ss_bytes := ss_bytes stats + length (as_ref blob)\<rparr>;
                         ok = tcp_flush (so_conn self) (tcp_calls (so_conn self));
                         self = next_call self in
                     if ok
                     then let stats = stats\<lparr>ss_items := ss_items stats + 1\<rparr> in
                          and_then (MQTTWrite_reset (as_ref blob) (wt_pw (so_wt self))) (\<lambda>pw.
                            flush_loop config iter (set_pw pw self) stats)
                     else Ok (self, iter, QDisconnected [], stats))))"

declare flush_loop.simps [simp del]

definition flush_packets :: "Config \<Rightarrow> Socket \<Rightarrow> (Socket \<times> QueuePkt \<times> SockStats) result" where
  "flush_packets config self =
     and_then (flush_loop config (wt_packets (so_wt self)) (set_wt_packets [] self) SockStats_default)
       (\<lambda>(self, iter, res, stats).
         Ok (set_wt_packets (wt_packets (so_wt self) @ iter) self, res, stats))"

partial_function (option) write_packets_loop ::
  "Config \<Rightarrow> Socket \<Rightarrow> SockStats \<Rightarrow> (Socket \<times> QueuePkt \<times> SockStats) result option" where
  "write_packets_loop config self stats =
     (case flush_packets config self of
        Inl e \<Rightarrow> Some (Inl e)
      | Inr (self, status, flush_stats) \<Rightarrow>
          (let stats = SockStats_update stats flush_stats
           in case status of
                QBlock _ \<Rightarrow> Some (Ok (self, status, stats))
              | QDisconnected _ \<Rightarrow> Some (Ok (self, status, stats))
              | QOk _ \<Rightarrow>
                  (case PktRx_try_recvs (wt_miot_rx (so_wt self)) of
                     (rx, status) \<Rightarrow>
                       (let self = self\<lparr>so_wt := (so_wt self)\<lparr>wt_miot_rx := rx,
                                     wt_packets := wt_packets (so_wt self) @ queue_values status\<rparr>\<rparr>
                        in case status of
                             QOk _ \<Rightarrow> write_packets_loop config self stats
                           | QBlock _ \<Rightarrow>
                               Some (and_then (flush_packets config self) (\<lambda>(self, status, flush_stats).
                                 Ok (self, status, SockStats_update stats flush_stats)))
                           | QDisconnected _ \<Rightarrow> Some (Ok (self, QDisconnected [], stats))))))"

definition write_packets :: "Config \<Rightarrow> Socket \<Rightarrow> (Socket \<times> QueuePkt \<times> SockStats) result option" where
  "write_packets config self = write_packets_loop config self SockStats_default"

section \<open>What is read\<close>

text \<open>The packets on their way to the session, in the channel and behind it.\<close>

definition up_chan :: "Socket \<Rightarrow> Packet chan" where
  "up_chan s = pt_tx (rd_session_tx (so_rd s))"

definition input_of :: "Socket \<Rightarrow> bytes" where
  "input_of s = tcp_input (so_conn s)"

definition on_the_way :: "Socket \<Rightarrow> Packet list" where
  "on_the_way s = ch_queue (up_chan s) @ rd_packets (so_rd s)"

lemma take_values_simps [simp]:
  "take_values (QOk vs) = (vs, QOk [])" "take_values (QBlock vs) = (vs, QBlock [])"
  "take_values (QDisconnected vs) = (vs, QDisconnected [])"
  by (simp_all add: take_values_def)

lemma take_values_none: "take_values st = (vs, st') \<Longrightarrow> vs = queue_values st \<and> queue_values st' = []"
  by (cases st) auto

lemma send_upstream_eq:
  assumes "send_upstream s = (s', st)"
  shows "on_the_way s' = on_the_way s \<and> ch_bound (up_chan s') = ch_bound (up_chan s) \<and>
    rd_pr (so_rd s') = rd_pr (so_rd s) \<and> so_wt s' = so_wt s \<and> input_of s' = input_of s \<and> queue_values st = []"
proof -
  obtain c n st0 where l: "try_sends_loop (up_chan s) (pt_count (rd_session_tx (so_rd s))) (rd_packets (so_rd s)) = (c, n, st0)"
    by (metis prod_cases3)
  from try_sends_loop_items [OF l] take_values_none [of st0] assms l show ?thesis
    by (auto simp: send_upstream_def PktTx_try_sends_def up_chan_def on_the_way_def input_of_def split: prod.split_asm)
qed

lemma send_upstream_ok:
  assumes "send_upstream s = (s', QOk vs)"
  shows "rd_packets (so_rd s') = [] \<and>
    (rd_packets (so_rd s) \<noteq> [] \<longrightarrow> length (on_the_way s) \<le> ch_bound (up_chan s))"
proof -
  obtain c n st0 where l: "try_sends_loop (up_chan s) (pt_count (rd_session_tx (so_rd s))) (rd_packets (so_rd s)) = (c, n, st0)"
    by (metis prod_cases3)
  from assms l have s': "s' = s\<lparr>so_rd := (so_rd s)\<lparr>rd_session_tx := (rd_session_tx (so_rd s))\<lparr>pt_tx := c\<rparr>,
      rd_packets := queue_values st0\<rparr>\<rparr>" and "\<exists>vs. st0 = QOk vs"
    by (cases st0; auto simp: send_upstream_def PktTx_try_sends_def up_chan_def)+
  then obtain vs0 where st0: "st0 = QOk vs0" by blast
  from try_sends_loop_ok [OF l [unfolded st0]] try_sends_loop_items [OF l] s' st0
  have "ch_queue c = on_the_way s" "ch_bound c = ch_bound (up_chan s)"
    "rd_packets (so_rd s) \<noteq> [] \<longrightarrow> length (ch_queue c) \<le> ch_bound c" "rd_packets (so_rd s') = []"
    by (simp_all add: on_the_way_def)
  then show ?thesis by simp
qed

text \<open>A packet that the reader hands out is what its frame decodes to.\<close>

lemma parse_decodes:
  assumes "rinv (RFin data rem fh mx)" and "MQTTRead_parse (RFin data rem fh mx) = Ok p"
  shows "Packet_decode data = Ok (p, length data)"
proof -
  have fr: "frame data fh" using assms(1) by simp
  from assms(2) obtain t r q d where t: "FixedHeader_unwrap fh = Ok (t, r, q, d)" "decode_as t data = Ok (p, length data)"
    by (auto simp: MQTTRead_parse_def and_then_eq_Inr Let_def split: if_split_asm)
  then obtain u where "FixedHeader_validate fh = Ok u"
    using frame_decode [OF fr] decode_as_header_err [of data] by (cases "FixedHeader_validate fh") auto
  with frame_decode [OF fr] t(1) have "header_type data = Ok t" by (auto simp: header_type_Ok)
  with t(2) show ?thesis by (simp add: Packet_decode_eq)
qed

text \<open>
  Between two states of the reader and of the input, the frames \<open>fs\<close> were completed, which decode to the
  packets \<open>ps\<close>; the rest is in the reader and in the input, unless the reader gave up.
\<close>

definition reads :: "MQTTRead \<Rightarrow> bytes \<Rightarrow> bytes list \<Rightarrow> Packet list \<Rightarrow> MQTTRead \<Rightarrow> bytes \<Rightarrow> bool" where
  "reads pr i fs ps pr' i' \<longleftrightarrow>
     list_all2 (\<lambda>f p. Packet_decode f = Ok (p, length f)) fs ps \<and>
     (\<exists>rest. concat fs @ rest = rcontent pr @ i \<and> (pr' \<noteq> RNone \<longrightarrow> rinv pr' \<and> rest = rcontent pr' @ i'))"

lemma socket_simps [simp]:
  "rd_packets (so_rd (set_pr pr s)) = rd_packets (so_rd s)" "up_chan (set_pr pr s) = up_chan s"
  "rd_pr (so_rd (set_pr pr s)) = pr" "rd_packets (so_rd (next_call s)) = rd_packets (so_rd s)"
  "up_chan (next_call s) = up_chan s" "rd_pr (so_rd (next_call s)) = rd_pr (so_rd s)"
  "rd_packets (so_rd (set_read_timeout s b t)) = rd_packets (so_rd s)"
  "up_chan (set_read_timeout s b t) = up_chan s"
  "rd_packets (so_rd (set_rd_packets ps s)) = ps" "up_chan (set_rd_packets ps s) = up_chan s"
  "rd_pr (so_rd (set_rd_packets ps s)) = rd_pr (so_rd s)"
  "so_rd (consume p p' s) = so_rd s" "up_chan (consume p p' s) = up_chan s"
  "input_of (set_pr pr s) = input_of s" "input_of (next_call s) = input_of s" "input_of (set_read_timeout s b t) = input_of s"
  "input_of (set_rd_packets ps s) = input_of s"
  "input_of (consume p p' s) = drop (length (rcontent p') - length (rcontent p)) (input_of s)"
  by (simp_all add: set_pr_def next_call_def set_read_timeout_def set_rd_packets_def up_chan_def consume_def input_of_def)

lemma conn_read_grows:
  assumes "grows (conn_read (so_conn s)) pr pr'"
  shows "rcontent pr' @ drop (length (rcontent pr') - length (rcontent pr)) (input_of s) = rcontent pr @ input_of s"
proof (cases "tcp_fault (so_conn s) (tcp_calls (so_conn s))")
  case None
  with assms grows_sock show ?thesis by (simp add: conn_read_def input_of_def)
next
  case (Some e)
  with assms have "rcontent pr' = rcontent pr" by (cases e) (auto simp: grows_def conn_read_def)
  then show ?thesis by simp
qed

lemma read_packet_reads:
  assumes "read_packet config s = (s', r)" and "rinv (rd_pr (so_rd s))"
  shows "up_chan s' = up_chan s \<and> rd_packets (so_rd s') = rd_packets (so_rd s) \<and>
    (case r of
       Inr st \<Rightarrow> (\<exists>fs. reads (rd_pr (so_rd s)) (input_of s) fs (queue_values st) (rd_pr (so_rd s')) (input_of s')) \<and>
         (case st of QOk vs \<Rightarrow> length vs = 1 \<and> rd_pr (so_rd s') \<noteq> RNone
          | QBlock vs \<Rightarrow> vs = [] \<and> rd_pr (so_rd s') \<noteq> RNone | QDisconnected vs \<Rightarrow> vs = [])
     | Inl e \<Rightarrow> True)"
proof (cases "MQTTRead_read (conn_read (so_conn s)) (rd_pr (so_rd s))")
  case (Inl e)
  with assms show ?thesis
    by (cases e) (auto simp: read_packet_def Let_def reads_def intro: exI [of _ "[]"] split: if_split_asm)
next
  case (Inr x)
  obtain pr wb where x: "x = (pr, wb)" by (cases x)
  define rest where "rest = drop (length (rcontent pr) - length (rcontent (rd_pr (so_rd s)))) (input_of s)"
  have pr: "rinv pr" "rcontent pr @ rest = rcontent (rd_pr (so_rd s)) @ input_of s"
    using read_Ok [OF Inr [unfolded x] assms(2)] conn_read_grows by (auto simp: rest_def)
  show ?thesis
  proof (cases pr)
    case (RFin data rem fh mx)
    show ?thesis
    proof (cases "MQTTRead_parse pr")
      case (Inr p)
      have "Packet_decode data = Ok (p, length data)" using parse_decodes pr(1) Inr RFin by blast
      moreover have "data @ rem @ rest = rcontent (rd_pr (so_rd s)) @ input_of s" using pr(2) RFin by simp
      ultimately have "reads (rd_pr (so_rd s)) (input_of s) [data] [p] (RInit rem mx) rest" by (simp add: reads_def)
      then have "\<exists>fs. reads (rd_pr (so_rd s)) (input_of s) fs [p] (RInit rem mx) rest" by blast
      moreover have "r = Ok (QOk [p]) \<and> rd_pr (so_rd s') = RInit rem mx \<and> input_of s' = rest \<and>
          up_chan s' = up_chan s \<and> rd_packets (so_rd s') = rd_packets (so_rd s)"
        using assms(1) \<open>MQTTRead_read _ _ = _\<close> x RFin Inr
        by (auto simp add: read_packet_def Let_def MQTTRead_reset_def rest_def)
      ultimately show ?thesis by simp
    qed (use assms Inr x RFin in \<open>auto simp: read_packet_def Let_def\<close>)
  qed (use assms Inr x pr in \<open>auto simp: read_packet_def Let_def reads_def rest_def intro: exI [of _ "[]"] split: if_split_asm\<close>)
qed

lemma reads_trans:
  assumes "reads pr i fs ps pr1 i1" and "reads pr1 i1 fs' ps' pr2 i2" and "pr1 \<noteq> RNone"
  shows "reads pr i (fs @ fs') (ps @ ps') pr2 i2"
proof -
  have "concat fs @ rcontent pr1 @ i1 = rcontent pr @ i" using assms(1,3) by (auto simp: reads_def)
  moreover obtain rest where "concat fs' @ rest = rcontent pr1 @ i1" "pr2 \<noteq> RNone \<longrightarrow> rinv pr2 \<and> rest = rcontent pr2 @ i2"
    using assms(2) by (auto simp: reads_def)
  ultimately have "\<exists>rest. concat (fs @ fs') @ rest = rcontent pr @ i \<and> (pr2 \<noteq> RNone \<longrightarrow> rinv pr2 \<and> rest = rcontent pr2 @ i2)"
    by (intro exI [of _ rest]) simp
  moreover have "list_all2 (\<lambda>f p. Packet_decode f = Ok (p, length f)) (fs @ fs') (ps @ ps')"
    using assms(1,2) by (simp add: reads_def list_all2_appendI)
  ultimately show ?thesis unfolding reads_def by blast
qed

lemma reads_refl: "rinv pr \<Longrightarrow> reads pr i [] [] pr i"
  by (simp add: reads_def)

text \<open>One turn of the loop of \<open>read_packets\<close>: the session gets what waits, then one packet is read.\<close>

lemma read_turn:
  assumes "send_upstream s = (s1, QOk vs)" and "read_packet config s1 = (s2, Ok st)" and "rinv (rd_pr (so_rd s))"
  defines "s3 \<equiv> set_rd_packets (rd_packets (so_rd s2) @ queue_values st) s2"
  obtains fs where "reads (rd_pr (so_rd s)) (input_of s) fs (queue_values st) (rd_pr (so_rd s3)) (input_of s3)"
    and "on_the_way s3 = on_the_way s @ queue_values st" and "ch_bound (up_chan s3) = ch_bound (up_chan s)"
    and "rd_packets (so_rd s3) = queue_values st"
    and "(case st of QOk vs \<Rightarrow> length vs = 1 \<and> rd_pr (so_rd s3) \<noteq> RNone
          | QBlock vs \<Rightarrow> vs = [] \<and> rd_pr (so_rd s3) \<noteq> RNone | QDisconnected vs \<Rightarrow> vs = [])"
proof -
  note u = send_upstream_eq [OF assms(1)] send_upstream_ok [OF assms(1)]
  from read_packet_reads [OF assms(2)] u assms(3) have
    r: "up_chan s2 = up_chan s1" "rd_packets (so_rd s2) = []"
      "\<exists>fs. reads (rd_pr (so_rd s)) (input_of s) fs (queue_values st) (rd_pr (so_rd s2)) (input_of s2)"
      "(case st of QOk vs \<Rightarrow> length vs = 1 \<and> rd_pr (so_rd s2) \<noteq> RNone
          | QBlock vs \<Rightarrow> vs = [] \<and> rd_pr (so_rd s2) \<noteq> RNone | QDisconnected vs \<Rightarrow> vs = [])"
    by auto
  from r(3) obtain fs where "reads (rd_pr (so_rd s)) (input_of s) fs (queue_values st) (rd_pr (so_rd s2)) (input_of s2)" by blast
  moreover have pr: "rd_pr (so_rd s3) = rd_pr (so_rd s2)" "input_of s3 = input_of s2" by (simp_all add: s3_def)
  ultimately show thesis using u r(1,2)
    by (intro that [of fs, OF _ _ _ _ r(4) [folded pr(1)]]) (simp_all add: s3_def on_the_way_def)
qed

lemma read_packets_reads:
  assumes "read_packets config s = Some (s', Ok st)" and "rinv (rd_pr (so_rd s))"
  shows "\<exists>fs ps. reads (rd_pr (so_rd s)) (input_of s) fs ps (rd_pr (so_rd s')) (input_of s') \<and> on_the_way s' = on_the_way s @ ps \<and>
    queue_values st = []"
proof -
  have "\<forall>s' st. out = (s', Ok st) \<and> rinv (rd_pr (so_rd s)) \<longrightarrow>
      (\<exists>fs ps. reads (rd_pr (so_rd s)) (input_of s) fs ps (rd_pr (so_rd s')) (input_of s') \<and> on_the_way s' = on_the_way s @ ps \<and>
        queue_values st = [])"
    if "read_packets config s = Some out" for config s out
  proof (rule read_packets.raw_induct [where P = "\<lambda>config s out. \<forall>s' st. out = (s', Ok st) \<and> rinv (rd_pr (so_rd s)) \<longrightarrow>
      (\<exists>fs ps. reads (rd_pr (so_rd s)) (input_of s) fs ps (rd_pr (so_rd s')) (input_of s') \<and> on_the_way s' = on_the_way s @ ps \<and>
        queue_values st = [])", OF _ that], intro allI impI, elim conjE)
    fix rp config s out s' st
    assume IH: "\<And>config s out. rp config s = Some out \<Longrightarrow> \<forall>s' st. out = (s', Ok st) \<and> rinv (rd_pr (so_rd s)) \<longrightarrow>
      (\<exists>fs ps. reads (rd_pr (so_rd s)) (input_of s) fs ps (rd_pr (so_rd s')) (input_of s') \<and> on_the_way s' = on_the_way s @ ps \<and>
        queue_values st = [])"
      and body: "(case send_upstream s of (self, status) \<Rightarrow>
          (case status of
             QOk _ \<Rightarrow>
               (case read_packet config self of
                  (self, Inl e) \<Rightarrow> Some (self, Inl e)
                | (self, Inr status) \<Rightarrow>
                    (let self = set_rd_packets (rd_packets (so_rd self) @ queue_values status) self;
                         upstream = (case send_upstream self of (self, status) \<Rightarrow> Some (self, Ok status))
                     in case status of
                          QOk _ \<Rightarrow>
                            if length (rd_packets (so_rd self)) < unat (cfg_mqtt_pkt_batch_size config)
                            then rp config self
                            else upstream
                        | QBlock _ \<Rightarrow> upstream
                        | QDisconnected _ \<Rightarrow>
                            if length (rd_packets (so_rd self)) = 0
                            then Some (self, Ok (QDisconnected []))
                            else upstream))
           | QBlock _ \<Rightarrow> Some (self, Ok status)
           | QDisconnected _ \<Rightarrow> Some (self, Ok status))) = Some out"
      and out: "out = (s', Ok st)" and inv: "rinv (rd_pr (so_rd s))"
    obtain s1 st1 where s1: "send_upstream s = (s1, st1)" by (cases "send_upstream s")
    show "\<exists>fs ps. reads (rd_pr (so_rd s)) (input_of s) fs ps (rd_pr (so_rd s')) (input_of s') \<and> on_the_way s' = on_the_way s @ ps \<and>
        queue_values st = []"
    proof (cases "\<exists>vs. st1 = QOk vs")
      case False
      then have "s' = s1" "st = st1" using body s1 out by (cases st1; auto)+
      with send_upstream_eq [OF s1] reads_refl [OF inv] show ?thesis by auto
    next
      case True
      then obtain vs where st1: "st1 = QOk vs" by blast
      obtain s2 st2 where s2: "read_packet config s1 = (s2, Ok st2)"
        using body s1 st1 out by (auto split: prod.split_asm sum.split_asm)
      let ?s3 = "set_rd_packets (rd_packets (so_rd s2) @ queue_values st2) s2"
      obtain fs where t: "reads (rd_pr (so_rd s)) (input_of s) fs (queue_values st2) (rd_pr (so_rd ?s3)) (input_of ?s3)"
        "on_the_way ?s3 = on_the_way s @ queue_values st2"
        "(case st2 of QOk vs \<Rightarrow> length vs = 1 \<and> rd_pr (so_rd ?s3) \<noteq> RNone
          | QBlock vs \<Rightarrow> vs = [] \<and> rd_pr (so_rd ?s3) \<noteq> RNone | QDisconnected vs \<Rightarrow> vs = [])"
        by (rule read_turn [OF s1 [unfolded st1] s2 inv])
      consider (rec) vs where "st2 = QOk vs" "rp config ?s3 = Some out"
        | (up) "send_upstream ?s3 = (s', st)" | (disc) "s' = ?s3" "st = QDisconnected []"
        using body s1 st1 s2 out by (cases st2) (auto simp: Let_def split: if_split_asm prod.split_asm)
      then show ?thesis
      proof cases
        case rec
        have "rinv (rd_pr (so_rd ?s3))" using t(1,3) rec(1) by (simp add: reads_def)
        with IH [OF rec(2)] out obtain fs' ps' where
          "reads (rd_pr (so_rd ?s3)) (input_of ?s3) fs' ps' (rd_pr (so_rd s')) (input_of s')" "on_the_way s' = on_the_way ?s3 @ ps'" "queue_values st = []"
          by blast
        moreover from reads_trans [OF t(1) this(1)] t(3) rec(1)
        have "reads (rd_pr (so_rd s)) (input_of s) (fs @ fs') (queue_values st2 @ ps') (rd_pr (so_rd s')) (input_of s')" by simp
        ultimately show ?thesis using t(2) by auto
      next
        case up
        from send_upstream_eq [OF up] t show ?thesis by auto
      next
        case disc
        with t show ?thesis by auto
      qed
    qed
  qed
  with assms show ?thesis by blast
qed

text \<open>The loop ends: every turn puts one more packet into the bounded channel.\<close>

lemma read_packets_returns:
  assumes "rinv (rd_pr (so_rd s))"
  shows "\<exists>out. read_packets config s = Some out"
  using assms
proof (induction "Suc (ch_bound (up_chan s)) - length (on_the_way s)" arbitrary: s rule: less_induct)
  case less
  obtain s1 st1 where s1: "send_upstream s = (s1, st1)" by (cases "send_upstream s")
  obtain s2 r where s2: "read_packet config s1 = (s2, r)" by (cases "read_packet config s1")
  show ?case
  proof (cases st1)
    case (QOk vs)
    show ?thesis
    proof (cases r)
      case (Inl e)
      with s1 s2 QOk show ?thesis by (subst read_packets.simps) simp
    next
      case (Inr st2)
      let ?s3 = "set_rd_packets (rd_packets (so_rd s2) @ queue_values st2) s2"
      obtain fs where t: "reads (rd_pr (so_rd s)) (input_of s) fs (queue_values st2) (rd_pr (so_rd ?s3)) (input_of ?s3)"
        "on_the_way ?s3 = on_the_way s @ queue_values st2" "ch_bound (up_chan ?s3) = ch_bound (up_chan s)"
        "rd_packets (so_rd ?s3) = queue_values st2"
        "(case st2 of QOk vs \<Rightarrow> length vs = 1 \<and> rd_pr (so_rd ?s3) \<noteq> RNone
          | QBlock vs \<Rightarrow> vs = [] \<and> rd_pr (so_rd ?s3) \<noteq> RNone | QDisconnected vs \<Rightarrow> vs = [])"
        by (rule read_turn [OF s1 [unfolded QOk] s2 [unfolded Inr] less.prems])
      have "\<exists>out. read_packets config ?s3 = Some out" if st2: "st2 = QOk ws" for ws
      proof (cases "length (on_the_way s) \<le> ch_bound (up_chan s)")
        case True
        moreover have "rinv (rd_pr (so_rd ?s3))" using t(1,5) st2 by (simp add: reads_def)
        ultimately show ?thesis using less.hyps [of ?s3] t(2,3,5) st2 by simp
      next
        case False
        obtain s4 st4 where s4: "send_upstream ?s3 = (s4, st4)" by (cases "send_upstream ?s3")
        have "st4 \<noteq> QOk xs" for xs
          using send_upstream_ok [of ?s3 s4 xs] s4 t(2,3,4,5) st2 False by auto
        then obtain xs where "st4 = QBlock xs \<or> st4 = QDisconnected xs" by (cases st4) auto
        then show ?thesis using s4 by (subst read_packets.simps) auto
      qed
      with s1 s2 QOk Inr show ?thesis
        by (subst read_packets.simps) (cases st2; auto simp: Let_def split: prod.split)
    qed
  qed (use s1 in \<open>subst read_packets.simps; simp\<close>)+
qed

section \<open>What is written\<close>

text \<open>The bytes of a packet on the wire; one that is too large for the peer is dropped by the writer.\<close>

definition wire :: "usize \<Rightarrow> Packet \<Rightarrow> bytes" where
  "wire mx p = (case Packet_encode p of Inr b \<Rightarrow> if length (as_ref b) > mx then [] else as_ref b | Inl _ \<Rightarrow> [])"

definition outgoing :: "Socket \<Rightarrow> Packet list \<Rightarrow> bytes" where
  "outgoing s ps = tcp_sent (so_conn s) @ wpending (wt_pw (so_wt s)) @ concat (map (wire (wmax (wt_pw (so_wt s)))) ps)"

lemma sink_simps [simp]:
  "wt_pw (so_wt (set_pw pw s)) = pw" "wt_packets (so_wt (set_pw pw s)) = wt_packets (so_wt s)"
  "so_conn (set_pw pw s) = so_conn s" "so_wt (next_call s) = so_wt s"
  "tcp_sent (so_conn (next_call s)) = tcp_sent (so_conn s)" "so_wt (add_sent bs s) = so_wt s"
  "tcp_sent (so_conn (add_sent bs s)) = tcp_sent (so_conn s) @ bs"
  "wt_pw (so_wt (set_write_timeout s b t)) = wt_pw (so_wt s)" "so_conn (set_write_timeout s b t) = so_conn s"
  "wt_packets (so_wt (set_write_timeout s b t)) = wt_packets (so_wt s)"
  "wt_pw (so_wt (set_wt_packets ps s)) = wt_pw (so_wt s)" "so_conn (set_wt_packets ps s) = so_conn s"
  "wt_packets (so_wt (set_wt_packets ps s)) = ps"
  by (simp_all add: set_pw_def next_call_def add_sent_def set_write_timeout_def set_wt_packets_def)

lemma write_packet_sends:
  assumes "write_packet config s = Ok (s', res)" and "winv (wt_pw (so_wt s))"
  shows "queue_values res = [] \<and> wt_packets (so_wt s') = wt_packets (so_wt s) \<and>
    (wt_pw (so_wt s') = WNone \<and> res = QDisconnected [] \<or>
     winv (wt_pw (so_wt s')) \<and> wmax (wt_pw (so_wt s')) = wmax (wt_pw (so_wt s)) \<and>
     tcp_sent (so_conn s') @ wpending (wt_pw (so_wt s')) = tcp_sent (so_conn s) @ wpending (wt_pw (so_wt s)) \<and>
     (res = QOk [] \<longrightarrow> is_wfin (wt_pw (so_wt s'))))"
proof (cases "MQTTWrite_write (tcp_write (so_conn s) (tcp_calls (so_conn s))) (wt_pw (so_wt s))")
  case (Inl e)
  with assms(1) show ?thesis
    by (cases e) (auto simp: write_packet_def Let_def split: if_split_asm)
next
  case (Inr x)
  obtain pw wb where x: "x = (pw, wb)" by (cases x)
  let ?wr = "tcp_write (so_conn s) (tcp_calls (so_conn s))"
  note w = write_Ok [OF Inr [unfolded x] assms(2)]
  have "conn_takes ?wr (wt_pw (so_wt s)) @ wpending pw = wpending (wt_pw (so_wt s))"
    using w by (cases "wpending (wt_pw (so_wt s)) = []"; cases pw) (auto simp: conn_takes_def)
  with assms(1) Inr x w show ?thesis
    by (cases pw) (auto simp: write_packet_def Let_def split: if_split_asm)
qed

lemma flush_loop_step:
  assumes "write_packet config s = Ok (s1, QOk [])"
  shows "flush_loop config [] s stats = Ok (s1, [], QOk [], stats)"
    and "flush_loop config (p # ps) s stats =
      (case Packet_encode p of
         Inl Panic \<Rightarrow> panic
       | Inl (Err _) \<Rightarrow> flush_loop config ps s1 stats
       | Inr blob \<Rightarrow>
           let stats = stats\<lparr>ss_bytes := ss_bytes stats + length (as_ref blob)\<rparr> in
           if tcp_flush (so_conn s1) (tcp_calls (so_conn s1))
           then and_then (MQTTWrite_reset (as_ref blob) (wt_pw (so_wt s1))) (\<lambda>pw.
                  flush_loop config ps (set_pw pw (next_call s1)) (stats\<lparr>ss_items := ss_items stats + 1\<rparr>))
           else Ok (next_call s1, ps, QDisconnected [], stats))"
  using assms by (simp_all add: flush_loop.simps [of config "[]"] flush_loop.simps [of config "p # ps"]
      Let_def split: sum.split fault.split)

lemma flush_loop_stop:
  "\<lbrakk>write_packet config s = Ok (s1, r1); r1 \<noteq> QOk []; queue_values r1 = []\<rbrakk> \<Longrightarrow>
     flush_loop config iter s stats = Ok (s1, iter, r1, stats)"
  by (cases r1) (simp_all add: flush_loop.simps)

lemma flush_loop_sends:
  assumes "flush_loop config iter s stats = Ok (s', iter', res, stats')" and "winv (wt_pw (so_wt s))"
  shows "queue_values res = [] \<and> wt_packets (so_wt s') = wt_packets (so_wt s) \<and>
    (res = QDisconnected [] \<or>
     winv (wt_pw (so_wt s')) \<and> wmax (wt_pw (so_wt s')) = wmax (wt_pw (so_wt s)) \<and>
     outgoing s' iter' = outgoing s iter \<and> (res = QOk [] \<longrightarrow> iter' = [] \<and> is_wfin (wt_pw (so_wt s'))))"
  using assms
proof (induction iter arbitrary: s stats)
  case Nil
  from Nil(1) obtain s1 r1 where w: "write_packet config s = Ok (s1, r1)"
    by (auto simp: flush_loop.simps and_then_eq_Inr)
  note ok = write_packet_sends [OF w Nil(2)]
  from Nil(1) w ok flush_loop_stop [OF w, of "[]" stats] flush_loop_step(1) [of config s s1 stats] show ?case
    by (cases "r1 = QOk []") (auto simp: outgoing_def)
next
  case (Cons p ps)
  from Cons(2) obtain s1 r1 where w: "write_packet config s = Ok (s1, r1)"
    by (auto simp: flush_loop.simps [of config "p # ps"] and_then_eq_Inr)
  note ok = write_packet_sends [OF w Cons(3)]
  show ?case
  proof (cases "r1 = QOk []")
    case False
    with Cons(2) w ok flush_loop_stop [OF w, of "p # ps" stats] show ?thesis by (auto simp: outgoing_def)
  next
    case True
    note step = flush_loop_step(2) [OF w [unfolded True], of p ps stats]
    obtain data mx where pw: "wt_pw (so_wt s1) = WFin data mx" using ok True by (cases "wt_pw (so_wt s1)") auto
    have o1: "outgoing s (p # ps) = tcp_sent (so_conn s1) @ wire mx p @ concat (map (wire mx) ps)"
      "wmax (wt_pw (so_wt s)) = mx" using ok True pw by (auto simp: outgoing_def)
    show ?thesis
    proof (cases "Packet_encode p")
      case (Inl e)
      with Cons(2) step have l: "flush_loop config ps s1 stats = Ok (s', iter', res, stats')"
        by (cases e) auto
      have "winv (wt_pw (so_wt s1))" using pw by simp
      moreover have "outgoing s1 ps = outgoing s (p # ps)" "wmax (wt_pw (so_wt s1)) = wmax (wt_pw (so_wt s))"
        unfolding o1 by (simp_all add: outgoing_def wire_def pw Inl)
      ultimately show ?thesis using Cons.IH [OF l] ok by simp
    next
      case (Inr b)
      show ?thesis
      proof (cases "tcp_flush (so_conn s1) (tcp_calls (so_conn s1))")
        case False
        with Cons(2) step Inr ok show ?thesis by (auto simp: Let_def)
      next
        case True
        define s2 where "s2 = set_pw (WInit (as_ref b) mx) (next_call s1)"
        from Cons(2) step Inr True pw obtain stats2 where l: "flush_loop config ps s2 stats2 = Ok (s', iter', res, stats')"
          by (auto simp: Let_def MQTTWrite_reset_def s2_def)
        have "winv (wt_pw (so_wt s2))" by (simp add: s2_def)
        moreover have "outgoing s2 ps = outgoing s (p # ps)" "wmax (wt_pw (so_wt s2)) = wmax (wt_pw (so_wt s))"
          "wt_packets (so_wt s2) = wt_packets (so_wt s1)"
          unfolding o1 by (simp_all add: outgoing_def wire_def s2_def Inr)
        ultimately show ?thesis using Cons.IH [OF l] ok by simp
      qed
    qed
  qed
qed

lemma flush_packets_sends:
  assumes "flush_packets config s = Ok (s', res, stats)" and "winv (wt_pw (so_wt s))"
  shows "queue_values res = [] \<and>
    (res = QDisconnected [] \<or>
     winv (wt_pw (so_wt s')) \<and> wmax (wt_pw (so_wt s')) = wmax (wt_pw (so_wt s)) \<and>
     outgoing s' (wt_packets (so_wt s')) = outgoing s (wt_packets (so_wt s)) \<and>
     (res = QOk [] \<longrightarrow> wt_packets (so_wt s') = []))"
proof -
  from assms(1) obtain s1 iter where l: "flush_loop config (wt_packets (so_wt s)) (set_wt_packets [] s) SockStats_default =
      Ok (s1, iter, res, stats)" and s': "s' = set_wt_packets (wt_packets (so_wt s1) @ iter) s1"
    by (auto simp: flush_packets_def and_then_eq_Inr)
  have "outgoing (set_wt_packets xs t) = outgoing t" for xs t by (simp add: outgoing_def fun_eq_iff)
  with flush_loop_sends [OF l] assms(2) s' show ?thesis by auto
qed

lemma rx_simps [simp]:
  "wt_miot_rx (so_wt (set_pw pw s)) = wt_miot_rx (so_wt s)"
  "wt_miot_rx (so_wt (set_write_timeout s b t)) = wt_miot_rx (so_wt s)"
  "wt_miot_rx (so_wt (set_wt_packets ps s)) = wt_miot_rx (so_wt s)"
  by (simp_all add: set_pw_def set_write_timeout_def set_wt_packets_def)

lemma write_packet_rx: "write_packet config s = Ok (s', res) \<Longrightarrow> wt_miot_rx (so_wt s') = wt_miot_rx (so_wt s)"
  by (auto simp: write_packet_def Let_def split: sum.split_asm fault.split_asm if_split_asm MQTTWrite.split_asm)

lemma flush_loop_rx:
  "flush_loop config iter s stats = Ok (s', iter', res, stats') \<Longrightarrow> wt_miot_rx (so_wt s') = wt_miot_rx (so_wt s)"
proof (induction iter arbitrary: s stats)
  case Nil
  then obtain s1 r1 where w: "write_packet config s = Ok (s1, r1)"
    by (auto simp: flush_loop.simps [of config "[]"] and_then_eq_Inr)
  with Nil write_packet_rx [OF w] show ?case by (cases r1) (auto simp: flush_loop.simps [of config "[]"])
next
  case (Cons p ps)
  from Cons(2) obtain s1 r1 where w: "write_packet config s = Ok (s1, r1)"
    by (auto simp: flush_loop.simps [of config "p # ps"] and_then_eq_Inr)
  with Cons write_packet_rx [OF w] show ?case
    by (auto simp: flush_loop.simps [of config "p # ps"] Let_def and_then_eq_Inr
        split: QueueStatus.split_asm sum.split_asm fault.split_asm if_split_asm)
qed

lemma flush_packets_rx: "flush_packets config s = Ok (s', res, stats) \<Longrightarrow> wt_miot_rx (so_wt s') = wt_miot_rx (so_wt s)"
  by (auto simp: flush_packets_def and_then_eq_Inr dest: flush_loop_rx)

text \<open>The packets that wait for the connection, in the socket and in the channel behind it.\<close>

definition queued :: "Socket \<Rightarrow> Packet list" where
  "queued s = wt_packets (so_wt s) @ ch_queue (pr_rx (wt_miot_rx (so_wt s)))"

definition received :: "Socket \<Rightarrow> PktRx \<Rightarrow> QueuePkt \<Rightarrow> Socket" where
  "received s rx st =
     s\<lparr>so_wt := (so_wt s)\<lparr>wt_miot_rx := rx, wt_packets := wt_packets (so_wt s) @ queue_values st\<rparr>\<rparr>"

lemma received_simps [simp]:
  "so_conn (received s rx st) = so_conn s" "wt_pw (so_wt (received s rx st)) = wt_pw (so_wt s)"
  "outgoing (received s rx st) = outgoing s" "wt_miot_rx (so_wt (received s rx st)) = rx"
  "wt_packets (so_wt (received s rx st)) = wt_packets (so_wt s) @ queue_values st"
  by (simp_all add: received_def outgoing_def fun_eq_iff)

lemma received_queued:
  assumes "PktRx_try_recvs (wt_miot_rx (so_wt s)) = (rx, st)"
  shows "queued (received s rx st) = queued s"
    and "st = QOk vs \<Longrightarrow> length (ch_queue (pr_rx rx)) < length (ch_queue (pr_rx (wt_miot_rx (so_wt s))))"
proof -
  let ?r = "wt_miot_rx (so_wt s)"
  obtain c where c: "try_recvs_loop (pr_pkt_batch_size ?r) [] (pr_rx ?r) = (c, st)" "rx = ?r\<lparr>pr_rx := c\<rparr>"
    using assms by (auto simp: PktRx_try_recvs_def split: prod.split_asm)
  from try_recvs_loop_items [OF c(1)] c(2) show "queued (received s rx st) = queued s" by (simp add: queued_def)
  show "length (ch_queue (pr_rx rx)) < length (ch_queue (pr_rx ?r))" if "st = QOk vs"
    using c that try_recvs_loop_eq [of "[]" "pr_pkt_batch_size ?r" "pr_rx ?r"]
    by (auto simp: Let_def split: if_split_asm)
qed

lemma write_packets_loop_step:
  "write_packets_loop config s stats =
     (case flush_packets config s of
        Inl e \<Rightarrow> Some (Inl e)
      | Inr (s, status, flush_stats) \<Rightarrow>
          (let stats = SockStats_update stats flush_stats
           in case status of
                QOk _ \<Rightarrow>
                  (case PktRx_try_recvs (wt_miot_rx (so_wt s)) of
                     (rx, status) \<Rightarrow>
                       (let s = received s rx status
                        in case status of
                             QOk _ \<Rightarrow> write_packets_loop config s stats
                           | QBlock _ \<Rightarrow>
                               Some (and_then (flush_packets config s) (\<lambda>(s, status, flush_stats).
                                 Ok (s, status, SockStats_update stats flush_stats)))
                           | QDisconnected _ \<Rightarrow> Some (Ok (s, QDisconnected [], stats))))
              | _ \<Rightarrow> Some (Ok (s, status, stats))))"
  by (subst write_packets_loop.simps)
    (simp add: received_def Let_def split: sum.split prod.split QueueStatus.split)

lemma write_packets_loop_returns: "\<exists>out. write_packets_loop config s stats = Some out"
proof (induction "length (ch_queue (pr_rx (wt_miot_rx (so_wt s))))" arbitrary: s stats rule: less_induct)
  case less
  show ?case
  proof (cases "flush_packets config s")
    case (Inl e)
    then show ?thesis by (subst write_packets_loop_step) simp
  next
    case (Inr x)
    obtain s1 st1 fs where x: "x = (s1, st1, fs)" by (cases x)
    obtain rx st2 where r: "PktRx_try_recvs (wt_miot_rx (so_wt s1)) = (rx, st2)"
      by (cases "PktRx_try_recvs (wt_miot_rx (so_wt s1))")
    have "\<exists>out. write_packets_loop config (received s1 rx st2) stats' = Some out" if "st2 = QOk vs" for vs stats'
      using less [of "received s1 rx st2" stats'] received_queued(2) [OF r that] flush_packets_rx [OF Inr [unfolded x]]
      by simp
    with Inr x r show ?thesis
      by (subst write_packets_loop_step) (cases st1; cases st2; simp add: Let_def)
  qed
qed

lemma write_packets_loop_sends:
  assumes "write_packets_loop config s stats = Some (Ok (s', st, stats'))" and "winv (wt_pw (so_wt s))"
  shows "queue_values st = [] \<and> (st = QDisconnected [] \<or>
    winv (wt_pw (so_wt s')) \<and> outgoing s' (queued s') = outgoing s (queued s))"
  using assms
proof (induction "length (ch_queue (pr_rx (wt_miot_rx (so_wt s))))" arbitrary: s stats rule: less_induct)
  case less
  from less.prems(1) obtain s1 st1 fs where f: "flush_packets config s = Ok (s1, st1, fs)"
    by (subst (asm) write_packets_loop_step) (auto split: sum.split_asm)
  note f1 = flush_packets_sends [OF f less.prems(2)] and f2 = flush_packets_rx [OF f]
  have out: "outgoing t (xs @ ys) = outgoing t xs @ concat (map (wire (wmax (wt_pw (so_wt t)))) ys)" for t xs ys
    by (simp add: outgoing_def)
  have q1: "outgoing s1 (queued s1) = outgoing s (queued s)" if "st1 \<noteq> QDisconnected []"
    using f1 f2 that by (simp add: queued_def out)
  obtain rx st2 where r: "PktRx_try_recvs (wt_miot_rx (so_wt s1)) = (rx, st2)"
    by (cases "PktRx_try_recvs (wt_miot_rx (so_wt s1))")
  let ?s2 = "received s1 rx st2"
  have q2: "outgoing ?s2 (queued ?s2) = outgoing s1 (queued s1)" using received_queued(1) [OF r] by simp
  show ?case
  proof (cases "st1 = QOk []")
    case False
    with less.prems(1) f f1 have "s' = s1 \<and> st = st1"
      by (subst (asm) write_packets_loop_step) (cases st1; auto)
    with f1 q1 show ?thesis by auto
  next
    case True
    with f1 have w1: "winv (wt_pw (so_wt ?s2))" by simp
    show ?thesis
    proof (cases st2)
      case (QOk vs)
      with less.prems(1) f True r have l: "write_packets_loop config ?s2 (SockStats_update stats fs) = Some (Ok (s', st, stats'))"
        by (subst (asm) write_packets_loop_step) simp
      from less.hyps [OF _ l w1] received_queued(2) [OF r QOk] f2 q1 q2 True show ?thesis by simp
    next
      case (QBlock vs)
      with less.prems(1) f True r obtain fs' where l: "flush_packets config ?s2 = Ok (s', st, fs')"
        by (subst (asm) write_packets_loop_step) (auto simp: and_then_eq_Inr)
      from flush_packets_sends [OF l w1] flush_packets_rx [OF l] q1 q2 True show ?thesis by (auto simp: queued_def out)
    next
      case (QDisconnected vs)
      with less.prems(1) f True r show ?thesis by (subst (asm) write_packets_loop_step) auto
    qed
  qed
qed

end
