(* ===== verification/Thread.thy ===== *)
theory Thread
  imports Queue
begin

text \<open>
  Model of \<open>src/broker/thread.rs\<close>: how threads talk to each other. A handle \<open>Tx\<close> is what its holder can
  observe of it: whether the thread still receives, whether it has a waker and waking works, and what
  was sent. The answer to a request is given by the thread that receives it and is an argument here.
  Spawning and joining threads is not modelled.
\<close>

section \<open>Sending\<close>

record 'q Tx =
  tx_receives :: bool
  tx_waker :: "bool option"
  tx_sent :: "'q list"

definition wake :: "'q Tx \<Rightarrow> unit result" where
  "wake self = (case tx_waker self of Some False \<Rightarrow> err_desc ErrorKind.IOError | _ \<Rightarrow> Ok ())"

text \<open>Both kinds of channel, with and without a bound, are used alike.\<close>

definition Tx_post :: "'q Tx \<Rightarrow> 'q \<Rightarrow> 'q Tx \<times> unit result" where
  "Tx_post self msg =
     (if \<not> tx_receives self then (self, err_desc ErrorKind.IPCFail)
      else (self\<lparr>tx_sent := tx_sent self @ [msg]\<rparr>, wake self))"

text \<open>\<open>resp\<close> is what arrives on the channel for the answer, or nothing when its sender is dropped.\<close>

definition Tx_request :: "'q Tx \<Rightarrow> 'q \<Rightarrow> 'r option \<Rightarrow> 'q Tx \<times> 'r result" where
  "Tx_request self req resp =
     (if \<not> tx_receives self then (self, err_desc ErrorKind.IPCFail)
      else (self\<lparr>tx_sent := tx_sent self @ [req]\<rparr>,
        and_then (wake self) (\<lambda>_.
          case resp of Some r \<Rightarrow> Ok r | None \<Rightarrow> err_desc ErrorKind.IPCFail)))"

section \<open>Receiving\<close>

text \<open>The loop is that of \<open>try_recvs\<close>.\<close>

definition pending_requests :: "'q chan \<Rightarrow> usize \<Rightarrow> 'q chan \<times> 'q QueueStatus" where
  "pending_requests rx mx = try_recvs_loop mx [] rx"

text \<open>\<open>None\<close> while the call blocks. The status of the second receive is dropped.\<close>

definition get_requests :: "'q chan \<Rightarrow> usize \<Rightarrow> ('q chan \<times> 'q QueueStatus) option" where
  "get_requests rx mx =
     (case chan_try_recv rx of
        NothingYet \<Rightarrow> None
      | NoSender \<Rightarrow> Some (rx, QDisconnected [])
      | Received req rx \<Rightarrow>
          (case pending_requests rx mx of
             (rx, status) \<Rightarrow> Some (rx, QOk (req # queue_values status))))"

text \<open>A receive that did not drain the channel took something from it.\<close>

lemma pending_shrinks:
  assumes "pending_requests rx mx = (rx', st)" and "take_values st = (reqs, QOk vs)"
  shows "length (ch_queue rx') < length (ch_queue rx)"
  using assms try_recvs_loop_eq [of "[]" mx rx]
  by (auto simp: pending_requests_def take_values_def Let_def split: if_split_asm)

end
