(* ===== verification/KeepAlive.thy ===== *)
theory KeepAlive
  imports Config V5_Connect
begin

text \<open>
  Model of \<open>src/broker/keep_alive.rs\<close>. The clock is a parameter, in nanoseconds; the difference of two
  instants is zero when the second one is later. The prefix of log lines is left out.
\<close>

record KeepAlive =
  ka_interval :: "u16 option"
  ka_alive_at :: nat

definition KeepAlive_new :: "nat \<Rightarrow> Connect \<Rightarrow> Config \<Rightarrow> KeepAlive" where
  "KeepAlive_new now pkt config =
     (let factor = cfg_mqtt_keep_alive_factor config;
          interval = (case Config_mqtt_keep_alive config of
              Some val \<Rightarrow> Some (f32_as_u16 (f32_mul (f32_of_int (uint val)) factor))
            | None \<Rightarrow>
                if con_keep_alive pkt = 0 then None
                else Some (f32_as_u16 (f32_mul (f32_of_int (uint (con_keep_alive pkt))) factor)))
      in \<lparr>ka_interval = interval, ka_alive_at = now\<rparr>)"

abbreviation (input) KeepAlive_keep_alive :: "KeepAlive \<Rightarrow> u16 option" where
  "KeepAlive_keep_alive self \<equiv> ka_interval self"

definition check_expired :: "nat \<Rightarrow> KeepAlive \<Rightarrow> nat result" where
  "check_expired now self =
     (case ka_interval self of
        Some interval \<Rightarrow>
          let interval = unat interval * 1000000000; diff = (ka_alive_at self + interval) - now
          in if diff = 0 then err ErrorKind.ProtocolError KeepAliveTimeout else Ok diff
      | None \<Rightarrow> Ok ((2 ^ 64 - 1) * 1000000000))"

abbreviation (input) KeepAlive_live :: "nat \<Rightarrow> KeepAlive \<Rightarrow> KeepAlive" where
  "KeepAlive_live now self \<equiv> self\<lparr>ka_alive_at := now\<rparr>"

section \<open>Facts\<close>

lemma check_expired_err:
  "check_expired now k = Inl e \<longleftrightarrow>
     e = Err \<lparr>err_kind = ErrorKind.ProtocolError, err_code = Some KeepAliveTimeout\<rparr> \<and>
     (\<exists>i. ka_interval k = Some i \<and> ka_alive_at k + unat i * 1000000000 \<le> now)"
  by (auto simp: check_expired_def Let_def err_def split: option.split)

lemma f32_round_exact: "nat \<bar>m\<bar> < 2 ^ 24 \<Longrightarrow> f32_round m e = (m, e)"
  by (simp add: f32_round_def Let_def)

text \<open>With the factor of the defaults, one and a half times the seconds, up to the largest \<open>u16\<close>.\<close>

lemma default_factor:
  assumes "n < 2 ^ 22"
  shows "f32_as_u16 (f32_mul (f32_of_int (int n)) DEF_MQTT_KEEP_ALIVE_FACTOR) = of_nat (min (3 * n div 2) 65535)"
proof -
  have "f32_of_int (int n) = (int n, 0)" unfolding f32_of_int_def by (rule f32_round_exact) (use assms in simp)
  moreover have "f32_round (int n * 3) (- 1) = (int n * 3, - 1)" by (rule f32_round_exact) (use assms in simp)
  ultimately show ?thesis
    by (simp add: f32_mul_def f32_as_u16_def Let_def nat_mult_distrib mult.commute)
qed

end
