(* ===== verification/BTreeMap.thy ===== *)
theory BTreeMap
  imports Prelude
begin

text \<open>
  The operations of \<open>std::collections::BTreeMap\<close> that the broker uses, on association lists with
  strictly increasing keys; iteration is the list itself. The locale states what a client may rely on,
  and shows what a loop of insertions or removals leaves.
\<close>

type_synonym ('k, 'v) btree = "('k \<times> 'v) list"

definition bt_wf :: "('k :: linorder, 'v) btree \<Rightarrow> bool" where
  "bt_wf m \<longleftrightarrow> sorted_wrt (<) (map fst m)"

definition bt_get :: "('k, 'v) btree \<Rightarrow> 'k \<Rightarrow> 'v option" where
  "bt_get m k = map_of m k"

fun bt_insert :: "'k :: linorder \<Rightarrow> 'v \<Rightarrow> ('k, 'v) btree \<Rightarrow> ('k, 'v) btree" where
  "bt_insert k v [] = [(k, v)]"
| "bt_insert k v ((k', v') # m) =
     (if k < k' then (k, v) # (k', v') # m
      else if k = k' then (k, v) # m
      else (k', v') # bt_insert k v m)"

fun bt_remove :: "'k \<Rightarrow> ('k, 'v) btree \<Rightarrow> ('k, 'v) btree" where
  "bt_remove k [] = []"
| "bt_remove k ((k', v') # m) = (if k = k' then m else (k', v') # bt_remove k m)"

section \<open>The contract\<close>

locale ordered_map =
  fixes get :: "'m \<Rightarrow> 'k \<Rightarrow> 'v option"
    and put :: "'k \<Rightarrow> 'v \<Rightarrow> 'm \<Rightarrow> 'm"
    and del :: "'k \<Rightarrow> 'm \<Rightarrow> 'm"
    and ok :: "'m \<Rightarrow> bool"
  assumes get_put: "ok m \<Longrightarrow> get (put k v m) = (get m)(k \<mapsto> v)"
    and get_del: "ok m \<Longrightarrow> get (del k m) = (get m)(k := None)"
    and ok_put: "ok m \<Longrightarrow> ok (put k v m)"
    and ok_del: "ok m \<Longrightarrow> ok (del k m)"
begin

lemma put_all_ok: "ok m \<Longrightarrow> ok (fold (\<lambda>x. put (key x) (val x)) xs m)"
  by (induction xs arbitrary: m) (simp_all add: ok_put)

lemma put_all_get:
  "ok m \<Longrightarrow> get (fold (\<lambda>x. put (key x) (val x)) xs m) = get m ++ map_of (rev (map (\<lambda>x. (key x, val x)) xs))"
  by (induction xs arbitrary: m) (simp_all add: ok_put get_put)

lemma del_all_ok: "ok m \<Longrightarrow> ok (fold (\<lambda>x. del (key x)) xs m)"
  by (induction xs arbitrary: m) (simp_all add: ok_del)

lemma del_all_get: "ok m \<Longrightarrow> get (fold (\<lambda>x. del (key x)) xs m) = get m |` (- key ` set xs)"
proof (induction xs arbitrary: m)
  case (Cons x xs)
  then have "get (fold (\<lambda>x. del (key x)) (x # xs) m) = (get m)(key x := None) |` (- key ` set xs)"
    by (simp only: fold_simps ok_del get_del)
  also have "\<dots> = get m |` (- key ` set (x # xs))" by (auto simp: restrict_map_def fun_eq_iff)
  finally show ?case .
qed (simp add: restrict_map_def)

end

section \<open>Sorted lists meet it\<close>

lemma bt_wf_simps [simp]:
  "bt_wf []"
  "bt_wf ((k, v) # m) \<longleftrightarrow> bt_wf m \<and> (\<forall>x \<in> set m. k < fst x)"
  by (auto simp: bt_wf_def)

lemma bt_insert_keys: "fst ` set (bt_insert k v m) = insert k (fst ` set m)"
  by (induction k v m rule: bt_insert.induct) auto

lemma bt_insert_fst: "x \<in> set (bt_insert k v m) \<Longrightarrow> fst x = k \<or> x \<in> set m"
  by (induction k v m rule: bt_insert.induct) (auto split: if_split_asm)

lemma bt_wf_insert: "bt_wf m \<Longrightarrow> bt_wf (bt_insert k v m)"
  by (induction k v m rule: bt_insert.induct) (auto dest!: bt_insert_fst)

lemma bt_remove_set: "x \<in> set (bt_remove k m) \<Longrightarrow> x \<in> set m"
  by (induction k m rule: bt_remove.induct) (auto split: if_split_asm)

lemma bt_wf_remove: "bt_wf m \<Longrightarrow> bt_wf (bt_remove k m)"
  by (induction k m rule: bt_remove.induct) (auto dest: bt_remove_set)

lemma bt_absent: "\<forall>x \<in> set m. k < fst x \<Longrightarrow> bt_get m (k :: 'k :: linorder) = None"
  by (force simp: bt_get_def map_of_eq_None_iff)

lemma bt_get_insert: "bt_wf m \<Longrightarrow> bt_get (bt_insert k v m) = (bt_get m)(k \<mapsto> v)"
  by (induction k v m rule: bt_insert.induct) (auto simp: bt_get_def fun_eq_iff)

lemma bt_get_remove: "bt_wf m \<Longrightarrow> bt_get (bt_remove k m) = (bt_get m)(k := None)"
proof (induction k m rule: bt_remove.induct)
  case (2 k k' v' m)
  then show ?case using bt_absent [of m k'] by (auto simp: bt_get_def fun_eq_iff)
qed (simp add: bt_get_def fun_eq_iff)

interpretation bt: ordered_map bt_get bt_insert bt_remove bt_wf
  by unfold_locales (simp_all add: bt_get_insert bt_get_remove bt_wf_insert bt_wf_remove)

lemma bt_get_in: "bt_wf m \<Longrightarrow> bt_get m k = Some v \<longleftrightarrow> (k, v) \<in> set m"
  unfolding bt_get_def bt_wf_def
  by (metis distinct_map map_of_eq_Some_iff strict_sorted_iff)

lemma bt_distinct: "bt_wf m \<Longrightarrow> distinct (map fst m)"
  by (simp add: bt_wf_def strict_sorted_iff)

lemma bt_length_insert: "bt_wf m \<Longrightarrow> length (bt_insert k v m) = (if bt_get m k = None then Suc (length m) else length m)"
proof (induction k v m rule: bt_insert.induct)
  case (2 k v k' v' m)
  moreover have "bt_get m k = None" if "k < k'" using 2 that by (intro bt_absent) auto
  ultimately show ?case by (auto simp: bt_get_def)
qed (simp add: bt_get_def)

lemma bt_remove_absent: "bt_get m k = None \<Longrightarrow> bt_remove k m = m"
  by (induction k m rule: bt_remove.induct) (auto simp: bt_get_def split: if_split_asm)

text \<open>Inserting in the order of the keys appends.\<close>

lemma bt_insert_last: "\<forall>x \<in> set m. fst x < k \<Longrightarrow> bt_insert k v m = m @ [(k, v)]"
  by (induction k v m rule: bt_insert.induct) auto

end
