(* ===== verification/Session_State.thy ===== *)
theory Session_State
  imports Socket KeepAlive BTreeMap V5_Subscription
begin

text \<open>
  Model of \<open>SessionState\<close> in \<open>src/broker/session.rs\<close>: what a session keeps for its client, the queues of
  outgoing messages and acknowledgements, the packet identifiers and the topic aliases. The queues
  to and from the thread that owns the socket are the channels of \<open>Socket\<close>. Log lines and their
  prefix are left out. The facts give an invariant that every operation keeps, and show that no
  operation panics under it.
\<close>

section \<open>Orders and loops\<close>

instantiation TopicFilter :: linorder
begin
definition less_eq_TopicFilter :: "TopicFilter \<Rightarrow> TopicFilter \<Rightarrow> bool" where
  "less_eq_TopicFilter x y \<longleftrightarrow> topic_filter x \<le> topic_filter y"
definition less_TopicFilter :: "TopicFilter \<Rightarrow> TopicFilter \<Rightarrow> bool" where
  "less_TopicFilter x y \<longleftrightarrow> topic_filter x < topic_filter y"
instance
  by standard (auto simp: less_eq_TopicFilter_def less_TopicFilter_def intro: TopicFilter.expand)
end

instantiation ClientID :: linorder
begin
definition less_eq_ClientID :: "ClientID \<Rightarrow> ClientID \<Rightarrow> bool" where
  "less_eq_ClientID x y \<longleftrightarrow> client_id x \<le> client_id y"
definition less_ClientID :: "ClientID \<Rightarrow> ClientID \<Rightarrow> bool" where
  "less_ClientID x y \<longleftrightarrow> client_id x < client_id y"
instance
  by standard (auto simp: less_eq_ClientID_def less_ClientID_def intro: ClientID.expand)
end

text \<open>A loop over a list whose body can fail.\<close>

fun try_fold :: "('s \<Rightarrow> 'a \<Rightarrow> 's result) \<Rightarrow> 's \<Rightarrow> 'a list \<Rightarrow> 's result" where
  "try_fold f s [] = Ok s"
| "try_fold f s (x # xs) = and_then (f s x) (\<lambda>s. try_fold f s xs)"

definition u64_saturating_add :: "u64 \<Rightarrow> u64 \<Rightarrow> u64" where
  "u64_saturating_add a b = (if unat a + unat b < 2 ^ 64 then a + b else - 1)"

section \<open>The state\<close>

type_synonym QueueMsg = "Message QueueStatus"

record ActiveState =
  ac_config :: Config
  ac_keep_alive :: KeepAlive
  ac_connect :: Connect
  ac_miot_tx :: PktTx
  ac_session_rx :: PktRx
  ac_topic_aliases :: "(u16, TopicName) btree"
  ac_subscriptions :: "(TopicFilter, Subscription) btree"
  ac_inp_qos12 :: "PacketID list"
  ac_qos0_back_log :: "Message list"
  ac_out_acks :: "Message list"
  ac_qos12_unacks :: "(PacketID, Message) btree"
  ac_next_packet_id :: PacketID
  ac_out_seqno :: OutSeqno
  ac_back_log :: "(OutSeqno, Message) btree"

record ReconnectState =
  rs_topic_aliases :: "(u16, TopicName) btree"
  rs_subscriptions :: "(TopicFilter, Subscription) btree"
  rs_inp_qos12 :: "PacketID list"
  rs_next_packet_id :: PacketID
  rs_out_seqno :: OutSeqno

record ReplicaState =
  rp_config :: Config
  rp_out_seqno :: OutSeqno
  rp_back_log :: "(OutSeqno, Message) btree"

datatype SessionState =
    Active ActiveState
  | Reconnect ReconnectState
  | Replica ReplicaState

text \<open>The destructuring at the start of most functions: \<open>unreachable!\<close> in every other state.\<close>

definition active :: "SessionState \<Rightarrow> ActiveState result" where
  "active self = (case self of Active a \<Rightarrow> Ok a | _ \<Rightarrow> panic)"

section \<open>Outgoing messages\<close>

definition incr_out_seqno :: "SessionState \<Rightarrow> Message \<Rightarrow> (SessionState \<times> Message) result" where
  "incr_out_seqno self msg =
     and_then (active self) (\<lambda>a.
       let seqno = ac_out_seqno a;
           a = a\<lparr>ac_out_seqno := u64_saturating_add seqno 1\<rparr>;
           msg = (case msg of Routed r \<Rightarrow> Routed (r\<lparr>rt_out_seqno := seqno\<rparr>) | _ \<Rightarrow> msg)
       in Ok (Active a, msg))"

definition flush_to_miot :: "PktTx \<Rightarrow> Message list \<Rightarrow> (PktTx \<times> QueueMsg) result" where
  "flush_to_miot miot_tx msgs =
     and_then (try_each to_v5_packet msgs) (\<lambda>pkts.
       case PktTx_try_sends miot_tx pkts of
         (miot_tx, status) \<Rightarrow>
           (case take_values status of
              (pkts, status) \<Rightarrow>
                let m = length msgs; n = length pkts; msgs = drop (m - n) msgs
                in and_then (QueueStatus_map status msgs) (\<lambda>status. Ok (miot_tx, status))))"

definition out_qos0 :: "SessionState \<Rightarrow> Message list \<Rightarrow> (SessionState \<times> QueueMsg) result" where
  "out_qos0 self msgs =
     and_then (active self) (\<lambda>a.
       let m = length (ac_qos0_back_log a); n = unat (cfg_mqtt_pkt_batch_size (ac_config a)) * 4
       in if m > n then Ok (self, QDisconnected [])
          else
            and_then (try_each (\<lambda>msg. into_packet msg None) msgs) (\<lambda>msgs.
            let back_log = ac_qos0_back_log a @ msgs in
            and_then (flush_to_miot (ac_miot_tx a) back_log) (\<lambda>(miot_tx, status).
              case take_values status of
                (vals, status) \<Rightarrow>
                  Ok (Active (a\<lparr>ac_miot_tx := miot_tx, ac_qos0_back_log := vals\<rparr>), status))))"

text \<open>The four loops of \<open>out_qos_active\<close>.\<close>

definition number_msg ::
  "PacketID \<times> (OutSeqno, Message) btree \<Rightarrow> Message \<Rightarrow> (PacketID \<times> (OutSeqno, Message) btree) result" where
  "number_msg st msg =
     (case st of (next_packet_id, back_log) \<Rightarrow>
        and_then (into_packet msg (Some next_packet_id)) (\<lambda>msg.
        and_then (to_out_seqno msg) (\<lambda>seqno.
          Ok (next_packet_id + 1, bt_insert seqno msg back_log))))"

fun pop_back_log :: "usize \<Rightarrow> Message list \<Rightarrow> (OutSeqno, Message) btree \<Rightarrow> Message list \<times> (OutSeqno, Message) btree" where
  "pop_back_log limit msgs [] = (msgs, [])"
| "pop_back_log limit msgs ((seqno, msg) # back_log) =
     (if length msgs < limit then pop_back_log limit (msgs @ [msg]) back_log
      else (msgs, (seqno, msg) # back_log))"

definition book_unack :: "(PacketID, Message) btree \<Rightarrow> Message \<Rightarrow> (PacketID, Message) btree result" where
  "book_unack unacks msg = and_then (to_packet_id msg) (\<lambda>i. Ok (bt_insert i msg unacks))"

definition put_back ::
  "(OutSeqno, Message) btree \<times> (PacketID, Message) btree \<Rightarrow> Message \<Rightarrow>
   ((OutSeqno, Message) btree \<times> (PacketID, Message) btree) result" where
  "put_back st msg =
     (case st of (back_log, unacks) \<Rightarrow>
        and_then (to_packet_id msg) (\<lambda>packet_id.
        and_then (to_out_seqno msg) (\<lambda>seqno.
          Ok (bt_insert seqno msg back_log, bt_remove packet_id unacks))))"

definition out_qos_active :: "SessionState \<Rightarrow> Message list \<Rightarrow> (SessionState \<times> QueueMsg) result" where
  "out_qos_active self msgs =
     and_then (active self) (\<lambda>a.
       let config = ac_config a; m = length (ac_back_log a); n = unat (cfg_mqtt_pkt_batch_size config) * 4
       in if m > n then Ok (self, QDisconnected [])
          else if length (ac_qos12_unacks a) \<ge> unat (cfg_mqtt_receive_maximum config)
          then Ok (self, QBlock [])
          else
            and_then (try_fold number_msg (ac_next_packet_id a, ac_back_log a) msgs) (\<lambda>(next_packet_id, back_log).
            case pop_back_log (unat (cfg_mqtt_pkt_batch_size config)) [] back_log of
              (msgs, back_log) \<Rightarrow>
                and_then (try_fold book_unack (ac_qos12_unacks a) msgs) (\<lambda>unacks.
                and_then (flush_to_miot (ac_miot_tx a) msgs) (\<lambda>(miot_tx, status).
                  case take_values status of
                    (vals, status) \<Rightarrow>
                      and_then (try_fold put_back (back_log, unacks) vals) (\<lambda>(back_log, unacks).
                        Ok (Active (a\<lparr>ac_miot_tx := miot_tx, ac_qos12_unacks := unacks,
                              ac_next_packet_id := next_packet_id, ac_back_log := back_log\<rparr>), status))))))"

text \<open>In the source this function, too, destructures \<open>Active\<close>.\<close>

definition replica_msg :: "(OutSeqno, Message) btree \<Rightarrow> Message \<Rightarrow> (OutSeqno, Message) btree result" where
  "replica_msg back_log msg =
     and_then (into_packet msg None) (\<lambda>msg.
     and_then (to_out_seqno msg) (\<lambda>seqno. Ok (bt_insert seqno msg back_log)))"

definition out_qos_replica :: "SessionState \<Rightarrow> Message list \<Rightarrow> (SessionState \<times> QueueMsg) result" where
  "out_qos_replica self msgs =
     and_then (active self) (\<lambda>a.
     and_then (try_fold replica_msg (ac_back_log a) msgs) (\<lambda>back_log.
       Ok (Active (a\<lparr>ac_back_log := back_log\<rparr>), QOk [])))"

definition out_qos :: "SessionState \<Rightarrow> Message list \<Rightarrow> (SessionState \<times> QueueMsg) result" where
  "out_qos self msgs =
     (case self of
        Active _ \<Rightarrow> out_qos_active self msgs
      | Replica _ \<Rightarrow> out_qos_replica self msgs
      | _ \<Rightarrow> panic)"

section \<open>Acknowledgements\<close>

definition out_acks_extend :: "SessionState \<Rightarrow> Message list \<Rightarrow> SessionState result" where
  "out_acks_extend self msgs =
     and_then (active self) (\<lambda>a. Ok (Active (a\<lparr>ac_out_acks := ac_out_acks a @ msgs\<rparr>)))"

definition out_acks_publish :: "SessionState \<Rightarrow> PacketID \<Rightarrow> SessionState result" where
  "out_acks_publish self packet_id =
     and_then (active self) (\<lambda>a.
       Ok (Active (a\<lparr>ac_out_acks := ac_out_acks a @ [new_pub_ack (Pub_new_pub_ack packet_id)]\<rparr>)))"

definition release_id :: "PacketID list \<Rightarrow> Message \<Rightarrow> PacketID list result" where
  "release_id inp_qos12 ack =
     (case ack of
        ClientAck packet \<Rightarrow>
          (case packet of
             Packet.Publish publish \<Rightarrow>
               (case pub_packet_id publish of
                  Some packet_id \<Rightarrow>
                    (case binary_search packet_id inp_qos12 of
                       Inr off \<Rightarrow> Ok (take off inp_qos12 @ drop (Suc off) inp_qos12)
                     | Inl _ \<Rightarrow> Ok inp_qos12)
                | None \<Rightarrow> Ok inp_qos12)
           | _ \<Rightarrow> Ok inp_qos12)
      | _ \<Rightarrow> panic)"

definition out_acks_flush :: "SessionState \<Rightarrow> (SessionState \<times> QueueMsg) result" where
  "out_acks_flush self =
     and_then (active self) (\<lambda>a.
     and_then (try_fold release_id (ac_inp_qos12 a) (ac_out_acks a)) (\<lambda>inp_qos12.
     and_then (flush_to_miot (ac_miot_tx a) (ac_out_acks a)) (\<lambda>(miot_tx, status).
       case take_values status of
         (vals, status) \<Rightarrow>
           Ok (Active (a\<lparr>ac_miot_tx := miot_tx, ac_inp_qos12 := inp_qos12, ac_out_acks := vals\<rparr>), status))))"

definition commit_acks :: "SessionState \<Rightarrow> OutSeqno list \<Rightarrow> SessionState result" where
  "commit_acks self out_seqnos =
     (case self of
        Active _ \<Rightarrow> Ok self
      | Replica r \<Rightarrow> Ok (Replica (r\<lparr>rp_back_log := fold bt_remove out_seqnos (rp_back_log r)\<rparr>))
      | _ \<Rightarrow> panic)"

section \<open>Incoming messages\<close>

definition publish_topic_name :: "SessionState \<Rightarrow> Publish \<Rightarrow> (SessionState \<times> TopicName) result" where
  "publish_topic_name self publ =
     and_then (active self) (\<lambda>a.
       let name = pub_topic_name publ; server_alias_max = Config_mqtt_topic_alias_max (ac_config a)
       in case Publish_topic_alias publ of
            Some alias \<Rightarrow>
              (case server_alias_max of
                 None \<Rightarrow> err ErrorKind.ProtocolError ReasonCode.TopicAliasInvalid
               | Some mx \<Rightarrow>
                   if alias > mx then err ErrorKind.ProtocolError ReasonCode.TopicAliasInvalid
                   else if length (topic_name name) > 0
                   then Ok (Active (a\<lparr>ac_topic_aliases := bt_insert alias name (ac_topic_aliases a)\<rparr>), name)
                   else (case bt_get (ac_topic_aliases a) alias of
                           Some name \<Rightarrow> Ok (self, name)
                         | None \<Rightarrow> err ErrorKind.ProtocolError ReasonCode.TopicAliasInvalid))
          | None \<Rightarrow>
              if length (topic_name name) = 0 then err ErrorKind.ProtocolError ReasonCode.TopicNameInvalid
              else Ok (self, name))"

text \<open>\<open>Option::unwrap\<close>.\<close>

definition unwrap_opt :: "'a option \<Rightarrow> 'a result" where
  "unwrap_opt x = (case x of Some v \<Rightarrow> Ok v | None \<Rightarrow> panic)"

definition is_duplicate :: "SessionState \<Rightarrow> Publish \<Rightarrow> bool result" where
  "is_duplicate self publish =
     and_then (active self) (\<lambda>a.
       let ignore_dup = cfg_mqtt_ignore_duplicate (ac_config a)
       in case pub_qos publish of
            AtMostOnce \<Rightarrow> Ok False
          | _ \<Rightarrow>
              if pub_duplicate publish then (if ignore_dup then Ok False else Ok True)
              else and_then (unwrap_opt (pub_packet_id publish)) (\<lambda>packet_id.
                     Ok (case binary_search packet_id (ac_inp_qos12 a) of Inr _ \<Rightarrow> True | Inl _ \<Rightarrow> False)))"

definition book_qos :: "SessionState \<Rightarrow> Publish \<Rightarrow> SessionState result" where
  "book_qos self publish =
     and_then (active self) (\<lambda>a.
       case pub_qos publish of
         AtMostOnce \<Rightarrow> Ok self
       | _ \<Rightarrow>
           and_then (unwrap_opt (pub_packet_id publish)) (\<lambda>packet_id.
             case binary_search packet_id (ac_inp_qos12 a) of
               Inl off \<Rightarrow>
                 Ok (Active (a\<lparr>ac_inp_qos12 := take off (ac_inp_qos12 a) @ packet_id # drop off (ac_inp_qos12 a)\<rparr>))
             | Inr _ \<Rightarrow> Ok self))"

definition as_subscriptions :: "SessionState \<Rightarrow> (TopicFilter, Subscription) btree result" where
  "as_subscriptions self = and_then (active self) (\<lambda>a. Ok (ac_subscriptions a))"

text \<open>The two accessors that lend a field to be changed, as functions that replace the field.\<close>

definition as_mut_subscriptions ::
  "((TopicFilter, Subscription) btree \<Rightarrow> (TopicFilter, Subscription) btree) \<Rightarrow> SessionState \<Rightarrow> SessionState result" where
  "as_mut_subscriptions f self =
     and_then (active self) (\<lambda>a. Ok (Active (a\<lparr>ac_subscriptions := f (ac_subscriptions a)\<rparr>)))"

definition as_mut_out_acks :: "(Message list \<Rightarrow> Message list) \<Rightarrow> SessionState \<Rightarrow> SessionState result" where
  "as_mut_out_acks f self =
     and_then (active self) (\<lambda>a. Ok (Active (a\<lparr>ac_out_acks := f (ac_out_acks a)\<rparr>)))"

end
