(* ===== verification/Miot.thy ===== *)
theory Miot
  imports Socket Thread Session_State
begin

text \<open>
  Model of \<open>src/broker/miot.rs\<close>: the thread that owns the sockets of the sessions of one shard. The handle
  of the shard is the requests posted to it; the poller is whether registering a connection works. The
  address of a peer, which is only logged, and the tokens of the sockets are left out, and so is
  spawning the thread. The facts say that a turn over the sockets keeps the sockets that work and hands
  every other one to the shard, once.
\<close>

section \<open>The state of the thread\<close>

record MiotStats =
  ms_n_polls :: usize
  ms_n_events :: usize
  ms_n_requests :: usize
  ms_n_add_conns :: usize
  ms_n_rem_conns :: usize
  ms_n_wpkts :: usize
  ms_n_wbytes :: usize

type_synonym flush_request = "Socket \<times> error option"

record MiotLoop =
  ml_registers :: bool
  ml_shard :: "flush_request Tx"
  ml_next_token :: usize
  ml_conns :: "(ClientID, Socket) btree"
  ml_stats :: MiotStats

record MiotFin =
  mf_next_token :: usize
  mf_client_ids :: "ClientID list"
  mf_stats :: MiotStats

datatype MiotInner = MInit | MMain MiotLoop | MClose MiotFin

record Miot =
  mi_miot_id :: u32
  mi_config :: Config
  mi_inner :: MiotInner

definition miot_main :: "Miot \<Rightarrow> MiotLoop result" where
  "miot_main self = (case mi_inner self of MMain l \<Rightarrow> Ok l | _ \<Rightarrow> panic)"

definition set_main :: "Miot \<Rightarrow> MiotLoop \<Rightarrow> Miot" where
  "set_main self l = self\<lparr>mi_inner := MMain l\<rparr>"

text \<open>The statistics are counted in the main state, some also after closing.\<close>

definition miot_count :: "bool \<Rightarrow> (MiotStats \<Rightarrow> MiotStats) \<Rightarrow> Miot \<Rightarrow> Miot result" where
  "miot_count closed_too f self =
     (case mi_inner self of
        MMain l \<Rightarrow> Ok (set_main self (l\<lparr>ml_stats := f (ml_stats l)\<rparr>))
      | MClose s \<Rightarrow> if closed_too then Ok (self\<lparr>mi_inner := MClose (s\<lparr>mf_stats := f (mf_stats s)\<rparr>)\<rparr>) else panic
      | MInit \<Rightarrow> panic)"

definition incr_wstats :: "SockStats \<Rightarrow> Miot \<Rightarrow> Miot result" where
  "incr_wstats wstats =
     miot_count False (\<lambda>s. s\<lparr>ms_n_wpkts := ms_n_wpkts s + ss_items wstats, ms_n_wbytes := ms_n_wbytes s + ss_bytes wstats\<rparr>)"

section \<open>Requests\<close>

record AddConnectionArgs =
  aa_client_id :: ClientID
  aa_conn :: conn
  aa_upstream :: PktTx
  aa_downstream :: PktRx
  aa_max_packet_size :: u32

text \<open>The fields are set as in \<open>handle_add_connection\<close>: the reader with the limit of the server.\<close>

definition new_socket :: "Config \<Rightarrow> AddConnectionArgs \<Rightarrow> Socket" where
  "new_socket config args =
     \<lparr>so_client_id = aa_client_id args, so_conn = aa_conn args,
      so_rd = \<lparr>rd_pr = MQTTRead_new (cfg_mqtt_max_packet_size config), rd_timeout = None,
        rd_session_tx = aa_upstream args, rd_packets = []\<rparr>,
      so_wt = \<lparr>wt_pw = MQTTWrite_new [] (aa_max_packet_size args), wt_timeout = None,
        wt_miot_rx = aa_downstream args, wt_packets = []\<rparr>\<rparr>"

definition handle_add_connection :: "Miot \<Rightarrow> AddConnectionArgs \<Rightarrow> Miot result" where
  "handle_add_connection self args =
     and_then (miot_main self) (\<lambda>l.
       let l = l\<lparr>ml_next_token := ml_next_token l + 1\<rparr> in
       if \<not> ml_registers l then panic
       else
         let socket = new_socket (mi_config self) args;
             l = l\<lparr>ml_conns := bt_insert (aa_client_id args) socket (ml_conns l)\<rparr>
         in miot_count False (\<lambda>s. s\<lparr>ms_n_add_conns := ms_n_add_conns s + 1\<rparr>) (set_main self l))"

definition handle_remove_connection :: "Miot \<Rightarrow> ClientID \<Rightarrow> (Miot \<times> Socket option) result" where
  "handle_remove_connection self cid =
     and_then (miot_main self) (\<lambda>l.
       let res = bt_get (ml_conns l) cid;
           l = l\<lparr>ml_conns := bt_remove cid (ml_conns l)\<rparr> in
       if res \<noteq> None \<and> \<not> ml_registers l then panic
       else
         and_then (miot_count False (\<lambda>s. s\<lparr>ms_n_rem_conns := ms_n_rem_conns s + 1\<rparr>) (set_main self l)) (\<lambda>self.
           Ok (self, res)))"

definition miot_handle_close :: "Miot \<Rightarrow> Miot result" where
  "miot_handle_close self =
     and_then (miot_main self) (\<lambda>l.
       Ok (self\<lparr>mi_inner := MClose \<lparr>mf_next_token = ml_next_token l,
         mf_client_ids = map (so_client_id \<circ> snd) (ml_conns l), mf_stats = ml_stats l\<rparr>\<rparr>))"

section \<open>A turn over the sockets\<close>

text \<open>
  The loop over the connections, with the connections after it and those that failed. \<open>None\<close> while a
  socket is being read.
\<close>

fun read_conns ::
  "Config \<Rightarrow> (ClientID \<times> Socket) list \<Rightarrow> ((ClientID \<times> Socket) list \<times> (ClientID \<times> error option) list) result option" where
  "read_conns config [] = Some (Ok ([], []))"
| "read_conns config ((cid, socket) # conns) =
     (case read_packets config socket of
        None \<Rightarrow> None
      | Some (socket, res) \<Rightarrow>
          (case (case res of
                   Inr (QDisconnected _) \<Rightarrow> Ok [(cid, None)]
                 | Inr _ \<Rightarrow> Ok []
                 | Inl (Err e) \<Rightarrow>
                     if err_kind e = ErrorKind.ProtocolError \<or> err_kind e = ErrorKind.MalformedPacket
                     then Ok [(cid, Some e)] else panic
                 | Inl Panic \<Rightarrow> panic) of
             Inl e \<Rightarrow> Some (Inl e)
           | Inr fails \<Rightarrow>
               (case read_conns config conns of
                  None \<Rightarrow> None
                | Some res \<Rightarrow>
                    Some (and_then res (\<lambda>(conns, fail_queues).
                      Ok ((cid, socket) # conns, fails @ fail_queues))))))"

fun write_conns ::
  "Config \<Rightarrow> SockStats \<Rightarrow> (ClientID \<times> Socket) list \<Rightarrow>
     ((ClientID \<times> Socket) list \<times> (ClientID \<times> error option) list \<times> SockStats) result option" where
  "write_conns config wstats [] = Some (Ok ([], [], wstats))"
| "write_conns config wstats ((cid, socket) # conns) =
     (case write_packets config socket of
        None \<Rightarrow> None
      | Some (Inl e) \<Rightarrow> Some (Inl e)
      | Some (Inr (socket, status, stats)) \<Rightarrow>
          (case write_conns config (SockStats_update wstats stats) conns of
             None \<Rightarrow> None
           | Some res \<Rightarrow>
               Some (and_then res (\<lambda>(conns, fail_queues, wstats).
                 Ok ((cid, socket) # conns,
                   (case status of QDisconnected _ \<Rightarrow> [(cid, None)] | _ \<Rightarrow> []) @ fail_queues, wstats)))))"

text \<open>The loop over the connections that failed.\<close>

fun drop_conns :: "(ClientID \<times> error option) list \<Rightarrow> Miot \<Rightarrow> Miot result" where
  "drop_conns [] self = Ok self"
| "drop_conns ((cid, e) # fails) self =
     and_then (handle_remove_connection self cid) (\<lambda>(self, removed).
       case removed of
         None \<Rightarrow> drop_conns fails self
       | Some socket \<Rightarrow>
           and_then (miot_main self) (\<lambda>l.
             case Tx_post (ml_shard l) (socket, e) of
               (tx, Inl _) \<Rightarrow> panic
             | (tx, Inr _) \<Rightarrow> drop_conns fails (set_main self (l\<lparr>ml_shard := tx\<rparr>))))"

definition socket_to_session :: "Miot \<Rightarrow> Miot result option" where
  "socket_to_session self =
     (case miot_main self of
        Inl e \<Rightarrow> Some (Inl e)
      | Inr l \<Rightarrow>
          (case read_conns (mi_config self) (ml_conns l) of
             None \<Rightarrow> None
           | Some res \<Rightarrow>
               Some (and_then res (\<lambda>(conns, fail_queues).
                 drop_conns fail_queues (set_main self (l\<lparr>ml_conns := conns\<rparr>))))))"

definition session_to_socket :: "Miot \<Rightarrow> Miot result option" where
  "session_to_socket self =
     (case miot_main self of
        Inl e \<Rightarrow> Some (Inl e)
      | Inr l \<Rightarrow>
          (case write_conns (mi_config self) SockStats_default (ml_conns l) of
             None \<Rightarrow> None
           | Some res \<Rightarrow>
               Some (and_then res (\<lambda>(conns, fail_queues, wstats).
                 and_then (drop_conns fail_queues (set_main self (l\<lparr>ml_conns := conns\<rparr>))) (incr_wstats wstats)))))"

section \<open>The control channel\<close>

datatype MiotRequest = AddConnection AddConnectionArgs | RemoveConnection ClientID | MiotCloses

text \<open>
  A request comes with a channel for the answer or without. A failure to answer is ignored, so that the
  answer itself is not part of the state.
\<close>

fun miot_serve :: "(MiotRequest \<times> bool) list \<Rightarrow> Miot \<Rightarrow> bool \<Rightarrow> (Miot \<times> bool) result" where
  "miot_serve [] self closed = Ok (self, closed)"
| "miot_serve ((req, answers) # reqs) self closed =
     (if \<not> answers then panic
      else
        (case req of
           AddConnection args \<Rightarrow>
             and_then (handle_add_connection self args) (\<lambda>self. miot_serve reqs self closed)
         | RemoveConnection cid \<Rightarrow>
             and_then (handle_remove_connection self cid) (\<lambda>(self, _). miot_serve reqs self closed)
         | MiotCloses \<Rightarrow>
             and_then (miot_handle_close self) (\<lambda>self. miot_serve reqs self True)))"

definition miot_drain ::
  "(MiotRequest \<times> bool) chan \<Rightarrow> Miot \<Rightarrow> (MiotRequest \<times> bool) chan \<times> (Miot \<times> (MiotRequest \<times> bool) QueueStatus \<times> bool) result" where
  "miot_drain rx self =
     (case pending_requests rx 1024 of
        (rx, status) \<Rightarrow>
          (case take_values status of
             (reqs, status) \<Rightarrow>
               (rx, and_then (miot_count True (\<lambda>s. s\<lparr>ms_n_requests := ms_n_requests s + length reqs\<rparr>) self) (\<lambda>self.
                    and_then (miot_serve reqs self False) (\<lambda>(self, closed). Ok (self, status, closed))))))"

function miot_drain_all ::
  "(MiotRequest \<times> bool) chan \<Rightarrow> Miot \<Rightarrow> (MiotRequest \<times> bool) chan \<times> (Miot \<times> bool) result" where
  "miot_drain_all rx self =
     (case miot_drain rx self of
        (rx', Inl e) \<Rightarrow> (rx', Inl e)
      | (rx', Inr (self, status, closed)) \<Rightarrow>
          if closed then (rx', Ok (self, True))
          else (case status of
                  QOk _ \<Rightarrow> miot_drain_all rx' self
                | QBlock _ \<Rightarrow> (rx', Ok (self, False))
                | QDisconnected _ \<Rightarrow> (rx', Ok (self, True))))"
  by pat_completeness auto

termination miot_drain_all
  by (relation "measure (\<lambda>(rx, _). length (ch_queue rx))")
    (auto simp: miot_drain_def and_then_def split: prod.split_asm sum.split_asm dest: pending_shrinks)

declare miot_drain_all.simps [simp del]

text \<open>
  What follows a wake-up of the thread, with the number of events. Without a request to exit, the
  sockets are read and written.
\<close>

definition miot_events ::
  "nat \<Rightarrow> (MiotRequest \<times> bool) chan \<Rightarrow> Miot \<Rightarrow> ((MiotRequest \<times> bool) chan \<times> (Miot \<times> bool) result) option" where
  "miot_events count rx self =
     (let finish = (\<lambda>rx exit self. (rx, and_then (miot_count True (\<lambda>s. s\<lparr>ms_n_events := ms_n_events s + count\<rparr>) self)
                     (\<lambda>self. Ok (self, exit))))
      in case miot_drain_all rx self of
           (rx, Inl e) \<Rightarrow> Some (rx, Inl e)
         | (rx, Inr (self, exit)) \<Rightarrow>
             if \<not> exit \<and> (case mi_inner self of MClose _ \<Rightarrow> False | _ \<Rightarrow> True)
             then (case socket_to_session self of
                     None \<Rightarrow> None
                   | Some (Inl e) \<Rightarrow> Some (rx, Inl e)
                   | Some (Inr self) \<Rightarrow>
                       (case session_to_socket self of
                          None \<Rightarrow> None
                        | Some (Inl e) \<Rightarrow> Some (rx, Inl e)
                        | Some (Inr self) \<Rightarrow> Some (finish rx exit self)))
             else Some (finish rx exit self))"

section \<open>No connection is lost\<close>

lemma miot_main_simps [simp]:
  "miot_main (set_main self l) = Ok l" "set_main (set_main self l) l' = set_main self l'"
  "mi_config (set_main self l) = mi_config self" "mi_inner (set_main self l) = MMain l"
  by (simp_all add: miot_main_def set_main_def)

text \<open>What a turn makes of a socket, unless it fails.\<close>

definition turned :: "Socket \<Rightarrow> Socket \<Rightarrow> bool" where
  "turned s s' \<longleftrightarrow> (\<exists>fs ps. reads (rd_pr (so_rd s)) (input_of s) fs ps (rd_pr (so_rd s')) (input_of s') \<and>
     on_the_way s' = on_the_way s @ ps)"

lemma read_conns_returns:
  "\<forall>(c, s) \<in> set cs. rinv (rd_pr (so_rd s)) \<Longrightarrow> \<exists>r. read_conns config cs = Some r"
proof (induction cs)
  case (Cons x cs)
  obtain c s where x: "x = (c, s)" by (cases x)
  obtain s' r where "read_packets config s = Some (s', r)"
    using read_packets_returns [of s config] Cons.prems x by auto
  with Cons x show ?case by (auto split: sum.split)
qed simp

lemma read_conns_keeps:
  assumes "read_conns config cs = Some (Ok (cs', fails))" and "\<forall>(c, s) \<in> set cs. rinv (rd_pr (so_rd s))"
  shows "map fst cs' = map fst cs \<and> fst ` set fails \<subseteq> fst ` set cs \<and>
    (distinct (map fst cs) \<longrightarrow> distinct (map fst fails)) \<and>
    list_all2 (\<lambda>(c, s) (c', s'). c' = c \<and> (c \<notin> fst ` set fails \<longrightarrow> turned s s')) cs cs'"
  using assms
proof (induction cs arbitrary: cs' fails)
  case (Cons x cs)
  obtain c s where x: "x = (c, s)" by (cases x)
  obtain s' r where rp: "read_packets config s = Some (s', r)"
    using read_packets_returns [of s config] Cons.prems(2) x by auto
  from Cons.prems(1) rp x obtain fs cs2 fails2 where
    rest: "read_conns config cs = Some (Ok (cs2, fails2))" "cs' = (c, s') # cs2" "fails = fs @ fails2"
    and fs: "fs = [] \<and> (\<exists>st. r = Ok st) \<or> (\<exists>e. fs = [(c, e)])"
    by (auto simp: and_then_eq_Inr split: sum.split_asm option.split_asm QueueStatus.split_asm fault.split_asm if_split_asm)
  note IH = Cons.IH [OF rest(1)]
  have inv: "\<forall>(c, s) \<in> set cs. rinv (rd_pr (so_rd s))" "rinv (rd_pr (so_rd s))" using Cons.prems(2) x by auto
  have s': "turned s s'" if "r = Ok st" for st
    using read_packets_reads [of config s s' st] rp that inv(2) by (auto simp: turned_def)
  have "list_all2 (\<lambda>(c, s) (c', s'). c' = c \<and> (c \<notin> fst ` set fails \<longrightarrow> turned s s')) cs cs2"
    using IH [OF inv(1)] rest(3) by (elim conjE list_all2_mono) auto
  moreover have "distinct (map fst fails)" if "distinct (map fst (x # cs))"
  proof -
    have "c \<notin> fst ` set fails2" "distinct (map fst fails2)" using that IH [OF inv(1)] x by auto
    then show ?thesis using rest(3) fs by (auto simp: image_iff)
  qed
  ultimately show ?case using IH [OF inv(1)] rest fs x s' by auto
qed simp

text \<open>The shard takes requests.\<close>

definition shard_takes :: "MiotLoop \<Rightarrow> bool" where
  "shard_takes l \<longleftrightarrow> ml_registers l \<and> tx_receives (ml_shard l) \<and> tx_waker (ml_shard l) \<noteq> Some False"

lemma bt_remove_filter: "bt_wf m \<Longrightarrow> bt_remove k m = [x \<leftarrow> m. fst x \<noteq> k]"
  by (induction k m rule: bt_remove.induct) (auto intro!: filter_True [symmetric])

lemma drop_conns_run:
  assumes "bt_wf (ml_conns l)" and "shard_takes l"
    and "distinct (map fst fails)" and "fst ` set fails \<subseteq> fst ` set (ml_conns l)"
  shows "\<exists>l'. drop_conns fails (set_main self l) = Ok (set_main self l') \<and>
    ml_conns l' = [x \<leftarrow> ml_conns l. fst x \<notin> fst ` set fails] \<and>
    tx_sent (ml_shard l') = tx_sent (ml_shard l) @ map (\<lambda>(c, e). (the (bt_get (ml_conns l) c), e)) fails"
  using assms
proof (induction fails arbitrary: l)
  case Nil
  then show ?case by auto
next
  case (Cons f fails)
  obtain c e where f: "f = (c, e)" by (cases f)
  have "c \<in> fst ` set (ml_conns l)" using Cons.prems(4) f by simp
  then obtain so where "(c, so) \<in> set (ml_conns l)" by auto
  then have so: "bt_get (ml_conns l) c = Some so" using bt_get_in [OF Cons.prems(1)] by simp
  define l1 where "l1 = l\<lparr>ml_conns := bt_remove c (ml_conns l),
    ml_stats := (ml_stats l)\<lparr>ms_n_rem_conns := ms_n_rem_conns (ml_stats l) + 1\<rparr>,
    ml_shard := (ml_shard l)\<lparr>tx_sent := tx_sent (ml_shard l) @ [(so, e)]\<rparr>\<rparr>"
  have step: "drop_conns (f # fails) (set_main self l) = drop_conns fails (set_main self l1)"
    using so Cons.prems(2)
    by (auto simp: f handle_remove_connection_def miot_count_def Tx_post_def wake_def shard_takes_def l1_def Let_def
        split: option.split bool.split)
  have c: "c \<notin> fst ` set fails" using Cons.prems(3) f by simp
  have conns: "ml_conns l1 = [x \<leftarrow> ml_conns l. fst x \<noteq> c]" using Cons.prems(1) by (simp add: l1_def bt_remove_filter)
  have get: "bt_get (ml_conns l1) c' = bt_get (ml_conns l) c'" if "c' \<noteq> c" for c'
    using Cons.prems(1) that by (simp add: l1_def bt_get_remove)
  have "\<exists>l'. drop_conns fails (set_main self l1) = Ok (set_main self l') \<and>
    ml_conns l' = [x \<leftarrow> ml_conns l1. fst x \<notin> fst ` set fails] \<and>
    tx_sent (ml_shard l') = tx_sent (ml_shard l1) @ map (\<lambda>(c, e). (the (bt_get (ml_conns l1) c), e)) fails"
  proof (rule Cons.IH)
    show "fst ` set fails \<subseteq> fst ` set (ml_conns l1)"
    proof
      fix k assume k: "k \<in> fst ` set fails"
      with c have "k \<noteq> c" by blast
      moreover have "k \<in> fst ` set (ml_conns l)" using k Cons.prems(4) by auto
      ultimately show "k \<in> fst ` set (ml_conns l1)" unfolding conns by auto
    qed
  qed (use Cons.prems in \<open>simp_all add: l1_def bt_wf_remove shard_takes_def\<close>)
  moreover have "map (\<lambda>(c, e). (the (bt_get (ml_conns l1) c), e)) fails = map (\<lambda>(c, e). (the (bt_get (ml_conns l) c), e)) fails"
  proof (rule map_cong [OF refl])
    fix x assume "x \<in> set fails"
    then have "fst x \<noteq> c" using c by auto
    with get [of "fst x"] show "(case x of (c, e) \<Rightarrow> (the (bt_get (ml_conns l1) c), e)) =
        (case x of (c, e) \<Rightarrow> (the (bt_get (ml_conns l) c), e))" by (simp add: split_def)
  qed
  moreover have "[x \<leftarrow> ml_conns l1. fst x \<notin> fst ` set fails] = [x \<leftarrow> ml_conns l. fst x \<notin> fst ` set (f # fails)]"
    unfolding conns filter_filter by (rule filter_cong) (auto simp: f)
  moreover have "tx_sent (ml_shard l1) = tx_sent (ml_shard l) @ [(so, e)]" by (simp add: l1_def)
  ultimately show ?case unfolding step by (simp add: so f)
qed

lemma socket_to_session_run:
  assumes "mi_inner self = MMain l" and "bt_wf (ml_conns l)" and "\<forall>(c, s) \<in> set (ml_conns l). rinv (rd_pr (so_rd s))"
    and "shard_takes l"
  obtains (panics) e where "socket_to_session self = Some (Inl e)"
  | (turns) cs fails l' where "socket_to_session self = Some (Ok (set_main self l'))"
    and "list_all2 (\<lambda>(c, s) (c', s'). c' = c \<and> (c \<notin> fst ` set fails \<longrightarrow> turned s s')) (ml_conns l) cs"
    and "distinct (map fst fails)" and "fst ` set fails \<subseteq> fst ` set (ml_conns l)"
    and "ml_conns l' = [x \<leftarrow> cs. fst x \<notin> fst ` set fails]"
    and "tx_sent (ml_shard l') = tx_sent (ml_shard l) @ map (\<lambda>(c, e). (the (bt_get cs c), e)) fails"
proof -
  obtain r where r: "read_conns (mi_config self) (ml_conns l) = Some r" using read_conns_returns [OF assms(3)] by blast
  have main: "miot_main self = Ok l" using assms(1) by (simp add: miot_main_def)
  show thesis
  proof (cases r)
    case (Inl e)
    with r main show thesis by (intro panics [of e]) (simp add: socket_to_session_def)
  next
    case (Inr x)
    obtain cs fails where x: "x = (cs, fails)" by (cases x)
    have k: "map fst cs = map fst (ml_conns l)" "fst ` set fails \<subseteq> fst ` set (ml_conns l)"
      "distinct (map fst (ml_conns l)) \<Longrightarrow> distinct (map fst fails)"
      "list_all2 (\<lambda>(c, s) (c', s'). c' = c \<and> (c \<notin> fst ` set fails \<longrightarrow> turned s s')) (ml_conns l) cs"
      using read_conns_keeps [OF r [unfolded Inr x] assms(3)] by blast+
    have keys: "fst ` set cs = fst ` set (ml_conns l)" using k(1) by (metis set_map)
    have d: "distinct (map fst fails)" using k(3) bt_distinct [OF assms(2)] by blast
    have "\<exists>l'. drop_conns fails (set_main self (l\<lparr>ml_conns := cs\<rparr>)) = Ok (set_main self l') \<and>
        ml_conns l' = [x \<leftarrow> cs. fst x \<notin> fst ` set fails] \<and>
        tx_sent (ml_shard l') = tx_sent (ml_shard l) @ map (\<lambda>(c, e). (the (bt_get cs c), e)) fails"
      using drop_conns_run [of "l\<lparr>ml_conns := cs\<rparr>" fails self] assms(2,4) k(1,2) keys d
      by (simp add: bt_wf_def shard_takes_def)
    then obtain l' where "drop_conns fails (set_main self (l\<lparr>ml_conns := cs\<rparr>)) = Ok (set_main self l')"
        "ml_conns l' = [x \<leftarrow> cs. fst x \<notin> fst ` set fails]"
        "tx_sent (ml_shard l') = tx_sent (ml_shard l) @ map (\<lambda>(c, e). (the (bt_get cs c), e)) fails" by blast
    with r Inr x main k d show thesis by (intro turns [of l' fails cs]) (simp_all add: socket_to_session_def)
  qed
qed

end
