(* ===== verification/Session_Inv.thy ===== *)
theory Session_Inv
  imports Session_State
begin

text \<open>
  Facts on the state of a session: an invariant that every operation keeps, under which none of them
  panics, and the order in which messages reach the queue of the socket.
\<close>

section \<open>Handing messages to the socket\<close>

lemma try_fold_append: "try_fold f s (xs @ ys) = and_then (try_fold f s xs) (\<lambda>s. try_fold f s ys)"
  by (induction xs arbitrary: s) (auto simp: and_then_def split: sum.split)

lemma try_each_total: "(\<And>x. x \<in> set xs \<Longrightarrow> f x = Ok (g x)) \<Longrightarrow> try_each f xs = Ok (map g xs)"
  by (induction xs) simp_all

lemma QueueStatus_map_empty:
  "queue_values st = [] \<Longrightarrow> \<exists>st'. QueueStatus_map st xs = Ok st' \<and> queue_values st' = xs"
  by (cases st) (auto simp: QueueStatus_map_def)

lemma QueueStatus_map_status:
  "QueueStatus_map st xs = Ok st' \<Longrightarrow>
     (st' = QOk xs \<longleftrightarrow> st = QOk []) \<and> (st' = QBlock xs \<longleftrightarrow> st = QBlock []) \<and> (st' = QDisconnected xs \<longleftrightarrow> st = QDisconnected [])"
  by (cases st) (auto simp: QueueStatus_map_def split: if_split_asm)

lemma try_sends_split:
  assumes "try_sends_loop c count xs = (c', n, st)"
  obtains k where "k \<le> length xs" and "ch_queue c' = ch_queue c @ take k xs" and "queue_values st = drop k xs"
proof -
  have "\<exists>k \<le> length xs. ch_queue c' = ch_queue c @ take k xs \<and> queue_values st = drop k xs"
    using assms
  proof (induction c count xs rule: try_sends_loop.induct)
    case (2 c count x xs)
    show ?case
    proof (cases "chan_try_send c x")
      case (Sent c1)
      then have "ch_queue c1 = ch_queue c @ [x]" by (auto simp: chan_try_send_def split: if_split_asm)
      moreover obtain k where "k \<le> length xs" "ch_queue c' = ch_queue c1 @ take k xs" "queue_values st = drop k xs"
        using 2 Sent by auto
      ultimately show ?thesis by (intro exI [of _ "Suc k"]) simp
    qed (use 2(2) in \<open>auto intro: exI [of _ 0]\<close>)
  qed auto
  with that show thesis by blast
qed

text \<open>The first \<open>k\<close> messages go into the channel in order, the others come back.\<close>

lemma flush_to_miot_eq:
  assumes "\<forall>m \<in> set msgs. sendable m"
  obtains tx' st k where "flush_to_miot tx msgs = Ok (tx', st)" and "k \<le> length msgs"
    and "queue_values st = drop k msgs"
    and "ch_queue (pt_tx tx') = ch_queue (pt_tx tx) @ map packet_of (take k msgs)"
proof -
  have e: "try_each to_v5_packet msgs = Ok (map packet_of msgs)"
    using assms by (intro try_each_total) (simp add: to_v5_packet_eq)
  obtain c n st0 where l: "try_sends_loop (pt_tx tx) (pt_count tx) (map packet_of msgs) = (c, n, st0)"
    by (metis prod_cases3)
  obtain k where k: "k \<le> length msgs" "ch_queue c = ch_queue (pt_tx tx) @ take k (map packet_of msgs)"
    "queue_values st0 = drop k (map packet_of msgs)" using try_sends_split [OF l] by auto
  obtain st1 where st1: "take_values st0 = (queue_values st0, st1)" "queue_values st1 = []"
    by (cases st0) auto
  obtain st where st: "QueueStatus_map st1 (drop k msgs) = Ok st" "queue_values st = drop k msgs"
    using QueueStatus_map_empty [OF st1(2)] by blast
  have "flush_to_miot tx msgs = Ok (tx\<lparr>pt_tx := c, pt_count := n\<rparr>, st)"
    using e l k st1 st by (simp add: flush_to_miot_def PktTx_try_sends_def)
  with k st that [of "tx\<lparr>pt_tx := c, pt_count := n\<rparr>" st k] show thesis by (simp add: take_map)
qed

section \<open>The invariant\<close>

definition numbered :: "OutSeqno \<Rightarrow> Message \<Rightarrow> bool" where
  "numbered s m \<longleftrightarrow> (\<exists>i p. m = MsgPacket s (Some i) p \<and> pub_packet_id p = Some i)"

definition unacked :: "PacketID \<Rightarrow> Message \<Rightarrow> bool" where
  "unacked i m \<longleftrightarrow> (\<exists>s. numbered s m) \<and> to_packet_id m = Ok i"

text \<open>The acknowledgements that the broker makes: none of them carries a PUBLISH.\<close>

definition is_ack :: "Message \<Rightarrow> bool" where
  "is_ack m \<longleftrightarrow> (\<exists>p. m = ClientAck p \<and> (\<forall>q. p \<noteq> Packet.Publish q))"

definition active_inv :: "ActiveState \<Rightarrow> bool" where
  "active_inv a \<longleftrightarrow>
     bt_wf (ac_topic_aliases a) \<and> bt_wf (ac_subscriptions a) \<and> sorted_wrt (<) (ac_inp_qos12 a) \<and>
     (\<forall>m \<in> set (ac_qos0_back_log a). \<exists>s p. m = MsgPacket s None p) \<and>
     (\<forall>m \<in> set (ac_out_acks a). is_ack m) \<and>
     bt_wf (ac_qos12_unacks a) \<and> (\<forall>(i, m) \<in> set (ac_qos12_unacks a). unacked i m) \<and>
     bt_wf (ac_back_log a) \<and> (\<forall>(s, m) \<in> set (ac_back_log a). numbered s m)"

lemma active_Active [simp]: "active (Active a) = Ok a"
  by (simp add: active_def)

lemma numbered_simps:
  assumes "numbered s m"
  shows "sendable m" "to_out_seqno m = Ok s" "\<exists>i. to_packet_id m = Ok i"
  using assms by (auto simp: numbered_def to_out_seqno_def to_packet_id_def)

lemma out_qos0_inv:
  assumes "active_inv a" and "\<forall>m \<in> set msgs. \<exists>r. m = Routed r"
  obtains a' st where "out_qos0 (Active a) msgs = Ok (Active a', st)" and "active_inv a'" and "queue_values st = []"
    and "ac_inp_qos12 a' = ac_inp_qos12 a" and "ac_config a' = ac_config a"
    and "length (ac_qos0_back_log a) \<le> unat (cfg_mqtt_pkt_batch_size (ac_config a)) * 4 \<Longrightarrow>
      ch_queue (pt_tx (ac_miot_tx a')) @ map packet_of (ac_qos0_back_log a') =
      ch_queue (pt_tx (ac_miot_tx a)) @ map packet_of (ac_qos0_back_log a) @
        map (\<lambda>m. case m of Routed r \<Rightarrow> Packet.Publish (rt_publish r)) msgs"
proof (cases "length (ac_qos0_back_log a) > unat (cfg_mqtt_pkt_batch_size (ac_config a)) * 4")
  case True
  then show thesis using that [of a "QDisconnected []"] assms(1) by (simp add: out_qos0_def)
next
  case False
  define new where "new = map (\<lambda>m. case m of Routed r \<Rightarrow> MsgPacket (rt_out_seqno r) None (rt_publish r)) msgs"
  let ?all = "ac_qos0_back_log a @ new"
  have new: "try_each (\<lambda>msg. into_packet msg None) msgs = Ok new"
    unfolding new_def using assms(2) by (intro try_each_total) (auto simp: into_packet_def)
  have all: "\<forall>m \<in> set ?all. \<exists>s p. m = MsgPacket s None p"
    using assms by (auto simp: active_inv_def new_def)
  then have "\<forall>m \<in> set ?all. sendable m" by fastforce
  then obtain tx' st k where f: "flush_to_miot (ac_miot_tx a) ?all = Ok (tx', st)" "k \<le> length ?all"
    "queue_values st = drop k ?all" "ch_queue (pt_tx tx') = ch_queue (pt_tx (ac_miot_tx a)) @ map packet_of (take k ?all)"
    by (rule flush_to_miot_eq)
  obtain st' where st': "take_values st = (drop k ?all, st')" "queue_values st' = []"
    using f(3) by (cases st) auto
  define a' where "a' = a\<lparr>ac_miot_tx := tx', ac_qos0_back_log := drop k ?all\<rparr>"
  have "out_qos0 (Active a) msgs = Ok (Active a', st')"
    using False new f(1) st' by (simp add: out_qos0_def a'_def Let_def)
  moreover have "active_inv a'"
    using assms(1) all by (auto simp: active_inv_def a'_def dest!: in_set_dropD)
  moreover have "ch_queue (pt_tx tx') @ map packet_of (drop k ?all) = ch_queue (pt_tx (ac_miot_tx a)) @ map packet_of ?all"
    unfolding f(4) by (metis append.assoc append_take_drop_id map_append)
  moreover have "map packet_of new = map (\<lambda>m. case m of Routed r \<Rightarrow> Packet.Publish (rt_publish r)) msgs"
    using assms(2) by (auto simp: new_def)
  ultimately show thesis using that [of a' st'] st'(2) by (simp add: a'_def)
qed

section \<open>Numbering and sending in order\<close>

fun number :: "PacketID \<Rightarrow> MsgRouted list \<Rightarrow> (OutSeqno \<times> Message) list" where
  "number i [] = []"
| "number i (r # rs) =
     (rt_out_seqno r, MsgPacket (rt_out_seqno r) (Some i) (Publish_set_packet_id (rt_publish r) i)) # number (i + 1) rs"

fun id_of :: "Message \<Rightarrow> PacketID" where
  "id_of (MsgPacket _ (Some i) _) = i"
| "id_of _ = 0"

fun seqno_of :: "Message \<Rightarrow> OutSeqno" where
  "seqno_of (MsgPacket s _ _) = s"
| "seqno_of _ = 0"

lemma number_numbered: "(s, m) \<in> set (number i rs) \<Longrightarrow> numbered s m"
  by (induction rs arbitrary: i) (auto simp: numbered_def Publish_set_packet_id_def)

lemma numbered_id: "numbered s m \<Longrightarrow> to_packet_id m = Ok (id_of m) \<and> seqno_of m = s"
  by (auto simp: numbered_def to_packet_id_def)

lemma number_seqnos: "map fst (number i rs) = map rt_out_seqno rs"
  by (induction rs arbitrary: i) simp_all

lemma number_fold:
  "try_fold number_msg (i, bl) (map Routed rs) =
     Ok (i + of_nat (length rs), fold (\<lambda>x. bt_insert (fst x) (snd x)) (number i rs) bl)"
  by (induction rs arbitrary: i bl) (simp_all add: number_msg_def into_packet_def to_out_seqno_def add.assoc)

lemma book_unack_fold:
  "\<forall>m \<in> set msgs. \<exists>s. numbered s m \<Longrightarrow>
     try_fold book_unack u msgs = Ok (fold (\<lambda>m. bt_insert (id_of m) m) msgs u)"
  by (induction msgs arbitrary: u) (auto simp: book_unack_def dest!: numbered_id)

lemma put_back_fold:
  "\<forall>m \<in> set msgs. \<exists>s. numbered s m \<Longrightarrow>
     try_fold put_back (bl, u) msgs =
       Ok (fold (\<lambda>m. bt_insert (seqno_of m) m) msgs bl, fold (\<lambda>m. bt_remove (id_of m)) msgs u)"
proof (induction msgs arbitrary: bl u)
  case (Cons m msgs)
  then obtain s where "numbered s m" by auto
  with numbered_id [OF this] numbered_simps(2) [OF this] Cons show ?case by (simp add: put_back_def)
qed simp

lemma pop_back_log_eq:
  "length msgs \<le> limit \<Longrightarrow> pop_back_log limit msgs bl =
     (msgs @ map snd (take (limit - length msgs) bl), drop (limit - length msgs) bl)"
proof (induction limit msgs bl rule: pop_back_log.induct)
  case (2 limit msgs seqno msg bl)
  show ?case
  proof (cases "length msgs < limit")
    case True
    then have "limit - length msgs = Suc (limit - Suc (length msgs))" by simp
    with 2 True show ?thesis by simp
  qed (use 2 in simp)
qed simp

lemma bt_insert_mid: "bt_wf (xs @ (k, v) # zs) \<Longrightarrow> bt_insert k v (xs @ zs) = xs @ (k, v) # zs"
proof (induction xs)
  case Nil
  then show ?case by (cases zs) auto
next
  case (Cons x xs)
  obtain k' v' where x: "x = (k', v')" by (cases x)
  with Cons.prems have "k' < k" by simp
  then have "\<not> k < k'" "k \<noteq> k'" by auto
  with Cons x show ?case by simp
qed

lemma bt_fold_insert_mid:
  "bt_wf (vs @ ws @ zs) \<Longrightarrow> fold (\<lambda>x. bt_insert (fst x) (snd x)) ws (vs @ zs) = vs @ ws @ zs"
proof (induction ws arbitrary: vs)
  case (Cons w ws)
  have "bt_wf (vs @ w # zs)" using Cons.prems by (auto simp: bt_wf_def sorted_wrt_append)
  then have "bt_insert (fst w) (snd w) (vs @ zs) = (vs @ [w]) @ zs" using bt_insert_mid [of vs "fst w" "snd w" zs] by simp
  moreover have "bt_wf ((vs @ [w]) @ ws @ zs)" using Cons.prems by simp
  ultimately show ?case using Cons.IH [of "vs @ [w]"] by simp
qed simp

lemmas bt_fold_insert_front = bt_fold_insert_mid [of "[]", simplified]

lemma bt_fold_insert_last: "bt_wf (vs @ ws) \<Longrightarrow> fold (\<lambda>x. bt_insert (fst x) (snd x)) ws vs = vs @ ws"
  using bt_fold_insert_mid [of vs ws "[]"] by simp

lemma bt_insert_set: "x \<in> set (bt_insert k v m) \<Longrightarrow> x = (k, v) \<or> x \<in> set m"
  by (induction k v m rule: bt_insert.induct) (auto split: if_split_asm)

lemma fold_insert_set:
  "x \<in> set (fold (\<lambda>y. bt_insert (key y) (val y)) ys m) \<Longrightarrow> x \<in> (\<lambda>y. (key y, val y)) ` set ys \<union> set m"
proof (induction ys arbitrary: m)
  case (Cons y ys)
  from Cons.IH Cons.prems have "x \<in> (\<lambda>y. (key y, val y)) ` set ys \<union> set (bt_insert (key y) (val y) m)" by simp
  with bt_insert_set show ?case by fastforce
qed simp

lemma fold_remove_set: "x \<in> set (fold (\<lambda>y. bt_remove (key y)) ys m) \<Longrightarrow> x \<in> set m"
  by (induction ys arbitrary: m) (auto dest: bt_remove_set)

text \<open>What is put back goes in front of what was not taken out.\<close>

lemma put_back_drop:
  assumes "bt_wf bl" and "\<forall>(s, m) \<in> set bl. numbered s m" and "k \<le> L"
  shows "fold (\<lambda>m. bt_insert (seqno_of m) m) (drop k (map snd (take L bl))) (drop L bl) = drop k bl"
proof -
  have s: "seqno_of m = s" if "(s, m) \<in> set bl" for s m using assms(2) that numbered_id by blast
  have e: "drop k (take L bl) @ drop L bl = drop k bl"
    using assms(3) by (metis append_take_drop_id drop_drop drop_take le_add_diff_inverse2)
  have "fold (\<lambda>m. bt_insert (seqno_of m) m) (drop k (map snd (take L bl))) (drop L bl) =
      fold (\<lambda>x. bt_insert (seqno_of (snd x)) (snd x)) (drop k (take L bl)) (drop L bl)"
    by (simp add: drop_map fold_map comp_def)
  also have "\<dots> = fold (\<lambda>x. bt_insert (fst x) (snd x)) (drop k (take L bl)) (drop L bl)"
    by (intro fold_cong refl) (auto dest!: in_set_dropD in_set_takeD s)
  also have "\<dots> = drop k (take L bl) @ drop L bl"
    by (rule bt_fold_insert_front, unfold e) (use assms(1) in \<open>simp add: bt_wf_def drop_map [symmetric] sorted_wrt_drop\<close>)
  finally show ?thesis unfolding e .
qed

lemma unacks_inv:
  fixes gone :: "Message list"
  assumes "bt_wf u" and "\<forall>(i, m) \<in> set u. unacked i m" and "\<forall>m \<in> set msgs. \<exists>s. numbered s m"
  defines "u' \<equiv> fold (\<lambda>m. bt_remove (id_of m)) gone (fold (\<lambda>m. bt_insert (id_of m) m) msgs u)"
  shows "bt_wf u' \<and> (\<forall>(i, m) \<in> set u'. unacked i m)"
proof
  show "bt_wf u'" unfolding u'_def by (intro bt.del_all_ok bt.put_all_ok assms(1))
  show "\<forall>(i, m) \<in> set u'. unacked i m"
  proof clarify
    fix i m
    assume "(i, m) \<in> set u'"
    then have "(i, m) \<in> (\<lambda>m. (id_of m, m)) ` set msgs \<union> set u"
      unfolding u'_def by (blast dest!: fold_remove_set fold_insert_set [where key = id_of and val = "\<lambda>m. m"])
    with assms(2,3) numbered_id show "unacked i m" by (auto simp: unacked_def)
  qed
qed

lemma number_back_log:
  fixes rs :: "MsgRouted list" and i :: PacketID
  assumes "active_inv a"
  defines "bl \<equiv> fold (\<lambda>x. bt_insert (fst x) (snd x)) (number i rs) (ac_back_log a)"
  shows "bt_wf bl \<and> (\<forall>(s, m) \<in> set bl. numbered s m)"
proof
  show "bt_wf bl" unfolding bl_def by (rule bt.put_all_ok) (use assms in \<open>simp add: active_inv_def\<close>)
  show "\<forall>(s, m) \<in> set bl. numbered s m"
  proof clarify
    fix s m
    assume "(s, m) \<in> set bl"
    then have "(s, m) \<in> (\<lambda>x. (fst x, snd x)) ` set (number i rs) \<union> set (ac_back_log a)"
      unfolding bl_def by (rule fold_insert_set)
    with number_numbered assms show "numbered s m" by (auto simp: active_inv_def)
  qed
qed

lemma out_qos_run:
  fixes rs :: "MsgRouted list"
  assumes inv: "active_inv a"
    and room: "length (ac_back_log a) \<le> unat (cfg_mqtt_pkt_batch_size (ac_config a)) * 4"
    and window: "length (ac_qos12_unacks a) < unat (cfg_mqtt_receive_maximum (ac_config a))"
  defines "bl \<equiv> fold (\<lambda>x. bt_insert (fst x) (snd x)) (number (ac_next_packet_id a) rs) (ac_back_log a)"
  obtains a' st k where "out_qos_active (Active a) (map Routed rs) = Ok (Active a', st)"
    and "active_inv a'" and "queue_values st = []" and "ac_back_log a' = drop k bl"
    and "ch_queue (pt_tx (ac_miot_tx a')) = ch_queue (pt_tx (ac_miot_tx a)) @ map packet_of (map snd (take k bl))"
    and "ac_next_packet_id a' = ac_next_packet_id a + of_nat (length rs)"
    and "ac_inp_qos12 a' = ac_inp_qos12 a" and "ac_config a' = ac_config a"
proof -
  have bl: "bt_wf bl" "\<forall>(s, m) \<in> set bl. numbered s m" unfolding bl_def using number_back_log [OF inv] by blast+
  define L where "L = unat (cfg_mqtt_pkt_batch_size (ac_config a))"
  define msgs where "msgs = map snd (take L bl)"
  have msgs: "\<exists>s. numbered s m" if "m \<in> set msgs" for m
    using that bl(2) by (fastforce simp: msgs_def dest!: in_set_takeD)
  then have "\<forall>m \<in> set msgs. sendable m" using numbered_simps(1) by blast
  then obtain tx' st k where f: "flush_to_miot (ac_miot_tx a) msgs = Ok (tx', st)" "k \<le> length msgs"
    "queue_values st = drop k msgs" "ch_queue (pt_tx tx') = ch_queue (pt_tx (ac_miot_tx a)) @ map packet_of (take k msgs)"
    by (rule flush_to_miot_eq)
  obtain st' where st': "take_values st = (drop k msgs, st')" "queue_values st' = []"
    using f(3) by (cases st) auto
  have kL: "k \<le> L" using f(2) by (simp add: msgs_def)
  define u where "u = fold (\<lambda>m. bt_insert (id_of m) m) msgs (ac_qos12_unacks a)"
  define u' where "u' = fold (\<lambda>m. bt_remove (id_of m)) (drop k msgs) u"
  define a' where "a' = a\<lparr>ac_miot_tx := tx', ac_qos12_unacks := u',
      ac_next_packet_id := ac_next_packet_id a + of_nat (length rs), ac_back_log := drop k bl\<rparr>"
  have dn: "\<forall>m \<in> set (drop k msgs). \<exists>s. numbered s m" using msgs by (auto dest!: in_set_dropD)
  have "out_qos_active (Active a) (map Routed rs) = Ok (Active a', st')"
    using room window number_fold [of "ac_next_packet_id a" "ac_back_log a" rs] f(1) st'(1)
      book_unack_fold [of msgs "ac_qos12_unacks a"] msgs put_back_fold [OF dn, of "drop L bl" u]
      put_back_drop [OF bl kL, folded msgs_def]
    by (simp add: out_qos_active_def Let_def pop_back_log_eq L_def [symmetric] msgs_def [symmetric]
        bl_def [symmetric] u_def [symmetric] u'_def [symmetric] a'_def linorder_not_less)
  moreover have "active_inv a'"
    using inv unacks_inv [of "ac_qos12_unacks a" msgs "drop k msgs"] msgs bl
    by (auto simp: active_inv_def a'_def u_def u'_def bt_wf_def drop_map [symmetric] sorted_wrt_drop dest!: in_set_dropD)
  moreover have "map packet_of (take k msgs) = map packet_of (map snd (take k bl))"
    using kL by (simp add: msgs_def take_map)
  ultimately show thesis using that [of a' st' k] st'(2) f(4) by (simp add: a'_def)
qed

section \<open>Acknowledgements and packet identifiers\<close>

lemma insert_sorted:
  assumes "sorted_wrt (<) ks" and "binary_search (key :: 'k :: linorder) ks = Inl i"
  shows "sorted_wrt (<) (take i ks @ key # drop i ks)"
proof -
  have "sorted ks" using assms(1) by (simp add: strict_sorted_iff)
  note b = binary_search_Inl [OF assms(2) this]
  have "\<forall>x \<in> set (take i ks). x < key" using b by (auto simp: in_set_conv_nth)
  moreover have "\<forall>x \<in> set (drop i ks). key < x" using b by (auto simp: in_set_conv_nth)
  moreover have "sorted_wrt (<) (take i ks @ drop i ks)" using assms(1) by simp
  ultimately show ?thesis unfolding sorted_wrt_append by (fastforce simp: sorted_wrt_append)
qed

lemma release_id_ack: "is_ack m \<Longrightarrow> release_id ids m = Ok ids"
  by (auto simp: is_ack_def release_id_def split: Packet.split)

lemma release_ids_ack: "\<forall>m \<in> set acks. is_ack m \<Longrightarrow> try_fold release_id ids acks = Ok ids"
  by (induction acks) (auto simp: release_id_ack)

lemma new_pub_ack_is_ack [simp]: "is_ack (new_pub_ack p)" "is_ack (new_conn_ack c)" "is_ack new_ping_resp"
  by (simp_all add: is_ack_def)

lemma out_acks_flush_inv:
  assumes "active_inv a"
  obtains a' st where "out_acks_flush (Active a) = Ok (Active a', st)" and "active_inv a'" and "queue_values st = []"
    and "ac_inp_qos12 a' = ac_inp_qos12 a" and "ac_config a' = ac_config a"
    and "ch_queue (pt_tx (ac_miot_tx a')) @ map packet_of (ac_out_acks a') =
      ch_queue (pt_tx (ac_miot_tx a)) @ map packet_of (ac_out_acks a)"
proof -
  let ?acks = "ac_out_acks a"
  have acks: "\<forall>m \<in> set ?acks. is_ack m" using assms by (simp add: active_inv_def)
  then have "\<forall>m \<in> set ?acks. sendable m" by (auto simp: is_ack_def)
  then obtain tx' st k where f: "flush_to_miot (ac_miot_tx a) ?acks = Ok (tx', st)" "k \<le> length ?acks"
    "queue_values st = drop k ?acks" "ch_queue (pt_tx tx') = ch_queue (pt_tx (ac_miot_tx a)) @ map packet_of (take k ?acks)"
    by (rule flush_to_miot_eq)
  obtain st' where st': "take_values st = (drop k ?acks, st')" "queue_values st' = []" using f(3) by (cases st) auto
  define a' where "a' = a\<lparr>ac_miot_tx := tx', ac_out_acks := drop k ?acks\<rparr>"
  have "out_acks_flush (Active a) = Ok (Active a', st')"
    using release_ids_ack [OF acks, of "ac_inp_qos12 a"] f(1) st'(1) by (simp add: out_acks_flush_def a'_def)
  moreover have "active_inv a'" using assms by (auto simp: active_inv_def a'_def dest!: in_set_dropD)
  moreover have "ch_queue (pt_tx tx') @ map packet_of (drop k ?acks) = ch_queue (pt_tx (ac_miot_tx a)) @ map packet_of ?acks"
    unfolding f(4) by (metis append.assoc append_take_drop_id map_append)
  ultimately show thesis using that [of a' st'] st'(2) by (simp add: a'_def)
qed

section \<open>Sequences of operations\<close>

text \<open>The operations on an active session, with the arguments that the shard gives them.\<close>

datatype session_op =
    OpIncr Message
  | OpQos0 "Message list"
  | OpQos "Message list"
  | OpExtend "Message list"
  | OpPubAck PacketID
  | OpFlush
  | OpCommit "OutSeqno list"
  | OpTopicName Publish
  | OpBookQos Publish

definition session_apply :: "session_op \<Rightarrow> SessionState \<Rightarrow> SessionState result" where
  "session_apply op s =
     (case op of
        OpIncr m \<Rightarrow> and_then (incr_out_seqno s m) (\<lambda>(s, _). Ok s)
      | OpQos0 ms \<Rightarrow> and_then (out_qos0 s ms) (\<lambda>(s, _). Ok s)
      | OpQos ms \<Rightarrow> and_then (out_qos s ms) (\<lambda>(s, _). Ok s)
      | OpExtend ms \<Rightarrow> out_acks_extend s ms
      | OpPubAck i \<Rightarrow> out_acks_publish s i
      | OpFlush \<Rightarrow> and_then (out_acks_flush s) (\<lambda>(s, _). Ok s)
      | OpCommit ns \<Rightarrow> commit_acks s ns
      | OpTopicName p \<Rightarrow> and_then (publish_topic_name s p) (\<lambda>(s, _). Ok s)
      | OpBookQos p \<Rightarrow> book_qos s p)"

fun op_ok :: "session_op \<Rightarrow> bool" where
  "op_ok (OpQos0 ms) \<longleftrightarrow> (\<forall>m \<in> set ms. \<exists>r. m = Routed r)"
| "op_ok (OpQos ms) \<longleftrightarrow> (\<forall>m \<in> set ms. \<exists>r. m = Routed r)"
| "op_ok (OpExtend ms) \<longleftrightarrow> (\<forall>m \<in> set ms. is_ack m)"
| "op_ok (OpBookQos p) \<longleftrightarrow> pub_qos p = AtMostOnce \<or> pub_packet_id p \<noteq> None"
| "op_ok _ \<longleftrightarrow> True"

text \<open>A request that is refused leaves the state as it was.\<close>

fun session_run :: "session_op list \<Rightarrow> SessionState \<Rightarrow> SessionState result" where
  "session_run [] s = Ok s"
| "session_run (op # ops) s =
     (case session_apply op s of
        Inr s' \<Rightarrow> session_run ops s'
      | Inl (Err _) \<Rightarrow> session_run ops s
      | Inl Panic \<Rightarrow> panic)"

text \<open>What a step keeps: the invariant, and every packet identifier that was booked.\<close>

definition keeps :: "ActiveState \<Rightarrow> SessionState result \<Rightarrow> bool" where
  "keeps a r \<longleftrightarrow> (\<exists>e. r = Inl (Err e)) \<or>
     (\<exists>a'. r = Ok (Active a') \<and> active_inv a' \<and> set (ac_inp_qos12 a) \<subseteq> set (ac_inp_qos12 a') \<and>
        ac_config a' = ac_config a)"

lemma keepsI: "\<lbrakk>r = Ok (Active a'); active_inv a'; ac_inp_qos12 a' = ac_inp_qos12 a; ac_config a' = ac_config a\<rbrakk> \<Longrightarrow> keeps a r"
  by (simp add: keeps_def)

lemma publish_topic_name_keeps:
  assumes "active_inv a"
  shows "keeps a (and_then (publish_topic_name (Active a) p) (\<lambda>(s, _). Ok s))"
  using assms by (auto simp: keeps_def publish_topic_name_def Let_def err_def active_inv_def bt_wf_insert split: option.split)

lemma book_qos_keeps:
  assumes "active_inv a" and "op_ok (OpBookQos p)"
  shows "keeps a (book_qos (Active a) p)"
proof (cases "pub_qos p = AtMostOnce")
  case True
  with assms(1) show ?thesis by (simp add: keeps_def book_qos_def)
next
  case False
  with assms(2) obtain i where i: "pub_packet_id p = Some i" by auto
  have *: "book_qos (Active a) p = (case binary_search i (ac_inp_qos12 a) of
      Inl off \<Rightarrow> Ok (Active (a\<lparr>ac_inp_qos12 := take off (ac_inp_qos12 a) @ i # drop off (ac_inp_qos12 a)\<rparr>))
    | Inr _ \<Rightarrow> Ok (Active a))"
    using False i by (cases "pub_qos p") (simp_all add: book_qos_def unwrap_opt_def)
  show ?thesis
  proof (cases "binary_search i (ac_inp_qos12 a)")
    case (Inl off)
    have "set (ac_inp_qos12 a) = set (take off (ac_inp_qos12 a)) \<union> set (drop off (ac_inp_qos12 a))"
      by (metis append_take_drop_id set_append)
    with assms(1) * Inl insert_sorted [of "ac_inp_qos12 a" i off] show ?thesis
      by (auto simp: keeps_def active_inv_def)
  qed (use assms(1) * in \<open>simp add: keeps_def\<close>)
qed

lemma routed_list: "\<forall>m \<in> set ms. \<exists>r. m = Routed r \<Longrightarrow> \<exists>rs. ms = map Routed rs"
  by (induction ms) (auto, metis list.simps(9))

lemma out_qos_keeps:
  assumes "active_inv a" and "\<forall>m \<in> set ms. \<exists>r. m = Routed r"
  shows "keeps a (and_then (out_qos (Active a) ms) (\<lambda>(s, _). Ok s))"
proof -
  obtain rs where ms: "ms = map Routed rs" using routed_list [OF assms(2)] by blast
  consider "length (ac_back_log a) > unat (cfg_mqtt_pkt_batch_size (ac_config a)) * 4"
    | "length (ac_back_log a) \<le> unat (cfg_mqtt_pkt_batch_size (ac_config a)) * 4"
      "length (ac_qos12_unacks a) \<ge> unat (cfg_mqtt_receive_maximum (ac_config a))"
    | "length (ac_back_log a) \<le> unat (cfg_mqtt_pkt_batch_size (ac_config a)) * 4"
      "length (ac_qos12_unacks a) < unat (cfg_mqtt_receive_maximum (ac_config a))" by linarith
  then show ?thesis
  proof cases
    case 3
    obtain a' st k where "out_qos_active (Active a) ms = Ok (Active a', st)" "active_inv a'"
      "ac_inp_qos12 a' = ac_inp_qos12 a" "ac_config a' = ac_config a"
      unfolding ms by (rule out_qos_run [OF assms(1) 3, of rs])
    then show ?thesis by (simp add: keeps_def out_qos_def)
  qed (use assms(1) in \<open>simp_all add: keeps_def out_qos_def out_qos_active_def Let_def\<close>)
qed

lemma session_apply_keeps:
  assumes "active_inv a" and "op_ok op"
  shows "keeps a (session_apply op (Active a))"
proof (cases op)
  case (OpQos0 ms)
  with assms(2) have "\<forall>m \<in> set ms. \<exists>r. m = Routed r" by simp
  from out_qos0_inv [OF assms(1) this] obtain a' st where "out_qos0 (Active a) ms = Ok (Active a', st)" "active_inv a'"
    "ac_inp_qos12 a' = ac_inp_qos12 a" "ac_config a' = ac_config a" by metis
  with OpQos0 show ?thesis by (simp add: session_apply_def keeps_def)
next
  case (OpQos ms)
  with assms out_qos_keeps show ?thesis by (simp add: session_apply_def)
next
  case OpFlush
  obtain a' st where "out_acks_flush (Active a) = Ok (Active a', st)" "active_inv a'"
    "ac_inp_qos12 a' = ac_inp_qos12 a" "ac_config a' = ac_config a" by (rule out_acks_flush_inv [OF assms(1)])
  with OpFlush show ?thesis by (simp add: session_apply_def keeps_def)
next
  case (OpTopicName p)
  with publish_topic_name_keeps [OF assms(1)] show ?thesis by (simp add: session_apply_def)
next
  case (OpBookQos p)
  with book_qos_keeps assms show ?thesis by (simp add: session_apply_def)
qed (use assms in \<open>auto simp: session_apply_def keeps_def incr_out_seqno_def out_acks_extend_def
    out_acks_publish_def commit_acks_def active_inv_def Let_def\<close>)

lemma session_run_keeps:
  assumes "active_inv a" and "list_all op_ok ops"
  obtains a' where "session_run ops (Active a) = Ok (Active a')" and "active_inv a'"
    and "set (ac_inp_qos12 a) \<subseteq> set (ac_inp_qos12 a')" and "ac_config a' = ac_config a"
proof -
  have "\<exists>a'. session_run ops (Active a) = Ok (Active a') \<and> active_inv a' \<and> set (ac_inp_qos12 a) \<subseteq> set (ac_inp_qos12 a') \<and>
      ac_config a' = ac_config a" using assms
  proof (induction ops arbitrary: a)
    case (Cons op ops)
    then have "keeps a (session_apply op (Active a))" by (intro session_apply_keeps) simp_all
    with Cons show ?case by (fastforce simp: keeps_def)
  qed auto
  with that show thesis by blast
qed

section \<open>Duplicates\<close>

lemma is_duplicate_booked:
  assumes "active_inv a" and "i \<in> set (ac_inp_qos12 a)" and "pub_qos p \<noteq> AtMostOnce"
    and "pub_packet_id p = Some i" and "\<not> pub_duplicate p"
  shows "is_duplicate (Active a) p = Ok True"
proof (cases "binary_search i (ac_inp_qos12 a)")
  case (Inl off)
  have "sorted (ac_inp_qos12 a)" using assms(1) by (simp add: active_inv_def strict_sorted_iff)
  from binary_search_Inl_notin [OF Inl this] assms(2) show ?thesis by blast
next
  case (Inr off)
  with assms show ?thesis by (cases "pub_qos p") (simp_all add: is_duplicate_def unwrap_opt_def)
qed

lemma book_qos_books:
  assumes "pub_qos p \<noteq> AtMostOnce" and "pub_packet_id p = Some i"
  shows "\<exists>a'. book_qos (Active a) p = Ok (Active a') \<and> i \<in> set (ac_inp_qos12 a')"
  using assms binary_search_Inr [of i "ac_inp_qos12 a"]
  by (cases "pub_qos p"; cases "binary_search i (ac_inp_qos12 a)") (auto simp: book_qos_def unwrap_opt_def)

end
