(* ===== verification/Shard_State.thy ===== *)
theory Shard_State
  imports Session_Inv Ttrie_Shared Thread
begin

text \<open>
  Model of the data of \<open>src/broker/shard.rs\<close> and of the functions with which a session reaches the shard
  that hosts it. The fields of \<open>ActiveLoop\<close> that are handles of other threads appear as what the shard
  can observe of them: the requests sent to the cluster and to the flusher and whether sending works, and
  the clients whose connection the thread of the sockets owns, or that this thread is gone. Pollers,
  wakers, names and log lines are left out, as are the handles that only other threads hold.
\<close>

section \<open>Sessions and shards\<close>

record Session =
  ses_client_id :: ClientID
  ses_shard_id :: u32
  ses_config :: Config
  ses_state :: SessionState

record Timestamp =
  ts_shard_id :: u32
  ts_last_routed :: InpSeqno
  ts_last_acked :: InpSeqno

datatype cluster_post = SetRetainTopic Publish | ResetRetainTopic TopicName

record ShardStats =
  sst_n_events :: usize
  sst_n_requests :: usize

record ActiveLoop =
  al_cluster :: "cluster_post Tx"
  al_miot :: "ClientID list option"
  al_flusher :: "(ClientID \<times> error option) Tx"
  al_sessions :: "(ClientID, Session) btree"
  al_inp_seqno :: InpSeqno
  al_shard_back_log :: "(u32, Message list) btree"
  al_index :: "(InpSeqno, Message) btree"
  al_ack_timestamps :: "Timestamp list"
  al_shard_queues :: "(u32, MsgTx) btree"
  al_topic_filters :: "Subscription Inner"
  al_retained_messages :: "Publish Inner"
  al_stats :: ShardStats

record ReplicaLoop =
  rl_sessions :: "(ClientID, Session) btree"
  rl_stats :: ShardStats

record FinState =
  fs_sessions :: "ClientID list"
  fs_inp_seqno :: InpSeqno
  fs_ack_timestamps :: "Timestamp list"
  fs_stats :: ShardStats

datatype ShardInner =
    Init
  | MainActive ActiveLoop
  | MainReplica ReplicaLoop
  | Close FinState

record Shard =
  sh_shard_id :: u32
  sh_config :: Config
  sh_inner :: ShardInner

text \<open>The destructuring of \<open>MainActive\<close>: \<open>unreachable!\<close> in every other state.\<close>

definition main_active :: "Shard \<Rightarrow> ActiveLoop result" where
  "main_active self = (case sh_inner self of MainActive l \<Rightarrow> Ok l | _ \<Rightarrow> panic)"

definition set_loop :: "Shard \<Rightarrow> ActiveLoop \<Rightarrow> Shard" where
  "set_loop self l = self\<lparr>sh_inner := MainActive l\<rparr>"

definition append_index :: "'k :: linorder \<Rightarrow> 'v \<Rightarrow> ('k, 'v list) btree \<Rightarrow> ('k, 'v list) btree" where
  "append_index key val index =
     (case bt_get index key of
        Some vals \<Rightarrow> bt_insert key (vals @ [val]) index
      | None \<Rightarrow> bt_insert key [val] index)"

section \<open>What a session asks of its shard\<close>

text \<open>
  \<open>Cluster::set_retain_topic\<close> and \<open>reset_retain_topic\<close> post a request to the thread of the cluster. What
  was sent before an error does not matter: the thread of the shard ends with it.
\<close>

definition Cluster_post :: "cluster_post Tx \<Rightarrow> cluster_post \<Rightarrow> cluster_post Tx result" where
  "Cluster_post self req = (case Tx_post self req of (tx, r) \<Rightarrow> and_then r (\<lambda>_. Ok tx))"

text \<open>One turn of the loop of \<open>match_subscribers\<close>.\<close>

definition group_subscr ::
  "Subscription \<Rightarrow> (ClientID, Subscription \<times> u32 list) btree \<Rightarrow> (ClientID, Subscription \<times> u32 list) btree" where
  "group_subscr subscr subscrs =
     (case bt_get subscrs (subn_client_id subscr) of
        Some (oldval, ids) \<Rightarrow>
          let oldval = oldval\<lparr>subn_no_local := subn_no_local oldval \<and> subn_no_local subscr,
                 subn_retain_as_published := subn_retain_as_published oldval \<or> subn_retain_as_published subscr,
                 subn_qos := max (subn_qos oldval) (subn_qos subscr)\<rparr>;
              ids = (case subn_subscription_id subscr of Some i \<Rightarrow> ids @ [i] | None \<Rightarrow> ids)
          in bt_insert (subn_client_id subscr) (oldval, ids) subscrs
      | None \<Rightarrow>
          let ids = (case subn_subscription_id subscr of Some i \<Rightarrow> [i] | None \<Rightarrow> [])
          in bt_insert (subn_client_id subscr) (subscr, ids) subscrs)"

text \<open>Matching counts in the shared statistics of the trie, so that the shard changes too.\<close>

definition match_subscribers ::
  "Shard \<Rightarrow> TopicName \<Rightarrow> (Shard \<times> (ClientID, Subscription \<times> u32 list) btree) result" where
  "match_subscribers self name =
     and_then (main_active self) (\<lambda>l.
     and_then (match_topic_name (al_topic_filters l) (topic_name name)) (\<lambda>(trie, subscrs).
       Ok (set_loop self (l\<lparr>al_topic_filters := trie\<rparr>), fold group_subscr subscrs [])))"

definition incr_inp_seqno :: "Shard \<Rightarrow> (Shard \<times> InpSeqno) result" where
  "incr_inp_seqno self =
     and_then (main_active self) (\<lambda>l.
       let seqno = al_inp_seqno l
       in Ok (set_loop self (l\<lparr>al_inp_seqno := u64_saturating_add seqno 1\<rparr>), seqno))"

definition book_index :: "Shard \<Rightarrow> QoS \<Rightarrow> Message \<Rightarrow> Shard result" where
  "book_index self qos msg =
     and_then (main_active self) (\<lambda>l.
       case qos of
         AtMostOnce \<Rightarrow> Ok self
       | AtLeastOnce \<Rightarrow>
           (case msg of
              Routed r \<Rightarrow> Ok (set_loop self (l\<lparr>al_index := bt_insert (rt_inp_seqno r) msg (al_index l)\<rparr>))
            | _ \<Rightarrow> panic)
       | ExactlyOnce \<Rightarrow> panic)"

text \<open>Indexing a vector: a position behind its end panics.\<close>

definition vec_set :: "'a list \<Rightarrow> nat \<Rightarrow> 'a \<Rightarrow> 'a list result" where
  "vec_set xs i x = (if i < length xs then Ok (xs[i := x]) else panic)"

definition book_routed_timestamps :: "Shard \<Rightarrow> u32 \<Rightarrow> InpSeqno \<Rightarrow> Shard result" where
  "book_routed_timestamps self shard_id inp_seqno =
     and_then (main_active self) (\<lambda>l.
       let ts = al_ack_timestamps l
       in and_then
            (case binary_search shard_id (map ts_shard_id ts) of
               Inr off \<Rightarrow> vec_set ts off ((ts ! off)\<lparr>ts_last_routed := inp_seqno\<rparr>)
             | Inl off \<Rightarrow>
                 vec_set ts off \<lparr>ts_shard_id = shard_id, ts_last_routed = inp_seqno, ts_last_acked = 0\<rparr>)
            (\<lambda>ts. Ok (set_loop self (l\<lparr>al_ack_timestamps := ts\<rparr>))))"

definition book_acked_timestamps :: "Shard \<Rightarrow> u32 \<Rightarrow> InpSeqno \<Rightarrow> Shard result" where
  "book_acked_timestamps self shard_id last_acked =
     and_then (main_active self) (\<lambda>l.
       let ts = al_ack_timestamps l
       in case binary_search shard_id (map ts_shard_id ts) of
            Inr off \<Rightarrow>
              and_then (vec_set ts off ((ts ! off)\<lparr>ts_last_acked := last_acked\<rparr>)) (\<lambda>ts.
                Ok (set_loop self (l\<lparr>al_ack_timestamps := ts\<rparr>)))
          | Inl _ \<Rightarrow> panic)"

definition route_to_client :: "Shard \<Rightarrow> u32 \<Rightarrow> Message \<Rightarrow> Shard result" where
  "route_to_client self target_shard_id msg =
     and_then (main_active self) (\<lambda>l.
       case msg of
         Routed r \<Rightarrow>
           let self = set_loop self (l\<lparr>al_shard_back_log := append_index target_shard_id msg (al_shard_back_log l)\<rparr>)
           in book_routed_timestamps self target_shard_id (rt_inp_seqno r)
       | _ \<Rightarrow> panic)"

section \<open>Grouping by client\<close>

text \<open>
  What the comments promise for the subscriptions of one client: the message goes out once, with the
  largest quality of service, retained as published if one of them says so, and not to the sender
  only if all of them say so. The rest comes from the first one.
\<close>

fun merged :: "Subscription list \<Rightarrow> (Subscription \<times> u32 list) option" where
  "merged [] = None"
| "merged (s # ss) =
     Some (s\<lparr>subn_no_local := list_all subn_no_local (s # ss),
         subn_retain_as_published := list_ex subn_retain_as_published (s # ss),
         subn_qos := fold max (map subn_qos ss) (subn_qos s)\<rparr>,
       List.map_filter subn_subscription_id (s # ss))"

lemma merged_snoc:
  "merged (ss @ [x]) =
     (case merged ss of
        None \<Rightarrow> Some (x, case subn_subscription_id x of Some i \<Rightarrow> [i] | None \<Rightarrow> [])
      | Some (s, ids) \<Rightarrow>
          Some (s\<lparr>subn_no_local := subn_no_local s \<and> subn_no_local x,
              subn_retain_as_published := subn_retain_as_published s \<or> subn_retain_as_published x,
              subn_qos := max (subn_qos s) (subn_qos x)\<rparr>,
            case subn_subscription_id x of Some i \<Rightarrow> ids @ [i] | None \<Rightarrow> ids))"
  by (cases ss) (auto simp: List.map_filter_def max.commute split: option.split)

lemma group_subscr_get:
  assumes "bt_wf m"
  shows "bt_wf (group_subscr x m)"
    and "bt_get (group_subscr x m) c =
      (if c = subn_client_id x
       then (case bt_get m c of
               None \<Rightarrow> Some (x, case subn_subscription_id x of Some i \<Rightarrow> [i] | None \<Rightarrow> [])
             | Some (s, ids) \<Rightarrow>
                 Some (s\<lparr>subn_no_local := subn_no_local s \<and> subn_no_local x,
                     subn_retain_as_published := subn_retain_as_published s \<or> subn_retain_as_published x,
                     subn_qos := max (subn_qos s) (subn_qos x)\<rparr>,
                   case subn_subscription_id x of Some i \<Rightarrow> ids @ [i] | None \<Rightarrow> ids))
       else bt_get m c)"
  using assms by (auto simp: group_subscr_def Let_def bt_wf_insert bt_get_insert split: option.split)

lemma group_get:
  "bt_wf (fold group_subscr subs []) \<and>
   bt_get (fold group_subscr subs []) c = merged [s \<leftarrow> subs. subn_client_id s = c]"
proof (induction subs rule: rev_induct)
  case Nil
  show ?case by (simp add: bt_get_def)
next
  case (snoc x subs)
  then show ?case
    by (cases "c = subn_client_id x") (simp_all add: group_subscr_get merged_snoc)
qed

lemma group_some: "fold group_subscr subs [] = [] \<longleftrightarrow> subs = []"
proof (cases subs)
  case (Cons s ss)
  from group_get [of subs "subn_client_id s"] Cons have "bt_get (fold group_subscr subs []) (subn_client_id s) \<noteq> None"
    by simp
  then show ?thesis using Cons by (auto simp: bt_get_def)
qed simp

section \<open>Timestamps\<close>

text \<open>
  A shard that has no entry yet panics when its place is at the end of the list; otherwise the entry
  of another shard is overwritten.
\<close>

lemma main_active_loop [simp]: "main_active (set_loop sh l) = Ok l" "sh_inner sh = MainActive l \<Longrightarrow> main_active sh = Ok l"
  by (simp_all add: main_active_def set_loop_def)

lemma set_loop_simps [simp]:
  "set_loop (set_loop sh l) l' = set_loop sh l'" "sh_shard_id (set_loop sh l) = sh_shard_id sh"
  "sh_inner (set_loop sh l) = MainActive l"
  by (simp_all add: set_loop_def)

lemma book_routed_known:
  assumes "sh_inner sh = MainActive l" and "shard_id \<in> set (map ts_shard_id (al_ack_timestamps l))"
    and "sorted (map ts_shard_id (al_ack_timestamps l))"
  obtains ts where "book_routed_timestamps sh shard_id n = Ok (set_loop sh (l\<lparr>al_ack_timestamps := ts\<rparr>))"
    and "map ts_shard_id ts = map ts_shard_id (al_ack_timestamps l)"
proof (cases "binary_search shard_id (map ts_shard_id (al_ack_timestamps l))")
  case (Inl off)
  with binary_search_Inl_notin [OF Inl assms(3)] assms(2) show thesis by blast
next
  case (Inr off)
  let ?ts = "al_ack_timestamps l"
  let ?ts' = "?ts[off := (?ts ! off)\<lparr>ts_last_routed := n\<rparr>]"
  from binary_search_Inr [OF Inr] have off: "off < length ?ts" by simp
  then have "map ts_shard_id ?ts' = map ts_shard_id ?ts"
    by (auto simp: list_eq_iff_nth_eq nth_list_update)
  moreover have "book_routed_timestamps sh shard_id n = Ok (set_loop sh (l\<lparr>al_ack_timestamps := ?ts'\<rparr>))"
    using assms(1) Inr off by (simp add: book_routed_timestamps_def vec_set_def Let_def)
  ultimately show thesis using that by blast
qed

lemma book_routed_new:
  assumes "sh_inner sh = MainActive l" and "shard_id \<notin> set (map ts_shard_id (al_ack_timestamps l))"
    and "sorted (map ts_shard_id (al_ack_timestamps l))"
  shows "panics (book_routed_timestamps sh shard_id n) \<longleftrightarrow> (\<forall>t \<in> set (al_ack_timestamps l). ts_shard_id t < shard_id)"
proof -
  let ?ts = "al_ack_timestamps l"
  obtain off where off: "binary_search shard_id (map ts_shard_id ?ts) = Inl off" by (rule binary_search_absent [OF assms(2)])
  note b = binary_search_Inl [OF off assms(3)]
  have "panics (book_routed_timestamps sh shard_id n) \<longleftrightarrow> \<not> off < length ?ts"
    using assms(1) off by (simp add: book_routed_timestamps_def vec_set_def Let_def)
  also have "\<dots> \<longleftrightarrow> (\<forall>t \<in> set ?ts. ts_shard_id t < shard_id)"
  proof
    assume "\<not> off < length ?ts"
    with b show "\<forall>t \<in> set ?ts. ts_shard_id t < shard_id" by (auto simp: in_set_conv_nth)
  next
    assume a: "\<forall>t \<in> set ?ts. ts_shard_id t < shard_id"
    show "\<not> off < length ?ts"
    proof
      assume o: "off < length ?ts"
      with b have "shard_id < ts_shard_id (?ts ! off)" by simp
      moreover have "ts_shard_id (?ts ! off) < shard_id" using a o nth_mem by blast
      ultimately show False by order
    qed
  qed
  finally show ?thesis .
qed

lemma book_routed_overwrites:
  assumes "sh_inner sh = MainActive l" and "shard_id \<notin> set (map ts_shard_id (al_ack_timestamps l))"
    and "sorted_wrt (<) (map ts_shard_id (al_ack_timestamps l))"
    and "book_routed_timestamps sh shard_id n = Ok sh'"
  shows "\<exists>off l'. sh' = set_loop sh l' \<and> off < length (al_ack_timestamps l) \<and>
    al_ack_timestamps l' =
      (al_ack_timestamps l)[off := \<lparr>ts_shard_id = shard_id, ts_last_routed = n, ts_last_acked = 0\<rparr>] \<and>
    ts_shard_id (al_ack_timestamps l ! off) \<notin> set (map ts_shard_id (al_ack_timestamps l'))"
proof -
  let ?ts = "al_ack_timestamps l"
  let ?new = "\<lparr>ts_shard_id = shard_id, ts_last_routed = n, ts_last_acked = 0\<rparr>"
  obtain off where off: "binary_search shard_id (map ts_shard_id ?ts) = Inl off" by (rule binary_search_absent [OF assms(2)])
  with assms(1,4) have o: "off < length ?ts" and sh': "sh' = set_loop sh (l\<lparr>al_ack_timestamps := ?ts[off := ?new]\<rparr>)"
    by (auto simp: book_routed_timestamps_def vec_set_def Let_def split: if_split_asm)
  have d: "distinct (map ts_shard_id ?ts)" using assms(3) by (simp add: strict_sorted_iff)
  have "ts_shard_id (?ts ! off) \<notin> set (map ts_shard_id (?ts[off := ?new]))"
  proof
    assume "ts_shard_id (?ts ! off) \<in> set (map ts_shard_id (?ts[off := ?new]))"
    then obtain j where j: "j < length ?ts" "ts_shard_id (?ts[off := ?new] ! j) = ts_shard_id (?ts ! off)"
      by (auto simp: in_set_conv_nth)
    show False
    proof (cases "j = off")
      case True
      with j o have "ts_shard_id (?ts ! off) = shard_id" by simp
      with assms(2) o show False by (metis length_map nth_map nth_mem)
    next
      case False
      with j o have "map ts_shard_id ?ts ! j = map ts_shard_id ?ts ! off" by simp
      with nth_eq_iff_index_eq [OF d] j(1) o False show False by simp
    qed
  qed
  with o sh' show ?thesis by (intro exI [of _ off]) auto
qed

end
