(* ===== verification/Session.thy ===== *)
theory Session
  imports Shard_State
begin

text \<open>
  Model of the handlers of \<open>Session\<close> in \<open>src/broker/session.rs\<close>. A handler changes the session and the
  shard that hosts it, also when it ends with an error: it is a function from both to both and a
  result. The facts about the handlers are in \<open>Session_Facts\<close>.
\<close>

section \<open>Actions\<close>

type_synonym 'a act = "Session \<times> Shard \<Rightarrow> (Session \<times> Shard) \<times> 'a result"

definition ret :: "'a result \<Rightarrow> 'a act" where
  "ret r s = (s, r)"

definition then_do :: "'a act \<Rightarrow> ('a \<Rightarrow> 'b act) \<Rightarrow> 'b act" where
  "then_do m f s = (case m s of (s', Inl e) \<Rightarrow> (s', Inl e) | (s', Inr x) \<Rightarrow> f x s')"

definition ask :: "(Session \<times> Shard \<Rightarrow> 'a) \<Rightarrow> 'a act" where
  "ask f s = (s, Ok (f s))"

text \<open>A call of an operation of the state, through the methods of \<open>Session\<close> that forward it.\<close>

definition on_state :: "(SessionState \<Rightarrow> (SessionState \<times> 'a) result) \<Rightarrow> 'a act" where
  "on_state f s =
     (case s of (ses, sh) \<Rightarrow>
        (case f (ses_state ses) of
           Inl e \<Rightarrow> (s, Inl e)
         | Inr (st, x) \<Rightarrow> ((ses\<lparr>ses_state := st\<rparr>, sh), Ok x)))"

definition on_shard :: "(Shard \<Rightarrow> (Shard \<times> 'a) result) \<Rightarrow> 'a act" where
  "on_shard f s =
     (case s of (ses, sh) \<Rightarrow>
        (case f sh of Inl e \<Rightarrow> (s, Inl e) | Inr (sh, x) \<Rightarrow> ((ses, sh), Ok x)))"

definition no_value :: "('s \<Rightarrow> 's result) \<Rightarrow> 's \<Rightarrow> ('s \<times> unit) result" where
  "no_value f s = and_then (f s) (\<lambda>s. Ok (s, ()))"

definition only_value :: "('s \<Rightarrow> 'a result) \<Rightarrow> 's \<Rightarrow> ('s \<times> 'a) result" where
  "only_value f s = and_then (f s) (\<lambda>x. Ok (s, x))"

fun each :: "('a \<Rightarrow> unit act) \<Rightarrow> 'a list \<Rightarrow> unit act" where
  "each f [] = ret (Ok ())"
| "each f (x # xs) = then_do (f x) (\<lambda>_. each f xs)"

section \<open>Starting a session\<close>

definition start_active ::
  "nat \<Rightarrow> ClientID \<Rightarrow> u32 \<Rightarrow> PktTx \<Rightarrow> PktRx \<Rightarrow> Config \<Rightarrow> Connect \<Rightarrow> Session" where
  "start_active now cid shard_id miot_tx session_rx config pkt =
     \<lparr>ses_client_id = cid, ses_shard_id = shard_id, ses_config = config,
      ses_state = Active
        \<lparr>ac_config = config, ac_keep_alive = KeepAlive_new now pkt config, ac_connect = pkt,
         ac_miot_tx = miot_tx, ac_session_rx = session_rx, ac_topic_aliases = [], ac_subscriptions = [],
         ac_inp_qos12 = [], ac_qos0_back_log = [], ac_out_acks = [], ac_qos12_unacks = [],
         ac_next_packet_id = 1, ac_out_seqno = 1, ac_back_log = []\<rparr>\<rparr>"

definition success_ack :: "Session \<Rightarrow> Connect \<Rightarrow> ConnAck result" where
  "success_ack self pkt =
     (let config = ses_config self;
          sei = (case (cfg_mqtt_session_expiry_interval config,
                       Connect_session_expiry_interval pkt) of
                   (Some one, Some two) \<Rightarrow> Some two
                 | (Some one, None) \<Rightarrow> Some one
                 | (None, Some two) \<Rightarrow> Some two
                 | (None, None) \<Rightarrow> None)
      in and_then (unwrap (QoS_try_from (cfg_mqtt_maximum_qos config))) (\<lambda>maximum_qos.
         let props = ConnAckProperties_default\<lparr>
               cap_session_expiry_interval := sei,
               cap_receive_maximum := Some (cfg_mqtt_receive_maximum config),
               cap_maximum_qos := Some maximum_qos,
               cap_retain_available := Some (cfg_mqtt_retain_available config),
               cap_max_packet_size := Some (cfg_mqtt_max_packet_size config),
               cap_wildcard_subscription_available := Some True,
               cap_subscription_identifiers_available := Some True,
               cap_topic_alias_max := Config_mqtt_topic_alias_max config\<rparr>;
             props = (if length (client_id (cpl_client_id (con_payload pkt))) = 0
                      then props\<lparr>cap_assigned_client_identifier := Some (client_id (ses_client_id self))\<rparr>
                      else props)
         in and_then (active (ses_state self)) (\<lambda>a.
            let props = (case KeepAlive_keep_alive (ac_keep_alive a) of
                           Some keep_alive \<Rightarrow> props\<lparr>cap_server_keep_alive := Some keep_alive\<rparr>
                         | None \<Rightarrow> props)
            in Ok (ConnAck_new_success (Some props)))))"

definition remove_topic_filters :: "Session \<Rightarrow> Subscription Inner \<Rightarrow> Subscription Inner result" where
  "remove_topic_filters self topic_filters =
     and_then (as_subscriptions (ses_state self)) (\<lambda>subs.
       try_fold (\<lambda>trie (flt, value). do_unsubscribe trie (topic_filter flt) value) topic_filters subs)"

section \<open>SUBSCRIBE\<close>

text \<open>One turn of the loop over the filters.\<close>

definition subscribe_filter :: "u32 option \<Rightarrow> SubscribeFilter \<Rightarrow> SubAckReasonCode act" where
  "subscribe_filter subscription_id flt =
     then_do (ret (SubscriptionOpt_unwrap (sf_opt flt))) (\<lambda>(rfr, retain_as_published, no_local, qos).
     then_do (ask (\<lambda>(ses, sh).
         \<lparr>subn_topic_filter = sf_topic_filter flt, subn_client_id = ses_client_id ses,
          subn_shard_id = sh_shard_id sh, subn_subscription_id = subscription_id, subn_qos = qos,
          subn_no_local = no_local, subn_retain_as_published = retain_as_published,
          subn_retain_forward_rule = rfr\<rparr>)) (\<lambda>subscription.
     then_do (on_shard (no_value (\<lambda>sh.
         and_then (main_active sh) (\<lambda>l.
         and_then (do_subscribe (al_topic_filters l) (topic_filter (sf_topic_filter flt)) subscription) (\<lambda>trie.
           Ok (set_loop sh (l\<lparr>al_topic_filters := trie\<rparr>))))))) (\<lambda>_.
     then_do (on_state (no_value (as_mut_subscriptions (bt_insert (sf_topic_filter flt) subscription)))) (\<lambda>_.
     then_do (ask (\<lambda>(ses, sh). cfg_mqtt_maximum_qos (ses_config ses))) (\<lambda>mx.
     then_do (ret (unwrap (QoS_try_from mx))) (\<lambda>server_qos.
       ret (Ok (case max server_qos qos of
                  AtMostOnce \<Rightarrow> SubAckReasonCode.QoS0
                | AtLeastOnce \<Rightarrow> SubAckReasonCode.QoS1
                | ExactlyOnce \<Rightarrow> SubAckReasonCode.QoS2))))))))"

fun subscribe_filters :: "u32 option \<Rightarrow> SubscribeFilter list \<Rightarrow> SubAckReasonCode list act" where
  "subscribe_filters i [] = ret (Ok [])"
| "subscribe_filters i (f # fs) =
     then_do (subscribe_filter i f) (\<lambda>rc.
     then_do (subscribe_filters i fs) (\<lambda>rcs. ret (Ok (rc # rcs))))"

definition rx_subscribe :: "Subscribe \<Rightarrow> Message list act" where
  "rx_subscribe pkt =
     (let subscription_id = (case sub_properties pkt of
              Some props \<Rightarrow> map_option var_u32 (sp_subscription_id props)
            | None \<Rightarrow> None)
      in then_do (subscribe_filters subscription_id (sub_filters pkt)) (\<lambda>return_codes.
         ret (Ok [ClientAck (Packet.SubAck
           \<lparr>sa_packet_id = sub_packet_id pkt, sa_properties = None, sa_return_codes = return_codes\<rparr>)])))"

section \<open>PUBLISH\<close>

definition book_retain :: "Publish \<Rightarrow> unit act" where
  "book_retain publish =
     then_do (ask (\<lambda>(ses, sh). cfg_mqtt_retain_available (ses_config ses))) (\<lambda>available.
       if pub_retain publish \<and> \<not> available then ret (err ErrorKind.ProtocolError ReasonCode.RetainNotSupported)
       else if pub_retain publish
       then on_shard (no_value (\<lambda>sh.
              and_then (main_active sh) (\<lambda>l.
              and_then (Cluster_post (al_cluster l)
                  (if (case pub_payload publish of Some x \<Rightarrow> length x = 0 | None \<Rightarrow> True)
                   then ResetRetainTopic (pub_topic_name publish)
                   else SetRetainTopic publish)) (\<lambda>cluster.
                Ok (set_loop sh (l\<lparr>al_cluster := cluster\<rparr>))))))
       else ret (Ok ()))"

text \<open>One turn of the loop over the subscribers.\<close>

definition route_one ::
  "Publish \<Rightarrow> InpSeqno \<Rightarrow> bool \<Rightarrow> ClientID \<times> Subscription \<times> u32 list \<Rightarrow> unit act" where
  "route_one publish inp_seqno ack_needed entry =
     (case entry of (cid, subscr, ids) \<Rightarrow>
        then_do (ask fst) (\<lambda>ses.
          if subn_no_local subscr \<and> cid = ses_client_id ses then ret (Ok ())
          else
            let retain = subn_retain_as_published subscr \<and> pub_retain publish in
            then_do (ret (Subscription_route_qos subscr publish (cfg_mqtt_maximum_qos (ses_config ses)))) (\<lambda>qos.
            let publish = Publish_set_subscription_ids (Publish_set_fixed_header publish retain qos False) ids;
                msg = new_routed (ses_shard_id ses) inp_seqno publish cid ack_needed
            in on_shard (no_value (\<lambda>sh. route_to_client sh (subn_shard_id subscr) msg)))))"

definition rx_publish :: "Publish \<Rightarrow> bool act" where
  "rx_publish publish =
     then_do (ask fst) (\<lambda>ses.
     then_do (ret (unwrap (QoS_try_from (cfg_mqtt_maximum_qos (ses_config ses))))) (\<lambda>server_qos.
     if pub_qos publish > server_qos then ret (err ErrorKind.ProtocolError ReasonCode.QoSNotSupported)
     else
       then_do (on_state (only_value (\<lambda>st. is_duplicate st publish))) (\<lambda>dup.
       if dup then ret (Ok False)
       else
         then_do (book_retain publish) (\<lambda>_.
         then_do (on_state (no_value (\<lambda>st. book_qos st publish))) (\<lambda>_.
         then_do (on_shard incr_inp_seqno) (\<lambda>inp_seqno.
         then_do (on_state (\<lambda>st. publish_topic_name st publish)) (\<lambda>topic_name.
         then_do (on_shard (\<lambda>sh. match_subscribers sh topic_name)) (\<lambda>subscrs.
         let has_subscrs = length subscrs > 0 in
         then_do (case pub_packet_id publish of
                    Some packet_id \<Rightarrow>
                      then_do (on_shard (no_value (\<lambda>sh.
                        book_index sh (pub_qos publish) (new_index (ses_client_id ses) packet_id)))) (\<lambda>_. ret (Ok True))
                  | None \<Rightarrow> ret (Ok False)) (\<lambda>ack_needed.
         then_do (each (route_one publish inp_seqno ack_needed) subscrs) (\<lambda>_.
           ret (Ok has_subscrs)))))))))))"

section \<open>Incoming packets\<close>

text \<open>\<open>todo!()\<close> is a panic. The loop of \<open>handle_packets\<close>, with the acknowledgements gathered so far.\<close>

definition handle_packet :: "Packet \<Rightarrow> Message list act" where
  "handle_packet pkt =
     (case pkt of
        Packet.PingReq \<Rightarrow> ret (Ok [new_ping_resp])
      | Packet.Publish publ \<Rightarrow>
          then_do (rx_publish publ) (\<lambda>has_subscrs.
            case (has_subscrs, pub_qos publ) of
              (_, AtMostOnce) \<Rightarrow> ret (Ok [])
            | (False, _) \<Rightarrow>
                then_do (ret (unwrap_opt (pub_packet_id publ))) (\<lambda>packet_id.
                  ret (Ok [new_pub_ack (Pub_new_pub_ack packet_id)]))
            | (True, AtLeastOnce) \<Rightarrow> ret (Ok [])
            | (True, ExactlyOnce) \<Rightarrow> ret (Ok []))
      | Packet.Subscribe pkt \<Rightarrow> rx_subscribe pkt
      | Packet.UnSubscribe _ \<Rightarrow> ret panic
      | Packet.PubAck _ \<Rightarrow> ret panic
      | Packet.PubRec _ \<Rightarrow> ret panic
      | Packet.PubRel _ \<Rightarrow> ret panic
      | Packet.PubComp _ \<Rightarrow> ret panic
      | Packet.Disconnect _ \<Rightarrow> ret (err ErrorKind.Disconnected ReasonCode.Success)
      | Packet.Auth _ \<Rightarrow> ret panic
      | Packet.Connect _ \<Rightarrow> ret (err ErrorKind.ProtocolError ReasonCode.ProtocolError)
      | Packet.ConnAck _ \<Rightarrow> ret (err ErrorKind.ProtocolError ReasonCode.ProtocolError)
      | Packet.SubAck _ \<Rightarrow> ret (err ErrorKind.ProtocolError ReasonCode.ProtocolError)
      | Packet.UnsubAck _ \<Rightarrow> ret (err ErrorKind.ProtocolError ReasonCode.ProtocolError)
      | Packet.PingResp \<Rightarrow> ret (err ErrorKind.ProtocolError ReasonCode.ProtocolError))"

fun handle_loop :: "Message list \<Rightarrow> Packet list \<Rightarrow> Message list act" where
  "handle_loop out_acks [] = ret (Ok out_acks)"
| "handle_loop out_acks (pkt # pkts) =
     then_do (handle_packet pkt) (\<lambda>acks. handle_loop (out_acks @ acks) pkts)"

text \<open>No arm that returns adds to \<open>out_seqnos\<close>: the one for PUBACK ends in \<open>todo!()\<close>.\<close>

definition handle_packets :: "Packet list \<Rightarrow> (QueuePkt \<times> OutSeqno list) act" where
  "handle_packets pkts =
     then_do (handle_loop [] pkts) (\<lambda>out_acks.
     then_do (on_state (no_value (\<lambda>st. out_acks_extend st out_acks))) (\<lambda>_.
       ret (Ok (QOk [], []))))"

definition Session_route_packets :: "nat \<Rightarrow> (QueuePkt \<times> OutSeqno list) act" where
  "Session_route_packets now =
     then_do (on_state (\<lambda>st. and_then (active st) (\<lambda>a.
       case PktRx_try_recvs (ac_session_rx a) of
         (rx, status) \<Rightarrow> Ok (Active (a\<lparr>ac_session_rx := rx\<rparr>), status)))) (\<lambda>down_status.
     case take_values down_status of
       (pkts, down_status) \<Rightarrow>
         if length pkts = 0
         then then_do (on_state (only_value (\<lambda>st. and_then (active st) (\<lambda>a.
                check_expired now (ac_keep_alive a))))) (\<lambda>_. ret (Ok (down_status, [])))
         else
           then_do (on_state (no_value (\<lambda>st. and_then (active st) (\<lambda>a.
             Ok (Active (a\<lparr>ac_keep_alive := KeepAlive_live now (ac_keep_alive a)\<rparr>)))))) (\<lambda>_.
           then_do (handle_packets pkts) (\<lambda>(status, out_seqnos).
             case (down_status, status) of
               (QDisconnected _, _) \<Rightarrow> ret (Ok (QDisconnected [], out_seqnos))
             | (_, QDisconnected _) \<Rightarrow> ret (Ok (QDisconnected [], out_seqnos))
             | _ \<Rightarrow> ret (Ok (QOk [], out_seqnos)))))"

end
