(* ===== verification/Session_Facts.thy ===== *)
theory Session_Facts
  imports Session
begin

text \<open>
  Facts about the handlers of a session: the messages that a PUBLISH leaves for the shards of its
  subscribers, what a SUBSCRIBE records and answers, and that both panic when the state of the shard is
  not there.
\<close>

section \<open>Computing with actions\<close>

lemma act_simps [simp]:
  "then_do (ret (Inr x)) f = f x"
  "then_do (ret (Inl e)) f = ret (Inl e)"
  "then_do (ask g) f s = f (g s) s"
  "then_do (on_shard h) f (ses, sh) =
     (case h sh of Inl e \<Rightarrow> ((ses, sh), Inl e) | Inr (sh', x) \<Rightarrow> f x (ses, sh'))"
  "then_do (on_state k) f (ses, sh) =
     (case k (ses_state ses) of Inl e \<Rightarrow> ((ses, sh), Inl e) | Inr (st, x) \<Rightarrow> f x (ses\<lparr>ses_state := st\<rparr>, sh))"
  "ret r s = (s, r)"
  by (auto simp: then_do_def ret_def ask_def on_shard_def on_state_def split: sum.split prod.split)

lemma then_do_assoc [simp]: "then_do (then_do m f) g = then_do m (\<lambda>x. then_do (f x) g)"
  by (auto simp: then_do_def split: sum.split prod.split)

lemma then_do_fails: "m s = (s', Inl e) \<Longrightarrow> then_do m f s = (s', Inl e)"
  by (simp add: then_do_def)

lemma then_do_goes: "m s = (s', Inr x) \<Longrightarrow> then_do m f s = f x s'"
  by (simp add: then_do_def)

lemma value_simps [simp]:
  "no_value f s = (case f s of Inl e \<Rightarrow> Inl e | Inr s' \<Rightarrow> Inr (s', ()))"
  "only_value h s = (case h s of Inl e \<Rightarrow> Inl e | Inr x \<Rightarrow> Inr (s, x))"
  by (auto simp: no_value_def only_value_def and_then_def split: sum.split)

section \<open>The messages of a PUBLISH\<close>

text \<open>
  What a PUBLISH is meant to send: for each client of the grouped subscriptions one message to the
  shard of its subscription, except to the sender itself when that asked for no local messages. The
  quality of service is the least of that of the server, the message and the subscription.
\<close>

definition delivery :: "Session \<Rightarrow> Publish \<Rightarrow> InpSeqno \<Rightarrow> bool \<Rightarrow> QoS \<Rightarrow> ClientID \<times> Subscription \<times> u32 list \<Rightarrow> u32 \<times> Message" where
  "delivery ses publish seqno ack server_qos entry =
     (case entry of (cid, subscr, ids) \<Rightarrow>
       (subn_shard_id subscr,
        new_routed (ses_shard_id ses) seqno
          (Publish_set_subscription_ids
            (Publish_set_fixed_header publish (subn_retain_as_published subscr \<and> pub_retain publish)
              (min (min server_qos (pub_qos publish)) (subn_qos subscr)) False) ids)
          cid ack))"

definition local_echo :: "Session \<Rightarrow> ClientID \<times> Subscription \<times> u32 list \<Rightarrow> bool" where
  "local_echo ses entry = (case entry of (cid, subscr, ids) \<Rightarrow> subn_no_local subscr \<and> cid = ses_client_id ses)"

definition deliveries ::
  "Session \<Rightarrow> Publish \<Rightarrow> InpSeqno \<Rightarrow> bool \<Rightarrow> QoS \<Rightarrow> (ClientID \<times> Subscription \<times> u32 list) list \<Rightarrow> (u32 \<times> Message) list" where
  "deliveries ses publish seqno ack server_qos es =
     map (delivery ses publish seqno ack server_qos) [e \<leftarrow> es. \<not> local_echo ses e]"

abbreviation log_all :: "(u32 \<times> Message) list \<Rightarrow> (u32, Message list) btree \<Rightarrow> (u32, Message list) btree" where
  "log_all ds bl \<equiv> fold (\<lambda>(t, m). append_index t m) ds bl"

text \<open>The messages that wait for a shard.\<close>

definition waiting :: "u32 \<Rightarrow> (u32, Message list) btree \<Rightarrow> Message list" where
  "waiting t bl = (case bt_get bl t of Some ms \<Rightarrow> ms | None \<Rightarrow> [])"

lemma waiting_append:
  assumes "bt_wf bl"
  shows "bt_wf (append_index t m bl)"
    and "waiting t' (append_index t m bl) = waiting t' bl @ (if t = t' then [m] else [])"
  using assms by (auto simp: append_index_def waiting_def bt_wf_insert bt_get_insert split: option.split)

lemma waiting_log_all:
  "bt_wf bl \<Longrightarrow> bt_wf (log_all ds bl) \<and> waiting t (log_all ds bl) = waiting t bl @ [m. (t', m) \<leftarrow> ds, t' = t]"
  by (induction ds arbitrary: bl) (auto simp: waiting_append)

lemma route_one_eq:
  assumes "unwrap (QoS_try_from (cfg_mqtt_maximum_qos (ses_config ses))) = Ok server_qos"
  shows "route_one publish seqno ack e (ses, sh) =
    (if local_echo ses e then ((ses, sh), Ok ())
     else case delivery ses publish seqno ack server_qos e of (t, m) \<Rightarrow>
       on_shard (no_value (\<lambda>sh. route_to_client sh t m)) (ses, sh))"
  using assms
  by (cases e) (simp add: route_one_def delivery_def local_echo_def Subscription_route_qos_def Let_def)

lemma route_known:
  assumes "sh_inner sh = MainActive l" and "t \<in> set (map ts_shard_id (al_ack_timestamps l))"
    and "sorted (map ts_shard_id (al_ack_timestamps l))"
  obtains ts where
    "route_to_client sh t (new_routed s n p c k) =
       Ok (set_loop sh (l\<lparr>al_shard_back_log := append_index t (new_routed s n p c k) (al_shard_back_log l),
         al_ack_timestamps := ts\<rparr>))"
    and "map ts_shard_id ts = map ts_shard_id (al_ack_timestamps l)"
proof -
  let ?l = "l\<lparr>al_shard_back_log := append_index t (new_routed s n p c k) (al_shard_back_log l)\<rparr>"
  obtain ts where "book_routed_timestamps (set_loop sh ?l) t n =
      Ok (set_loop (set_loop sh ?l) (?l\<lparr>al_ack_timestamps := ts\<rparr>))"
    "map ts_shard_id ts = map ts_shard_id (al_ack_timestamps ?l)"
    by (rule book_routed_known [of "set_loop sh ?l" ?l t n]) (use assms in simp_all)
  with assms(1) show thesis by (intro that [of ts]) (simp_all add: route_to_client_def new_routed_def)
qed

lemma route_all:
  assumes "unwrap (QoS_try_from (cfg_mqtt_maximum_qos (ses_config ses))) = Ok server_qos"
    and "sh_inner sh = MainActive l" and "sorted (map ts_shard_id (al_ack_timestamps l))"
    and "fst ` set (deliveries ses publish seqno ack server_qos es) \<subseteq> ts_shard_id ` set (al_ack_timestamps l)"
  shows "\<exists>ts. map ts_shard_id ts = map ts_shard_id (al_ack_timestamps l) \<and>
    each (route_one publish seqno ack) es (ses, sh) =
      ((ses, set_loop sh (l\<lparr>al_shard_back_log :=
          log_all (deliveries ses publish seqno ack server_qos es) (al_shard_back_log l),
        al_ack_timestamps := ts\<rparr>)), Ok ())"
  using assms(2-)
proof (induction es arbitrary: sh l)
  case Nil
  then show ?case by (intro exI [of _ "al_ack_timestamps l"]) (simp add: deliveries_def set_loop_def)
next
  case (Cons e es)
  show ?case
  proof (cases "local_echo ses e")
    case True
    then have "route_one publish seqno ack e (ses, sh) = ((ses, sh), Ok ())" by (simp add: route_one_eq [OF assms(1)])
    with True Cons show ?thesis by (simp add: deliveries_def then_do_goes)
  next
    case False
    obtain cid subscr ids where e: "e = (cid, subscr, ids)" by (cases e)
    let ?d = "delivery ses publish seqno ack server_qos e"
    have known: "fst ?d \<in> set (map ts_shard_id (al_ack_timestamps l))"
      using Cons.prems(3) False by (auto simp: deliveries_def)
    obtain ts where ts: "route_to_client sh (fst ?d) (snd ?d) =
        Ok (set_loop sh (l\<lparr>al_shard_back_log := append_index (fst ?d) (snd ?d) (al_shard_back_log l), al_ack_timestamps := ts\<rparr>))"
      "map ts_shard_id ts = map ts_shard_id (al_ack_timestamps l)"
      by (rule route_known [OF Cons.prems(1) known Cons.prems(2)]) (auto simp: e delivery_def)
    let ?l = "l\<lparr>al_shard_back_log := append_index (fst ?d) (snd ?d) (al_shard_back_log l), al_ack_timestamps := ts\<rparr>"
    have ids: "ts_shard_id ` set ts = ts_shard_id ` set (al_ack_timestamps l)" using ts(2) by (metis set_map)
    have one: "route_one publish seqno ack e (ses, sh) = ((ses, set_loop sh ?l), Ok ())"
      using False ts(1) by (cases ?d) (simp add: route_one_eq [OF assms(1)] on_shard_def)
    have "\<exists>ts'. map ts_shard_id ts' = map ts_shard_id (al_ack_timestamps ?l) \<and>
      each (route_one publish seqno ack) es (ses, set_loop sh ?l) =
        ((ses, set_loop (set_loop sh ?l) (?l\<lparr>al_shard_back_log :=
            log_all (deliveries ses publish seqno ack server_qos es) (al_shard_back_log ?l),
          al_ack_timestamps := ts'\<rparr>)), Ok ())"
      using Cons.prems False ts(2) ids by (intro Cons.IH) (auto simp: deliveries_def)
    then show ?thesis using False ts(2)
      by (cases ?d) (auto simp: then_do_goes [where m = "route_one publish seqno ack e", OF one] deliveries_def)
  qed
qed

text \<open>A PUBLISH of quality of service 0 that is not to be retained, by its steps.\<close>

lemma rx_publish_qos0:
  assumes "unwrap (QoS_try_from (cfg_mqtt_maximum_qos (ses_config ses))) = Ok server_qos"
    and "pub_qos publish = AtMostOnce" and "\<not> pub_retain publish" and "pub_packet_id publish = None"
    and "ses_state ses = Active a" and "sh_inner sh = MainActive l"
    and "publish_topic_name (Active a) publish = Ok (st, name)"
    and "match_topic_name (al_topic_filters l) (topic_name name) = Ok (trie, subscrs)"
  shows "rx_publish publish (ses, sh) =
    then_do (each (route_one publish (al_inp_seqno l) False) (fold group_subscr subscrs []))
      (\<lambda>_. ret (Ok (subscrs \<noteq> [])))
      (ses\<lparr>ses_state := st\<rparr>, set_loop sh (l\<lparr>al_inp_seqno := u64_saturating_add (al_inp_seqno l) 1, al_topic_filters := trie\<rparr>))"
proof -
  have least: "\<not> server_qos < AtMostOnce" by (cases server_qos) (simp_all add: less_QoS_def)
  have dup: "is_duplicate (Active a) publish = Ok False" "book_qos (Active a) publish = Ok (Active a)"
    using assms(2) by (simp_all add: is_duplicate_def book_qos_def active_def)
  have ses: "ses\<lparr>ses_state := Active a\<rparr> = ses" using assms(5) by simp
  show ?thesis
    using assms least dup ses
    by (simp add: rx_publish_def book_retain_def incr_inp_seqno_def match_subscribers_def Let_def group_some)
qed

text \<open>With quality of service 1 or 2 the index is asked for, and panics.\<close>

lemma book_index_panics: "qos \<noteq> AtMostOnce \<Longrightarrow> book_index sh qos (new_index c i) = panic"
  by (cases qos) (auto simp: book_index_def main_active_def and_then_def split: ShardInner.split)

lemma rx_publish_qos12:
  assumes "unwrap (QoS_try_from (cfg_mqtt_maximum_qos (ses_config ses))) = Ok server_qos"
    and "pub_qos publish \<noteq> AtMostOnce" and "pub_qos publish \<le> server_qos" and "\<not> pub_retain publish"
    and "pub_packet_id publish = Some i" and "ses_state ses = Active a" and "sh_inner sh = MainActive l"
    and "is_duplicate (Active a) publish = Ok False" and "book_qos (Active a) publish = Ok st"
    and "publish_topic_name st publish = Ok (st', name)"
    and "match_topic_name (al_topic_filters l) (topic_name name) = Ok (trie, subscrs)"
  shows "snd (rx_publish publish (ses, sh)) = panic"
proof -
  have le: "\<not> server_qos < pub_qos publish" using assms(3) by simp
  show ?thesis
    using assms le book_index_panics [OF assms(2)]
    by (simp add: rx_publish_def book_retain_def incr_inp_seqno_def match_subscribers_def Let_def)
qed

section \<open>What a SUBSCRIBE does\<close>

text \<open>The quality of service that a filter asks for, and the code that answers it.\<close>

definition asked_qos :: "SubscribeFilter \<Rightarrow> QoS" where
  "asked_qos f = (case SubscriptionOpt_unwrap (sf_opt f) of Inr (_, _, _, qos) \<Rightarrow> qos | Inl _ \<Rightarrow> AtMostOnce)"

definition suback_code :: "QoS \<Rightarrow> SubAckReasonCode" where
  "suback_code qos =
     (case qos of AtMostOnce \<Rightarrow> SubAckReasonCode.QoS0
      | AtLeastOnce \<Rightarrow> SubAckReasonCode.QoS1
      | ExactlyOnce \<Rightarrow> SubAckReasonCode.QoS2)"

text \<open>The session and the trie of the shard both know the subscription of a client for a filter.\<close>

definition subscribed :: "ActiveState \<Rightarrow> ActiveLoop \<Rightarrow> ClientID \<Rightarrow> TopicFilter \<Rightarrow> bool" where
  "subscribed a l c f \<longleftrightarrow>
     bt_get (ac_subscriptions a) f \<noteq> None \<and>
     (client_id c, topic_filter f) \<in> Subscription_key ` set (subs_at (al_topic_filters l) (topic_filter f))"

lemma set_ins_values:
  "Subscription_key ` set (ins_values Subscription_key v vs) = insert (Subscription_key v) (Subscription_key ` set vs)"
  by (auto simp: ins_values_def image_iff dest: in_set_takeD in_set_dropD)

lemma subscribe_filter_ok:
  assumes "SubscriptionOpt_unwrap (sf_opt f) \<noteq> panic" and "sh_inner sh = MainActive l" and "trie_wf (al_topic_filters l)"
    and "ses_state ses = Active a" and "bt_wf (ac_subscriptions a)"
    and "unwrap (QoS_try_from (cfg_mqtt_maximum_qos (ses_config ses))) = Ok server_qos"
  obtains subs trie where "subscribe_filter i f (ses, sh) =
      ((ses\<lparr>ses_state := Active (a\<lparr>ac_subscriptions := subs\<rparr>)\<rparr>, set_loop sh (l\<lparr>al_topic_filters := trie\<rparr>)),
       Ok (suback_code (max server_qos (asked_qos f))))"
    and "trie_wf trie" and "bt_wf subs"
    and "subscribed (a\<lparr>ac_subscriptions := subs\<rparr>) (l\<lparr>al_topic_filters := trie\<rparr>) (ses_client_id ses) (sf_topic_filter f)"
    and "\<And>g. subscribed a l (ses_client_id ses) g \<Longrightarrow>
      subscribed (a\<lparr>ac_subscriptions := subs\<rparr>) (l\<lparr>al_topic_filters := trie\<rparr>) (ses_client_id ses) g"
proof -
  obtain rfr rap nl qos where opt: "SubscriptionOpt_unwrap (sf_opt f) = Ok (rfr, rap, nl, qos)"
    using assms(1) by (auto simp: SubscriptionOpt_unwrap_def and_then_def unwrap_def Let_def split: sum.split_asm)
  define v where "v = \<lparr>subn_topic_filter = sf_topic_filter f, subn_client_id = ses_client_id ses,
          subn_shard_id = sh_shard_id sh, subn_subscription_id = i, subn_qos = qos,
          subn_no_local = nl, subn_retain_as_published = rap, subn_retain_forward_rule = rfr\<rparr>"
  have key: "Subscription_key v = (client_id (ses_client_id ses), topic_filter (sf_topic_filter f))"
    by (simp add: v_def Subscription_key_def)
  obtain trie where trie: "do_subscribe (al_topic_filters l) (topic_filter (sf_topic_filter f)) v = Ok trie" "trie_wf trie"
    "\<And>p. lookup (in_root trie) p = (if p = iter_topic_path (topic_filter (sf_topic_filter f))
       then ins_values Subscription_key v (subs_at (al_topic_filters l) (topic_filter (sf_topic_filter f)))
       else lookup (in_root (al_topic_filters l)) p)"
    by (rule do_subscribe_Ok [OF assms(3), of "topic_filter (sf_topic_filter f)" v]) blast
  let ?subs = "bt_insert (sf_topic_filter f) v (ac_subscriptions a)"
  have "subscribe_filter i f (ses, sh) =
      ((ses\<lparr>ses_state := Active (a\<lparr>ac_subscriptions := ?subs\<rparr>)\<rparr>, set_loop sh (l\<lparr>al_topic_filters := trie\<rparr>)),
       Ok (suback_code (max server_qos (asked_qos f))))"
    using assms opt trie(1)
    by (simp add: subscribe_filter_def as_mut_subscriptions_def active_def asked_qos_def suback_code_def v_def)
  moreover have "subscribed (a\<lparr>ac_subscriptions := ?subs\<rparr>) (l\<lparr>al_topic_filters := trie\<rparr>) (ses_client_id ses) (sf_topic_filter f)"
    using assms(5) by (simp add: subscribed_def subs_at_def trie(3) set_ins_values key bt_get_insert)
  moreover have "subscribed (a\<lparr>ac_subscriptions := ?subs\<rparr>) (l\<lparr>al_topic_filters := trie\<rparr>) (ses_client_id ses) g"
    if "subscribed a l (ses_client_id ses) g" for g
    using assms(5) that by (auto simp: subscribed_def subs_at_def trie(3) set_ins_values bt_get_insert)
  ultimately show thesis using trie(2) assms(5) by (intro that [of ?subs trie]) (simp_all add: bt_wf_insert)
qed

lemma subscribe_filters_ok:
  assumes "\<forall>f \<in> set fs. SubscriptionOpt_unwrap (sf_opt f) \<noteq> panic"
    and "sh_inner sh = MainActive l" and "trie_wf (al_topic_filters l)"
    and "ses_state ses = Active a" and "bt_wf (ac_subscriptions a)"
    and "unwrap (QoS_try_from (cfg_mqtt_maximum_qos (ses_config ses))) = Ok server_qos"
  shows "\<exists>subs trie. subscribe_filters i fs (ses, sh) =
      ((ses\<lparr>ses_state := Active (a\<lparr>ac_subscriptions := subs\<rparr>)\<rparr>, set_loop sh (l\<lparr>al_topic_filters := trie\<rparr>)),
       Ok (map (\<lambda>f. suback_code (max server_qos (asked_qos f))) fs)) \<and>
    trie_wf trie \<and> bt_wf subs \<and>
    (\<forall>g. (g \<in> sf_topic_filter ` set fs \<or> subscribed a l (ses_client_id ses) g) \<longrightarrow>
       subscribed (a\<lparr>ac_subscriptions := subs\<rparr>) (l\<lparr>al_topic_filters := trie\<rparr>) (ses_client_id ses) g)"
  using assms
proof (induction fs arbitrary: ses sh l a)
  case Nil
  then show ?case
    by (intro exI [of _ "ac_subscriptions a"] exI [of _ "al_topic_filters l"]) (auto simp: set_loop_def)
next
  case (Cons f fs)
  obtain subs trie where one: "subscribe_filter i f (ses, sh) =
      ((ses\<lparr>ses_state := Active (a\<lparr>ac_subscriptions := subs\<rparr>)\<rparr>, set_loop sh (l\<lparr>al_topic_filters := trie\<rparr>)),
       Ok (suback_code (max server_qos (asked_qos f))))"
    and wf: "trie_wf trie" "bt_wf subs"
    and now: "subscribed (a\<lparr>ac_subscriptions := subs\<rparr>) (l\<lparr>al_topic_filters := trie\<rparr>) (ses_client_id ses) (sf_topic_filter f)"
    and old: "\<And>g. subscribed a l (ses_client_id ses) g \<Longrightarrow>
      subscribed (a\<lparr>ac_subscriptions := subs\<rparr>) (l\<lparr>al_topic_filters := trie\<rparr>) (ses_client_id ses) g"
    by (rule subscribe_filter_ok [of f sh l ses a server_qos i]) (use Cons.prems in auto)
  let ?ses = "ses\<lparr>ses_state := Active (a\<lparr>ac_subscriptions := subs\<rparr>)\<rparr>"
  let ?l = "l\<lparr>al_topic_filters := trie\<rparr>"
  from Cons.IH [of "set_loop sh ?l" ?l ?ses "a\<lparr>ac_subscriptions := subs\<rparr>"] Cons.prems wf
  obtain subs' trie' where rest: "subscribe_filters i fs (?ses, set_loop sh ?l) =
      ((ses\<lparr>ses_state := Active (a\<lparr>ac_subscriptions := subs'\<rparr>)\<rparr>, set_loop sh (l\<lparr>al_topic_filters := trie'\<rparr>)),
       Ok (map (\<lambda>f. suback_code (max server_qos (asked_qos f))) fs))"
    "trie_wf trie'" "bt_wf subs'"
    "\<forall>g. (g \<in> sf_topic_filter ` set fs \<or> subscribed (a\<lparr>ac_subscriptions := subs\<rparr>) ?l (ses_client_id ses) g) \<longrightarrow>
       subscribed (a\<lparr>ac_subscriptions := subs'\<rparr>) (l\<lparr>al_topic_filters := trie'\<rparr>) (ses_client_id ses) g"
    by auto
  have "subscribe_filters i (f # fs) (ses, sh) =
      ((ses\<lparr>ses_state := Active (a\<lparr>ac_subscriptions := subs'\<rparr>)\<rparr>, set_loop sh (l\<lparr>al_topic_filters := trie'\<rparr>)),
       Ok (map (\<lambda>f. suback_code (max server_qos (asked_qos f))) (f # fs)))"
    by (simp add: then_do_goes [where m = "subscribe_filter i f", OF one]
        then_do_goes [where m = "subscribe_filters i fs", OF rest(1)])
  with rest(2-) now old show ?case
    by (intro exI [of _ subs'] exI [of _ trie']) auto
qed

section \<open>Without the state of the shard\<close>

text \<open>
  The handlers of SUBSCRIBE and PUBLISH ask the shard for its state. When that is not there they
  panic, whatever the session is: the statement of the loop needs only the first such packet.
\<close>

definition asks_shard :: "Packet \<Rightarrow> bool" where
  "asks_shard pkt \<longleftrightarrow>
     (case pkt of
        Packet.Subscribe p \<Rightarrow> sub_filters p \<noteq> []
      | Packet.Publish publish \<Rightarrow> pub_qos publish = AtMostOnce \<and> \<not> pub_retain publish
      | _ \<Rightarrow> False)"

lemma unwrap_cases:
  obtains "unwrap r = panic" | x where "r = Ok x" and "unwrap r = Ok x"
  by (cases r) (auto simp: unwrap_def)

lemma opt_unwrap_cases:
  obtains "SubscriptionOpt_unwrap o' = panic"
  | rfr rap nl qos where "SubscriptionOpt_unwrap o' = Ok (rfr, rap, nl, qos)"
  by (cases "SubscriptionOpt_unwrap o'")
    (auto simp: SubscriptionOpt_unwrap_def and_then_def unwrap_def Let_def split: sum.split_asm)

lemma subscribe_filters_stuck:
  assumes "main_active sh = panic" and "fs \<noteq> []"
  shows "subscribe_filters i fs (ses, sh) = ((ses, sh), panic)"
proof -
  obtain f fs' where fs: "fs = f # fs'" using assms(2) by (cases fs) auto
  have "subscribe_filter i f (ses, sh) = ((ses, sh), panic)"
    using assms(1) by (cases "sf_opt f" rule: opt_unwrap_cases) (simp_all add: subscribe_filter_def)
  then show ?thesis by (simp add: fs then_do_fails)
qed

lemma rx_publish_stuck:
  assumes "main_active sh = panic" and "ses_state ses = Active a"
    and "pub_qos publish = AtMostOnce" and "\<not> pub_retain publish"
  shows "rx_publish publish (ses, sh) = ((ses, sh), panic)"
proof (cases "QoS_try_from (cfg_mqtt_maximum_qos (ses_config ses))" rule: unwrap_cases)
  case 1
  then show ?thesis by (simp add: rx_publish_def)
next
  case (2 server_qos)
  have "\<not> server_qos < AtMostOnce" by (cases server_qos) (simp_all add: less_QoS_def)
  moreover have "is_duplicate (Active a) publish = Ok False" "book_qos (Active a) publish = Ok (Active a)"
    using assms(3) by (simp_all add: is_duplicate_def book_qos_def active_def)
  moreover have "ses\<lparr>ses_state := Active a\<rparr> = ses" using assms(2) by simp
  ultimately show ?thesis
    using assms 2 by (simp add: rx_publish_def book_retain_def incr_inp_seqno_def)
qed

lemma asks_shard_stuck:
  assumes "asks_shard pkt" and "main_active sh = panic" and "ses_state ses = Active a"
  shows "handle_packet pkt (ses, sh) = ((ses, sh), panic)"
proof (cases pkt)
  case (Subscribe p)
  with assms(1) have "subscribe_filters i (sub_filters p) (ses, sh) = ((ses, sh), panic)" for i
    by (intro subscribe_filters_stuck [OF assms(2)]) (simp add: asks_shard_def)
  then show ?thesis by (simp add: Subscribe handle_packet_def rx_subscribe_def Let_def then_do_fails)
next
  case (Publish publish)
  with assms(1) have "rx_publish publish (ses, sh) = ((ses, sh), panic)"
    by (intro rx_publish_stuck [OF assms(2,3)]) (simp_all add: asks_shard_def)
  then show ?thesis by (simp add: Publish handle_packet_def then_do_fails)
qed (use assms(1) in \<open>simp_all add: asks_shard_def\<close>)

end
