(* ===== verification/Shard.thy ===== *)
theory Shard
  imports Session_Facts
begin

text \<open>
  Model of the thread of a shard, \<open>src/broker/shard.rs\<close>: one turn of \<open>active_loop\<close> and the requests of the
  other threads. The clock of a turn is an argument. The thread of the sockets answers a request to
  remove a connection with the socket if it owns one; of the socket, the shard uses the client it
  belongs to. The facts are about the state that \<open>route_packets\<close> takes away while the sessions run, and
  about a session that takes over from an older one.
\<close>

section \<open>Shared steps\<close>

text \<open>A call on the state of the session of a client; \<open>unreachable!\<close> if there is none.\<close>

definition with_session ::
  "Shard \<Rightarrow> ClientID \<Rightarrow> (SessionState \<Rightarrow> (SessionState \<times> 'a) result) \<Rightarrow> (Shard \<times> 'a) result" where
  "with_session self cid f =
     and_then (main_active self) (\<lambda>l.
       case bt_get (al_sessions l) cid of
         None \<Rightarrow> panic
       | Some ses \<Rightarrow>
           and_then (f (ses_state ses)) (\<lambda>(st, x).
             Ok (set_loop self (l\<lparr>al_sessions := bt_insert cid (ses\<lparr>ses_state := st\<rparr>) (al_sessions l)\<rparr>), x)))"

text \<open>
  \<open>Flusher::flush_connection\<close> is a request that the flusher answers; an error ends the thread by
  \<open>allow_panic!\<close>.
\<close>

definition handle_flush_connection :: "Shard \<Rightarrow> ClientID \<Rightarrow> error option \<Rightarrow> Shard result" where
  "handle_flush_connection self cid e =
     and_then (main_active self) (\<lambda>l.
       let session = bt_get (al_sessions l) cid; l = l\<lparr>al_sessions := bt_remove cid (al_sessions l)\<rparr> in
       and_then (case session of
                   Some session \<Rightarrow> remove_topic_filters session (al_topic_filters l)
                 | None \<Rightarrow> Ok (al_topic_filters l)) (\<lambda>topic_filters.
       case Tx_request (al_flusher l) (cid, e) (Some ()) of
         (tx, Inl _) \<Rightarrow> panic
       | (tx, Inr _) \<Rightarrow> Ok (set_loop self (l\<lparr>al_topic_filters := topic_filters, al_flusher := tx\<rparr>))))"

text \<open>\<open>Miot::remove_connection\<close>, and the flush that follows it everywhere.\<close>

definition drop_connection :: "Shard \<Rightarrow> ClientID \<Rightarrow> error \<Rightarrow> Shard result" where
  "drop_connection self cid e =
     and_then (main_active self) (\<lambda>l.
       case al_miot l of
         None \<Rightarrow> panic
       | Some conns \<Rightarrow>
           if cid \<in> set conns
           then handle_flush_connection (set_loop self (l\<lparr>al_miot := Some (removeAll cid conns)\<rparr>)) cid (Some e)
           else Ok self)"

abbreviation SlowClient_error :: error where
  "SlowClient_error \<equiv> \<lparr>err_kind = ErrorKind.SlowClient, err_code = Some ReasonCode.UnspecifiedError\<rparr>"

section \<open>Incoming packets\<close>

text \<open>
  The loop over the sessions, on the shard without its state, with the sessions after it, those that
  failed and the acknowledged numbers.
\<close>

fun route_sessions ::
  "nat \<Rightarrow> (ClientID \<times> Session) list \<Rightarrow> Shard \<Rightarrow>
   (Shard \<times> (ClientID \<times> Session) list \<times> (ClientID \<times> error) list \<times> (ClientID \<times> OutSeqno list) list) result" where
  "route_sessions now [] self = Ok (self, [], [], [])"
| "route_sessions now ((cid, session) # sessions) self =
     (case Session_route_packets now (session, self) of
        ((session, self), res) \<Rightarrow>
          and_then
            (case res of
               Inr (QDisconnected _, out_seqnos) \<Rightarrow>
                 Ok ([(cid, \<lparr>err_kind = ErrorKind.Disconnected, err_code = None\<rparr>)], out_seqnos)
             | Inr (_, out_seqnos) \<Rightarrow> Ok ([], out_seqnos)
             | Inl (Err e) \<Rightarrow>
                 if err_kind e = ErrorKind.Disconnected \<or> err_kind e = ErrorKind.ProtocolError
                 then Ok ([(cid, e)], []) else panic
             | Inl Panic \<Rightarrow> panic) (\<lambda>(failed, out_seqnos).
          and_then (route_sessions now sessions self) (\<lambda>(self, sessions, failed_sessions, ack_out_seqnos).
            Ok (self, (cid, session) # sessions, failed @ failed_sessions, (cid, out_seqnos) # ack_out_seqnos))))"

text \<open>The loop of \<open>send_to_shards\<close> over the back log that was taken out.\<close>

fun send_loop :: "(u32 \<times> Message list) list \<Rightarrow> ActiveLoop \<Rightarrow> ActiveLoop result" where
  "send_loop [] l = Ok l"
| "send_loop ((shard_id, msgs) # back_log) l =
     (case bt_get (al_shard_queues l) shard_id of
        None \<Rightarrow> panic
      | Some shard \<Rightarrow>
          (case MsgTx_try_sends shard msgs of
             (shard, status) \<Rightarrow>
               send_loop back_log (l\<lparr>al_shard_queues := bt_insert shard_id shard (al_shard_queues l),
                 al_shard_back_log := bt_insert shard_id (queue_values status) (al_shard_back_log l)\<rparr>)))"

definition send_to_shards :: "Shard \<Rightarrow> Shard result" where
  "send_to_shards self =
     and_then (main_active self) (\<lambda>l.
     and_then (send_loop (al_shard_back_log l) (l\<lparr>al_shard_back_log := []\<rparr>)) (\<lambda>l.
       Ok (set_loop self l)))"

definition Shard_route_packets :: "nat \<Rightarrow> Shard \<Rightarrow> (Shard \<times> (ClientID \<times> OutSeqno list) list) result" where
  "Shard_route_packets now self =
     and_then (main_active self) (\<lambda>l.
     and_then (route_sessions now (al_sessions l) (self\<lparr>sh_inner := Init\<rparr>))
       (\<lambda>(self, sessions, failed_sessions, ack_out_seqnos).
     and_then (try_fold (\<lambda>self (cid, e). drop_connection self cid e)
         (set_loop self (l\<lparr>al_sessions := sessions\<rparr>)) failed_sessions) (\<lambda>self.
     and_then (send_to_shards self) (\<lambda>self.
       Ok (self, ack_out_seqnos)))))"

section \<open>Messages from other shards\<close>

type_synonym Acks = "(u32, InpSeqno) btree"

text \<open>One turn of the loop of \<open>out_messages\<close>.\<close>

definition out_message ::
  "Shard \<times> Acks \<times> (ClientID, Message list) btree \<times> Message list \<Rightarrow> Message \<Rightarrow>
   (Shard \<times> Acks \<times> (ClientID, Message list) btree \<times> Message list) result" where
  "out_message st msg =
     (case st of (self, acks, qos0_msgs, qos12_msgs) \<Rightarrow>
        and_then (as_client_id msg) (\<lambda>cid.
        and_then (with_session self cid (\<lambda>ss. incr_out_seqno ss msg)) (\<lambda>(self, msg).
          case msg of
            LocalAck shard_id last_acked \<Rightarrow>
              and_then (book_acked_timestamps self shard_id last_acked) (\<lambda>self.
                Ok (self, acks, qos0_msgs, qos12_msgs))
          | Routed r \<Rightarrow>
              if pub_qos (rt_publish r) = AtMostOnce
              then Ok (self,
                     if rt_ack_needed r then bt_insert (rt_src_shard_id r) (rt_inp_seqno r) acks else acks,
                     append_index (rt_client_id r) msg qos0_msgs, qos12_msgs)
              else Ok (self, acks, qos0_msgs, qos12_msgs @ [msg])
          | _ \<Rightarrow> panic)))"

text \<open>The clients whose queue is closed or too long lose their connection.\<close>

definition drop_slow :: "Shard \<Rightarrow> ClientID list \<Rightarrow> Shard result" where
  "drop_slow = try_fold (\<lambda>self cid. drop_connection self cid SlowClient_error)"

fun qos0_loop :: "(ClientID \<times> Message list) list \<Rightarrow> ClientID list \<Rightarrow> Shard \<Rightarrow> (Shard \<times> ClientID list) result" where
  "qos0_loop [] disconnecteds self = Ok (self, disconnecteds)"
| "qos0_loop ((cid, msgs) # qos0_msgs) disconnecteds self =
     and_then (main_active self) (\<lambda>l.
       if bt_get (al_sessions l) cid = None then qos0_loop qos0_msgs disconnecteds self
       else
         and_then (with_session self cid (\<lambda>ss. out_qos0 ss msgs)) (\<lambda>(self, status).
           qos0_loop qos0_msgs
             (case status of QDisconnected _ \<Rightarrow> disconnecteds @ [cid] | _ \<Rightarrow> disconnecteds) self))"

definition Shard_out_qos0 :: "Shard \<Rightarrow> (ClientID, Message list) btree \<Rightarrow> Shard result" where
  "Shard_out_qos0 self qos0_msgs =
     and_then (qos0_loop qos0_msgs [] self) (\<lambda>(self, disconnecteds). drop_slow self disconnecteds)"

definition out_messages :: "Shard \<Rightarrow> MsgRx \<Rightarrow> Acks \<Rightarrow> MsgRx \<times> (Shard \<times> Acks \<times> Message QueueStatus) result" where
  "out_messages self msg_rx acks =
     (case MsgRx_try_recvs msg_rx of
        (msg_rx, status) \<Rightarrow>
          (case take_values status of
             (msgs, status) \<Rightarrow>
               (msg_rx,
                and_then (try_fold out_message (self, acks, [], []) msgs) (\<lambda>(self, acks, qos0_msgs, qos12_msgs).
                and_then (Shard_out_qos0 self qos0_msgs) (\<lambda>self.
                and_then (set_values status qos12_msgs) (\<lambda>status.
                  Ok (self, acks, status)))))))"

section \<open>Commits\<close>

definition Shard_commit_acks :: "Shard \<Rightarrow> (ClientID \<times> OutSeqno list) list \<Rightarrow> Shard result" where
  "Shard_commit_acks self ack_out_seqnos =
     and_then (main_active self) (\<lambda>_.
       try_fold (\<lambda>self (cid, out_seqnos).
         and_then (with_session self cid (no_value (\<lambda>ss. commit_acks ss out_seqnos))) (\<lambda>(self, _). Ok self))
         self ack_out_seqnos)"

definition index_routed ::
  "Acks \<times> (ClientID, Message list) btree \<Rightarrow> Message \<Rightarrow> (Acks \<times> (ClientID, Message list) btree) result" where
  "index_routed st msg =
     (case st of (acks, qos_msgs) \<Rightarrow>
        (case msg of
           Routed r \<Rightarrow>
             Ok (bt_insert (rt_src_shard_id r) (rt_inp_seqno r) acks, append_index (rt_client_id r) msg qos_msgs)
         | _ \<Rightarrow> panic))"

fun qos_loop :: "(ClientID \<times> Message list) list \<Rightarrow> ClientID list \<Rightarrow> Shard \<Rightarrow> (Shard \<times> ClientID list) result" where
  "qos_loop [] disconnecteds self = Ok (self, disconnecteds)"
| "qos_loop ((cid, msgs) # qos_msgs) disconnecteds self =
     and_then (with_session self cid (\<lambda>ss. out_qos ss msgs)) (\<lambda>(self, status).
       qos_loop qos_msgs
         (case status of QDisconnected _ \<Rightarrow> disconnecteds @ [cid] | _ \<Rightarrow> disconnecteds) self)"

definition commit_messages_active :: "Shard \<Rightarrow> Message list \<Rightarrow> Acks \<Rightarrow> (Shard \<times> Acks) result" where
  "commit_messages_active self msgs acks =
     and_then (try_fold index_routed (acks, []) msgs) (\<lambda>(acks, qos_msgs).
     and_then (main_active self) (\<lambda>_.
     and_then (qos_loop qos_msgs [] self) (\<lambda>(self, disconnecteds).
     and_then (drop_slow self disconnecteds) (\<lambda>self. Ok (self, acks)))))"

text \<open>The replica keeps no acknowledgements and ignores the status; it, too, destructures \<open>MainActive\<close>.\<close>

definition commit_messages_replica :: "Shard \<Rightarrow> Message list \<Rightarrow> Acks \<Rightarrow> (Shard \<times> Acks) result" where
  "commit_messages_replica self msgs acks =
     and_then (try_fold index_routed ([], []) msgs) (\<lambda>(_, qos_msgs).
     and_then (main_active self) (\<lambda>_.
     and_then (qos_loop qos_msgs [] self) (\<lambda>(self, _). Ok (self, acks))))"

definition commit_messages :: "Shard \<Rightarrow> Message list \<Rightarrow> Acks \<Rightarrow> (Shard \<times> Acks) result" where
  "commit_messages self msgs acks =
     (case sh_inner self of
        MainActive _ \<Rightarrow> commit_messages_active self msgs acks
      | MainReplica _ \<Rightarrow> commit_messages_replica self msgs acks
      | _ \<Rightarrow> panic)"

definition return_local_acks :: "Shard \<Rightarrow> Acks \<Rightarrow> Shard result" where
  "return_local_acks self qos_acks =
     and_then (main_active self) (\<lambda>l.
       send_to_shards (set_loop self (l\<lparr>al_shard_back_log :=
         fold (\<lambda>(target, inp_seqno). append_index target (LocalAck (sh_shard_id self) inp_seqno))
           qos_acks (al_shard_back_log l)\<rparr>)))"

section \<open>Acknowledgements\<close>

definition ack_index :: "Shard \<Rightarrow> InpSeqno \<Rightarrow> Shard result" where
  "ack_index self seqno =
     and_then (main_active self) (\<lambda>l.
     and_then (unwrap_opt (bt_get (al_index l) seqno)) (\<lambda>msg.
       let self = set_loop self (l\<lparr>al_index := bt_remove seqno (al_index l)\<rparr>) in
       case msg of
         MsgIndex src_client_id packet_id \<Rightarrow>
           and_then (with_session self src_client_id (no_value (\<lambda>ss. out_acks_publish ss packet_id))) (\<lambda>(self, _).
             Ok self)
       | _ \<Rightarrow> panic))"

definition Shard_out_acks_publish :: "Shard \<Rightarrow> Shard result" where
  "Shard_out_acks_publish self =
     and_then (main_active self) (\<lambda>l.
       case map ts_last_acked (al_ack_timestamps l) of
         [] \<Rightarrow> Ok self
       | t # ts \<Rightarrow>
           let mn = fold min ts t; seqnos = takeWhile (\<lambda>s. s \<le> mn) (map fst (al_index l))
           in try_fold ack_index self seqnos)"

fun flush_acks :: "(ClientID \<times> Session) list \<Rightarrow> ((ClientID \<times> Session) list \<times> ClientID list) result" where
  "flush_acks [] = Ok ([], [])"
| "flush_acks ((cid, session) # sessions) =
     and_then (out_acks_flush (ses_state session)) (\<lambda>(ss, status).
     and_then (flush_acks sessions) (\<lambda>(sessions, disconnecteds).
       Ok ((cid, session\<lparr>ses_state := ss\<rparr>) # sessions,
         (case status of QDisconnected _ \<Rightarrow> cid # disconnecteds | _ \<Rightarrow> disconnecteds))))"

definition Shard_out_acks_flush :: "Shard \<Rightarrow> Shard result" where
  "Shard_out_acks_flush self =
     and_then (main_active self) (\<lambda>l.
     and_then (flush_acks (al_sessions l)) (\<lambda>(sessions, disconnecteds).
       drop_slow (set_loop self (l\<lparr>al_sessions := sessions\<rparr>)) disconnecteds))"

section \<open>Requests\<close>

datatype ShardRequest =
    SetShardQueues "(u32, MsgTx) btree"
  | AddSession Connect rstring nat
  | FlushConnection ClientID "error option"
  | ShardCloses

definition handle_set_shard_queues :: "Shard \<Rightarrow> (u32, MsgTx) btree \<Rightarrow> Shard result" where
  "handle_set_shard_queues self shard_queues =
     and_then (main_active self) (\<lambda>l. Ok (set_loop self (l\<lparr>al_shard_queues := shard_queues\<rparr>)))"

text \<open>
  The new session with its CONNACK on the way to the socket. A queue that does not take the CONNACK is
  logged, and the session is not added.
\<close>

definition new_session :: "Shard \<Rightarrow> Connect \<Rightarrow> rstring \<Rightarrow> nat \<Rightarrow> (Session \<times> bool) result" where
  "new_session self connect uuid now =
     (let sz = unat (cfg_mqtt_pkt_batch_size (sh_config self));
          cid = ClientID_from_connect uuid (cpl_client_id (con_payload connect));
          session_rx = snd (pkt_channel (sh_shard_id self) sz); miot_tx = fst (pkt_channel (sh_shard_id self) sz);
          session = start_active now cid (sh_shard_id self) miot_tx session_rx (sh_config self) connect
      in and_then (success_ack session connect) (\<lambda>packet.
         and_then (as_mut_out_acks (\<lambda>acks. acks @ [new_conn_ack packet]) (ses_state session)) (\<lambda>ss.
         and_then (out_acks_flush ss) (\<lambda>(ss, status).
           Ok (session\<lparr>ses_state := ss\<rparr>, case status of QOk _ \<Rightarrow> True | _ \<Rightarrow> False)))))"

abbreviation SessionTakenOver_error :: error where
  "SessionTakenOver_error \<equiv> \<lparr>err_kind = ErrorKind.SessionTakenOver, err_code = Some ReasonCode.SessionTakenOver\<rparr>"

definition handle_add_session :: "Shard \<Rightarrow> Connect \<Rightarrow> rstring \<Rightarrow> nat \<Rightarrow> Shard result" where
  "handle_add_session self connect uuid now =
     (let cid = ClientID_from_connect uuid (cpl_client_id (con_payload connect)) in
      and_then (new_session self connect uuid now) (\<lambda>(session, sent).
        if \<not> sent then Ok self
        else
          and_then (main_active self) (\<lambda>l.
          and_then
            (case bt_get (al_sessions l) cid of
               None \<Rightarrow> Ok self
             | Some old \<Rightarrow>
                 and_then (remove_topic_filters old (al_topic_filters l)) (\<lambda>topic_filters.
                   drop_connection
                     (set_loop self (l\<lparr>al_sessions := bt_remove cid (al_sessions l), al_topic_filters := topic_filters\<rparr>))
                     cid SessionTakenOver_error)) (\<lambda>self.
          and_then (main_active self) (\<lambda>l.
            case al_miot l of
              None \<Rightarrow> panic
            | Some conns \<Rightarrow>
                Ok (set_loop self (l\<lparr>al_miot := Some (cid # removeAll cid conns),
                  al_sessions := bt_insert cid session (al_sessions l)\<rparr>)))))))"

text \<open>Of a closed session nothing is kept but that it was there.\<close>

definition handle_close_active :: "Shard \<Rightarrow> Shard result" where
  "handle_close_active self =
     and_then (main_active self) (\<lambda>l.
       if al_miot l = None then panic
       else Ok (self\<lparr>sh_inner := Close \<lparr>fs_sessions = map fst (al_sessions l), fs_inp_seqno = al_inp_seqno l,
              fs_ack_timestamps = al_ack_timestamps l, fs_stats = al_stats l\<rparr>\<rparr>))"

definition handle_close_replica :: "Shard \<Rightarrow> Shard result" where
  "handle_close_replica self =
     (case sh_inner self of
        MainReplica l \<Rightarrow>
          Ok (self\<lparr>sh_inner := Close \<lparr>fs_sessions = map fst (rl_sessions l), fs_inp_seqno = 0,
            fs_ack_timestamps = [], fs_stats = \<lparr>sst_n_events = 0, sst_n_requests = 0\<rparr>\<rparr>\<rparr>)
      | _ \<Rightarrow> panic)"

definition handle_close :: "Shard \<Rightarrow> Shard result" where
  "handle_close self =
     (case sh_inner self of
        MainActive _ \<Rightarrow> handle_close_active self
      | MainReplica _ \<Rightarrow> handle_close_replica self
      | _ \<Rightarrow> panic)"

definition shard_count :: "(ShardStats \<Rightarrow> ShardStats) \<Rightarrow> Shard \<Rightarrow> Shard result" where
  "shard_count f self =
     (case sh_inner self of
        MainActive l \<Rightarrow> Ok (set_loop self (l\<lparr>al_stats := f (al_stats l)\<rparr>))
      | MainReplica l \<Rightarrow> Ok (self\<lparr>sh_inner := MainReplica (l\<lparr>rl_stats := f (rl_stats l)\<rparr>)\<rparr>)
      | Close s \<Rightarrow> Ok (self\<lparr>sh_inner := Close (s\<lparr>fs_stats := f (fs_stats s)\<rparr>)\<rparr>)
      | Init \<Rightarrow> panic)"

text \<open>
  The loop of \<open>drain_control_chan\<close>, over the requests with a channel for the answer or without. A failure
  to answer is ignored.
\<close>

fun shard_serve :: "(ShardRequest \<times> bool) list \<Rightarrow> bool \<Rightarrow> Shard \<Rightarrow> (Shard \<times> bool) result" where
  "shard_serve [] closed self = Ok (self, closed)"
| "shard_serve ((req, answers) # reqs) closed self =
     (case (req, answers) of
        (SetShardQueues queues, True) \<Rightarrow>
          and_then (handle_set_shard_queues self queues) (shard_serve reqs closed)
      | (AddSession connect uuid now, True) \<Rightarrow>
          and_then (handle_add_session self connect uuid now) (shard_serve reqs closed)
      | (FlushConnection cid e, False) \<Rightarrow>
          and_then (handle_flush_connection self cid e) (shard_serve reqs closed)
      | (ShardCloses, True) \<Rightarrow> and_then (handle_close self) (shard_serve reqs True)
      | _ \<Rightarrow> panic)"

definition shard_drain ::
  "(ShardRequest \<times> bool) chan \<Rightarrow> Shard \<Rightarrow> (ShardRequest \<times> bool) chan \<times> (Shard \<times> (ShardRequest \<times> bool) QueueStatus \<times> bool) result" where
  "shard_drain rx self =
     (case pending_requests rx 1024 of
        (rx, status) \<Rightarrow>
          (case take_values status of
             (reqs, status) \<Rightarrow>
               (rx, and_then (shard_count (\<lambda>s. s\<lparr>sst_n_requests := sst_n_requests s + length reqs\<rparr>) self) (\<lambda>self.
                    and_then (shard_serve reqs False self) (\<lambda>(self, closed). Ok (self, status, closed))))))"

section \<open>One turn\<close>

text \<open>
  What \<open>active_loop\<close> does after the requests; the flag tells that the loop is left. \<open>Miot::wake\<close> ends the
  thread when the thread of the sockets is gone.
\<close>

definition shard_turn :: "nat \<Rightarrow> Shard \<Rightarrow> MsgRx \<Rightarrow> MsgRx \<times> (Shard \<times> bool) result" where
  "shard_turn now self msg_rx =
     (case Shard_route_packets now self of
        Inl e \<Rightarrow> (msg_rx, Inl e)
      | Inr (self, ack_out_seqnos) \<Rightarrow>
          (case out_messages self msg_rx [] of
             (msg_rx, res) \<Rightarrow>
               (msg_rx,
                and_then res (\<lambda>(self, qos_acks, status).
                  case take_values status of
                    (qos_msgs, QDisconnected _) \<Rightarrow> Ok (self, True)
                  | (qos_msgs, _) \<Rightarrow>
                      and_then (Shard_commit_acks self ack_out_seqnos) (\<lambda>self.
                      and_then (commit_messages self qos_msgs qos_acks) (\<lambda>(self, qos_acks).
                      and_then (Shard_out_acks_publish self) (\<lambda>self.
                      and_then (Shard_out_acks_flush self) (\<lambda>self.
                      and_then (return_local_acks self qos_acks) (\<lambda>self.
                      and_then (main_active self) (\<lambda>l.
                        if al_miot l = None then panic else Ok (self, False)))))))))))"

end
