(* ===== verification/Shard_Facts.thy ===== *)
theory Shard_Facts
  imports Shard
begin

text \<open>
  Facts about the thread of a shard. While \<open>route_packets\<close> runs the sessions, the state of the shard is
  not in its place, so that a session that needs it panics; a session that takes over leaves one session
  and one connection for its client; messages wait for a shard in their order.
\<close>

section \<open>Sessions without the state of the shard\<close>

text \<open>Actions that leave a shard without its state as it is.\<close>

definition leaves :: "Shard \<Rightarrow> 'a act \<Rightarrow> bool" where
  "leaves sh m \<longleftrightarrow> (\<forall>ses. snd (fst (m (ses, sh))) = sh)"

named_theorems leaving

lemma leaves_ret [leaving]: "leaves sh (ret r)"
  by (simp add: leaves_def ret_def)

lemma leaves_ask [leaving]: "leaves sh (ask f)"
  by (simp add: leaves_def ask_def)

lemma leaves_on_state [leaving]: "leaves sh (on_state f)"
  by (simp add: leaves_def on_state_def split: sum.split prod.split)

lemma leaves_on_shard [leaving]: "f sh = panic \<Longrightarrow> leaves sh (on_shard f)"
  by (simp add: leaves_def on_shard_def)

lemma leaves_then_do [leaving]:
  assumes "leaves sh m" and "\<And>x. leaves sh (f x)"
  shows "leaves sh (then_do m f)"
  unfolding leaves_def
proof
  fix ses
  obtain ses' r where m: "m (ses, sh) = ((ses', sh), r)" using assms(1) unfolding leaves_def
    by (metis prod.collapse)
  show "snd (fst (then_do m f (ses, sh))) = sh"
    using assms(2) by (cases r) (simp_all add: then_do_def m leaves_def)
qed

lemma leaves_each [leaving]: "(\<And>x. leaves sh (f x)) \<Longrightarrow> leaves sh (each f xs)"
  by (induction xs) (simp_all add: leaving)

lemma leaves_if [leaving]: "leaves sh m \<Longrightarrow> leaves sh n \<Longrightarrow> leaves sh (if b then m else n)"
  by simp

lemma leaves_subscribe_filters:
  assumes "main_active sh = panic"
  shows "leaves sh (subscribe_filters i fs)"
  by (induction fs)
    (auto intro!: leaving simp: subscribe_filter_def assms simp del: act_simps split: prod.split)

lemma leaves_rx_publish:
  assumes "main_active sh = panic"
  shows "leaves sh (rx_publish p)"
  by (auto intro!: leaving simp: rx_publish_def book_retain_def route_one_def Let_def assms
      incr_inp_seqno_def match_subscribers_def book_index_def route_to_client_def simp del: act_simps
      split: prod.split option.split)

lemma leaves_handle_packet:
  assumes "main_active sh = panic"
  shows "leaves sh (handle_packet pkt)"
  by (cases pkt)
    (auto intro!: leaving leaves_subscribe_filters leaves_rx_publish assms simp: handle_packet_def rx_subscribe_def Let_def
      simp del: act_simps split: bool.split QoS.split)

lemma leaves_handle_loop:
  assumes "main_active sh = panic"
  shows "leaves sh (handle_loop acks pkts)"
  by (induction pkts arbitrary: acks) (auto intro!: leaving leaves_handle_packet assms simp del: act_simps)

lemma leaves_route:
  assumes "main_active sh = panic"
  shows "leaves sh (Session_route_packets now)"
  by (auto intro!: leaving leaves_handle_loop assms simp: Session_route_packets_def handle_packets_def Let_def
      simp del: act_simps split: prod.split QueueStatus.split)

text \<open>A session whose first packet needs the shard.\<close>

definition asks_first :: "Session \<Rightarrow> bool" where
  "asks_first ses \<longleftrightarrow>
     (case ses_state ses of
        Active a \<Rightarrow> (case ch_queue (pr_rx (ac_session_rx a)) of pkt # _ \<Rightarrow> asks_shard pkt | [] \<Rightarrow> False)
      | _ \<Rightarrow> False)"

lemma recvs_first:
  assumes "ch_queue (pr_rx rx) = x # xs" and "PktRx_try_recvs rx = (rx', st)"
  shows "\<exists>ys. queue_values st = x # ys"
  using assms try_recvs_loop_eq [of "[]" "pr_pkt_batch_size rx" "pr_rx rx"]
  by (auto simp: PktRx_try_recvs_def Let_def split: if_split_asm)

lemma asks_first_stuck:
  assumes "asks_first ses" and "main_active sh = panic"
  shows "snd (Session_route_packets now (ses, sh)) = panic"
proof -
  obtain a pkt rest where a: "ses_state ses = Active a" "ch_queue (pr_rx (ac_session_rx a)) = pkt # rest" "asks_shard pkt"
    using assms(1) by (auto simp: asks_first_def split: SessionState.split_asm list.split_asm)
  obtain rx st where r: "PktRx_try_recvs (ac_session_rx a) = (rx, st)" by (cases "PktRx_try_recvs (ac_session_rx a)")
  obtain pkts where "queue_values st = pkt # pkts" using recvs_first [OF a(2) r] by blast
  then obtain st' where st: "take_values st = (pkt # pkts, st')" by (cases st) auto
  let ?ses = "\<lambda>a. ses\<lparr>ses_state := Active a\<rparr>"
  have "handle_packet pkt (?ses a', sh) = ((?ses a', sh), panic)" for a'
    by (rule asks_shard_stuck [OF a(3) assms(2)]) simp
  then show ?thesis
    using a(1) r st
    by (simp add: Session_route_packets_def handle_packets_def active_def then_do_fails [where e = Panic])
qed

lemma route_sessions_stuck:
  assumes "(cid, ses) \<in> set sessions" and "asks_first ses" and "main_active sh = panic"
  shows "route_sessions now sessions sh = panic"
  using assms(1)
proof (induction sessions)
  case (Cons x sessions)
  obtain c s where x: "x = (c, s)" by (cases x)
  obtain s' r where r: "Session_route_packets now (s, sh) = ((s', sh), r)"
    using leaves_route [OF assms(3), of now] unfolding leaves_def by (metis prod.collapse)
  show ?case
  proof (cases "asks_first s")
    case True
    with asks_first_stuck [OF True assms(3), of now] r have "r = panic" by simp
    then show ?thesis by (simp add: x r)
  next
    case False
    with Cons x assms(2) have "route_sessions now sessions sh = panic" by auto
    then show ?thesis
      by (auto simp: x r and_then_def split: sum.split prod.split QueueStatus.split fault.split)
  qed
qed simp

lemma route_packets_stuck:
  assumes "sh_inner sh = MainActive l" and "(cid, ses) \<in> set (al_sessions l)" and "asks_first ses"
  shows "Shard_route_packets now sh = panic"
  using assms route_sessions_stuck [OF assms(2,3), of "sh\<lparr>sh_inner := Init\<rparr>"]
  by (simp add: Shard_route_packets_def main_active_def)

section \<open>A session takes over\<close>

lemma flush_connection_known:
  assumes "handle_flush_connection (set_loop sh l) cid e = Ok sh'" and "bt_get (al_sessions l) cid = None"
  shows "sh' = set_loop sh (l\<lparr>al_flusher := (al_flusher l)\<lparr>tx_sent := tx_sent (al_flusher l) @ [(cid, e)]\<rparr>\<rparr>)"
  using assms
  by (auto simp: handle_flush_connection_def Tx_request_def Let_def bt_remove_absent wake_def
      split: if_split_asm sum.split_asm option.split_asm bool.split_asm)

lemma drop_connection_known:
  assumes "drop_connection (set_loop sh l) cid e = Ok sh'" and "bt_get (al_sessions l) cid = None"
  obtains conns where "al_miot l = Some conns"
    and "sh' = set_loop sh (if cid \<in> set conns
      then l\<lparr>al_miot := Some (removeAll cid conns),
        al_flusher := (al_flusher l)\<lparr>tx_sent := tx_sent (al_flusher l) @ [(cid, Some e)]\<rparr>\<rparr>
      else l)"
proof -
  obtain conns where c: "al_miot l = Some conns" using assms(1)
    by (auto simp: drop_connection_def split: option.split_asm)
  show thesis
  proof (rule that [OF c], cases "cid \<in> set conns")
    case True
    let ?l = "l\<lparr>al_miot := Some (removeAll cid conns)\<rparr>"
    have "handle_flush_connection (set_loop sh ?l) cid (Some e) = Ok sh'"
      using assms(1) c True by (simp add: drop_connection_def)
    from flush_connection_known [OF this] assms(2) True
    show "sh' = set_loop sh (if cid \<in> set conns
      then l\<lparr>al_miot := Some (removeAll cid conns),
        al_flusher := (al_flusher l)\<lparr>tx_sent := tx_sent (al_flusher l) @ [(cid, Some e)]\<rparr>\<rparr>
      else l)" by simp
  qed (use assms(1) c in \<open>simp add: drop_connection_def\<close>)
qed

text \<open>The sessions and connections after a CONNECT that is answered.\<close>

lemma add_session_result:
  assumes "handle_add_session sh connect uuid now = Ok sh'" and "new_session sh connect uuid now = Ok (session, True)"
    and "sh_inner sh = MainActive l" and "bt_wf (al_sessions l)"
  defines "cid \<equiv> ClientID_from_connect uuid (cpl_client_id (con_payload connect))"
  obtains l' conns where "sh' = set_loop sh l'" and "al_miot l = Some conns"
    and "bt_get (al_sessions l') = (bt_get (al_sessions l))(cid \<mapsto> session)" and "bt_wf (al_sessions l')"
    and "al_miot l' = Some (cid # removeAll cid conns)"
    and "tx_sent (al_flusher l') = tx_sent (al_flusher l) @
      (if bt_get (al_sessions l) cid \<noteq> None \<and> cid \<in> set conns then [(cid, Some SessionTakenOver_error)] else [])"
proof (cases "bt_get (al_sessions l) cid")
  case None
  have sh: "set_loop sh l = sh" using assms(3) by (simp add: set_loop_def)
  show thesis
    using assms(1-4) None sh
    by (intro that [of "l\<lparr>al_miot := Some (cid # removeAll cid (the (al_miot l))),
          al_sessions := bt_insert cid session (al_sessions l)\<rparr>" "the (al_miot l)"])
      (auto simp: handle_add_session_def Let_def cid_def [symmetric] bt_get_insert bt_wf_insert split: option.split_asm)
next
  case (Some old)
  from assms(1,2) obtain topic_filters sh2 where t: "remove_topic_filters old (al_topic_filters l) = Ok topic_filters"
    "drop_connection (set_loop sh (l\<lparr>al_sessions := bt_remove cid (al_sessions l), al_topic_filters := topic_filters\<rparr>))
       cid SessionTakenOver_error = Ok sh2"
    "and_then (main_active sh2) (\<lambda>l. case al_miot l of None \<Rightarrow> panic
       | Some conns \<Rightarrow> Ok (set_loop sh2 (l\<lparr>al_miot := Some (cid # removeAll cid conns),
           al_sessions := bt_insert cid session (al_sessions l)\<rparr>))) = Ok sh'"
    using assms(3) Some by (auto simp: handle_add_session_def Let_def cid_def [symmetric] and_then_eq_Inr)
  let ?l = "l\<lparr>al_sessions := bt_remove cid (al_sessions l), al_topic_filters := topic_filters\<rparr>"
  have "bt_get (al_sessions ?l) cid = None" using assms(4) by (simp add: bt_get_remove)
  then obtain conns where c: "al_miot ?l = Some conns"
    "sh2 = set_loop sh (if cid \<in> set conns
      then ?l\<lparr>al_miot := Some (removeAll cid conns),
        al_flusher := (al_flusher ?l)\<lparr>tx_sent := tx_sent (al_flusher ?l) @ [(cid, Some SessionTakenOver_error)]\<rparr>\<rparr>
      else ?l)" by (rule drop_connection_known [OF t(2)])
  have wf: "bt_wf (bt_remove cid (al_sessions l))" using assms(4) by (simp add: bt_wf_remove)
  show thesis
    using t(3) c Some assms(4) wf
    by (intro that [of "(if cid \<in> set conns
      then ?l\<lparr>al_flusher := (al_flusher l)\<lparr>tx_sent := tx_sent (al_flusher l) @ [(cid, Some SessionTakenOver_error)]\<rparr>\<rparr>
      else ?l)\<lparr>al_miot := Some (cid # removeAll cid conns), al_sessions := bt_insert cid session (bt_remove cid (al_sessions l))\<rparr>" conns])
      (auto simp: bt_get_insert bt_get_remove bt_wf_insert)
qed

text \<open>A CONNECT is answered whenever the configuration makes sense, and the CONNACK is the first packet.\<close>

lemma success_ack_ok:
  assumes "QoS_try_from (cfg_mqtt_maximum_qos (ses_config ses)) = Ok q" and "ses_state ses = Active a"
  shows "\<exists>ack. success_ack ses connect = Ok ack"
  using assms by (simp add: success_ack_def unwrap_def Let_def)

lemma flush_first_ack:
  assumes "pt_tx (ac_miot_tx a) = sync_channel b" and "0 < b" and "ac_inp_qos12 a = []"
  shows "\<exists>tx. out_acks_flush (Active (a\<lparr>ac_out_acks := [new_conn_ack ack]\<rparr>)) =
      Ok (Active (a\<lparr>ac_miot_tx := tx, ac_out_acks := []\<rparr>), QOk []) \<and>
    ch_queue (pt_tx tx) = [Packet.ConnAck ack]"
  using assms
  by (cases a) (auto simp: out_acks_flush_def release_id_def flush_to_miot_def to_v5_packet_def PktTx_try_sends_def
      sync_channel_def chan_try_send_def QueueStatus_map_def Let_def)

lemma new_session_answers:
  assumes "QoS_try_from (cfg_mqtt_maximum_qos (sh_config sh)) = Ok q" and "0 < cfg_mqtt_pkt_batch_size (sh_config sh)"
  shows "\<exists>session a ack. new_session sh connect uuid now = Ok (session, True) \<and> ses_state session = Active a \<and>
    ses_client_id session = ClientID_from_connect uuid (cpl_client_id (con_payload connect)) \<and>
    ch_queue (pt_tx (ac_miot_tx a)) = [Packet.ConnAck ack] \<and> active_inv a"
proof -
  let ?sz = "unat (cfg_mqtt_pkt_batch_size (sh_config sh))"
  let ?cid = "ClientID_from_connect uuid (cpl_client_id (con_payload connect))"
  define ses where "ses = start_active now ?cid (sh_shard_id sh) (fst (pkt_channel (sh_shard_id sh) ?sz))
    (snd (pkt_channel (sh_shard_id sh) ?sz)) (sh_config sh) connect"
  obtain a where a: "ses_state ses = Active a" "pt_tx (ac_miot_tx a) = sync_channel ?sz" "ac_inp_qos12 a = []"
    "ac_out_acks a = []" "active_inv a"
    by (simp add: ses_def start_active_def pkt_channel_def active_inv_def)
  have ses: "ses_config ses = sh_config sh" "ses_client_id ses = ?cid" by (simp_all add: ses_def start_active_def)
  obtain ack where ack: "success_ack ses connect = Ok ack" using success_ack_ok [of ses q a connect] assms(1) ses a(1) by auto
  have sz: "0 < ?sz" using assms(2) by (simp add: word_less_nat_alt)
  obtain tx where tx: "out_acks_flush (Active (a\<lparr>ac_out_acks := [new_conn_ack ack]\<rparr>)) =
      Ok (Active (a\<lparr>ac_miot_tx := tx, ac_out_acks := []\<rparr>), QOk [])" "ch_queue (pt_tx tx) = [Packet.ConnAck ack]"
    using flush_first_ack [OF a(2) sz a(3)] by blast
  let ?a = "a\<lparr>ac_miot_tx := tx, ac_out_acks := []\<rparr>"
  have "new_session sh connect uuid now = Ok (ses\<lparr>ses_state := Active ?a\<rparr>, True)"
    using ack tx(1) a by (simp add: new_session_def ses_def [symmetric] as_mut_out_acks_def)
  moreover have "active_inv ?a" using a(5) by (simp add: active_inv_def)
  ultimately show ?thesis using ses(2) tx(2) by (intro exI [of _ "ses\<lparr>ses_state := Active ?a\<rparr>"] exI [of _ ?a] exI [of _ ack]) simp
qed

end
