(* ===== verification/Rebalance.thy ===== *)
theory Rebalance
  imports Config
begin

text \<open>
  Model of \<open>src/broker/rebalance.rs\<close>, with the \<open>Node\<close> of \<open>src/broker/cluster.rs\<close>: which shard serves a client,
  which node hosts a shard, and which shards move between two topologies. The hash function of the
  crate \<open>cityhash_rs\<close> is a parameter, as are the parser of uuids and the number of processors.
\<close>

unbundle bit_operations_syntax

section \<open>Nodes\<close>

type_synonym Uuid = "128 word"

record ClusterNode =
  nd_uuid :: Uuid
  nd_path :: bytes
  nd_weight :: u16
  nd_mqtt_address :: SocketAddr

definition Node_eq :: "ClusterNode \<Rightarrow> ClusterNode \<Rightarrow> bool" where
  "Node_eq self other \<longleftrightarrow> nd_uuid self = nd_uuid other"

definition Node_try_from :: "(bytes \<Rightarrow> Uuid option) \<Rightarrow> u16 \<Rightarrow> ConfigNode \<Rightarrow> ClusterNode result" where
  "Node_try_from parse_uuid num_cores c =
     (case parse_uuid (cn_uuid c) of
        None \<Rightarrow> err_desc UuidError
      | Some uuid \<Rightarrow>
          Ok \<lparr>nd_uuid = uuid, nd_path = cn_path c,
              nd_weight = (case cn_weight c of Some w \<Rightarrow> w | None \<Rightarrow> num_cores),
              nd_mqtt_address = cn_mqtt_address c\<rparr>)"

section \<open>Topologies\<close>

record Topology =
  tp_shard :: u32
  tp_master :: ClusterNode
  tp_replicas :: "ClusterNode list"

text \<open>The derived equality, which compares nodes by their uuids.\<close>

definition Topology_eq :: "Topology \<Rightarrow> Topology \<Rightarrow> bool" where
  "Topology_eq self other \<longleftrightarrow>
     tp_shard self = tp_shard other \<and> Node_eq (tp_master self) (tp_master other) \<and>
     list_all2 Node_eq (tp_replicas self) (tp_replicas other)"

definition session_partition :: "(bytes \<Rightarrow> 128 word) \<Rightarrow> bytes \<Rightarrow> u32 \<Rightarrow> u32" where
  "session_partition cityhash_110_128 cid num_shards =
     (let hash = cityhash_110_128 cid;
          hash = (hash AND 0xFFFFFFFFFFFFFFFF) XOR (drop_bit 64 hash AND 0xFFFFFFFFFFFFFFFF);
          hash = ucast ((hash AND 0xFFFFFFFF) XOR (drop_bit 32 hash AND 0xFFFFFFFF))
      in hash AND (num_shards - 1))"

text \<open>The only algorithm is \<open>SingleNode\<close>; the old topology is not used.\<close>

definition Algorithm_rebalance :: "Config \<Rightarrow> ClusterNode list \<Rightarrow> Topology list \<Rightarrow> Topology list result" where
  "Algorithm_rebalance c nodes old =
     (case nodes of
        [] \<Rightarrow> panic
      | node # _ \<Rightarrow>
          Ok (map (\<lambda>shard. \<lparr>tp_shard = of_nat shard, tp_master = node, tp_replicas = []\<rparr>)
                [0..<unat (cfg_num_shards c)]))"

fun diff_loop :: "(Topology \<times> Topology) list \<Rightarrow> (Topology \<times> Topology) list result" where
  "diff_loop [] = Ok []"
| "diff_loop ((old, new) # pairs) =
     (if tp_shard old \<noteq> tp_shard new then panic
      else and_then (diff_loop pairs) (\<lambda>diffs.
        if Topology_eq old new then Ok diffs else Ok ((old, new) # diffs)))"

definition diff_topology :: "Topology list \<Rightarrow> Topology list \<Rightarrow> (Topology \<times> Topology) list result" where
  "diff_topology olds news =
     (let olds = sort_key tp_shard olds; news = sort_key tp_shard news
      in if length olds \<noteq> length news then panic else diff_loop (zip olds news))"

section \<open>Facts\<close>

lemma session_partition_less:
  assumes "num_shards \<noteq> 0"
  shows "session_partition h cid num_shards < num_shards"
proof -
  have "session_partition h cid num_shards \<le> num_shards - 1"
    unfolding session_partition_def Let_def by (rule word_and_le1)
  also have "\<dots> < num_shards" using assms unat_minus_one [of num_shards] by (simp add: word_less_nat_alt unat_gt_0)
  finally show ?thesis .
qed

text \<open>The shards of a topology made by \<open>rebalance\<close> are already in their order.\<close>

abbreviation hosted_by :: "u32 \<Rightarrow> ClusterNode \<Rightarrow> Topology list" where
  "hosted_by num_shards node \<equiv>
     map (\<lambda>shard. \<lparr>tp_shard = of_nat shard, tp_master = node, tp_replicas = []\<rparr>) [0..<unat num_shards]"

lemma shard_number: "i < unat (n :: u32) \<Longrightarrow> unat (of_nat i :: u32) = i"
  using unsigned_less [of n, where 'a = nat] by (simp add: unat_of_nat)

lemma sorted_shards: "sorted (map (of_nat :: nat \<Rightarrow> u32) [0..<unat (n :: u32)])"
proof -
  have "(of_nat i :: u32) \<le> of_nat j" if "i < j" "j < unat n" for i j
    using that shard_number [of i n] shard_number [of j n] by (simp add: word_le_nat_alt)
  then show ?thesis by (auto simp: sorted_wrt_iff_nth_less)
qed

lemma hosted_sorted: "sort_key tp_shard (hosted_by n node) = hosted_by n node"
  by (rule sort_key_id_if_sorted) (use sorted_shards [of n] in \<open>simp add: comp_def\<close>)

lemma diff_loop_map:
  assumes "\<And>x. x \<in> set xs \<Longrightarrow> tp_shard (f x) = tp_shard (g x)"
  shows "diff_loop (map (\<lambda>x. (f x, g x)) xs) = Ok [(f x, g x). x \<leftarrow> xs, \<not> Topology_eq (f x) (g x)]"
  using assms by (induction xs) simp_all

lemma hosted_eq:
  "Topology_eq \<lparr>tp_shard = s, tp_master = a, tp_replicas = []\<rparr> \<lparr>tp_shard = s, tp_master = b, tp_replicas = []\<rparr> \<longleftrightarrow>
     Node_eq a b"
  by (simp add: Topology_eq_def)

lemma diff_hosted:
  "diff_topology (hosted_by n a) (hosted_by n b) = Ok (if Node_eq a b then [] else zip (hosted_by n a) (hosted_by n b))"
proof -
  have "zip (hosted_by n a) (hosted_by n b) =
      map (\<lambda>shard. (\<lparr>tp_shard = of_nat shard, tp_master = a, tp_replicas = []\<rparr>,
        \<lparr>tp_shard = of_nat shard, tp_master = b, tp_replicas = []\<rparr>)) [0..<unat n]"
    by (simp add: zip_map_map zip_same_conv_map)
  then show ?thesis by (simp add: diff_topology_def hosted_sorted diff_loop_map hosted_eq)
qed

text \<open>Every shard below the number of shards is hosted once.\<close>

lemma filter_upt_eq: "k < n \<Longrightarrow> [i \<leftarrow> [0..<n]. i = k] = [k]"
  by (induction n) (auto simp: less_Suc_eq filter_empty_conv)

lemma hosted_once:
  assumes "shard < n"
  shows "[t \<leftarrow> hosted_by n node. tp_shard t = shard] = [\<lparr>tp_shard = shard, tp_master = node, tp_replicas = []\<rparr>]"
proof -
  have "(of_nat i :: u32) = shard \<longleftrightarrow> i = unat shard" if "i < unat n" for i
    using shard_number [OF that] by auto
  then have "[i \<leftarrow> [0..<unat n]. (of_nat i :: u32) = shard] = [i \<leftarrow> [0..<unat n]. i = unat shard]"
    by (intro filter_cong [OF refl]) simp
  also have "\<dots> = [unat shard]"
    using assms by (intro filter_upt_eq) (simp add: word_less_nat_alt)
  finally show ?thesis by (simp add: filter_map comp_def)
qed

end
