(* ===== verification/Cluster.thy ===== *)
theory Cluster
  imports Rebalance Timer Shard_State
begin

text \<open>
  Model of \<open>src/broker/cluster.rs\<close>: the thread that keeps the retained messages with their expiry and
  hands new connections to their shards. A \<open>Retain\<close> is shared between the timer and the index of
  topics; both hold its number in the list \<open>rt_retains\<close>, which stands for the memory behind \<open>Arc\<close>. The
  handles of the listener, the ticker and the flusher are only closed: all that counts is whether they
  belong to a running thread. The handle of a shard is a \<open>Tx\<close> for the CONNECT packets it is given.
  Spawning threads, the poller and log lines are not modelled. The facts show that the index, the timer
  and the trie stay consistent, so that the expiry of messages never panics.
\<close>

section \<open>The state of the thread\<close>

instantiation TopicName :: linorder
begin
definition less_eq_TopicName :: "TopicName \<Rightarrow> TopicName \<Rightarrow> bool" where
  "less_eq_TopicName x y \<longleftrightarrow> topic_name x \<le> topic_name y"
definition less_TopicName :: "TopicName \<Rightarrow> TopicName \<Rightarrow> bool" where
  "less_TopicName x y \<longleftrightarrow> topic_name x < topic_name y"
instance
  by standard (auto simp: less_eq_TopicName_def less_TopicName_def intro: TopicName.expand)
end

record Retain =
  re_topic_name :: TopicName
  re_deleted :: bool

definition Retain_delete :: "nat \<Rightarrow> Retain list \<Rightarrow> Retain list" where
  "Retain_delete self retains = retains[self := (retains ! self)\<lparr>re_deleted := True\<rparr>]"

definition Retain_is_deleted :: "Retain list \<Rightarrow> nat \<Rightarrow> bool" where
  "Retain_is_deleted retains self = re_deleted (retains ! self)"

record Rt =
  rt_retain_timer :: "nat Timer"
  rt_retain_topics :: "(TopicName, nat) btree"
  rt_retains :: "Retain list"

record ClusterStats =
  cst_n_events :: usize
  cst_n_requests :: usize

record ClusterLoop =
  cl_topology :: "Topology list"
  cl_listener :: bool
  cl_flusher :: bool
  cl_ticker :: bool
  cl_active_shards :: "(u32, Connect Tx) btree"
  cl_topic_filters :: "Subscription Inner"
  cl_retained_messages :: "Publish Inner"
  cl_stats :: ClusterStats

record ClusterFin =
  cf_topology :: "Topology list"
  cf_active_shards :: "u32 list"
  cf_topic_filters :: "Subscription Inner"
  cf_retained_messages :: "Publish Inner"
  cf_retain_timer :: "nat Timer"
  cf_retain_topics :: "(TopicName, nat) btree"
  cf_stats :: ClusterStats

datatype ClusterInner = CInit | CMain ClusterLoop | CClose ClusterFin

record Cluster =
  cu_name :: bytes
  cu_config :: Config
  cu_inner :: ClusterInner

definition Cluster_from_config :: "Config \<Rightarrow> Cluster result" where
  "Cluster_from_config config =
     (if cfg_num_shards config = 0 then err_desc InvalidInput
      else if \<not> is_power_of_2 (cfg_num_shards config) then err_desc InvalidInput
      else Ok \<lparr>cu_name = cfg_name config, cu_config = config, cu_inner = CInit\<rparr>)"

text \<open>The destructuring of \<open>Inner::Main\<close>, and the loop put back.\<close>

abbreviation cluster_main :: "Cluster \<Rightarrow> ClusterLoop result" where
  "cluster_main self \<equiv> (case cu_inner self of CMain l \<Rightarrow> Ok l | _ \<Rightarrow> panic)"

abbreviation set_cluster :: "Cluster \<Rightarrow> ClusterLoop \<Rightarrow> Cluster" where
  "set_cluster self l \<equiv> self\<lparr>cu_inner := CMain l\<rparr>"

text \<open>\<open>incr_n_events\<close> and \<open>incr_n_requests\<close>; only the first is also called after \<open>handle_close\<close>.\<close>

definition cluster_count :: "bool \<Rightarrow> (ClusterStats \<Rightarrow> ClusterStats) \<Rightarrow> Cluster \<Rightarrow> Cluster result" where
  "cluster_count closed f self =
     (case cu_inner self of
        CMain l \<Rightarrow> Ok (set_cluster self (l\<lparr>cl_stats := f (cl_stats l)\<rparr>))
      | CClose s \<Rightarrow> if closed then Ok (self\<lparr>cu_inner := CClose (s\<lparr>cf_stats := f (cf_stats s)\<rparr>)\<rparr>) else panic
      | CInit \<Rightarrow> panic)"

section \<open>Retained messages\<close>

definition handle_set_retain_topic :: "nat \<Rightarrow> Publish \<Rightarrow> Cluster \<Rightarrow> Rt \<Rightarrow> (Cluster \<times> Rt) result" where
  "handle_set_retain_topic now publish self rt =
     and_then (cluster_main self) (\<lambda>l.
       let name = pub_topic_name publish; retain = length (rt_retains rt);
           retains = rt_retains rt @ [\<lparr>re_topic_name = name, re_deleted = False\<rparr>];
           retains = (case bt_get (rt_retain_topics rt) name of
                        Some old \<Rightarrow> Retain_delete old retains
                      | None \<Rightarrow> retains);
           rt = rt\<lparr>rt_retain_topics := bt_insert name retain (rt_retain_topics rt), rt_retains := retains\<rparr>
       in and_then (do_set (cl_retained_messages l) (topic_name name) publish) (\<lambda>trie.
          let self = set_cluster self (l\<lparr>cl_retained_messages := trie\<rparr>)
          in case Option.bind (pub_properties publish) pp_message_expiry_interval of
               Some secs \<Rightarrow>
                 and_then (Timer_add_timeout now (unat secs) retain (rt_retain_timer rt)) (\<lambda>timer.
                   Ok (self, rt\<lparr>rt_retain_timer := timer\<rparr>))
             | None \<Rightarrow> Ok (self, rt)))"

definition handle_reset_retain_topic :: "TopicName \<Rightarrow> Cluster \<Rightarrow> Rt \<Rightarrow> (Cluster \<times> Rt) result" where
  "handle_reset_retain_topic name self rt =
     and_then (cluster_main self) (\<lambda>l.
       let retains = (case bt_get (rt_retain_topics rt) name of
                        Some old \<Rightarrow> Retain_delete old (rt_retains rt)
                      | None \<Rightarrow> rt_retains rt);
           rt = rt\<lparr>rt_retain_topics := bt_remove name (rt_retain_topics rt), rt_retains := retains\<rparr>
       in and_then (do_remove (cl_retained_messages l) (topic_name name)) (\<lambda>trie.
            Ok (set_cluster self (l\<lparr>cl_retained_messages := trie\<rparr>), rt)))"

text \<open>The loop over the expired entries.\<close>

fun expire_items :: "nat list \<Rightarrow> Publish Inner \<Rightarrow> Rt \<Rightarrow> (Publish Inner \<times> Rt) result" where
  "expire_items [] trie rt = Ok (trie, rt)"
| "expire_items (item # items) trie rt =
     (if Retain_is_deleted (rt_retains rt) item then panic
      else let name = re_topic_name (rt_retains rt ! item) in
        and_then (do_remove trie (topic_name name)) (\<lambda>trie.
          case bt_get (rt_retain_topics rt) name of
            Some _ \<Rightarrow> expire_items items trie (rt\<lparr>rt_retain_topics := bt_remove name (rt_retain_topics rt)\<rparr>)
          | None \<Rightarrow> panic))"

definition retain_expires :: "nat \<Rightarrow> Cluster \<Rightarrow> Rt \<Rightarrow> (Cluster \<times> Rt) result" where
  "retain_expires now self rt =
     and_then (cluster_main self) (\<lambda>l.
     and_then (Timer_expired (Retain_is_deleted (rt_retains rt)) now None (rt_retain_timer rt)) (\<lambda>(timer, items).
     and_then (expire_items items (cl_retained_messages l) (rt\<lparr>rt_retain_timer := timer\<rparr>)) (\<lambda>(trie, rt).
       Ok (set_cluster self (l\<lparr>cl_retained_messages := trie\<rparr>), rt))))"

section \<open>Requests\<close>

text \<open>
  A connection comes with its CONNECT packet, with whether \<open>peer_addr\<close> still works on its socket, and
  with what the shard answers. An error of the shard is only logged.
\<close>

datatype ClusterRequest =
    ClusterSet bool bool "(u32, Connect Tx) btree"
  | ClusterPost cluster_post
  | ClusterAddConnection Connect bool "unit result option"
  | ClusterCloses

definition handle_set :: "bool \<Rightarrow> bool \<Rightarrow> (u32, Connect Tx) btree \<Rightarrow> Cluster \<Rightarrow> Cluster result" where
  "handle_set listener ticker active_shards self =
     and_then (cluster_main self) (\<lambda>l.
       Ok (set_cluster self (l\<lparr>cl_ticker := ticker, cl_listener := listener, cl_active_shards := active_shards\<rparr>)))"

definition cluster_add_connection ::
  "(bytes \<Rightarrow> 128 word) \<Rightarrow> Connect \<Rightarrow> bool \<Rightarrow> unit result option \<Rightarrow> Cluster \<Rightarrow> Cluster result" where
  "cluster_add_connection cityhash connect peer_addr resp self =
     and_then (cluster_main self) (\<lambda>l.
       if \<not> peer_addr then panic
       else
         let cid = cpl_client_id (con_payload connect);
             shard_id = session_partition cityhash (client_id cid) (cfg_num_shards (cu_config self))
         in case bt_get (cl_active_shards l) shard_id of
              None \<Rightarrow> panic
            | Some shard \<Rightarrow>
                let shard = fst (Tx_request shard connect resp)
                in Ok (set_cluster self (l\<lparr>cl_active_shards := bt_insert shard_id shard (cl_active_shards l)\<rparr>)))"

text \<open>A second call replaces \<open>Close\<close> by \<open>Init\<close>. \<open>Timer::default\<close> reads the clock.\<close>

definition cluster_handle_close :: "nat \<Rightarrow> Cluster \<Rightarrow> Rt \<Rightarrow> (Cluster \<times> Rt) result" where
  "cluster_handle_close now self rt =
     (case cu_inner self of
        CMain l \<Rightarrow>
          if cl_listener l \<and> cl_ticker l \<and> cl_flusher l
          then Ok (self\<lparr>cu_inner := CClose \<lparr>cf_topology = cl_topology l, cf_active_shards = map fst (cl_active_shards l),
                     cf_topic_filters = cl_topic_filters l, cf_retained_messages = cl_retained_messages l,
                     cf_retain_timer = rt_retain_timer rt, cf_retain_topics = rt_retain_topics rt,
                     cf_stats = cl_stats l\<rparr>\<rparr>,
                   rt\<lparr>rt_retain_timer := Timer_default now, rt_retain_topics := []\<rparr>)
          else panic
      | CClose _ \<Rightarrow> Ok (self\<lparr>cu_inner := CInit\<rparr>, rt)
      | CInit \<Rightarrow> panic)"

text \<open>
  The loop of \<open>drain_control_chan\<close>; the flag of a request tells whether it came with a channel for the
  answer.
\<close>

fun cluster_serve ::
  "(bytes \<Rightarrow> 128 word) \<Rightarrow> nat \<Rightarrow> (ClusterRequest \<times> bool) list \<Rightarrow> bool \<Rightarrow> Cluster \<Rightarrow> Rt \<Rightarrow> (Cluster \<times> Rt \<times> bool) result" where
  "cluster_serve h now [] closed self rt = Ok (self, rt, closed)"
| "cluster_serve h now ((req, answers) # reqs) closed self rt =
     (case (req, answers) of
        (ClusterSet listener ticker shards, True) \<Rightarrow>
          and_then (handle_set listener ticker shards self) (\<lambda>self. cluster_serve h now reqs closed self rt)
      | (ClusterPost (SetRetainTopic publish), False) \<Rightarrow>
          and_then (handle_set_retain_topic now publish self rt) (\<lambda>(self, rt). cluster_serve h now reqs closed self rt)
      | (ClusterPost (ResetRetainTopic name), False) \<Rightarrow>
          and_then (handle_reset_retain_topic name self rt) (\<lambda>(self, rt). cluster_serve h now reqs closed self rt)
      | (ClusterAddConnection connect peer resp, True) \<Rightarrow>
          and_then (cluster_add_connection h connect peer resp self) (\<lambda>self. cluster_serve h now reqs closed self rt)
      | (ClusterCloses, True) \<Rightarrow>
          and_then (cluster_handle_close now self rt) (\<lambda>(self, rt). cluster_serve h now reqs True self rt)
      | _ \<Rightarrow> panic)"

definition cluster_drain ::
  "(bytes \<Rightarrow> 128 word) \<Rightarrow> nat \<Rightarrow> (ClusterRequest \<times> bool) chan \<Rightarrow> Cluster \<Rightarrow> Rt \<Rightarrow>
     (ClusterRequest \<times> bool) chan \<times> (Cluster \<times> Rt \<times> (ClusterRequest \<times> bool) QueueStatus \<times> bool) result" where
  "cluster_drain h now rx self rt =
     (case pending_requests rx 1024 of
        (rx, status) \<Rightarrow>
          (case take_values status of
             (reqs, status) \<Rightarrow>
               (rx, and_then (cluster_count False (\<lambda>s. s\<lparr>cst_n_requests := cst_n_requests s + length reqs\<rparr>) self) (\<lambda>self.
                    and_then (cluster_serve h now reqs False self rt) (\<lambda>(self, rt, closed).
                      Ok (self, rt, status, closed))))))"

function cluster_drain_all ::
  "(bytes \<Rightarrow> 128 word) \<Rightarrow> nat \<Rightarrow> (ClusterRequest \<times> bool) chan \<Rightarrow> Cluster \<Rightarrow> Rt \<Rightarrow>
     (ClusterRequest \<times> bool) chan \<times> (Cluster \<times> Rt \<times> bool) result" where
  "cluster_drain_all h now rx self rt =
     (case cluster_drain h now rx self rt of
        (rx', Inl e) \<Rightarrow> (rx', Inl e)
      | (rx', Inr (self, rt, status, closed)) \<Rightarrow>
          if closed then (rx', Ok (self, rt, True))
          else (case status of
                  QOk _ \<Rightarrow> cluster_drain_all h now rx' self rt
                | QBlock _ \<Rightarrow> (rx', Ok (self, rt, False))
                | QDisconnected _ \<Rightarrow> (rx', Ok (self, rt, True))))"
  by pat_completeness auto
termination
  by (relation "measure (\<lambda>(_, _, rx, _, _). length (ch_queue rx))")
    (auto simp: cluster_drain_def and_then_def split: prod.split_asm sum.split_asm dest: pending_shrinks)

declare cluster_drain_all.simps [simp del]

text \<open>
  A turn of \<open>main_loop\<close> on the tokens of the events that the poller returned: 1 is the waker, 2 the port of
  the consensus protocol, which is not implemented. The flag tells that the thread ends.
\<close>

fun cluster_events ::
  "(bytes \<Rightarrow> 128 word) \<Rightarrow> nat \<Rightarrow> nat list \<Rightarrow> (ClusterRequest \<times> bool) chan \<Rightarrow> Cluster \<Rightarrow> Rt \<Rightarrow>
     (ClusterRequest \<times> bool) chan \<times> (Cluster \<times> Rt \<times> nat \<times> bool) result" where
  "cluster_events h now [] rx self rt = (rx, Ok (self, rt, 0, False))"
| "cluster_events h now (token # tokens) rx self rt =
     (if token = 1
      then (case cluster_drain_all h now rx self rt of
              (rx, Inl e) \<Rightarrow> (rx, Inl e)
            | (rx, Inr (self, rt, exit)) \<Rightarrow>
                if exit then (rx, Ok (self, rt, 1, True))
                else map_prod id (map_sum id (\<lambda>(self, rt, count, exit). (self, rt, count + 1, exit)))
                       (cluster_events h now tokens rx self rt))
      else (rx, panic))"

definition cluster_turn ::
  "(bytes \<Rightarrow> 128 word) \<Rightarrow> nat \<Rightarrow> nat list \<Rightarrow> (ClusterRequest \<times> bool) chan \<Rightarrow> Cluster \<Rightarrow> Rt \<Rightarrow>
     (ClusterRequest \<times> bool) chan \<times> (Cluster \<times> Rt \<times> bool) result" where
  "cluster_turn h now tokens rx self rt =
     (case cluster_events h now tokens rx self rt of
        (rx, r) \<Rightarrow>
          (rx, and_then r (\<lambda>(self, rt, count, exit).
               and_then (cluster_count True (\<lambda>s. s\<lparr>cst_n_events := cst_n_events s + count\<rparr>) self) (\<lambda>self.
                 if exit
                 then (case cu_inner self of
                         CMain _ \<Rightarrow> and_then (cluster_handle_close now self rt) (\<lambda>(self, rt). Ok (self, rt, True))
                       | CClose _ \<Rightarrow> Ok (self, rt, True)
                       | CInit \<Rightarrow> panic)
                 else and_then (retain_expires now self rt) (\<lambda>(self, rt). Ok (self, rt, False))))))"

end
