(* ===== verification/Cluster_Facts.thy ===== *)
theory Cluster_Facts
  imports Cluster
begin

text \<open>
  Facts about the thread of the cluster: the index of retained topics, the timer and the trie of retained
  messages agree, so that setting and expiring messages never panics, and every connection finds its
  shard.
\<close>

section \<open>The retained messages\<close>

lemma iter_topic_path_inj: "iter_topic_path s = iter_topic_path t \<longleftrightarrow> s = t"
  by (metis join_iter_topic_path)

abbreviation retained_at :: "Publish Inner \<Rightarrow> TopicName \<Rightarrow> Publish list" where
  "retained_at trie name \<equiv> lookup (in_root trie) (iter_topic_path (topic_name name))"

lemma topic_path_eq: "iter_topic_path (topic_name x) = iter_topic_path (topic_name y) \<longleftrightarrow> x = y"
  by (auto simp: iter_topic_path_inj intro: TopicName.expand)

text \<open>
  The topics in the index are those with a message. An entry of the timer that is not deleted is the one
  that the index has for its topic.
\<close>

definition retain_inv :: "Publish Inner \<Rightarrow> Rt \<Rightarrow> bool" where
  "retain_inv trie rt \<longleftrightarrow>
     retained_wf trie \<and> bt_wf (rt_retain_topics rt) \<and> timer_wf (rt_retain_timer rt) \<and>
     distinct (timer_values (rt_retain_timer rt)) \<and>
     (\<forall>k i. bt_get (rt_retain_topics rt) k = Some i \<longrightarrow> i < length (rt_retains rt)) \<and>
     (\<forall>i \<in> set (timer_values (rt_retain_timer rt)). i < length (rt_retains rt) \<and>
        (Retain_is_deleted (rt_retains rt) i \<or> bt_get (rt_retain_topics rt) (re_topic_name (rt_retains rt ! i)) = Some i)) \<and>
     (\<forall>k. bt_get (rt_retain_topics rt) k = None \<longleftrightarrow> retained_at trie k = [])"

lemma retain_inv_start:
  "retain_inv Inner_default \<lparr>rt_retain_timer = Timer_default now, rt_retain_topics = [], rt_retains = []\<rparr>"
  by (simp add: retain_inv_def retained_wf_def Inner_default_def bt_get_def)

lemma retain_delete_length [simp]: "length (Retain_delete r rs) = length rs"
  by (simp add: Retain_delete_def)

lemma retain_delete_topic [simp]: "r < length rs \<Longrightarrow> re_topic_name (Retain_delete r rs ! i) = re_topic_name (rs ! i)"
  by (cases "i = r") (simp_all add: Retain_delete_def)

lemma retain_delete_deleted [simp]:
  "r < length rs \<Longrightarrow> Retain_is_deleted (Retain_delete r rs) i \<longleftrightarrow> i = r \<or> Retain_is_deleted rs i"
  by (cases "i = r") (simp_all add: Retain_delete_def Retain_is_deleted_def)

lemma Retain_is_deleted_append: "i < length rs \<Longrightarrow> Retain_is_deleted (rs @ ys) i = Retain_is_deleted rs i"
  by (simp add: Retain_is_deleted_def nth_append)

text \<open>What the retained topics become when a topic gets a new entry.\<close>

lemma set_topic_inv:
  assumes inv: "retain_inv trie rt" and wf: "retained_wf trie'"
    and lk: "\<And>p. lookup (in_root trie') p = (if p = iter_topic_path (topic_name name) then [publish] else lookup (in_root trie) p)"
    and rs: "rs = (let rs = rt_retains rt @ [\<lparr>re_topic_name = name, re_deleted = False\<rparr>] in
      case bt_get (rt_retain_topics rt) name of Some old \<Rightarrow> Retain_delete old rs | None \<Rightarrow> rs)"
    and tm: "timer_wf tm" "distinct (timer_values tm)"
      "set (timer_values tm) \<subseteq> insert (length (rt_retains rt)) (set (timer_values (rt_retain_timer rt)))"
  shows "retain_inv trie' \<lparr>rt_retain_timer = tm,
    rt_retain_topics = bt_insert name (length (rt_retains rt)) (rt_retain_topics rt), rt_retains = rs\<rparr>"
proof -
  let ?T = "rt_retain_topics rt" and ?n = "length (rt_retains rt)"
  have bt: "bt_wf ?T" and idx: "\<And>k i. bt_get ?T k = Some i \<Longrightarrow> i < ?n" using inv by (auto simp: retain_inv_def)
  have len: "length rs = Suc ?n" by (simp add: rs Let_def split: option.split)
  have entry: "i < Suc ?n \<and> (Retain_is_deleted rs i \<or> ((bt_get ?T)(name \<mapsto> ?n)) (re_topic_name (rs ! i)) = Some i)"
    if "i \<in> insert ?n (set (timer_values (rt_retain_timer rt)))" for i
  proof (cases "i = ?n")
    case True
    then have "re_topic_name (rs ! i) = name"
      by (cases "bt_get ?T name") (auto simp: rs Let_def less_SucI dest: idx)
    with True show ?thesis by simp
  next
    case False
    with that inv have i: "i < ?n" "Retain_is_deleted (rt_retains rt) i \<or> bt_get ?T (re_topic_name (rt_retains rt ! i)) = Some i"
      by (auto simp: retain_inv_def)
    then have "re_topic_name (rs ! i) = re_topic_name (rt_retains rt ! i)"
      by (auto simp: rs Let_def nth_append less_SucI dest!: idx split: option.split)
    moreover have "Retain_is_deleted rs i \<longleftrightarrow> Retain_is_deleted (rt_retains rt) i \<or> bt_get ?T name = Some i"
      using i(1) by (cases "bt_get ?T name") (auto simp: rs Let_def Retain_is_deleted_append less_SucI dest: idx)
    ultimately show ?thesis using i by auto
  qed
  have keys: "\<And>k. bt_get ?T k = None \<longleftrightarrow> retained_at trie k = []" using inv by (simp add: retain_inv_def)
  let ?T' = "(bt_get ?T)(name \<mapsto> ?n)"
  have "\<forall>k i. ?T' k = Some i \<longrightarrow> i < Suc ?n" using idx by (auto simp: less_Suc_eq)
  moreover have "\<forall>i \<in> set (timer_values tm). i < Suc ?n \<and> (Retain_is_deleted rs i \<or> ?T' (re_topic_name (rs ! i)) = Some i)"
    using entry tm(3) by blast
  moreover have "\<forall>k. ?T' k = None \<longleftrightarrow> retained_at trie' k = []" by (simp add: lk keys topic_path_eq)
  ultimately show ?thesis using wf tm bt
    by (simp add: retain_inv_def bt_wf_insert bt_get_insert len del: fun_upd_apply)
qed

lemma set_retain_Ok:
  assumes c: "cu_inner c = CMain l" and inv: "retain_inv (cl_retained_messages l) rt"
  obtains trie rt' where "handle_set_retain_topic now p c rt = Ok (set_cluster c (l\<lparr>cl_retained_messages := trie\<rparr>), rt')"
    and "retain_inv trie rt'"
    and "\<And>q. lookup (in_root trie) q =
      (if q = iter_topic_path (topic_name (pub_topic_name p)) then [p] else lookup (in_root (cl_retained_messages l)) q)"
proof -
  let ?name = "pub_topic_name p" and ?T = "rt_retain_topics rt" and ?n = "length (rt_retains rt)"
  let ?rs = "rt_retains rt @ [\<lparr>re_topic_name = ?name, re_deleted = False\<rparr>]"
  define rs where "rs = (case bt_get ?T ?name of Some old \<Rightarrow> Retain_delete old ?rs | None \<Rightarrow> ?rs)"
  have wf: "retained_wf (cl_retained_messages l)" "timer_wf (rt_retain_timer rt)" "distinct (timer_values (rt_retain_timer rt))"
    and new: "?n \<notin> set (timer_values (rt_retain_timer rt))" using inv by (auto simp: retain_inv_def)
  from do_set_Ok [OF wf(1), of "topic_name ?name" p] obtain trie where
    trie: "do_set (cl_retained_messages l) (topic_name ?name) p = Ok trie" "retained_wf trie"
    "\<And>q. lookup (in_root trie) q = (if q = iter_topic_path (topic_name ?name) then [p] else lookup (in_root (cl_retained_messages l)) q)"
    by blast
  let ?secs = "Option.bind (pub_properties p) pp_message_expiry_interval"
  obtain tm where tm: "(case ?secs of Some secs \<Rightarrow> Timer_add_timeout now (unat secs) ?n (rt_retain_timer rt)
      | None \<Rightarrow> Ok (rt_retain_timer rt)) = Ok tm" "timer_wf tm" "distinct (timer_values tm)"
    "set (timer_values tm) \<subseteq> insert ?n (set (timer_values (rt_retain_timer rt)))"
  proof (cases ?secs)
    case None
    then show thesis using that wf by auto
  next
    case (Some secs)
    obtain t where "Timer_add_timeout now (unat secs) ?n (rt_retain_timer rt) = Ok t" "timer_wf t"
      "set (timer_values t) = insert ?n (set (timer_values (rt_retain_timer rt)))" "distinct (timer_values t)"
      by (rule Timer_add_values [OF wf(2), of now "unat secs" ?n]) (use wf(3) new in simp)
    then show thesis using that [of t] Some by simp
  qed
  let ?rt = "\<lparr>rt_retain_timer = tm, rt_retain_topics = bt_insert ?name ?n ?T, rt_retains = rs\<rparr>"
  have "handle_set_retain_topic now p c rt = Ok (set_cluster c (l\<lparr>cl_retained_messages := trie\<rparr>), ?rt)"
    using tm(1) by (cases ?secs) (simp_all add: handle_set_retain_topic_def c trie(1) Let_def rs_def)
  moreover have "retain_inv trie ?rt"
    by (rule set_topic_inv [OF inv trie(2,3)]) (use tm wf in \<open>auto simp: rs_def Let_def split: option.split\<close>)
  ultimately show thesis using trie(3) that by blast
qed

text \<open>A topic leaves the index, and no entry of the timer that is still valid was its own.\<close>

lemma remove_topic_inv:
  assumes inv: "retain_inv trie rt" and wf: "retained_wf trie'"
    and lk: "\<And>p. lookup (in_root trie') p = (if p = iter_topic_path (topic_name name) then [] else lookup (in_root trie) p)"
    and rs: "length rs = length (rt_retains rt)" "\<And>i. re_topic_name (rs ! i) = re_topic_name (rt_retains rt ! i)"
      "\<And>i. Retain_is_deleted (rt_retains rt) i \<Longrightarrow> Retain_is_deleted rs i"
    and gone: "\<And>i. \<lbrakk>i \<in> set (timer_values (rt_retain_timer rt)); \<not> Retain_is_deleted rs i\<rbrakk> \<Longrightarrow> re_topic_name (rs ! i) \<noteq> name"
    and rt': "rt_retain_timer rt' = rt_retain_timer rt" "rt_retain_topics rt' = bt_remove name (rt_retain_topics rt)"
      "rt_retains rt' = rs"
  shows "retain_inv trie' rt'"
proof -
  let ?T = "rt_retain_topics rt" and ?n = "length (rt_retains rt)" and ?vs = "timer_values (rt_retain_timer rt)"
  let ?T' = "(bt_get ?T)(name := None)"
  have old: "retained_wf trie" "bt_wf ?T" "timer_wf (rt_retain_timer rt)" "distinct ?vs"
    "\<forall>k i. bt_get ?T k = Some i \<longrightarrow> i < ?n"
    "\<forall>i \<in> set ?vs. i < ?n \<and> (Retain_is_deleted (rt_retains rt) i \<or> bt_get ?T (re_topic_name (rt_retains rt ! i)) = Some i)"
    "\<forall>k. bt_get ?T k = None \<longleftrightarrow> retained_at trie k = []"
    using inv by (auto simp: retain_inv_def)
  have "\<forall>k i. ?T' k = Some i \<longrightarrow> i < ?n" using old(5) by auto
  moreover have "\<forall>i \<in> set ?vs. i < ?n \<and> (Retain_is_deleted rs i \<or> ?T' (re_topic_name (rs ! i)) = Some i)"
    using old(6) gone by (auto simp: rs)
  moreover have "\<forall>k. ?T' k = None \<longleftrightarrow> retained_at trie' k = []" using old(7) by (auto simp: lk topic_path_eq)
  ultimately show ?thesis using wf old(2-4)
    by (simp add: retain_inv_def bt_wf_remove bt_get_remove rt' rs(1) del: fun_upd_apply)
qed

lemma do_remove_Ok:
  assumes "retained_wf s" and "lookup (in_root s) (iter_topic_path k) \<noteq> [] \<or> node_at (in_root s) (iter_topic_path k) = None"
  obtains s' where "do_remove s k = Ok s'" and "retained_wf s'"
    and "\<And>p. lookup (in_root s') p = (if p = iter_topic_path k then [] else lookup (in_root s) p)"
proof (cases "node_at (in_root s) (iter_topic_path k)")
  case None
  then have "lookup (in_root s) (iter_topic_path k) = []" by (simp add: lookup_def)
  with None do_remove_cases [OF assms(1), of k] that show thesis by auto
next
  case (Some m)
  with assms(2) have "values_of m \<noteq> []" by (simp add: lookup_def)
  with Some do_remove_cases [OF assms(1), of k] that show thesis by auto
qed

lemma reset_retain_Ok:
  assumes c: "cu_inner c = CMain l" and inv: "retain_inv (cl_retained_messages l) rt"
    and there: "retained_at (cl_retained_messages l) name \<noteq> [] \<or>
      node_at (in_root (cl_retained_messages l)) (iter_topic_path (topic_name name)) = None"
  obtains trie rt' where "handle_reset_retain_topic name c rt = Ok (set_cluster c (l\<lparr>cl_retained_messages := trie\<rparr>), rt')"
    and "retain_inv trie rt'"
    and "\<And>q. lookup (in_root trie) q =
      (if q = iter_topic_path (topic_name name) then [] else lookup (in_root (cl_retained_messages l)) q)"
proof -
  let ?T = "rt_retain_topics rt"
  define rs where "rs = (case bt_get ?T name of Some old \<Rightarrow> Retain_delete old (rt_retains rt) | None \<Rightarrow> rt_retains rt)"
  have wf: "retained_wf (cl_retained_messages l)" and idx: "\<And>k i. bt_get ?T k = Some i \<Longrightarrow> i < length (rt_retains rt)"
    and entry: "\<And>i. i \<in> set (timer_values (rt_retain_timer rt)) \<Longrightarrow>
      Retain_is_deleted (rt_retains rt) i \<or> bt_get ?T (re_topic_name (rt_retains rt ! i)) = Some i"
    using inv by (auto simp: retain_inv_def)
  obtain trie where trie: "do_remove (cl_retained_messages l) (topic_name name) = Ok trie" "retained_wf trie"
    "\<And>q. lookup (in_root trie) q = (if q = iter_topic_path (topic_name name) then [] else lookup (in_root (cl_retained_messages l)) q)"
    using do_remove_Ok [OF wf there] by blast
  have rs: "length rs = length (rt_retains rt)" "\<And>i. re_topic_name (rs ! i) = re_topic_name (rt_retains rt ! i)"
    "\<And>i. Retain_is_deleted rs i \<longleftrightarrow> Retain_is_deleted (rt_retains rt) i \<or> bt_get ?T name = Some i"
    by (cases "bt_get ?T name"; auto simp: rs_def dest: idx)+
  have "retain_inv trie (rt\<lparr>rt_retain_topics := bt_remove name ?T, rt_retains := rs\<rparr>)"
    by (rule remove_topic_inv [OF inv trie(2,3), where rs = rs]) (use rs entry in auto)
  then show thesis
    using that trie by (simp add: handle_reset_retain_topic_def c rs_def)
qed

section \<open>Expiry\<close>

text \<open>Entries that the timer has returned and that are the ones of their topics.\<close>

abbreviation takes_topics :: "Rt \<Rightarrow> nat list \<Rightarrow> bool" where
  "takes_topics rt items \<equiv> distinct items \<and> set items \<inter> set (timer_values (rt_retain_timer rt)) = {} \<and>
     (\<forall>i \<in> set items. \<not> Retain_is_deleted (rt_retains rt) i \<and>
        bt_get (rt_retain_topics rt) (re_topic_name (rt_retains rt ! i)) = Some i)"

lemma expire_items_Ok:
  assumes "retain_inv trie rt" and "takes_topics rt items"
  shows "\<exists>trie' topics. expire_items items trie rt = Ok (trie', rt\<lparr>rt_retain_topics := topics\<rparr>) \<and>
    retain_inv trie' (rt\<lparr>rt_retain_topics := topics\<rparr>) \<and>
    (\<forall>k. retained_at trie' k = (if k \<in> (\<lambda>i. re_topic_name (rt_retains rt ! i)) ` set items then [] else retained_at trie k))"
  using assms
proof (induction items arbitrary: trie rt)
  case Nil
  then show ?case by (intro exI [of _ trie] exI [of _ "rt_retain_topics rt"]) simp
next
  case (Cons i items)
  let ?name = "re_topic_name (rt_retains rt ! i)" and ?T = "rt_retain_topics rt"
  let ?rt = "rt\<lparr>rt_retain_topics := bt_remove ?name ?T\<rparr>"
  have wf: "retained_wf trie" "bt_wf ?T" and top: "bt_get ?T ?name = Some i" "\<not> Retain_is_deleted (rt_retains rt) i"
    using Cons.prems by (auto simp: retain_inv_def)
  have "bt_get ?T ?name = None \<longleftrightarrow> retained_at trie ?name = []" using Cons.prems(1) by (simp add: retain_inv_def)
  with top have at: "retained_at trie ?name \<noteq> []" by simp
  obtain s where s: "do_remove trie (topic_name ?name) = Ok s" "retained_wf s"
    "\<And>p. lookup (in_root s) p = (if p = iter_topic_path (topic_name ?name) then [] else lookup (in_root trie) p)"
    using do_remove_Ok [OF wf(1) disjI1 [OF at]] by blast
  have other: "re_topic_name (rt_retains rt ! j) \<noteq> ?name"
    if "j \<noteq> i" "bt_get ?T (re_topic_name (rt_retains rt ! j)) = Some j" for j using that top by auto
  have "re_topic_name (rt_retains rt ! j) \<noteq> ?name"
    if "j \<in> set (timer_values (rt_retain_timer rt))" "\<not> Retain_is_deleted (rt_retains rt) j" for j
  proof (rule other)
    show "j \<noteq> i" using that(1) Cons.prems(2) by auto
    show "bt_get ?T (re_topic_name (rt_retains rt ! j)) = Some j"
      using that Cons.prems(1) unfolding retain_inv_def by blast
  qed
  then have inv: "retain_inv s ?rt"
    by (intro remove_topic_inv [OF Cons.prems(1) s(2,3), where rs = "rt_retains rt"]) simp_all
  have "bt_get (bt_remove ?name ?T) (re_topic_name (rt_retains rt ! j)) = Some j" if "j \<in> set items" for j
  proof -
    have j: "j \<noteq> i" "bt_get ?T (re_topic_name (rt_retains rt ! j)) = Some j" using that Cons.prems(2) by auto
    then show ?thesis using other [OF j] by (simp add: bt_get_remove [OF wf(2)])
  qed
  then have rest: "takes_topics ?rt items" using Cons.prems(2) by simp
  from Cons.IH [OF inv rest] obtain trie' topics where
    "expire_items items s ?rt = Ok (trie', rt\<lparr>rt_retain_topics := topics\<rparr>)" "retain_inv trie' (rt\<lparr>rt_retain_topics := topics\<rparr>)"
    "\<forall>k. retained_at trie' k = (if k \<in> (\<lambda>i. re_topic_name (rt_retains rt ! i)) ` set items then [] else retained_at s k)"
    by auto
  with s top show ?case
    by (intro exI [of _ trie'] exI [of _ topics]) (simp add: topic_path_eq)
qed

lemma retain_expires_Ok:
  assumes c: "cu_inner c = CMain l" and inv: "retain_inv (cl_retained_messages l) rt"
  obtains trie rt' where "retain_expires now c rt = Ok (set_cluster c (l\<lparr>cl_retained_messages := trie\<rparr>), rt')"
    and "retain_inv trie rt'"
    and "\<And>k. retained_at trie k \<noteq> retained_at (cl_retained_messages l) k \<Longrightarrow> retained_at trie k = [] \<and>
      (\<exists>i \<in> set (timer_values (rt_retain_timer rt)) - set (timer_values (rt_retain_timer rt')).
         bt_get (rt_retain_topics rt) k = Some i)"
proof -
  let ?trie = "cl_retained_messages l" and ?del = "Retain_is_deleted (rt_retains rt)"
  have "timer_wf (rt_retain_timer rt)" using inv by (simp add: retain_inv_def)
  then obtain t taken where t: "Timer_expired ?del now None (rt_retain_timer rt) = Ok (t, [v \<leftarrow> taken. \<not> ?del v])"
    "timer_wf t" "timer_values (rt_retain_timer rt) = taken @ timer_values t" by (rule Timer_expired_values)
  let ?rt = "rt\<lparr>rt_retain_timer := t\<rparr>"
  have inv': "retain_inv ?trie ?rt" and tk: "takes_topics ?rt [v \<leftarrow> taken. \<not> ?del v]"
    using inv t(2,3) by (auto simp: retain_inv_def)
  from expire_items_Ok [OF inv' tk] obtain trie topics where e:
    "expire_items [v \<leftarrow> taken. \<not> ?del v] ?trie ?rt = Ok (trie, ?rt\<lparr>rt_retain_topics := topics\<rparr>)"
    "retain_inv trie (?rt\<lparr>rt_retain_topics := topics\<rparr>)"
    "\<And>k. retained_at trie k = (if k \<in> (\<lambda>i. re_topic_name (rt_retains rt ! i)) ` set [v \<leftarrow> taken. \<not> ?del v] then [] else retained_at ?trie k)"
    by auto
  show thesis
  proof (rule that [OF _ e(2)])
    show "retain_expires now c rt = Ok (set_cluster c (l\<lparr>cl_retained_messages := trie\<rparr>), ?rt\<lparr>rt_retain_topics := topics\<rparr>)"
      by (simp add: retain_expires_def c t(1) e(1))
  next
    fix k
    assume "retained_at trie k \<noteq> retained_at ?trie k"
    then obtain i where i: "i \<in> set taken" "\<not> ?del i" "k = re_topic_name (rt_retains rt ! i)" "retained_at trie k = []"
      unfolding e(3) by (auto split: if_split_asm)
    moreover have "bt_get (rt_retain_topics rt) k = Some i" "i \<notin> set (timer_values t)" using tk i by auto
    ultimately show "retained_at trie k = [] \<and>
      (\<exists>i \<in> set (timer_values (rt_retain_timer rt)) - set (timer_values (rt_retain_timer (?rt\<lparr>rt_retain_topics := topics\<rparr>))).
         bt_get (rt_retain_topics rt) k = Some i)" using t(3) by auto
  qed
qed

lemma reset_retain_panics:
  assumes c: "cu_inner c = CMain l" and inv: "retain_inv (cl_retained_messages l) rt"
  shows "panics (handle_reset_retain_topic name c rt) \<longleftrightarrow> retained_at (cl_retained_messages l) name = [] \<and>
    node_at (in_root (cl_retained_messages l)) (iter_topic_path (topic_name name)) \<noteq> None"
proof (cases "retained_at (cl_retained_messages l) name \<noteq> [] \<or>
    node_at (in_root (cl_retained_messages l)) (iter_topic_path (topic_name name)) = None")
  case True
  show ?thesis by (rule reset_retain_Ok [OF c inv True]) (use True in auto)
next
  case False
  have "retained_wf (cl_retained_messages l)" using inv by (simp add: retain_inv_def)
  from do_remove_cases [OF this, of "topic_name name"] False
  have "do_remove (cl_retained_messages l) (topic_name name) = panic" by (auto simp: lookup_def)
  with False show ?thesis by (simp add: handle_reset_retain_topic_def c)
qed

section \<open>Connections\<close>

lemma from_config_Ok: "Cluster_from_config config = Ok c \<Longrightarrow> cfg_num_shards config \<noteq> 0"
  by (auto simp: Cluster_from_config_def split: if_split_asm)

lemma Tx_request_sent: "tx_sent (fst (Tx_request tx req resp)) = tx_sent tx @ (if tx_receives tx then [req] else [])"
  by (simp add: Tx_request_def)

lemma add_connection_Ok:
  fixes h :: "bytes \<Rightarrow> 128 word" and connect :: Connect
  assumes "cu_inner c = CMain l" and "cfg_num_shards (cu_config c) \<noteq> 0" and "bt_wf (cl_active_shards l)"
    and "\<And>s. s < cfg_num_shards (cu_config c) \<Longrightarrow> bt_get (cl_active_shards l) s \<noteq> None"
  defines "shard_id \<equiv> session_partition h (client_id (cpl_client_id (con_payload connect))) (cfg_num_shards (cu_config c))"
  obtains tx shards where "bt_get (cl_active_shards l) shard_id = Some tx"
    and "cluster_add_connection h connect True resp c = Ok (set_cluster c (l\<lparr>cl_active_shards := shards\<rparr>))"
    and "bt_get shards = (bt_get (cl_active_shards l))(shard_id \<mapsto> fst (Tx_request tx connect resp))"
proof -
  have "shard_id < cfg_num_shards (cu_config c)" unfolding shard_id_def by (rule session_partition_less [OF assms(2)])
  with assms(4) obtain tx where tx: "bt_get (cl_active_shards l) shard_id = Some tx" by blast
  have "cluster_add_connection h connect True resp c = Ok (set_cluster c (l\<lparr>cl_active_shards :=
      bt_insert shard_id (fst (Tx_request tx connect resp)) (cl_active_shards l)\<rparr>))"
    using tx by (simp add: cluster_add_connection_def assms(1) Let_def flip: shard_id_def)
  from that [OF tx this bt_get_insert [OF assms(3)]] show thesis .
qed

end
