(* ===== verification/Client.thy ===== *)
theory Client
  imports Socket
begin

text \<open>
  Model of \<open>src/client.rs\<close>: the CONNECT packet of a client, the handshake, and the loops that read and
  write one packet. The connection and its clock, in nanoseconds, are those of \<open>Socket\<close>; a blocking and a
  non-blocking stream differ in what they answer. Opening the stream, its options and the two halves of
  a connection are not modelled. The facts show how the loops treat their timeouts.
\<close>

section \<open>The client\<close>

record ConnectOptions =
  co_will_qos :: "QoS option"
  co_will_retain :: "bool option"
  co_keep_alive :: u16

datatype ClientIO =
    Blocking conn MQTTRead MQTTWrite
  | NoBlock conn MQTTRead MQTTWrite
  | BlockRd conn MQTTRead
  | BlockWt conn MQTTWrite
  | NoBlockRd conn MQTTRead
  | NoBlockWt conn MQTTWrite
  | IONone

record Client =
  ct_client_id :: ClientID
  ct_protocol_version :: MqttProtocol
  ct_read_timeout :: "nat option"
  ct_write_timeout :: "nat option"
  ct_max_packet_size :: u32
  ct_connopts :: ConnectOptions
  ct_connect_properties :: "ConnectProperties option"
  ct_connect_payload :: ConnectPayload
  ct_connack :: ConnAck
  ct_last_rcvd :: nat
  ct_last_sent :: nat
  ct_cio :: ClientIO

text \<open>The kinds of \<open>io::Error\<close> that the functions return, and a panic.\<close>

datatype io_errkind = BrokenPipe | TimedOut | InvalidData

datatype client_fault = IoErr io_errkind | ClientPanic

type_synonym 'a io = "client_fault + 'a"

definition is_will :: "Client \<Rightarrow> bool" where
  "is_will self \<longleftrightarrow>
     cpl_will_topic (ct_connect_payload self) \<noteq> None \<and>
     cpl_will_properties (ct_connect_payload self) \<noteq> None \<and>
     cpl_will_payload (ct_connect_payload self) \<noteq> None"

definition to_connect :: "bool \<Rightarrow> Client \<Rightarrow> Connect" where
  "to_connect clean_start self =
     (let flags = (if clean_start then [ConnectFlags_CLEAN_START] else []);
          flags = (if is_will self
                   then flags @ [ConnectFlags_WILL_FLAG,
                          case (case co_will_qos (ct_connopts self) of Some q \<Rightarrow> q | None \<Rightarrow> AtMostOnce) of
                            AtMostOnce \<Rightarrow> ConnectFlags_WILL_QOS0
                          | AtLeastOnce \<Rightarrow> ConnectFlags_WILL_QOS1
                          | ExactlyOnce \<Rightarrow> ConnectFlags_WILL_QOS2]
                        @ (if co_will_retain (ct_connopts self) = Some True then [ConnectFlags_WILL_RETAIN] else [])
                   else flags);
          flags = (if cpl_username (ct_connect_payload self) \<noteq> None then flags @ [ConnectFlags_USERNAME] else flags);
          flags = (if cpl_password (ct_connect_payload self) \<noteq> None then flags @ [ConnectFlags_PASSWORD] else flags)
      in Connect_normalize
           \<lparr>con_protocol_name = ascii ''MQTT'', con_protocol_version = ct_protocol_version self,
            con_flags = ConnectFlags_new (map ConnectFlags flags),
            con_keep_alive = co_keep_alive (ct_connopts self),
            con_properties = ct_connect_properties self, con_payload = ct_connect_payload self\<rparr>)"

definition Client_keep_alive :: "Client \<Rightarrow> u16" where
  "Client_keep_alive self =
     (case ca_properties (ct_connack self) of
        Some props \<Rightarrow> (case cap_server_keep_alive props of
                         Some keep_alive \<Rightarrow> keep_alive
                       | None \<Rightarrow> co_keep_alive (ct_connopts self))
      | None \<Rightarrow> co_keep_alive (ct_connopts self))"

text \<open>The product with 1.5 in double precision is exact for these numbers.\<close>

definition Client_expired :: "nat \<Rightarrow> Client \<Rightarrow> bool" where
  "Client_expired now self \<longleftrightarrow>
     co_keep_alive (ct_connopts self) \<noteq> 0 \<and>
     (unat (co_keep_alive (ct_connopts self)) * 1000000) * 3 div 2 < (now - ct_last_sent self) div 1000"

section \<open>Timeouts\<close>

text \<open>\<open>RwTimeout\<close> is its one field; the functions for reading and for writing are the same.\<close>

definition RwTimeout_elapsed :: "nat \<Rightarrow> nat option \<Rightarrow> bool" where
  "RwTimeout_elapsed now self =
     (case self of Some timeout \<Rightarrow> timeout > now | None \<Rightarrow> False)"

definition RwTimeout_set :: "nat \<Rightarrow> bool \<Rightarrow> nat \<Rightarrow> nat option \<Rightarrow> nat option" where
  "RwTimeout_set now retry timeout self =
     (if retry \<and> self = None then Some (now + timeout) else if \<not> retry then None else self)"

section \<open>Packets\<close>

text \<open>
  The result is the connection, the reader that is left behind and the packet. An early return leaves
  the default in the place of the reader.
\<close>

partial_function (option) client_read_loop ::
  "nat \<Rightarrow> conn \<Rightarrow> MQTTRead \<Rightarrow> nat option \<Rightarrow> (conn \<times> MQTTRead \<times> Packet io) option" where
  "client_read_loop read_timeout sock pr timeout =
     (case MQTTRead_read (conn_read sock) pr of
        Inl Panic \<Rightarrow> Some (sock, MQTTRead_default, Inl ClientPanic)
      | Inl (Err _) \<Rightarrow> Some (sock\<lparr>tcp_calls := Suc (tcp_calls sock)\<rparr>, MQTTRead_default, Inl (IoErr BrokenPipe))
      | Inr (pr', _) \<Rightarrow>
          (let now = clock sock; sock = conn_consumed pr pr' sock
           in case pr' of
                RFin _ _ _ _ \<Rightarrow>
                  (case MQTTRead_parse pr' of
                     Inl Panic \<Rightarrow> Some (sock, MQTTRead_default, Inl ClientPanic)
                   | Inl (Err _) \<Rightarrow> Some (sock, MQTTRead_default, Inl (IoErr InvalidData))
                   | Inr pkt \<Rightarrow>
                       (case MQTTRead_reset pr' of
                          Inl _ \<Rightarrow> Some (sock, MQTTRead_default, Inl ClientPanic)
                        | Inr pr \<Rightarrow> Some (sock, pr, Inr pkt)))
              | RNone \<Rightarrow> Some (sock, MQTTRead_default, Inl ClientPanic)
              | _ \<Rightarrow>
                  if \<not> RwTimeout_elapsed now timeout
                  then client_read_loop read_timeout sock pr' (RwTimeout_set now True read_timeout timeout)
                  else Some (sock, pr', Inl (IoErr TimedOut))))"

definition client_read_packet :: "Client \<Rightarrow> conn \<Rightarrow> MQTTRead \<Rightarrow> (conn \<times> MQTTRead \<times> Packet io) option" where
  "client_read_packet c sock pktr =
     client_read_loop (case ct_read_timeout c of Some t \<Rightarrow> t | None \<Rightarrow> 3600000000000) sock pktr None"

partial_function (option) client_write_loop ::
  "nat \<Rightarrow> conn \<Rightarrow> MQTTWrite \<Rightarrow> nat option \<Rightarrow> (conn \<times> MQTTWrite io) option" where
  "client_write_loop write_timeout sock pw timeout =
     (let now = clock sock; wr = tcp_write sock (tcp_calls sock); sock = conn_wrote (conn_takes wr pw) sock
      in case MQTTWrite_write wr pw of
           Inl Panic \<Rightarrow> Some (sock, Inl ClientPanic)
         | Inl (Err _) \<Rightarrow> Some (sock, Inl (IoErr BrokenPipe))
         | Inr (pw, _) \<Rightarrow>
             (case pw of
                WFin _ _ \<Rightarrow> Some (sock, Inr pw)
              | WNone \<Rightarrow> Some (sock, Inl ClientPanic)
              | _ \<Rightarrow>
                  if RwTimeout_elapsed now timeout
                  then client_write_loop write_timeout sock pw (RwTimeout_set now True write_timeout timeout)
                  else Some (sock, Inl (IoErr TimedOut))))"

definition client_write_packet ::
  "Client \<Rightarrow> conn \<Rightarrow> MQTTWrite \<Rightarrow> Packet \<Rightarrow> (conn \<times> MQTTWrite \<times> unit io) option" where
  "client_write_packet client sock pktw pkt =
     (let write_timeout = (case ct_write_timeout client of Some t \<Rightarrow> t | None \<Rightarrow> 3600000000000)
      in case Packet_encode pkt of
           Inl Panic \<Rightarrow> Some (sock, MQTTWrite_default, Inl ClientPanic)
         | Inl (Err _) \<Rightarrow> Some (sock, MQTTWrite_default, Inl (IoErr InvalidData))
         | Inr blob \<Rightarrow>
             (case MQTTWrite_reset (as_ref blob) pktw of
                Inl _ \<Rightarrow> Some (sock, MQTTWrite_default, Inl ClientPanic)
              | Inr pw \<Rightarrow>
                  (case client_write_loop write_timeout sock pw None of
                     None \<Rightarrow> None
                   | Some (sock, Inl e) \<Rightarrow> Some (sock, MQTTWrite_default, Inl e)
                   | Some (sock, Inr pw) \<Rightarrow> Some (sock, pw, Inr ()))))"

section \<open>The connection\<close>

definition ClientIO_read_packet :: "Client \<Rightarrow> ClientIO \<Rightarrow> (ClientIO \<times> Packet io) option" where
  "ClientIO_read_packet c self =
     (let on = (\<lambda>put sock pktr. map_option (\<lambda>(sock, pktr, r). (put sock pktr, r)) (client_read_packet c sock pktr))
      in case self of
           Blocking sock pktr pktw \<Rightarrow> on (\<lambda>s r. Blocking s r pktw) sock pktr
         | NoBlock sock pktr pktw \<Rightarrow> on (\<lambda>s r. NoBlock s r pktw) sock pktr
         | BlockRd sock pktr \<Rightarrow> on BlockRd sock pktr
         | NoBlockRd sock pktr \<Rightarrow> on NoBlockRd sock pktr
         | _ \<Rightarrow> Some (self, Inl ClientPanic))"

definition ClientIO_write_packet :: "Client \<Rightarrow> Packet \<Rightarrow> ClientIO \<Rightarrow> (ClientIO \<times> unit io) option" where
  "ClientIO_write_packet c pkt self =
     (let on = (\<lambda>put sock pktw. map_option (\<lambda>(sock, pktw, r). (put sock pktw, r)) (client_write_packet c sock pktw pkt))
      in case self of
           Blocking sock pktr pktw \<Rightarrow> on (\<lambda>s w. Blocking s pktr w) sock pktw
         | NoBlock sock pktr pktw \<Rightarrow> on (\<lambda>s w. NoBlock s pktr w) sock pktw
         | BlockWt sock pktw \<Rightarrow> on BlockWt sock pktw
         | NoBlockWt sock pktw \<Rightarrow> on NoBlockWt sock pktw
         | _ \<Rightarrow> Some (self, Inl ClientPanic))"

definition ClientIO_handshake :: "Client \<Rightarrow> Connect \<Rightarrow> conn \<Rightarrow> bool \<Rightarrow> (ClientIO \<times> ConnAck) io option" where
  "ClientIO_handshake client connect sock blocking =
     (let max_packet_size = Connect_max_packet_size connect (ct_max_packet_size client);
          pktr = MQTTRead_new max_packet_size; pktw = MQTTWrite_new [] max_packet_size
      in case client_write_packet client sock pktw (Packet.Connect connect) of
           None \<Rightarrow> None
         | Some (_, _, Inl e) \<Rightarrow> Some (Inl e)
         | Some (sock, pktw, Inr _) \<Rightarrow>
             (case client_read_packet client sock pktr of
                None \<Rightarrow> None
              | Some (_, _, Inl e) \<Rightarrow> Some (Inl e)
              | Some (sock, pktr, Inr pkt) \<Rightarrow>
                  (case pkt of
                     Packet.ConnAck connack \<Rightarrow>
                       Some (Inr (if blocking then Blocking sock pktr pktw else NoBlock sock pktr pktw, connack))
                   | _ \<Rightarrow> Some (Inl (IoErr InvalidData)))))"

text \<open>\<open>reconnect\<close> on the stream that was opened; \<open>is_blocking\<close> is part of it.\<close>

definition Client_reconnect :: "conn \<Rightarrow> Client \<Rightarrow> Client io option" where
  "Client_reconnect sock self =
     (case ct_cio self of
        IONone \<Rightarrow> Some (Inl ClientPanic)
      | cio \<Rightarrow>
          (let blocking = (case cio of Blocking _ _ _ \<Rightarrow> True | BlockRd _ _ \<Rightarrow> True | BlockWt _ _ \<Rightarrow> True | _ \<Rightarrow> False)
           in map_option (map_sum id (\<lambda>(cio, connack). self\<lparr>ct_cio := cio, ct_connack := connack\<rparr>))
                (ClientIO_handshake self (to_connect False self) sock blocking)))"

text \<open>The connection is taken out of the client and dropped at the end.\<close>

definition Client_ping :: "nat \<Rightarrow> Client \<Rightarrow> (Client \<times> unit io) option" where
  "Client_ping now self =
     (let self = self\<lparr>ct_last_sent := now\<rparr>; cio = ct_cio self; self = self\<lparr>ct_cio := IONone\<rparr>
      in case ClientIO_write_packet self Packet.PingReq cio of
           None \<Rightarrow> None
         | Some (_, Inl e) \<Rightarrow> Some (self, Inl e)
         | Some (cio, Inr _) \<Rightarrow>
             (case ClientIO_read_packet self cio of
                None \<Rightarrow> None
              | Some (_, Inl e) \<Rightarrow> Some (self, Inl e)
              | Some (_, Inr pkt) \<Rightarrow> Some (self, if pkt = Packet.PingResp then Inr () else Inl (IoErr InvalidData))))"

section \<open>Facts\<close>

text \<open>A write is never repeated: the timeout is not set before the first call, so that it counts as over.\<close>

lemma client_write_loop_once:
  "client_write_loop t sock pw None =
     Some (conn_wrote (conn_takes (tcp_write sock (tcp_calls sock)) pw) sock,
       case MQTTWrite_write (tcp_write sock (tcp_calls sock)) pw of
         Inl Panic \<Rightarrow> Inl ClientPanic
       | Inl (Err _) \<Rightarrow> Inl (IoErr BrokenPipe)
       | Inr (WFin d m, _) \<Rightarrow> Inr (WFin d m)
       | Inr (WNone, _) \<Rightarrow> Inl ClientPanic
       | Inr _ \<Rightarrow> Inl (IoErr TimedOut))"
  by (subst client_write_loop.simps)
    (simp add: Let_def RwTimeout_elapsed_def split: sum.split fault.split prod.split MQTTWrite.split)

text \<open>The states in which a writer takes a new packet.\<close>

definition idle :: "MQTTWrite \<Rightarrow> usize \<Rightarrow> bool" where
  "idle pw mx \<longleftrightarrow> (\<exists>d. pw = WInit d mx \<or> pw = WFin d mx)"

lemma client_write_packet_once:
  assumes "Packet_encode pkt = Ok blob" and "as_ref blob \<noteq> []" and "length (as_ref blob) \<le> mx"
    and "idle pktw mx" and "write_fits (tcp_write sock (tcp_calls sock))"
  shows "\<exists>sock' pktw'. client_write_packet c sock pktw pkt = Some (sock', pktw',
    case tcp_write sock (tcp_calls sock) (as_ref blob) of
      WriteOk n \<Rightarrow> if n = 0 then Inl (IoErr BrokenPipe)
        else if n = length (as_ref blob) then Inr () else Inl (IoErr TimedOut)
    | WriteErr e \<Rightarrow> Inl (IoErr (if e = OtherIO then BrokenPipe else TimedOut)))"
proof -
  let ?w = "tcp_write sock (tcp_calls sock)"
  have reset: "MQTTWrite_reset (as_ref blob) pktw = Ok (WInit (as_ref blob) mx)"
    using assms(4) by (auto simp: idle_def MQTTWrite_reset_def)
  have "n \<le> length (as_ref blob)" if "?w (as_ref blob) = WriteOk n" for n
    using assms(5) that by (auto simp: write_fits_def)
  then show ?thesis using assms(1-3)
    by (auto simp: client_write_packet_def Let_def reset client_write_loop_once MQTTWrite_write_def err_desc_def
        split: io_write.split io_kind.split)
qed

text \<open>What the reader is in before a packet is complete.\<close>

definition incomplete :: "MQTTRead \<Rightarrow> bool" where
  "incomplete pr \<longleftrightarrow> (case pr of RFin _ _ _ _ \<Rightarrow> False | RNone \<Rightarrow> False | _ \<Rightarrow> True)"

lemma client_read_step:
  assumes "MQTTRead_read (conn_read sock) pr = Ok (pr', b)" and "incomplete pr'"
  shows "client_read_loop t sock pr timeout =
    (if RwTimeout_elapsed (clock sock) timeout
     then Some (conn_consumed pr pr' sock, pr', Inl (IoErr TimedOut))
     else client_read_loop t (conn_consumed pr pr' sock) pr' (RwTimeout_set (clock sock) True t timeout))"
  by (subst client_read_loop.simps)
    (use assms in \<open>auto simp: Let_def incomplete_def split: MQTTRead.split_asm\<close>)

lemma client_read_twice:
  assumes "MQTTRead_read (conn_read sock) pr = Ok (pr1, b1)" and "incomplete pr1"
    and "MQTTRead_read (conn_read (conn_consumed pr pr1 sock)) pr1 = Ok (pr2, b2)" and "incomplete pr2"
    and "tcp_now sock (Suc (tcp_calls sock)) < clock sock + t"
  shows "client_read_loop t sock pr None =
    Some (conn_consumed pr1 pr2 (conn_consumed pr pr1 sock), pr2, Inl (IoErr TimedOut))"
  using assms by (simp add: client_read_step RwTimeout_elapsed_def RwTimeout_set_def)

lemma client_ping_takes: "Client_ping now c = Some (c', r) \<Longrightarrow> ct_cio c' = IONone"
  by (auto simp: Client_ping_def Let_def split: option.split_asm sum.split_asm)

lemma client_ping_none: "ct_cio c = IONone \<Longrightarrow> Client_ping now c = Some (c\<lparr>ct_last_sent := now, ct_cio := IONone\<rparr>, Inl ClientPanic)"
  by (simp add: Client_ping_def ClientIO_write_packet_def)

text \<open>The connection is gone after one ping, whatever its result: the next one panics.\<close>

lemma client_ping_once:
  "Client_ping now c = Some (c', r) \<Longrightarrow> \<exists>c''. Client_ping now' c' = Some (c'', Inl ClientPanic)"
  by (drule client_ping_takes) (simp add: client_ping_none)

text \<open>The flags of the CONNECT packet are those of its payload.\<close>

lemma to_connect_bits:
  "connect_flags (con_flags (to_connect clean c)) =
     (if clean then 0x02 else 0) OR
     (if is_will c then 0x04 OR
        (case co_will_qos (ct_connopts c) of Some AtLeastOnce \<Rightarrow> 0x08 | Some ExactlyOnce \<Rightarrow> 0x10 | _ \<Rightarrow> 0) OR
        (if co_will_retain (ct_connopts c) = Some True then 0x20 else 0) else 0) OR
     (if cpl_username (ct_connect_payload c) \<noteq> None then 0x40 else 0) OR
     (if cpl_password (ct_connect_payload c) \<noteq> None then 0x80 else 0)"
  by (simp add: to_connect_def Let_def Connect_normalize_def ConnectFlags_new_def split: option.split QoS.split)

section \<open>A packet in two reads\<close>

text \<open>
  The first read takes at most five bytes, enough for every header. The second one can take the rest of
  the packet, whatever the timeout.
\<close>

lemma first_read:
  assumes fr: "frame p fh" and mx: "length p \<le> mx" and n: "5 \<le> n"
  shows "MQTTRead_read (sock_read n p) (RInit [] mx) =
    Ok (if length p \<le> 5 then RFin p [] fh mx else RRemain (take 5 p @ replicate (length p - 5) 0) 5 fh mx, False)"
proof -
  from fr obtain m where m: "starts p fh m" "length p = 1 + m + unat (var_u32 (remaining_len fh))" by (auto simp: frame_def)
  then have dec: "VarU32_decode (drop 1 p) = Ok (remaining_len fh, m)" by (simp add: starts_def)
  have m4: "m \<le> 4" using VarU32_decode_Ok [OF dec] by simp
  let ?d = "take 5 p"
  have st: "starts ?d fh m" by (rule starts_prefix [OF m(1)]) (use m4 in \<open>simp add: min_def\<close>)
  then have d: "VarU32_decode (drop 1 ?d) = Ok (remaining_len fh, m)" "?d \<noteq> []" "?d ! 0 = byte1 fh"
    by (simp_all add: starts_def)
  have "drop 1 ?d ! (m - 1) < 0x80" using VarU32_decode_end [OF d(1)] by simp
  moreover have "m - 1 < length (drop 1 ?d)" using starts_bound [OF st] by (simp add: min_def, arith)
  ultimately have "dropWhile (\<lambda>b. b \<ge> 0x80) (drop 1 ?d) \<noteq> []"
    by (metis dropWhile_eq_Nil_conv linorder_not_le nth_mem)
  moreover have "\<lparr>byte1 = ?d ! 0, remaining_len = remaining_len fh\<rparr> = fh" using d(3) by (cases fh) simp
  ultimately have "read_header (?d ! 0) ?d mx =
      Ok (if length p \<le> 5 then RFin p [] fh mx else RRemain (?d @ replicate (length p - 5) 0) 5 fh mx, False)"
    using d(1) m(2) mx by (simp add: read_header_def Let_def check_packet_limit_def min_def)
  moreover have "sock_read n p 5 = ReadOk ?d" using d(2) n by (auto simp: sock_read_def min_def)
  ultimately show ?thesis using d(2) by (simp add: MQTTRead_read_def pre_read_def Let_def)
qed

lemma second_read:
  assumes "5 < length p" and "length p \<le> n"
  shows "MQTTRead_read (sock_read n (drop 5 p)) (RRemain (take 5 p @ replicate (length p - 5) 0) 5 fh mx) =
    Ok (RFin p [] fh mx, False)"
proof -
  have "sock_read n (drop 5 p) (length p - 5) = ReadOk (drop 5 p)" using assms by (simp add: sock_read_def min_def)
  then show ?thesis using assms by (simp add: MQTTRead_read_def pre_read_def Let_def)
qed

lemma client_read_done:
  assumes "MQTTRead_read (conn_read sock) pr = Ok (RFin d r fh mx, b)" and "MQTTRead_parse (RFin d r fh mx) = Ok pkt"
  shows "client_read_loop t sock pr timeout = Some (conn_consumed pr (RFin d r fh mx) sock, RInit r mx, Inr pkt)"
  by (subst client_read_loop.simps) (use assms in \<open>simp add: Let_def MQTTRead_reset_def\<close>)

lemma client_reads_packet:
  assumes "sent mx v b" and "tcp_input sock = as_ref b" and "5 \<le> tcp_chunk sock (tcp_calls sock)"
    and "length (as_ref b) \<le> tcp_chunk sock (Suc (tcp_calls sock))"
    and "tcp_fault sock (tcp_calls sock) = None" and "tcp_fault sock (Suc (tcp_calls sock)) = None"
  obtains sock' where "client_read_loop t sock (RInit [] mx) None = Some (sock', RInit [] mx, Inr (Packet_normalize v))"
    and "tcp_input sock' = []" and "tcp_sent sock' = tcp_sent sock"
proof -
  let ?p = "as_ref b"
  from sent_frame [OF assms(1)] obtain fh where fr: "frame ?p fh" ..
  have mx: "length ?p \<le> mx" and parse: "MQTTRead_parse (RFin ?p [] fh mx) = Ok (Packet_normalize v)"
    using assms(1) parse_encoded [OF _ _ fr] by (simp_all add: sent_def)
  have one: "MQTTRead_read (conn_read sock) (RInit [] mx) =
      Ok (if length ?p \<le> 5 then RFin ?p [] fh mx else RRemain (take 5 ?p @ replicate (length ?p - 5) 0) 5 fh mx, False)"
    using first_read [OF fr mx assms(3)] assms(2,5) by (simp add: conn_read_def)
  show thesis
  proof (cases "length ?p \<le> 5")
    case True
    with one have "MQTTRead_read (conn_read sock) (RInit [] mx) = Ok (RFin ?p [] fh mx, False)" by simp
    note fin = client_read_done [OF this parse]
    show thesis by (rule that [OF fin]) (simp_all add: assms(2))
  next
    case False
    let ?pr = "RRemain (take 5 ?p @ replicate (length ?p - 5) 0) 5 fh mx"
    let ?sock = "conn_consumed (RInit [] mx) ?pr sock"
    have "MQTTRead_read (conn_read ?sock) ?pr = Ok (RFin ?p [] fh mx, False)"
      using second_read [OF _ assms(4)] False assms(2,6) by (simp add: conn_read_def)
    note fin = client_read_done [OF this parse]
    have "client_read_loop t sock (RInit [] mx) None =
        client_read_loop t ?sock ?pr (RwTimeout_set (clock sock) True t None)"
      by (subst client_read_step) (use one False in \<open>auto simp: incomplete_def RwTimeout_elapsed_def\<close>)
    note eq = this [unfolded fin]
    show thesis by (rule that [OF eq]) (use False assms(2) in simp_all)
  qed
qed

section \<open>The handshake\<close>

lemma client_writes_packet:
  assumes "Packet_encode pkt = Ok blob" and "as_ref blob \<noteq> []" and "length (as_ref blob) \<le> mx" and "idle pktw mx"
    and "tcp_write sock (tcp_calls sock) (as_ref blob) = WriteOk (length (as_ref blob))"
  shows "client_write_packet c sock pktw pkt = Some (conn_wrote (as_ref blob) sock, WFin (as_ref blob) mx, Inr ())"
proof -
  have "MQTTWrite_reset (as_ref blob) pktw = Ok (WInit (as_ref blob) mx)"
    using assms(4) by (auto simp: idle_def MQTTWrite_reset_def)
  then show ?thesis using assms
    by (simp add: client_write_packet_def client_write_loop_once MQTTWrite_write_def conn_takes_def taken_def)
qed

lemma handshake_Ok:
  fixes con :: Connect and ack :: ConnAck and c :: Client
  defines "mx \<equiv> unat (Connect_max_packet_size con (ct_max_packet_size c))"
  assumes con: "sent mx (Packet.Connect con) cb" and ack: "sent mx (Packet.ConnAck ack) ab"
    and wr: "tcp_write sock (tcp_calls sock) (as_ref cb) = WriteOk (length (as_ref cb))"
    and inp: "tcp_input sock = as_ref ab"
    and rd: "tcp_fault sock (Suc (tcp_calls sock)) = None" "5 \<le> tcp_chunk sock (Suc (tcp_calls sock))"
      "tcp_fault sock (Suc (Suc (tcp_calls sock))) = None" "length (as_ref ab) \<le> tcp_chunk sock (Suc (Suc (tcp_calls sock)))"
  shows "\<exists>sock'. ClientIO_handshake c con sock blocking =
      Some (Inr ((if blocking then Blocking else NoBlock) sock' (RInit [] mx) (WFin (as_ref cb) mx), ConnAck_normalize ack)) \<and>
    tcp_sent sock' = tcp_sent sock @ as_ref cb \<and> tcp_input sock' = []"
proof -
  let ?sock = "conn_wrote (as_ref cb) sock"
  from sent_frame [OF con] frame_nonempty have "as_ref cb \<noteq> []" by blast
  with con wr have w: "client_write_packet c sock (MQTTWrite_new [] (Connect_max_packet_size con (ct_max_packet_size c)))
      (Packet.Connect con) = Some (?sock, WFin (as_ref cb) mx, Inr ())"
    by (intro client_writes_packet) (auto simp: sent_def idle_def MQTTWrite_new_def mx_def)
  obtain sock' where r: "client_read_packet c ?sock (RInit [] mx) =
      Some (sock', RInit [] mx, Inr (Packet_normalize (Packet.ConnAck ack)))"
    "tcp_input sock' = []" "tcp_sent sock' = tcp_sent ?sock"
    unfolding client_read_packet_def
    by (rule client_reads_packet [OF ack, of ?sock]) (use inp rd in auto)
  have "Packet_normalize (Packet.ConnAck ack) = Packet.ConnAck (ConnAck_normalize ack)" by (simp add: Packet_normalize_def)
  with w r show ?thesis
    by (intro exI [of _ sock']) (simp add: ClientIO_handshake_def Let_def MQTTRead_new_def flip: mx_def)
qed

end
