(* ===== verification/Handshake.thy ===== *)
theory Handshake
  imports Socket Thread
begin

text \<open>
  Model of \<open>src/broker/handshake.rs\<close>: the thread that waits for the CONNECT packet of a new connection and
  hands it to the cluster, or answers with the reason of a failure. The connection and its clock are
  those of \<open>Socket\<close>; the handle of the cluster is a \<open>Tx\<close> for CONNECT packets. Sleeping only moves the
  clock. The facts show that the thread ends, and that a CONNECT packet that arrives in time is handed
  over as it was sent.
\<close>

section \<open>The thread\<close>

text \<open>An error of reading or parsing: two kinds are answered, all others are \<open>unreachable!\<close>.\<close>

abbreviation refuse :: "error \<Rightarrow> (ReasonCode \<times> bool \<times> Connect option) result" where
  "refuse e \<equiv> (if err_kind e = ErrorKind.MalformedPacket \<or> err_kind e = ErrorKind.ProtocolError
     then Ok (Error_code e, True, None) else panic)"

text \<open>A complete packet: the reason, whether it is to be sent, and the packet.\<close>

definition handshake_parse :: "MQTTRead \<Rightarrow> (ReasonCode \<times> bool \<times> Connect option) result" where
  "handshake_parse packetr =
     (case MQTTRead_parse packetr of
        Inl Panic \<Rightarrow> panic
      | Inl (Err e) \<Rightarrow> refuse e
      | Inr (Packet.Connect connect) \<Rightarrow>
          (case Connect_validate connect of
             Inl Panic \<Rightarrow> panic
           | Inl (Err e) \<Rightarrow> Ok (Error_code e, True, None)
           | Inr _ \<Rightarrow> Ok (ReasonCode.Success, False, Some connect))
      | Inr _ \<Rightarrow> Ok (ReasonCode.ProtocolError, True, None))"

partial_function (option) handshake_loop ::
  "nat \<Rightarrow> conn \<Rightarrow> MQTTRead \<Rightarrow> (conn \<times> (ReasonCode \<times> bool \<times> Connect option) result) option" where
  "handshake_loop timeout sock packetr =
     (case MQTTRead_read (conn_read sock) packetr of
        Inl Panic \<Rightarrow> Some (sock, panic)
      | Inl (Err e) \<Rightarrow> Some (sock\<lparr>tcp_calls := Suc (tcp_calls sock)\<rparr>, refuse e)
      | Inr (packetr', _) \<Rightarrow>
          (let now = clock sock; sock = conn_consumed packetr packetr' sock
           in case packetr' of
                RFin _ _ _ _ \<Rightarrow> Some (sock, handshake_parse packetr')
              | RNone \<Rightarrow> Some (sock, Ok (ReasonCode.UnspecifiedError, True, None))
              | _ \<Rightarrow>
                  if now < timeout then handshake_loop timeout sock packetr'
                  else Some (sock, Ok (ReasonCode.UnspecifiedError, True, None))))"

text \<open>The loop is that of \<open>send_disconnect\<close>, word for word but for the log lines.\<close>

definition send_connack :: "Config \<Rightarrow> conn \<Rightarrow> ConnackReasonCode \<Rightarrow> unit result option" where
  "send_connack config sock code =
     (let max_size = cfg_mqtt_max_packet_size config;
          timeout = clock sock + unat (cfg_sock_mqtt_connect_timeout config) * 1000000000;
          cack = ConnAck_from_reason_code code
      in case ConnAck_encode cack of
           Inl _ \<Rightarrow> Some panic
         | Inr b \<Rightarrow>
             send_disconnect_loop (\<lambda>i. tcp_write sock (tcp_calls sock + i)) (\<lambda>i. tcp_now sock (tcp_calls sock + i)) timeout 0
               (MQTTWrite_new (as_ref b) max_size))"

text \<open>
  \<open>addrs\<close> tells whether the socket still knows its addresses. The result is the handle of the cluster with
  what was sent to it; an error of the cluster is only logged.
\<close>

definition Handshake_main_loop ::
  "Config \<Rightarrow> bool \<Rightarrow> conn \<Rightarrow> Connect Tx \<Rightarrow> unit result option \<Rightarrow> Connect Tx result option" where
  "Handshake_main_loop config addrs sock cluster resp =
     (let packetr = MQTTRead_new (cfg_mqtt_max_packet_size config);
          timeout = clock sock + unat (cfg_sock_mqtt_connect_timeout config) * 1000000000
      in if \<not> addrs then Some panic
         else case handshake_loop timeout sock packetr of
                None \<Rightarrow> None
              | Some (sock, Inl e) \<Rightarrow> Some (Inl e)
              | Some (sock, Inr (code, connack, connect)) \<Rightarrow>
                  if connack
                  then (case ConnackReasonCode_try_from (ReasonCode_as_u8 code) of
                          Inl _ \<Rightarrow> Some panic
                        | Inr code \<Rightarrow>
                            (case send_connack config sock code of
                               None \<Rightarrow> None
                             | Some (Inl Panic) \<Rightarrow> Some panic
                             | Some _ \<Rightarrow> Some (Ok cluster)))
                  else (case connect of
                          Some connect \<Rightarrow> Some (Ok (fst (Tx_request cluster connect resp)))
                        | None \<Rightarrow> Some panic))"

section \<open>Facts\<close>

text \<open>The loop ends once the clock has reached the timeout.\<close>

lemma handshake_loop_returns:
  assumes "timeout \<le> tcp_now sock (tcp_calls sock + k)"
  shows "\<exists>out. handshake_loop timeout sock pr = Some out"
  using assms
proof (induction k arbitrary: sock pr)
  case 0
  then show ?case
    by (subst handshake_loop.simps) (auto simp: Let_def split: sum.split fault.split prod.split MQTTRead.split)
next
  case (Suc k)
  have "\<exists>out. handshake_loop timeout (conn_consumed pr pr' sock) pr' = Some out" for pr'
    by (rule Suc.IH) (use Suc.prems in simp)
  then show ?case
    by (subst handshake_loop.simps) (auto simp: Let_def simp del: rcontent.simps split: sum.split fault.split prod.split MQTTRead.split)
qed

lemma decoded_connect_valid: "Packet_decode s = Ok (Packet.Connect c, n) \<Longrightarrow> Connect_validate c = Ok ()"
proof -
  assume "Packet_decode s = Ok (Packet.Connect c, n)"
  then have "Connect_decode s = Ok (c, n)"
    by (auto simp: Packet_decode_Ok decode_as_def and_then_eq_Inr to_packet_type_def)
  from Connect_decode_Ok [OF this] show ?thesis by (simp add: Connect_wf_def Let_def)
qed

lemma handshake_step:
  assumes "MQTTRead_read (conn_read sock) pr = Ok (pr', b)"
  shows "is_fin pr' \<Longrightarrow> handshake_loop timeout sock pr = Some (conn_consumed pr pr' sock, handshake_parse pr')"
    and "\<lbrakk>\<not> is_fin pr'; pr' \<noteq> RNone; clock sock < timeout\<rbrakk> \<Longrightarrow>
      handshake_loop timeout sock pr = handshake_loop timeout (conn_consumed pr pr' sock) pr'"
  by (subst handshake_loop.simps, use assms in \<open>cases pr'; simp add: Let_def del: rcontent.simps\<close>)+

lemma handshake_parse_sent:
  assumes "sent mx (Packet.Connect con) b" and "frame (as_ref b) fh"
  shows "handshake_parse (RFin (as_ref b) r fh mx) = Ok (ReasonCode.Success, False, Some (Connect_normalize con))"
proof -
  have eq: "Packet_normalize (Packet.Connect con) = Packet.Connect (Connect_normalize con)" by (simp add: Packet_normalize_def)
  have wf: "Packet_wf (Packet.Connect con)" "Packet_encode (Packet.Connect con) = Ok b" using assms(1) by (simp_all add: sent_def)
  from Packet_dec_enc [OF wf, of "[]"] have "Connect_validate (Connect_normalize con) = Ok ()"
    unfolding eq by (auto intro: decoded_connect_valid)
  then show ?thesis using parse_encoded [OF wf assms(2)] by (simp add: handshake_parse_def eq)
qed

lemma handshake_delivers:
  assumes "rinv pr" and "\<not> is_fin pr" and "rcontent pr @ tcp_input sock = as_ref b"
    and "sent (rmax pr) (Packet.Connect con) b"
    and "\<And>i. i \<le> length (tcp_input sock) \<Longrightarrow> tcp_fault sock (tcp_calls sock + i) = None \<and>
      0 < tcp_chunk sock (tcp_calls sock + i) \<and> tcp_now sock (tcp_calls sock + i) < timeout"
  shows "\<exists>sock'. handshake_loop timeout sock pr =
    Some (sock', Ok (ReasonCode.Success, False, Some (Connect_normalize con)))"
  using assms
proof (induction "length (tcp_input sock)" arbitrary: sock pr rule: less_induct)
  case less
  let ?n = "tcp_chunk sock (tcp_calls sock)" and ?inp = "tcp_input sock"
  from sent_frame [OF less.prems(4)] obtain fh where fr: "frame (as_ref b) fh" ..
  from less.prems(5) [of 0] have now: "tcp_fault sock (tcp_calls sock) = None" "0 < ?n" "clock sock < timeout" by simp_all
  then have rd: "conn_read sock = sock_read ?n ?inp" by (simp add: conn_read_def)
  have "advances ?n ?inp pr"
    by (rule read_progress [OF less.prems(1,2) fr, of _ "[]"]) (use less.prems(3,4) in \<open>simp_all add: sent_def\<close>)
  then obtain pr' wb where r: "MQTTRead_read (conn_read sock) pr = Ok (pr', wb)"
    "is_fin pr' \<or> length (rcontent pr) < length (rcontent pr')" using now(2) rd by (auto simp: advances_def)
  from read_Ok [OF r(1) less.prems(1)] have inv: "rinv pr'" "rmax pr' = rmax pr" "grows (sock_read ?n ?inp) pr pr'"
    by (simp_all add: rd)
  let ?sock = "conn_consumed pr pr' sock"
  from grows_sock [OF inv(3)] less.prems(3) have rest: "rcontent pr' @ tcp_input ?sock = as_ref b"
    "length (rcontent pr') - length (rcontent pr) \<le> length ?inp" by simp_all
  show ?case
  proof (cases "is_fin pr'")
    case True
    then obtain d x fh' mx where pr': "pr' = RFin d x fh' mx" by (cases pr') auto
    have "frame d fh'" using inv(1) pr' by simp
    moreover have "d @ (x @ tcp_input ?sock) = as_ref b @ []" using rest(1) unfolding pr' by simp
    ultimately have "d = as_ref b" "fh' = fh" using frame_unique [OF _ fr] by blast+
    with handshake_parse_sent [of mx con b fh x] fr less.prems(4) inv(2) pr'
    have "handshake_parse pr' = Ok (ReasonCode.Success, False, Some (Connect_normalize con))" by simp
    with handshake_step(1) [OF r(1) True] show ?thesis by simp
  next
    case False
    with r(2) rest(2) have shorter: "length (tcp_input ?sock) < length ?inp" by simp
    have "pr' \<noteq> RNone" using inv(1) by auto
    note step = handshake_step(2) [OF r(1) False this now(3)]
    have "\<exists>sock'. handshake_loop timeout ?sock pr' =
        Some (sock', Ok (ReasonCode.Success, False, Some (Connect_normalize con)))"
    proof (rule less.hyps [OF shorter inv(1) False rest(1)])
      show "sent (rmax pr') (Packet.Connect con) b" using less.prems(4) inv(2) by simp
    next
      fix i
      assume "i \<le> length (tcp_input ?sock)"
      then show "tcp_fault ?sock (tcp_calls ?sock + i) = None \<and> 0 < tcp_chunk ?sock (tcp_calls ?sock + i) \<and>
          tcp_now ?sock (tcp_calls ?sock + i) < timeout"
        using less.prems(5) [of "Suc i"] shorter by simp
    qed
    then show ?thesis unfolding step .
  qed
qed

end
