(* ===== verification/Flush.thy ===== *)
theory Flush
  imports Socket Thread
begin

text \<open>
  Model of \<open>src/broker/flush.rs\<close>: the thread that empties the queues of a connection that is to be
  closed, sends DISCONNECT and counts what it wrote. The connection and its clock are those of \<open>Socket\<close>;
  sleeping only moves the clock. The name and the configuration of the thread never change, so its state
  is what the source calls \<open>Inner\<close>. The facts show that what the thread writes is what was queued, in
  order; that it ends when the sender of the queue is gone, and that it does not when the queue is empty
  and its sender is still there, however late it is.
\<close>

section \<open>The thread\<close>

record FlushStats =
  fs_n_flush_conns :: usize
  fs_n_pkts :: usize
  fs_n_bytes :: usize

text \<open>The states of the thread itself. A handle is a \<open>Tx\<close>.\<close>

datatype Flusher = FInit | FMain FlushStats | FClose FlushStats

text \<open>The flag of a request tells whether the socket still knows the address of its peer.\<close>

datatype FlushRequest = FlushConn Socket "error option" bool | FlusherCloses

text \<open>
  The loop of \<open>handle_flush_connection\<close>. It leaves when the connection is lost, when the connection blocks
  after the timeout, or when the packets that it has just flushed were the last ones.
\<close>

partial_function (option) flush_conn_loop ::
  "Config \<Rightarrow> nat \<Rightarrow> Socket \<Rightarrow> SockStats \<Rightarrow> (Socket \<times> SockStats) result option" where
  "flush_conn_loop config timeout socket stats =
     (case PktRx_try_recvs (wt_miot_rx (so_wt socket)) of
        (rx, status) \<Rightarrow>
          (let socket = socket\<lparr>so_wt := (so_wt socket)\<lparr>wt_miot_rx := rx,
                 wt_packets := wt_packets (so_wt socket) @ queue_values status\<rparr>\<rparr>
           in case flush_packets config socket of
                Inl e \<Rightarrow> Some (Inl e)
              | Inr (socket, res, sock_stats) \<Rightarrow>
                  (case res of
                     QDisconnected _ \<Rightarrow> Some (Ok (socket, SockStats_update stats sock_stats))
                   | _ \<Rightarrow>
                       if is_QBlock res \<and> timeout < time_now socket \<or> is_QDisconnected status
                       then Some (Ok (socket, SockStats_update stats sock_stats))
                       else flush_conn_loop config timeout socket (SockStats_update stats sock_stats))))"

definition Flusher_handle_flush_connection ::
  "Config \<Rightarrow> Socket \<Rightarrow> error option \<Rightarrow> bool \<Rightarrow> SockStats result option" where
  "Flusher_handle_flush_connection config socket conn_err peer =
     (let timeout = time_now socket + unat (cfg_sock_mqtt_flush_timeout config) * 1000000000;
          max_size = cfg_mqtt_max_packet_size config
      in if \<not> peer then Some panic
         else case flush_conn_loop config timeout socket SockStats_default of
                None \<Rightarrow> None
              | Some (Inl e) \<Rightarrow> Some (Inl e)
              | Some (Inr (socket, stats)) \<Rightarrow>
                  (case (case conn_err of
                           Some e \<Rightarrow> DisconnReasonCode_try_from (ReasonCode_as_u8 (Error_code e))
                         | None \<Rightarrow> Ok DisconnReasonCode.NormalDisconnect) of
                     Inl _ \<Rightarrow> Some panic
                   | Inr code \<Rightarrow>
                       (case send_disconnect
                           (\<lambda>i. tcp_write (so_conn socket) (tcp_calls (so_conn socket) + i))
                           (\<lambda>i. tcp_now (so_conn socket) (tcp_calls (so_conn socket) + i)) code timeout max_size of
                          None \<Rightarrow> None
                        | Some (Inl Panic) \<Rightarrow> Some panic
                        | Some _ \<Rightarrow> Some (Ok stats))))"

definition Flusher_handle_close :: "Flusher \<Rightarrow> Flusher result" where
  "Flusher_handle_close self =
     (case self of FMain stats \<Rightarrow> Ok (FClose stats) | FClose stats \<Rightarrow> Ok FInit | FInit \<Rightarrow> panic)"

text \<open>The requests of a turn; the flag of each tells whether an answer is expected.\<close>

fun flusher_serve :: "Config \<Rightarrow> (FlushRequest \<times> bool) list \<Rightarrow> Flusher \<Rightarrow> (Flusher \<times> bool) result option" where
  "flusher_serve config [] self = Some (Ok (self, False))"
| "flusher_serve config ((req, answers) # reqs) self =
     (case (req, answers, self) of
        (FlushConn socket e peer, True, FMain stats) \<Rightarrow>
          (case Flusher_handle_flush_connection config socket e peer of
             None \<Rightarrow> None
           | Some (Inl e) \<Rightarrow> Some (Inl e)
           | Some (Inr sstats) \<Rightarrow>
               flusher_serve config reqs (FMain (stats\<lparr>fs_n_flush_conns := fs_n_flush_conns stats + 1,
                 fs_n_pkts := fs_n_pkts stats + ss_items sstats, fs_n_bytes := fs_n_bytes stats + ss_bytes sstats\<rparr>)))
      | (FlusherCloses, True, _) \<Rightarrow> Some (and_then (Flusher_handle_close self) (\<lambda>self. Ok (self, True)))
      | _ \<Rightarrow> Some panic)"

text \<open>
  A turn of \<open>main_loop\<close>: \<open>None\<close> while it waits for a request, or for a connection that is never flushed. The
  flag tells that the thread ends.
\<close>

definition flusher_turn ::
  "Config \<Rightarrow> (FlushRequest \<times> bool) chan \<Rightarrow> Flusher \<Rightarrow> ((FlushRequest \<times> bool) chan \<times> (Flusher \<times> bool) result) option" where
  "flusher_turn config rx self =
     (case get_requests rx 1024 of
        None \<Rightarrow> None
      | Some (rx, status) \<Rightarrow>
          (case flusher_serve config (queue_values status) self of
             None \<Rightarrow> None
           | Some (Inl e) \<Rightarrow> Some (rx, Inl e)
           | Some (Inr (self, closed)) \<Rightarrow>
               Some (rx,
                 if closed \<or> is_QDisconnected status
                 then (case self of
                         FMain _ \<Rightarrow> and_then (Flusher_handle_close self) (\<lambda>self. Ok (self, True))
                       | FClose _ \<Rightarrow> Ok (self, True)
                       | FInit \<Rightarrow> panic)
                 else Ok (self, False))))"

section \<open>Facts\<close>

lemma flush_conn_step:
  "flush_conn_loop config timeout s stats =
     (case PktRx_try_recvs (wt_miot_rx (so_wt s)) of
        (rx, status) \<Rightarrow>
          (case flush_packets config (received s rx status) of
             Inl e \<Rightarrow> Some (Inl e)
           | Inr (s, res, sock_stats) \<Rightarrow>
               (case res of
                  QDisconnected _ \<Rightarrow> Some (Ok (s, SockStats_update stats sock_stats))
                | _ \<Rightarrow>
                    if is_QBlock res \<and> timeout < time_now s \<or> is_QDisconnected status
                    then Some (Ok (s, SockStats_update stats sock_stats))
                    else flush_conn_loop config timeout s (SockStats_update stats sock_stats))))"
  by (subst flush_conn_loop.simps) (simp add: received_def Let_def)

text \<open>A connection that takes all it is given.\<close>

definition eager :: "conn \<Rightarrow> bool" where
  "eager c \<longleftrightarrow> (\<forall>i buf. tcp_write c i buf = WriteOk (length buf)) \<and> (\<forall>i. tcp_flush c i)"

lemma eager_simps [simp]:
  "eager (so_conn (next_call s)) = eager (so_conn s)" "eager (so_conn (set_pw pw s)) = eager (so_conn s)"
  "eager (so_conn (add_sent bs s)) = eager (so_conn s)" "eager (so_conn (set_write_timeout s b t)) = eager (so_conn s)"
  "eager (so_conn (set_wt_packets ps s)) = eager (so_conn s)"
  by (simp_all add: eager_def next_call_def set_pw_def add_sent_def set_write_timeout_def set_wt_packets_def)

lemma write_eager:
  assumes "\<And>buf. wr buf = WriteOk (length buf)" and "winv st"
  shows "\<exists>data. MQTTWrite_write wr st = Ok (WFin data (wmax st), False)"
  using assms by (cases st) (auto simp: MQTTWrite_write_def)

lemma write_packet_eager:
  assumes "eager (so_conn s)" and "winv (wt_pw (so_wt s))"
  shows "\<exists>s'. write_packet config s = Ok (s', QOk []) \<and> eager (so_conn s')"
proof -
  have "\<And>buf. tcp_write (so_conn s) (tcp_calls (so_conn s)) buf = WriteOk (length buf)" using assms(1) by (simp add: eager_def)
  from write_eager [of "tcp_write (so_conn s) (tcp_calls (so_conn s))", OF this assms(2)] assms(1)
  show ?thesis by (auto simp: write_packet_def Let_def)
qed

lemma flush_loop_eager:
  assumes "eager (so_conn s)" and "winv (wt_pw (so_wt s))" and "\<forall>p\<in>set ps. \<not> panics (Packet_encode p)"
  shows "\<exists>s' stats'. flush_loop config ps s stats = Ok (s', [], QOk [], stats') \<and> eager (so_conn s')"
  using assms
proof (induction ps arbitrary: s stats)
  case Nil
  from write_packet_eager [OF Nil(1,2)] obtain s1 where "write_packet config s = Ok (s1, QOk [])" "eager (so_conn s1)" by blast
  with flush_loop_step(1) [of config s s1 stats] show ?case by simp
next
  case (Cons p ps)
  from write_packet_eager [OF Cons.prems(1,2)] obtain s1
    where w: "write_packet config s = Ok (s1, QOk [])" and e: "eager (so_conn s1)" by blast
  from write_packet_sends [OF w Cons.prems(2)] obtain data mx where pw: "wt_pw (so_wt s1) = WFin data mx"
    by (cases "wt_pw (so_wt s1)") auto
  note step = flush_loop_step(2) [OF w, of p ps stats]
  show ?case
  proof (cases "Packet_encode p")
    case (Inl x)
    with Cons.prems(3) obtain y where "x = Err y" by (cases x) (auto simp: panics_def)
    with Inl step Cons.IH [of s1 stats] e pw Cons.prems(3) show ?thesis by simp
  next
    case (Inr b)
    with step pw e have "\<exists>stats'. flush_loop config (p # ps) s stats =
        flush_loop config ps (set_pw (WInit (as_ref b) mx) (next_call s1)) stats'"
      by (auto simp: eager_def MQTTWrite_reset_def Let_def)
    with Cons.IH [of "set_pw (WInit (as_ref b) mx) (next_call s1)"] e Cons.prems(3) show ?thesis by auto
  qed
qed

lemma flush_packets_eager:
  assumes "eager (so_conn s)" and "winv (wt_pw (so_wt s))" and "\<forall>p\<in>set (wt_packets (so_wt s)). \<not> panics (Packet_encode p)"
  shows "\<exists>s' stats. flush_packets config s = Ok (s', QOk [], stats) \<and> eager (so_conn s') \<and> is_wfin (wt_pw (so_wt s'))"
proof -
  let ?s = "set_wt_packets [] s" and ?ps = "wt_packets (so_wt s)"
  from flush_loop_eager [of ?s ?ps config SockStats_default] assms obtain s1 stats
    where l: "flush_loop config ?ps ?s SockStats_default = Ok (s1, [], QOk [], stats)" "eager (so_conn s1)" by auto
  from flush_loop_sends [OF l(1)] assms(2) have "is_wfin (wt_pw (so_wt s1))" by simp
  with l show ?thesis by (simp add: flush_packets_def)
qed

text \<open>When the sender is gone and the connection takes all it is given, all that was queued is written.\<close>

lemma flush_conn_eager:
  assumes "eager (so_conn s)" and "winv (wt_pw (so_wt s))" and "\<not> ch_tx (pr_rx (wt_miot_rx (so_wt s)))"
    and "\<forall>p\<in>set (queued s). \<not> panics (Packet_encode p)"
  shows "\<exists>s' stats'. flush_conn_loop config timeout s stats = Some (Ok (s', stats')) \<and> eager (so_conn s') \<and>
    queued s' = [] \<and> tcp_sent (so_conn s') = outgoing s (queued s)"
  using assms
proof (induction "length (ch_queue (pr_rx (wt_miot_rx (so_wt s))))" arbitrary: s stats rule: less_induct)
  case less
  obtain rx st where r: "PktRx_try_recvs (wt_miot_rx (so_wt s)) = (rx, st)"
    by (cases "PktRx_try_recvs (wt_miot_rx (so_wt s))")
  let ?s = "received s rx st"
  have q: "queued ?s = queued s" using received_queued(1) [OF r] .
  have "set (wt_packets (so_wt ?s)) \<subseteq> set (queued s)" unfolding q [symmetric] by (auto simp: queued_def)
  with less.prems(4) have enc: "\<forall>p\<in>set (wt_packets (so_wt ?s)). \<not> panics (Packet_encode p)" by blast
  obtain s1 fs where f: "flush_packets config ?s = Ok (s1, QOk [], fs)" "eager (so_conn s1)" "is_wfin (wt_pw (so_wt s1))"
    using flush_packets_eager [OF _ _ enc, of config] less.prems(1,2) by auto
  from flush_packets_sends [OF f(1)] less.prems(2)
  have f1: "winv (wt_pw (so_wt s1))" "wmax (wt_pw (so_wt s1)) = wmax (wt_pw (so_wt s))" "wt_packets (so_wt s1) = []"
    "outgoing s1 [] = outgoing s (wt_packets (so_wt ?s))" by auto
  have f2: "wt_miot_rx (so_wt s1) = rx" using flush_packets_rx [OF f(1)] by simp
  then have q1: "queued s1 = ch_queue (pr_rx rx)" using f1(3) by (simp add: queued_def)
  have "queued s = wt_packets (so_wt ?s) @ queued s1" unfolding q [symmetric] q1 by (simp add: queued_def)
  with f1 have o1: "outgoing s1 (queued s1) = outgoing s (queued s)" "set (queued s1) \<subseteq> set (queued s)"
    by (auto simp: outgoing_def)
  have rx: "\<not> ch_tx (pr_rx rx)" "is_QDisconnected st \<and> ch_queue (pr_rx rx) = [] \<or> (\<exists>vs. st = QOk vs)"
    using r less.prems(3) try_recvs_loop_eq [of "[]" "pr_pkt_batch_size (wt_miot_rx (so_wt s))" "pr_rx (wt_miot_rx (so_wt s))"]
    by (auto simp: PktRx_try_recvs_def Let_def split: if_split_asm)
  note step = flush_conn_step [of config timeout s stats]
  show ?case
  proof (cases "is_QDisconnected st")
    case True
    with rx(2) q1 have e: "queued s1 = []" by auto
    with o1(1) f(3) have "tcp_sent (so_conn s1) = outgoing s (queued s)" by (cases "wt_pw (so_wt s1)") (auto simp: outgoing_def)
    with e step True r f show ?thesis by simp
  next
    case False
    with rx(2) obtain vs where vs: "st = QOk vs" by auto
    from received_queued(2) [OF r this] f2 have "length (ch_queue (pr_rx (wt_miot_rx (so_wt s1)))) < length (ch_queue (pr_rx (wt_miot_rx (so_wt s))))" by simp
    note IH = less.hyps [OF this f(2) f1(1)]
    have "\<not> ch_tx (pr_rx (wt_miot_rx (so_wt s1)))" "\<forall>p\<in>set (queued s1). \<not> panics (Packet_encode p)"
      using f2 rx(1) o1(2) less.prems(4) by auto
    from IH [OF this, of "SockStats_update stats fs"] o1(1)
    have "\<exists>s' stats'. flush_conn_loop config timeout s1 (SockStats_update stats fs) = Some (Ok (s', stats')) \<and>
        eager (so_conn s') \<and> queued s' = [] \<and> tcp_sent (so_conn s') = outgoing s (queued s)" by simp
    moreover have "flush_conn_loop config timeout s stats = flush_conn_loop config timeout s1 (SockStats_update stats fs)"
      using step r f(1) vs by simp
    ultimately show ?thesis by simp
  qed
qed

text \<open>While the sender is there and has sent nothing, the loop turns for ever: only a connection that blocks is timed.\<close>

definition quiet :: "Socket \<Rightarrow> bool" where
  "quiet s \<longleftrightarrow> winv (wt_pw (so_wt s)) \<and> wpending (wt_pw (so_wt s)) = [] \<and> queued s = [] \<and> ch_tx (pr_rx (wt_miot_rx (so_wt s)))"

lemma write_nothing:
  assumes "wpending st = []" and "winv st"
  shows "\<exists>data. MQTTWrite_write wr st = Ok (WFin data (wmax st), False)"
  using assms by (cases st) (auto simp: MQTTWrite_write_def split: if_split_asm)

lemma quiet_turn:
  assumes "quiet s"
  shows "\<exists>rx s' stats. PktRx_try_recvs (wt_miot_rx (so_wt s)) = (rx, QBlock []) \<and>
    flush_packets config (received s rx (QBlock [])) = Ok (s', QOk [], stats) \<and> quiet s'"
proof -
  let ?rx = "wt_miot_rx (so_wt s)"
  have rx: "PktRx_try_recvs ?rx = (?rx, QBlock [])"
    using assms try_recvs_loop_eq [of "[]" "pr_pkt_batch_size ?rx" "pr_rx ?rx"]
    by (auto simp: PktRx_try_recvs_def quiet_def queued_def Let_def)
  let ?s = "received s ?rx (QBlock [])" and ?wr = "tcp_write (so_conn s) (tcp_calls (so_conn s))"
  from write_nothing [of "wt_pw (so_wt s)" ?wr] assms obtain data
    where "MQTTWrite_write ?wr (wt_pw (so_wt s)) = Ok (WFin data (wmax (wt_pw (so_wt s))), False)" by (auto simp: quiet_def)
  then obtain s1 where w: "write_packet config (set_wt_packets [] ?s) = Ok (s1, QOk [])" "\<exists>mx. wt_pw (so_wt s1) = WFin data mx"
    by (simp add: write_packet_def Let_def)
  have "wt_packets (so_wt ?s) = []" using assms by (simp add: quiet_def queued_def)
  with flush_loop_step(1) [OF w(1)] have f: "flush_packets config ?s = Ok (set_wt_packets (wt_packets (so_wt s1)) s1, QOk [], SockStats_default)"
    by (simp add: flush_packets_def)
  from flush_packets_sends [OF f] flush_packets_rx [OF f] w(2) assms rx f show ?thesis
    by (auto simp: quiet_def queued_def)
qed

lemma flush_conn_returns:
  assumes "flush_conn_loop config timeout s stats = Some out"
  shows "\<not> quiet s"
proof (rule flush_conn_loop.raw_induct [where P = "\<lambda>_ _ s _ _. \<not> quiet s", OF _ assms], rule notI)
  fix f config timeout s stats and out :: "(Socket \<times> SockStats) result"
  assume ih: "\<And>config timeout s stats out. f config timeout s stats = Some out \<Longrightarrow> \<not> quiet s"
    and step: "(case PktRx_try_recvs (wt_miot_rx (so_wt s)) of
        (rx, status) \<Rightarrow>
          (let socket = s\<lparr>so_wt := (so_wt s)\<lparr>wt_miot_rx := rx, wt_packets := wt_packets (so_wt s) @ queue_values status\<rparr>\<rparr>
           in case flush_packets config socket of
                Inl e \<Rightarrow> Some (Inl e)
              | Inr (socket, res, sock_stats) \<Rightarrow>
                  (case res of
                     QDisconnected _ \<Rightarrow> Some (Ok (socket, SockStats_update stats sock_stats))
                   | _ \<Rightarrow>
                       if is_QBlock res \<and> timeout < time_now socket \<or> is_QDisconnected status
                       then Some (Ok (socket, SockStats_update stats sock_stats))
                       else f config timeout socket (SockStats_update stats sock_stats)))) = Some out"
    and "quiet s"
  from quiet_turn [OF this(3), of config] obtain rx s' fs where t: "PktRx_try_recvs (wt_miot_rx (so_wt s)) = (rx, QBlock [])"
    "flush_packets config (received s rx (QBlock [])) = Ok (s', QOk [], fs)" "quiet s'" by blast
  with step have "f config timeout s' (SockStats_update stats fs) = Some out" by (simp add: received_def)
  from ih [OF this] t(3) show False by simp
qed

lemma flush_conn_spins: "quiet s \<Longrightarrow> flush_conn_loop config timeout s stats = None"
  using flush_conn_returns by (cases "flush_conn_loop config timeout s stats") auto

text \<open>A connection that takes all it is given takes the DISCONNECT packet at once.\<close>

lemma send_disconnect_eager:
  assumes "\<And>i buf. wr i buf = WriteOk (length buf)"
  shows "send_disconnect_loop wr now timeout i (MQTTWrite_new data mx) = Some (Ok ())"
proof -
  have "winv (MQTTWrite_new data mx)" by (simp add: MQTTWrite_new_def)
  from write_eager [of "wr i", OF assms this] show ?thesis by (subst send_disconnect_loop.simps) auto
qed

end
