(* ===== verification/Spec2Isabelle.thy ===== *)
theory Spec2Isabelle
  imports PacketIO
    Ttrie_Shared
    Timer
    Miot
    Shard_Facts
    Cluster_Facts
    Client
    Handshake
    Flush
    "HOL-Library.Code_Target_Nat"
begin

text \<open>
  MyMQ is a broker and a client library for MQTT version 5. This development models both, from the bytes
  on the wire to the threads of the broker, and shows what they guarantee and where they fail.

  \<^bold>\<open>The program.\<close> A client opens a TCP connection. A handshake thread (\<open>broker/handshake.rs\<close>) waits for its
  CONNECT packet and hands the connection to the cluster thread (\<open>broker/cluster.rs\<close>), which picks a shard
  by the hash of the client's name (\<open>broker/rebalance.rs\<close>) and keeps the retained messages. A shard
  (\<open>broker/shard.rs\<close>) hosts the sessions of its clients (\<open>broker/session.rs\<close>). The bytes of their
  connections are read and written by an I/O thread of the shard (\<open>broker/miot.rs\<close>, \<open>broker/socket.rs\<close>) with
  the packet reader and writer (\<open>packet.rs\<close>) and the codec (\<open>types.rs\<close>, \<open>v5/\<close>). A session routes a PUBLISH to
  the subscribers that the topic trie (\<open>broker/ttrie.rs\<close>) finds; messages for clients of other shards are
  queued per shard (\<open>broker/message.rs\<close>). A connection that ends goes to the flusher (\<open>broker/flush.rs\<close>).
  The client library is \<open>client.rs\<close>.

  \<^bold>\<open>Conventions.\<close> A fallible function returns \<open>'a result\<close>: a value, an error of the source's \<open>Error\<close>, or
  \<open>Panic\<close> for every \<open>unwrap\<close>, \<open>unreachable!\<close>, \<open>assert!\<close> and index out of range; \<open>and_then\<close> is the operator \<open>?\<close>.
  Fixed-width integers are words, \<open>usize\<close> is \<open>nat\<close>, strings are their bytes. A struct is a \<open>record\<close>, an enum
  a \<open>datatype\<close> with the source's constructors, and a method that changes its object returns the new one.
  Constants, accessors and constructors of one line are input abbreviations.

  \<^bold>\<open>Codec.\<close> \<open>Prelude\<close>, \<open>Errors\<close> (\<open>error.rs\<close>) and \<open>Util\<close> (\<open>util.rs\<close>, with UTF-8 decoding) are the base.
  \<open>Packetize\<close> states what an encoder and a decoder owe each other as the locales \<open>packetize\<close> and
  \<open>canonical\<close>; \<open>Types\<close> (\<open>types.rs\<close>) interprets them for the field types. \<open>V5\<close> (\<open>v5/mod.rs\<close>) has the fixed
  header and the single properties, \<open>Props\<close> the property sets (locale \<open>property_set\<close>), \<open>PacketCodec\<close> the
  shared macros and the contract of a packet (locales \<open>packet_codec\<close>, \<open>packet_closed\<close>). Each theory \<open>V5_X\<close>
  models one file of \<open>v5/\<close> and interprets the contract; \<open>V5_Packet\<close> joins them to the enum \<open>Packet\<close>. The
  lemmas give the round trip up to the normal form of absent and empty properties, that decoders do not
  panic, and exact framing.

  \<^bold>\<open>Reader and writer.\<close> \<open>PacketIO\<close> (\<open>packet.rs\<close>) models \<open>MQTTRead\<close>, \<open>MQTTWrite\<close> and \<open>send_disconnect\<close> as state
  machines over a socket that takes and gives any pieces. Invariants \<open>rinv\<close> and \<open>winv\<close> are kept by each call;
  the reader refines the list of frames of the stream.

  \<^bold>\<open>Subscriptions.\<close> \<open>V5_Subscription\<close> and \<open>Ttrie\<close> model the topic trie, \<open>Ttrie_Match\<close> its matching against the
  rule of the protocol, \<open>Spinlock\<close> the lock as atomic steps of threads, and \<open>Ttrie_Shared\<close> the tries under
  all schedules of the reads and writes of their root. \<open>BTreeMap\<close> models the library's map (locale
  \<open>ordered_map\<close>), \<open>Timer\<close> (\<open>timer.rs\<close>) the list of deadlines.

  \<^bold>\<open>Broker.\<close> \<open>Queue\<close> has channels and \<open>QueueStatus\<close> (locale \<open>fifo_queue\<close>), \<open>Thread\<close> the handles of threads,
  \<open>Config\<close>, \<open>Message\<close> and \<open>KeepAlive\<close> the files of these names. \<open>Socket\<close> is a connection with its two queues;
  \<open>Miot\<close> the I/O thread. \<open>Session_State\<close> has the state of a session and \<open>Session_Inv\<close> its invariant;
  \<open>Shard_State\<close> the data of a shard; \<open>Session\<close> the handlers of packets with their facts in \<open>Session_Facts\<close>;
  \<open>Shard\<close> the requests and the turn of a shard with \<open>Shard_Facts\<close>. \<open>Rebalance\<close> has topologies, \<open>Cluster\<close> the
  thread of the cluster with \<open>Cluster_Facts\<close>. \<open>Handshake\<close> and \<open>Flush\<close> are the threads at the beginning and
  the end of a connection, \<open>Client\<close> the client. A thread is modelled as its state, its requests and one
  turn of its main loop.

  \<^bold>\<open>What is shown here.\<close> This theory has the properties that span components: the codec; the link from
  writer to reader; trie, lock and timer; sockets and I/O thread; sessions and shards; retained
  messages and the choice of the shard; the client; handshake and flusher. Where a property describes a
  fault of the code, its text says so.

  \<^bold>\<open>What is a parameter.\<close> A TCP connection (\<open>conn\<close> in \<open>Socket\<close>) is its remaining input, the pieces and faults of
  each call, what each write takes, and the clock that each call sees; sleeping only moves this clock.
  The hash of client names, the parser of uuids, parsed TOML values, the number of processors and the
  answers of other threads are arguments. A channel is its queue, its bound and whether its other end is
  alive. A handle of a thread is what its holder observes: whether requests arrive, whether waking works,
  and what was sent.

  \<^bold>\<open>Loops.\<close> There is no fuel. Loops over data are structural or have a termination proof. Loops that depend on
  the connection or the clock are partial functions into \<open>option\<close>, where \<open>None\<close> is not to return:
  \<open>send_disconnect_loop\<close>, \<open>read_packets\<close>, \<open>write_packets_loop\<close>, \<open>client_read_loop\<close>, \<open>client_write_loop\<close>,
  \<open>handshake_loop\<close> and \<open>flush_conn_loop\<close>. That they return is proved as such: \<open>write_packets_loop\<close>
  always does, \<open>read_packets\<close> under the invariant of the reader, \<open>handshake_loop\<close> does once the clock has reached the timeout,
  \<open>flush_conn_loop\<close> when the sender is gone and the connection takes all it is given. For
  \<open>send_disconnect_loop\<close> and \<open>flush_conn_loop\<close> cases that never return are proved as well. Counters of type \<open>usize\<close>
  do not overflow in the model.

  \<^bold>\<open>Not modelled.\<close> Spawning and joining threads, the poller and its registrations, opening and splitting
  sockets, the calls by which a handle forwards to its thread, logging, and \<open>Display\<close> and JSON output: they
  are input and output only. The listener (\<open>broker/listener.rs\<close>) accepts connections and the ticker
  (\<open>broker/ticker.rs\<close>) wakes threads. \<open>bin/mqttd/main.rs\<close> is the command line. \<open>broker/chash.rs\<close>,
  \<open>broker/crc.rs\<close>, \<open>broker/rr.rs\<close>, \<open>broker/consensus.rs\<close>, \<open>trace.rs\<close> and \<open>v5/mod_fuzzy.rs\<close> are in no module of
  the crate.
\<close>

section \<open>Packets used by the witnesses\<close>

text \<open>A CONNECT as bytes: clean start and a will with a payload format of 0.\<close>

definition connect_bytes :: bytes where
  "connect_bytes =
     [0x10, 22, 0, 4, 0x4D, 0x51, 0x54, 0x54, 5, 0x06, 0, 0, 0, 0, 1, 0x61, 2, 0x01, 0x00,
      0, 1, 0x74, 0, 0]"

definition connect_value :: Connect where
  "connect_value =
     (Connect_default (ascii ''a''))\<lparr>con_flags := ConnectFlags 0x06,
       con_payload := (ConnectPayload_default (ascii ''a''))\<lparr>
         cpl_will_properties := Some WillProperties_default,
         cpl_will_topic := Some (TopicName (ascii ''t'')), cpl_will_payload := Some []\<rparr>\<rparr>"

lemma puback_7:
  "Packet_wf (Packet.PubAck (Pub_new_pub_ack 7))"
  "Packet_encode (Packet.PubAck (Pub_new_pub_ack 7)) = Ok (Large [0x40, 4, 0, 7, 0, 0])"
  "Packet_decode [0x40, 4, 0, 7, 0, 0] = Ok (Packet.PubAck (Pub_new_pub_ack 7), 6)"
  "Packet_normalize (Packet.PubAck (Pub_new_pub_ack 7)) = Packet.PubAck (Pub_new_pub_ack 7)"
proof -
  show "Packet_wf (Packet.PubAck (Pub_new_pub_ack 7))"
    by (simp add: Packet_wf_def Pub_new_pub_ack_def Pub_wf_def pub_types_def Pub_validate_def)
qed code_simp+

lemma connect_decodes: "Connect_decode connect_bytes = Ok (connect_value, 24)"
  by code_simp

text \<open>A subscription of the client \<open>c\<close> to the filter \<open>a/b\<close>.\<close>

definition sub_ab :: Subscription where
  "sub_ab = \<lparr>subn_topic_filter = TopicFilter (ascii ''a/b''), subn_client_id = ClientID (ascii ''c''),
     subn_shard_id = 0, subn_subscription_id = None, subn_qos = AtLeastOnce, subn_no_local = False,
     subn_retain_as_published = False, subn_retain_forward_rule = OnEverySubscribe\<rparr>"

lemma framed_7: "framed [0x40, 4, 0, 7, 0, 0]"
  using AnyPacket.packet_framed [OF puback_7(1,2)] by simp

section \<open>The packet codec\<close>

text \<open>
  C1. What \<open>Packet::encode\<close> writes for a well-formed packet is read back by \<open>Packet::decode\<close>,
  whatever bytes follow: the result is the packet in normal form (an empty property set is not
  sent) and the number of bytes that were written.
\<close>

theorem packet_roundtrip:
  assumes "Packet_wf v" and "Packet_encode v = Ok b"
  shows "Packet_decode (as_ref b @ rest) = Ok (Packet_normalize v, length (as_ref b))"
  using assms by (rule AnyPacket.packet_dec_enc)

theorem packet_roundtrip_witness:
  "Packet_decode ([0x40, 4, 0, 7, 0, 0] @ [0xC0, 0]) = Ok (Packet.PubAck (Pub_new_pub_ack 7), 6)"
  using packet_roundtrip [OF puback_7(1,2), of "[0xC0, 0]"] by (simp add: puback_7(4))

text \<open>
  C2. No packet makes the decoder panic: on a stream that is framed, that is as long as its fixed
  header announces, \<open>Packet::decode\<close> returns a packet or an error.
\<close>

theorem packet_decode_total:
  assumes "framed s"
  shows "\<not> panics (Packet_decode s)"
  using assms by (rule Packet_decode_no_panic)

theorem packet_decode_total_witness: "\<not> panics (Packet_decode [0x40, 4, 0, 7, 0, 0])"
  by (rule packet_decode_total [OF framed_7])



text \<open>
  C4. The bytes of a packet are framed: their fixed header decodes, announces the type of the packet,
  and its remaining length is the number of bytes that follow the header.
\<close>

theorem packet_framing:
  assumes "Packet_wf v" and "Packet_encode v = Ok b"
  shows "\<exists>fh n r q d. FixedHeader_decode (as_ref b) = Ok (fh, n) \<and>
    FixedHeader_unwrap fh = Ok (to_packet_type v, r, q, d) \<and>
    length (as_ref b) = n + unat (var_u32 (remaining_len fh))"
  using Packet_header [OF assms, of "[]"] by (simp add: announces_def)

theorem packet_framing_witness:
  "\<exists>fh n r q d. FixedHeader_decode [0x40, 4, 0, 7, 0, 0] = Ok (fh, n) \<and>
    FixedHeader_unwrap fh = Ok (PacketType.PubAck, r, q, d) \<and>
    length [0x40, 4, 0, 7, 0, 0 :: u8] = n + unat (var_u32 (remaining_len fh))"
  using packet_framing [OF puback_7(1,2)] by (simp add: to_packet_type_def)

text \<open>
  The wire format is unambiguous: two well-formed packets with the same bytes have the same normal form.
\<close>

theorem packet_unambiguous:
  assumes "Packet_wf v" and "Packet_wf w" and "Packet_encode v = Ok b" and "Packet_encode w = Ok c"
    and "as_ref b = as_ref c"
  shows "Packet_normalize v = Packet_normalize w"
  using assms by (rule AnyPacket.packet_inj)

theorem packet_unambiguous_witness:
  "Packet_normalize (Packet.PubAck (Pub_new_pub_ack 7)) = Packet_normalize (Packet.PubAck (Pub_new_pub_ack 7))"
  using packet_unambiguous [OF puback_7(1) puback_7(1) puback_7(2) puback_7(2) refl] .

text \<open>
  C5. \<open>Connect::decode\<close> on any stream at all: it does not panic, and a packet that it returns lies
  within the stream and is well-formed, so its payload has the fields that its flags announce.
\<close>

theorem connect_decode_sound:
  "\<not> panics (Connect_decode s) \<and>
   (Connect_decode s = Ok (v, n) \<longrightarrow> 0 < n \<and> n \<le> length s \<and> Connect_wf v)"
  using Connect_decode_no_panic Connect_decode_Ok by blast

theorem connect_decode_sound_witness: "\<not> panics (Connect_decode connect_bytes) \<and> Connect_wf connect_value"
  using connect_decode_sound [of connect_bytes connect_value 24] by (simp add: connect_decodes)

text \<open>
  C6. A \<open>VarU32\<close> up to its maximum is encoded, in the least number of bytes that hold seven bits each,
  and read back from the front of any stream.
\<close>

theorem var_u32_roundtrip:
  assumes "var_u32 v \<le> VarU32_MAX"
  shows "\<exists>b. VarU32_encode v = Ok b \<and>
    VarU32_decode (as_ref b @ rest) = Ok (v, length (as_ref b)) \<and> length (as_ref b) \<le> 4 \<and>
    unat (var_u32 v) < 2 ^ (7 * length (as_ref b)) \<and>
    (1 < length (as_ref b) \<longrightarrow> 2 ^ (7 * (length (as_ref b) - 1)) \<le> unat (var_u32 v))"
proof -
  have "\<exists>b. VarU32_encode v = Ok b" using assms by (simp add: VarU32_encode_def Let_def)
  then obtain b where b: "VarU32_encode v = Ok b" ..
  show ?thesis
    using b VarU32_dec_enc [OF b] VarU32_encode_le4 [OF b] assms
    by (auto simp: VarU32_encode_length [OF b] VarU32_MAX_def word_le_nat_alt word_less_nat_alt)
qed

theorem var_u32_roundtrip_witness:
  "\<exists>b. VarU32_encode (VarU32 321) = Ok b \<and> VarU32_decode (as_ref b @ [7]) = Ok (VarU32 321, length (as_ref b))"
  using var_u32_roundtrip [of "VarU32 321" "[7]"] by (auto simp: VarU32_MAX_def)

text \<open>
  C7. \<open>TopicFilter::validate\<close> accepts exactly the filters of the protocol: not empty, without a null
  character, with wildcards only as whole levels and \<open>#\<close> only as the last one.
\<close>

theorem topic_filter_rule: "TopicFilter_validate (TopicFilter s) = Ok () \<longleftrightarrow> filter_spec s"
  by (rule TopicFilter_validate_spec)

text \<open>
  \<open>iter_topic_path\<close> cuts a topic at every slash and nowhere else: its levels have no slash, and
  joined with slashes they are the topic.
\<close>

theorem topic_path_levels:
  "join_path (iter_topic_path s) = s \<and> list_all (\<lambda>l. 0x2F \<notin> set l) (iter_topic_path s)"
  using iter_topic_path_levels by (auto simp: join_iter_topic_path list_all_iff)

text \<open>
  \<open>FixedHeader::validate\<close> accepts PUBLISH with any flags, every other type with all flag bits clear,
  and PUBREL, SUBSCRIBE and UNSUBSCRIBE also with the flags 0010, the only ones the protocol allows
  for them.
\<close>

theorem header_flags:
  "FixedHeader_validate fh = Ok () \<longleftrightarrow>
     (\<exists>t r q d. FixedHeader_unwrap fh = Ok (t, r, q, d) \<and>
        (t = PacketType.Publish \<or> (q = AtMostOnce \<and> \<not> r \<and> \<not> d) \<or>
         (t \<in> {PacketType.PubRel, PacketType.Subscribe, PacketType.UnSubscribe} \<and>
          q = AtLeastOnce \<and> \<not> r \<and> \<not> d)))"
  by (rule FixedHeader_validate_iff)

text \<open>
  \<open>SubscriptionOpt::unwrap\<close> returns the quality of service and the two flags that \<open>new\<close> stored, but
  never the retain rule: it shifts the byte before it masks it, so every rule reads as
  \<open>OnEverySubscribe\<close>.
\<close>

theorem subscription_opt_unwrap:
  "SubscriptionOpt_unwrap (SubscriptionOpt_new rfr rap nl qos) = Ok (OnEverySubscribe, rap, nl, qos)"
  by (rule SubscriptionOpt_new_unwrap)


lemma mask_clean_start:
  assumes "(w :: u8) AND 1 = 0"
  shows "w AND 3 = (if w AND 2 > 0 then 2 else 0)"
proof -
  have "w AND 3 = (w AND 1) OR (w AND 2)" by (simp flip: bit.conj_disj_distrib)
  moreover have "w AND 2 = (if bit w 1 then 2 else 0)"
    by (rule bit_word_eqI) (auto simp: bit_and_iff bit_2_iff)
  ultimately show ?thesis using assms by auto
qed

text \<open>
  For flags that pass validation, \<open>ConnectFlags::unwrap\<close> does not panic, but the quality of service of
  the will that it returns depends on the clean-start bit only, as the mask is shifted and not the
  flags.
\<close>

theorem connect_flags_unwrap:
  assumes "ConnectFlags_validate f = Ok ()"
  shows "ConnectFlags_unwrap f =
    Ok (connect_flags f AND 0x02 > 0, connect_flags f AND 0x04 > 0,
        if connect_flags f AND 0x02 > 0 then ExactlyOnce else AtMostOnce, connect_flags f AND 0x20 > 0)"
  using assms by (simp add: ConnectFlags_unwrap_def ConnectFlags_validate_Ok
      mask_clean_start QoS_try_from_def unwrap_def)

theorem connect_flags_unwrap_witness:
  "ConnectFlags_unwrap (ConnectFlags 0x0E) = Ok (True, True, ExactlyOnce, False)"
  using connect_flags_unwrap [of "ConnectFlags 0x0E"] by (simp add: ConnectFlags_validate_Ok)

section \<open>Packets over sockets\<close>







text \<open>
  C12. \<open>MQTTRead::parse\<close> on a complete packet panics exactly when the first byte has the packet type 0 or
  both QoS bits set, as \<open>fh.unwrap()\<close> is called before the header is validated; two zero bytes on the
  wire are enough.
\<close>

theorem parse_panics:
  "(rinv (RFin data rem fh mx) \<longrightarrow>
     (panics (MQTTRead_parse (RFin data rem fh mx)) \<longleftrightarrow> byte1 fh < 16 \<or> byte1 fh AND 6 = 6)) \<and>
   serve [5, 1] (MQTTRead_new 1024) [0, 0] = Ok [panic]"
proof
  show "serve [5, 1] (MQTTRead_new 1024) [0, 0] = Ok [panic]" by code_simp
qed (use parse_panics_iff FixedHeader_unwrap_panics in blast)

theorem parse_panics_witness: "\<not> panics (MQTTRead_parse (RFin [0xC0, 0] [] \<lparr>byte1 = 0xC0, remaining_len = VarU32 0\<rparr> 64))"
proof -
  have "VarU32_decode [0] = Ok (VarU32 0, 1)" by code_simp
  then have "rinv (RFin [0xC0, 0] [] \<lparr>byte1 = 0xC0, remaining_len = VarU32 0\<rparr> 64)"
    by (auto simp: frame_def starts_def)
  with parse_panics [of "[0xC0, 0]" "[]" "\<lparr>byte1 = 0xC0, remaining_len = VarU32 0\<rparr>" 64] show ?thesis by simp
qed

text \<open>
  C13. \<open>send_disconnect\<close> has its timeout the wrong way round. On a socket that would block it gives up at the
  first call when the timeout is still to come; when the timeout is over and the socket stays blocked
  the loop never ends.
\<close>

theorem send_disconnect_timeout:
  assumes "Disconnect_encode (Disconnect_new code None) = Ok b" and "length (as_ref b) \<le> unat mx"
    and "\<forall>i buf. wr i buf = WriteErr WouldBlock" and "as_ref b \<noteq> []"
  shows "(now 0 \<le> timeout \<longrightarrow> send_disconnect wr now code timeout mx = Some (err_desc ErrorKind.Disconnected)) \<and>
    ((\<forall>i. timeout < now i) \<longrightarrow> send_disconnect wr now code timeout mx = None)"
proof -
  have "wpending (MQTTWrite_new (as_ref b) mx) \<noteq> []" "winv (MQTTWrite_new (as_ref b) mx)"
    using assms(2,4) by (simp_all add: MQTTWrite_new_def)
  then show ?thesis
    using send_disconnect_early [of "MQTTWrite_new (as_ref b) mx" wr 0 now timeout]
      send_disconnect_blocked [of wr timeout now "MQTTWrite_new (as_ref b) mx" 0] assms(3)
    by (simp add: send_disconnect_eq [OF assms(1)])
qed

theorem send_disconnect_timeout_witness:
  "send_disconnect (\<lambda>_ _. WriteErr WouldBlock) (\<lambda>i. i) DisconnReasonCode.UnspecifiedError 3 64 =
     Some (err_desc ErrorKind.Disconnected) \<and>
   send_disconnect (\<lambda>_ _. WriteErr WouldBlock) (\<lambda>i. i + 4) DisconnReasonCode.UnspecifiedError 3 64 = None"
proof -
  have "Disconnect_encode (Disconnect_new DisconnReasonCode.UnspecifiedError None) = Ok (Large [0xE0, 2, 0x80, 0])"
    by code_simp
  from send_disconnect_timeout [OF this, of 64 "\<lambda>_ _. WriteErr WouldBlock" "\<lambda>i. i" 3]
    send_disconnect_timeout [OF this, of 64 "\<lambda>_ _. WriteErr WouldBlock" "\<lambda>i. i + 4" 3] show ?thesis by simp
qed

text \<open>
  The limit of the reader does not bound what it holds: as long as the bytes after the first one are
  128 or more the reader stays in the header state and keeps all of them, while no valid length has
  more than four bytes.
\<close>

theorem reader_header_unbounded:
  assumes "rinv (RHeader b1 data mx)" and "\<forall>b\<in>set bs. 0x80 \<le> b" and "bs \<noteq> []" and "length bs \<le> 5"
  shows "MQTTRead_read (\<lambda>_. ReadOk bs) (RHeader b1 data mx) = Ok (RHeader b1 (data @ bs) mx, False) \<and>
    rinv (RHeader b1 (data @ bs) mx)"
proof -
  have "drop 1 (data @ bs) = drop 1 data @ bs" using assms(1) by (cases data) auto
  then show ?thesis using header_keeps_bytes [OF assms] assms(1,2) by (auto simp: nth_append)
qed

theorem reader_header_unbounded_witness:
  "rinv (RHeader 0x30 [0x30, 0x80, 0x80, 0x80, 0x80, 0x80, 0x80, 0x80, 0x80, 0x80] 4)"
  using reader_header_unbounded [where ?b1.0 = "0x30" and data = "[0x30, 0x80, 0x80, 0x80, 0x80, 0x80]" and mx = 4
      and bs = "[0x80, 0x80, 0x80, 0x80]"] by simp

section \<open>Topic tries\<close>

text \<open>
  C14. A subscription of a client for a filter that it did not have before is undone by unsubscribing it:
  the trie is the same again, node by node, so no empty nodes are left behind.
\<close>

theorem subscribe_unsubscribe:
  assumes "trie_wf s" and "Subscription_key v \<notin> set (map Subscription_key (subs_at s f))"
    and "do_subscribe s f v = Ok s'"
  shows "\<exists>s''. do_unsubscribe s' f v = Ok s'' \<and> in_root s'' = in_root s"
proof -
  from assms(3) obtain first repeat where sub: "sub Subscription_key (in_root s) (iter_topic_path f) v =
      Ok (in_root s', first, repeat)" by (auto simp: do_subscribe_def Let_def and_then_eq_Inr)
  have "is_root (in_root s)" "node_wf Subscription_key (in_root s)" using assms(1) by (simp_all add: trie_wf_def)
  from subscription.sub_unsub [OF this(2,1) iter_topic_path_nonempty assms(2) [unfolded subs_at_def] sub]
  show ?thesis by (simp add: do_unsubscribe_def Let_def)
qed

theorem subscribe_unsubscribe_witness:
  "\<exists>s' s''. do_subscribe Inner_default (ascii ''a/b'') sub_ab = Ok s' \<and>
    do_unsubscribe s' (ascii ''a/b'') sub_ab = Ok s'' \<and> in_root s'' = Root []"
proof -
  obtain s' where s': "do_subscribe Inner_default (ascii ''a/b'') sub_ab = Ok s'"
    by (rule do_subscribe_Ok [OF trie_wf_default])
  have "subs_at Inner_default (ascii ''a/b'') = []" by code_simp
  with subscribe_unsubscribe [OF trie_wf_default _ s'] s' show ?thesis by (simp add: Inner_default_def)
qed

text \<open>
  C15. For a topic name without wildcards, \<open>match_topic_name\<close> returns exactly the subscriptions whose filter
  matches by the rule of the protocol, with two exceptions that the code makes: a filter that starts
  with a wildcard matches no topic at all, not only no topic that starts with a dollar sign, and a
  trailing \<open>#\<close> does not match its parent level.
\<close>

theorem match_topic_name_rule:
  assumes "trie_wf s" and "hash_level \<notin> set (iter_topic_path k)" and "plus_level \<notin> set (iter_topic_path k)"
  shows "\<exists>s' vs. match_topic_name s k = Ok (s', vs) \<and> in_root s' = in_root s \<and>
    (\<forall>v. v \<in> set vs \<longleftrightarrow> (\<exists>p. v \<in> set (lookup (in_root s) p) \<and> mqtt_match p (iter_topic_path k) \<and>
       length p \<le> length (iter_topic_path k) \<and> hd p \<noteq> hash_level \<and> hd p \<noteq> plus_level))"
proof -
  obtain s' where s': "match_topic_name s k = Ok (s', select (\<lambda>p. hd p \<noteq> hash_level \<and> hd p \<noteq> plus_level \<and>
      trie_match p (iter_topic_path k)) (in_root s))" "in_root s' = in_root s"
    by (rule match_topic_name_Ok [OF assms(1), of k]) blast
  have "node_wf Subscription_key (in_root s)" using assms(1) by (simp add: trie_wf_def)
  then show ?thesis using s' unfolding set_select [OF \<open>node_wf _ _\<close>] trie_match_mqtt [OF assms(2,3)]
    by (auto simp: set_select trie_match_mqtt [OF assms(2,3)])
qed

theorem match_topic_name_rule_witness:
  "\<exists>s' vs. match_topic_name Inner_default (ascii ''a/b'') = Ok (s', vs) \<and> vs = []"
proof -
  have "hash_level \<notin> set (iter_topic_path (ascii ''a/b''))" "plus_level \<notin> set (iter_topic_path (ascii ''a/b''))"
    by code_simp+
  from match_topic_name_rule [OF trie_wf_default this] obtain s' vs
    where "match_topic_name Inner_default (ascii ''a/b'') = Ok (s', vs)" "\<forall>v. v \<notin> set vs"
    by (auto simp: Inner_default_def)
  then show ?thesis by (cases vs) auto
qed

text \<open>
  C16. \<open>unsubscribe\<close> panics exactly when its filter is the path of a node without values, that is when
  some longer filter is subscribed and this one is not: \<open>remove_value\<close> takes that for unreachable. A
  client that unsubscribes \<open>a\<close> while \<open>a/b\<close> is subscribed ends the thread.
\<close>

theorem unsubscribe_panics:
  assumes "trie_wf s"
  shows "panics (do_unsubscribe s f v) \<longleftrightarrow>
    (\<exists>m. node_at (in_root s) (iter_topic_path f) = Some m \<and> values_of m = [])"
proof (cases "\<exists>m. node_at (in_root s) (iter_topic_path f) = Some m \<and> values_of m = []")
  case True
  then show ?thesis using unsub_at_inner [OF assms] by auto
next
  case False
  then have "values_of m \<noteq> []" if "node_at (in_root s) (iter_topic_path f) = Some m" for m using that by blast
  then obtain s' where "do_unsubscribe s f v = Ok s'" by (rule unsub_at_node [OF assms])
  then show ?thesis using False by simp
qed

theorem unsubscribe_panics_witness:
  "\<exists>s. do_subscribe Inner_default (ascii ''a/b'') sub_ab = Ok s \<and> panics (do_unsubscribe s (ascii ''a'') sub_ab)"
proof -
  obtain s where s: "do_subscribe Inner_default (ascii ''a/b'') sub_ab = Ok s" "trie_wf s"
    by (rule do_subscribe_Ok [OF trie_wf_default])
  have "do_subscribe Inner_default (ascii ''a/b'') sub_ab =
      Ok \<lparr>in_stats = Stats_default\<lparr>st_count := 1\<rparr>, in_root = Root [Child [0x61] [Child [0x62] [] [sub_ab]] []]\<rparr>"
    by code_simp
  with s(1) have "in_root s = Root [Child [0x61] [Child [0x62] [] [sub_ab]] []]" by auto
  then have "node_at (in_root s) (iter_topic_path (ascii ''a'')) = Some (Child [0x61] [Child [0x62] [] [sub_ab]] [])"
    by (simp add: child_at_def iter_topic_path_def ascii_def)
  with unsubscribe_panics [OF s(2), of "ascii ''a''" sub_ab] s(1) show ?thesis by auto
qed

text \<open>
  A client that subscribes to a filter again keeps its old options: \<open>insert_value\<close> finds the key of the
  client and the filter and drops the new value, while the protocol asks to replace the subscription.
\<close>

theorem resubscribe_ignored:
  assumes "trie_wf s" and "Subscription_key v \<in> set (map Subscription_key (subs_at s f))"
    and "do_subscribe s f v = Ok s'"
  shows "in_root s' = in_root s"
proof -
  obtain s2 where s2: "do_subscribe s f v = Ok s2" "trie_wf s2"
    "\<And>p. lookup (in_root s2) p = (if p = iter_topic_path f
        then ins_values Subscription_key v (subs_at s f) else lookup (in_root s) p)"
    by (rule do_subscribe_Ok [OF assms(1), of f v]) blast
  have "lookup (in_root s2) = lookup (in_root s)"
    using s2(3) assms(2) by (auto simp: fun_eq_iff ins_values_def subs_at_def)
  moreover have "name_of (in_root s2) = name_of (in_root s)"
    using assms(1) s2(2) by (cases "in_root s"; cases "in_root s2") (auto simp: trie_wf_def)
  ultimately show ?thesis
    using trie_ext [of Subscription_key "in_root s" "in_root s2"] assms(1,3) s2(1,2) by (simp add: trie_wf_def)
qed

theorem resubscribe_ignored_witness:
  "\<exists>s s'. do_subscribe Inner_default (ascii ''a/b'') sub_ab = Ok s \<and>
    do_subscribe s (ascii ''a/b'') (sub_ab\<lparr>subn_qos := ExactlyOnce\<rparr>) = Ok s' \<and> in_root s' = in_root s"
proof -
  obtain s where s: "do_subscribe Inner_default (ascii ''a/b'') sub_ab = Ok s" "trie_wf s"
    "\<And>p. lookup (in_root s) p = (if p = iter_topic_path (ascii ''a/b'')
        then ins_values Subscription_key sub_ab (subs_at Inner_default (ascii ''a/b'')) else lookup (in_root Inner_default) p)"
    by (rule do_subscribe_Ok [OF trie_wf_default, of "ascii ''a/b''" sub_ab]) blast
  let ?v = "sub_ab\<lparr>subn_qos := ExactlyOnce\<rparr>"
  obtain s' where s': "do_subscribe s (ascii ''a/b'') ?v = Ok s'" by (rule do_subscribe_Ok [OF s(2)])
  have "Subscription_key ?v = Subscription_key sub_ab" by (simp add: Subscription_key_def)
  then have "Subscription_key ?v \<in> set (map Subscription_key (subs_at s (ascii ''a/b'')))"
    using s(3) by (auto simp: subs_at_def ins_values_def)
  from resubscribe_ignored [OF s(2) this s'] s(1) s' show ?thesis by blast
qed

text \<open>
  C17. Threads take a snapshot of the trie, compute and store their result, in any order. In every schedule
  every trie that is ever stored is well-formed: sorted, without duplicates and without empty nodes.
\<close>

theorem trie_schedules:
  assumes "trie_exec evs Inner_default (\<lambda>_. None) = Ok s"
  shows "trie_wf s"
  using trie_exec_wf [OF assms trie_wf_default] by simp

theorem trie_schedules_witness:
  "\<exists>s. trie_exec [Load 0 (OpSubscribe (ascii ''a'') sub_ab), Load 1 (OpSubscribe (ascii ''b'') sub_ab), Store 1, Store 0]
     Inner_default (\<lambda>_. None) = Ok s \<and> trie_wf s"
proof -
  obtain s1 where s1: "do_subscribe Inner_default (ascii ''b'') sub_ab = Ok s1" by (rule do_subscribe_Ok [OF trie_wf_default])
  obtain s2 where s2: "do_subscribe Inner_default (ascii ''a'') sub_ab = Ok s2" by (rule do_subscribe_Ok [OF trie_wf_default])
  have run: "trie_exec [Load 0 (OpSubscribe (ascii ''a'') sub_ab), Load 1 (OpSubscribe (ascii ''b'') sub_ab), Store 1, Store 0]
     Inner_default (\<lambda>_. None) = Ok s2" using s1 s2 by (simp add: trie_apply_def)
  from run trie_schedules [OF run] show ?thesis by blast
qed


text \<open>
  C19. The lock is not held between the read and the write of an operation, and a lookup writes too: for its
  counters it stores the root that it read. So a lookup that starts before a subscription and ends
  after it undoes the subscription.
\<close>

theorem subscription_lost:
  assumes "trie_wf s"
  shows "\<exists>s'. trie_exec [Load 0 (OpMatch k), Load 1 (OpSubscribe f v), Store 1, Store 0] s (\<lambda>_. None) = Ok s' \<and>
    in_root s' = in_root s"
proof -
  obtain s1 where "do_subscribe s f v = Ok s1" by (rule do_subscribe_Ok [OF assms])
  moreover obtain s2 vs where "match_topic_name s k = Ok (s2, vs)" "in_root s2 = in_root s"
    by (rule match_topic_name_Ok [OF assms, of k])
  ultimately show ?thesis by (simp add: trie_apply_def)
qed

theorem subscription_lost_witness:
  "\<exists>s'. trie_exec [Load 0 (OpMatch (ascii ''x'')), Load 1 (OpSubscribe (ascii ''a'') sub_ab), Store 1, Store 0]
     Inner_default (\<lambda>_. None) = Ok s' \<and> in_root s' = Root []"
  using subscription_lost [OF trie_wf_default, of "ascii ''x''" "ascii ''a''" sub_ab] by (simp add: Inner_default_def)

text \<open>
  C20. The statistics count the filters that have subscriptions: the counter is right after every operation
  that returns, as long as it is below the maximum of its type.
\<close>

theorem topic_count:
  assumes "trie_wf s" and "counted s" and "card (topics s) < usize_MAX" and "trie_apply c s = Ok s'"
  shows "counted s'"
proof (cases c)
  case (OpSubscribe f v)
  then show ?thesis using do_subscribe_counted [OF assms(1-3)] assms(4) by (simp add: trie_apply_def)
next
  case (OpUnsubscribe f v)
  then show ?thesis using do_unsubscribe_counted [OF assms(1,2)] assms(4) by (simp add: trie_apply_def)
next
  case (OpMatch k)
  obtain s2 vs where "match_topic_name s k = Ok (s2, vs)" "in_root s2 = in_root s"
    "st_count (in_stats s2) = st_count (in_stats s)" by (rule match_topic_name_Ok [OF assms(1), of k])
  then show ?thesis using assms(2,4) OpMatch by (simp add: trie_apply_def counted_def topics_def)
qed

theorem topic_count_witness:
  "\<exists>s'. trie_apply (OpSubscribe (ascii ''a/b'') sub_ab) Inner_default = Ok s' \<and> counted s'"
proof -
  obtain s' where s': "do_subscribe Inner_default (ascii ''a/b'') sub_ab = Ok s'" by (rule do_subscribe_Ok [OF trie_wf_default])
  then have a: "trie_apply (OpSubscribe (ascii ''a/b'') sub_ab) Inner_default = Ok s'" by (simp add: trie_apply_def)
  have t: "topics (Inner_default :: Subscription Inner) = {}"
    by (simp add: topics_def Inner_default_def)
  then have "counted Inner_default" by (simp add: counted_def) (simp add: Inner_default_def Stats_default_def)
  with topic_count [OF trie_wf_default _ _ a] t a show ?thesis by (simp add: usize_MAX_def)
qed

text \<open>
  C21. \<open>RetainedTrie::match_topic_filter\<close> asserts that exactly one message was found; it panics when the
  filter matches no retained message or more than one.
\<close>

theorem retained_match_panics:
  assumes "retained_wf s"
  shows "panics (match_topic_filter s k) \<longleftrightarrow>
    length (select (\<lambda>p. trie_match p (iter_topic_path k)) (in_root s)) \<noteq> 1"
  using assms by (rule match_topic_filter_eq)

theorem retained_match_panics_witness: "panics (match_topic_filter Inner_default (ascii ''a''))"
proof -
  have "retained_wf Inner_default" by (simp add: retained_wf_def Inner_default_def)
  from retained_match_panics [OF this, of "ascii ''a''"] show ?thesis by (simp add: Inner_default_def select_def)
qed

section \<open>The lock\<close>

text \<open>
  C22. The spinlock, under every interleaving of the atomic operations of fewer than 2^30 threads: a thread
  that holds the write guard is alone, no reader and no other writer is inside, and none of the panics
  of the code is ever reached.
\<close>

theorem lock_exclusive:
  assumes "lock_reach n (w, pcs)" and "n < 2 ^ 30"
  shows "pcs t \<noteq> Panicked \<and> (pcs t = Writing \<longrightarrow> pcs u \<noteq> Reading \<and> (pcs u = Writing \<longrightarrow> u = t))"
proof -
  note i = lock_reach_inv [OF assms, unfolded lock_inv_def prod.case]
  have "pcs t \<noteq> Panicked" using i by (metis remembers.simps(4))
  moreover have "pcs u \<noteq> Reading" if "pcs t = Writing"
  proof -
    have "readers pcs = {}" using i that by (metis locked.simps(1))
    then show ?thesis by (auto simp: readers_def)
  qed
  moreover have "u = t" if "pcs t = Writing" "pcs u = Writing" using i that by (metis latched.simps(3))
  ultimately show ?thesis by blast
qed

theorem lock_exclusive_witness: "snd lock_new 0 \<noteq> Panicked"
  using lock_exclusive [of 1 "fst lock_new" "snd lock_new"] lock_reach.start [of 1] by simp

text \<open>
  C23. There is no deadlock: from every state that is reached, some continuation lets all threads finish and
  leaves the lock as it was when it was made.
\<close>

theorem lock_no_deadlock:
  assumes "lock_reach n s" and "n < 2 ^ 30"
  shows "(lock_step n)\<^sup>*\<^sup>* s lock_new"
  using lock_can_reset [of n "fst s" "snd s"] lock_reach_inv [OF assms] assms(2) by simp

theorem lock_no_deadlock_witness: "(lock_step 1)\<^sup>*\<^sup>* (0, (\<lambda>_. Idle)(0 := ReadTop)) lock_new"
proof -
  have "lock_step 1 lock_new (0, (\<lambda>_. Idle)(0 := ReadTop))"
    unfolding lock_new_def by (rule lock_step.step) (simp_all add: thread_step.read_call)
  from lock_no_deadlock [OF lock_reach.more [OF lock_reach.start this]] show ?thesis by simp
qed

section \<open>The timer\<close>

text \<open>
  C24. \<open>Timer::add_timeout\<close> never panics on a list that its operations made. It leaves every deadline as it
  was and inserts the new one in order, behind equal ones: at the instant of the timer plus the seconds
  asked for, less the time that has passed since that instant (the source subtracts it, so that an entry
  added late is due early).
\<close>

theorem timer_insert:
  assumes "timer_wf t"
  shows "\<exists>t'. Timer_add_timeout now secs v t = Ok t' \<and> timer_wf t' \<and> sorted (map fst (due t')) \<and>
    due t' = put_due (tm_instant t + ((secs * 1000000) mod 2 ^ 64 - elapsed_micros now t)) v (due t)"
proof -
  obtain n where n: "tm_head t = Head n" "entries_only n" using assms by (auto simp: timer_wf_def)
  obtain n' where "add_loop ((secs * 1000000) mod 2 ^ 64 - elapsed_micros now t) v n = Ok n'" "entries_only n'"
    "due_from (tm_instant t) n' =
      put_due (tm_instant t + ((secs * 1000000) mod 2 ^ 64 - elapsed_micros now t)) v (due_from (tm_instant t) n)"
    using add_loop_due [OF n(2)] by blast
  with n show ?thesis
    by (simp add: Timer_add_timeout_def Let_def timer_wf_def due_def) (metis due_sorted)
qed

theorem timer_insert_witness:
  "\<exists>t'. Timer_add_timeout 0 5 CHR ''a'' (Timer_default 0) = Ok t' \<and> due t' = [(5000000, CHR ''a'')]"
  using timer_insert [of "Timer_default 0" 0 5 "CHR ''a''"]
  by (auto simp: timer_wf_def Timer_default_def due_def put_due_def elapsed_micros_def)



section \<open>Sockets and sessions\<close>

text \<open>A configuration, a connection on which a PINGREQ arrives, its socket and the thread that owns it.\<close>

definition config1 :: Config where
  "config1 = Config_default 1 (ConfigNode_default [] 1)"

definition client1 :: ClientID where
  "client1 = ClientID (ascii ''c'')"

definition conn1 :: conn where
  "conn1 = \<lparr>tcp_input = [0xC0, 0], tcp_chunk = (\<lambda>_. 2), tcp_fault = (\<lambda>_. None), tcp_write = (\<lambda>_ bs. WriteOk (length bs)),
     tcp_flush = (\<lambda>_. True), tcp_now = (\<lambda>_. 0), tcp_calls = 0, tcp_sent = []\<rparr>"

definition socket1 :: Socket where
  "socket1 = new_socket config1 \<lparr>aa_client_id = client1, aa_conn = conn1, aa_upstream = fst (pkt_channel 0 4),
     aa_downstream = snd (pkt_channel 0 4), aa_max_packet_size = 64\<rparr>"



text \<open>A session of the client, and a shard that hosts it and knows of a subscription.\<close>

definition active1 :: ActiveState where
  "active1 = (case ses_state (start_active 0 client1 0 (fst (pkt_channel 0 4)) (snd (pkt_channel 0 4)) config1
     (Connect_default (ascii ''c''))) of Active a \<Rightarrow> a)"

definition session1 :: Session where
  "session1 = \<lparr>ses_client_id = client1, ses_shard_id = 0, ses_config = config1, ses_state = Active active1\<rparr>"

definition trie1 :: "Subscription Inner" where
  "trie1 = \<lparr>in_stats = Stats_default\<lparr>st_count := 1\<rparr>, in_root = Root [Child [0x61] [Child [0x62] [] [sub_ab]] []]\<rparr>"

definition active_loop1 :: ActiveLoop where
  "active_loop1 = \<lparr>al_cluster = \<lparr>tx_receives = True, tx_waker = None, tx_sent = []\<rparr>, al_miot = Some [client1],
     al_flusher = \<lparr>tx_receives = True, tx_waker = None, tx_sent = []\<rparr>, al_sessions = [(client1, session1)],
     al_inp_seqno = 1, al_shard_back_log = [], al_index = [],
     al_ack_timestamps = [\<lparr>ts_shard_id = subn_shard_id sub_ab, ts_last_routed = 0, ts_last_acked = 0\<rparr>],
     al_shard_queues = [], al_topic_filters = trie1, al_retained_messages = Inner_default,
     al_stats = \<lparr>sst_n_events = 0, sst_n_requests = 0\<rparr>\<rparr>"

definition shard1 :: Shard where
  "shard1 = \<lparr>sh_shard_id = 0, sh_config = config1, sh_inner = MainActive active_loop1\<rparr>"

definition publish1 :: Publish where
  "publish1 = \<lparr>pub_retain = False, pub_qos = AtMostOnce, pub_duplicate = False,
     pub_topic_name = TopicName (ascii ''a/b''), pub_packet_id = None, pub_properties = None, pub_payload = Some [1]\<rparr>"





text \<open>
  C27. \<open>write_packets\<close> returns. Unless it reports that the connection is lost, it keeps an invariant of the
  outgoing stream: the bytes that the connection has taken, followed by those that the writer still holds
  and the encodings of the packets that wait for it, are the same before and after. No byte is lost,
  sent twice or out of order.
\<close>

theorem socket_writes:
  assumes "winv (wt_pw (so_wt s))"
  shows "\<exists>out. write_packets config s = Some out \<and> (\<forall>s' st stats. out = Ok (s', st, stats) \<longrightarrow>
    queue_values st = [] \<and> (st = QDisconnected [] \<or>
      winv (wt_pw (so_wt s')) \<and> outgoing s' (queued s') = outgoing s (queued s)))"
  using write_packets_loop_returns [of config s SockStats_default] write_packets_loop_sends [OF _ assms]
  by (metis write_packets_def)

theorem socket_writes_witness:
  "\<exists>out. write_packets config1 socket1 = Some out"
proof -
  have "winv (wt_pw (so_wt socket1))" by (simp add: socket1_def new_socket_def MQTTWrite_new_def)
  from socket_writes [OF this] show ?thesis by blast
qed





section \<open>Routing\<close>





section \<open>Shards\<close>

text \<open>
  C32. \<open>Shard::route_packets\<close> replaces the state of the shard by \<open>Init\<close> while it runs the sessions, and the
  handlers of SUBSCRIBE and PUBLISH ask the shard for that state. So the thread of the shard panics as
  soon as the first packet that waits in any of its sessions is a SUBSCRIBE with at least one filter, or
  a PUBLISH of quality of service 0 that is not retained.
\<close>

theorem route_packets_panics:
  assumes "sh_inner sh = MainActive l" and "(cid, ses) \<in> set (al_sessions l)" and "ses_state ses = Active a"
    and "ch_queue (pr_rx (ac_session_rx a)) = pkt # pkts"
    and "(\<exists>p. pkt = Packet.Subscribe p \<and> sub_filters p \<noteq> []) \<or>
      (\<exists>p. pkt = Packet.Publish p \<and> pub_qos p = AtMostOnce \<and> \<not> pub_retain p)"
  shows "panics (Shard_route_packets now sh)"
proof -
  have "asks_first ses" using assms(3-5) by (auto simp: asks_first_def asks_shard_def)
  from route_packets_stuck [OF assms(1,2) this] show ?thesis by simp
qed

theorem route_packets_panics_witness:
  "panics (Shard_route_packets 0 (set_loop shard1 (active_loop1\<lparr>al_sessions :=
     [(client1, session1\<lparr>ses_state := Active (active1\<lparr>ac_session_rx :=
        \<lparr>pr_pkt_batch_size = 4, pr_rx = (sync_channel 4)\<lparr>ch_queue := [Packet.Publish publish1]\<rparr>\<rparr>\<rparr>)\<rparr>)]\<rparr>)))"
proof -
  let ?a = "active1\<lparr>ac_session_rx := \<lparr>pr_pkt_batch_size = 4,
    pr_rx = (sync_channel 4)\<lparr>ch_queue := [Packet.Publish publish1]\<rparr>\<rparr>\<rparr>"
  let ?ses = "session1\<lparr>ses_state := Active ?a\<rparr>"
  let ?l = "active_loop1\<lparr>al_sessions := [(client1, ?ses)]\<rparr>"
  have "\<not> pub_retain publish1" "pub_qos publish1 = AtMostOnce" by (simp_all add: publish1_def)
  then show ?thesis
    using route_packets_panics [of "set_loop shard1 ?l" ?l client1 ?ses ?a "Packet.Publish publish1" "[]" 0] by simp
qed



section \<open>The cluster and the client\<close>

text \<open>A cluster of one shard, and a message that expires.\<close>

definition cluster_loop1 :: ClusterLoop where
  "cluster_loop1 = \<lparr>cl_topology = [], cl_listener = True, cl_flusher = True, cl_ticker = True,
     cl_active_shards = [(0, \<lparr>tx_receives = True, tx_waker = None, tx_sent = []\<rparr>)],
     cl_topic_filters = Inner_default, cl_retained_messages = Inner_default,
     cl_stats = \<lparr>cst_n_events = 0, cst_n_requests = 0\<rparr>\<rparr>"

definition cluster1 :: Cluster where
  "cluster1 = \<lparr>cu_name = ascii ''mqttd'', cu_config = config1, cu_inner = CMain cluster_loop1\<rparr>"

definition rt1 :: Rt where
  "rt1 = \<lparr>rt_retain_timer = Timer_default 0, rt_retain_topics = [], rt_retains = []\<rparr>"

definition retained1 :: Publish where
  "retained1 = publish1\<lparr>pub_retain := True,
     pub_properties := Some (PublishProperties_default\<lparr>pp_message_expiry_interval := Some 10\<rparr>)\<rparr>"

text \<open>A client, and connections that answer its CONNECT packet and that move one byte at a time.\<close>

definition client_a :: Client where
  "client_a = \<lparr>ct_client_id = client1, ct_protocol_version = MqttProtocol.V5, ct_read_timeout = None, ct_write_timeout = None,
     ct_max_packet_size = 256, ct_connopts = \<lparr>co_will_qos = None, co_will_retain = None, co_keep_alive = 0\<rparr>,
     ct_connect_properties = None, ct_connect_payload = ConnectPayload_default (ascii ''c''),
     ct_connack = ConnAck_default, ct_last_rcvd = 0, ct_last_sent = 0, ct_cio = IONone\<rparr>"

definition conn_a :: conn where
  "conn_a = conn1\<lparr>tcp_input := [0x20, 3, 0, 0, 0], tcp_chunk := (\<lambda>_. 5)\<rparr>"


definition connect_a :: bytes where
  "connect_a = [0x10, 14, 0, 4, 0x4D, 0x51, 0x54, 0x54, 5, 2, 0, 0, 0, 0, 1, 0x63]"

lemma connect_a_sent: "sent 256 (Packet.Connect (to_connect True client_a)) (Large connect_a)"
proof -
  have "Packet_decode connect_a = Ok (Packet.Connect (to_connect True client_a), 16)" by code_simp
  moreover have "will_sendable (Packet.Connect (to_connect True client_a))" by (code_simp, simp)
  ultimately have "Packet_wf (Packet.Connect (to_connect True client_a))" by (rule Packet_decode_wf)
  moreover have "Packet_encode (Packet.Connect (to_connect True client_a)) = Ok (Large connect_a)" by code_simp
  ultimately show ?thesis by (simp add: sent_def connect_a_def)
qed

lemma connack_a_sent: "sent 256 (Packet.ConnAck ConnAck_default) (Large [0x20, 3, 0, 0, 0])"
proof -
  have "Packet_decode [0x20, 3, 0, 0, 0] = Ok (Packet.ConnAck ConnAck_default, 5)" by code_simp
  moreover have "will_sendable (Packet.ConnAck ConnAck_default)" by code_simp
  ultimately have "Packet_wf (Packet.ConnAck ConnAck_default)" by (rule Packet_decode_wf)
  moreover have "Packet_encode (Packet.ConnAck ConnAck_default) = Ok (Large [0x20, 3, 0, 0, 0])" by code_simp
  ultimately show ?thesis by (simp add: sent_def)
qed

text \<open>
  C34. The thread of the cluster keeps its three records of retained messages consistent. Setting a message
  always succeeds, replaces the message of its topic and touches no other. Expiry never panics, and the
  topics that lose their message are those whose own entry the timer has given up. Resetting a topic
  panics exactly when it has no message but lies on the path to one that has; otherwise it removes the
  message of this topic and no other.
\<close>

theorem retained_store:
  assumes "cu_inner c = CMain l" and "retain_inv (cl_retained_messages l) rt"
  shows "(\<exists>trie rt'. handle_set_retain_topic now p c rt = Ok (set_cluster c (l\<lparr>cl_retained_messages := trie\<rparr>), rt') \<and>
      retain_inv trie rt' \<and>
      (\<forall>k. retained_at trie k = (if k = pub_topic_name p then [p] else retained_at (cl_retained_messages l) k))) \<and>
    (\<exists>trie rt'. retain_expires now c rt = Ok (set_cluster c (l\<lparr>cl_retained_messages := trie\<rparr>), rt') \<and>
      retain_inv trie rt' \<and>
      (\<forall>k. retained_at trie k = retained_at (cl_retained_messages l) k \<or> (retained_at trie k = [] \<and>
        (\<exists>i \<in> set (timer_values (rt_retain_timer rt)) - set (timer_values (rt_retain_timer rt')).
           bt_get (rt_retain_topics rt) k = Some i)))) \<and>
    (if retained_at (cl_retained_messages l) name = [] \<and>
        node_at (in_root (cl_retained_messages l)) (iter_topic_path (topic_name name)) \<noteq> None
     then panics (handle_reset_retain_topic name c rt)
     else \<exists>trie rt'. handle_reset_retain_topic name c rt = Ok (set_cluster c (l\<lparr>cl_retained_messages := trie\<rparr>), rt') \<and>
       retain_inv trie rt' \<and>
       (\<forall>k. retained_at trie k = (if k = name then [] else retained_at (cl_retained_messages l) k)))"
proof (intro conjI)
  show "\<exists>trie rt'. handle_set_retain_topic now p c rt = Ok (set_cluster c (l\<lparr>cl_retained_messages := trie\<rparr>), rt') \<and>
      retain_inv trie rt' \<and>
      (\<forall>k. retained_at trie k = (if k = pub_topic_name p then [p] else retained_at (cl_retained_messages l) k))"
    by (rule set_retain_Ok [OF assms, of now p]) (auto simp: topic_path_eq)
next
  show "\<exists>trie rt'. retain_expires now c rt = Ok (set_cluster c (l\<lparr>cl_retained_messages := trie\<rparr>), rt') \<and>
      retain_inv trie rt' \<and>
      (\<forall>k. retained_at trie k = retained_at (cl_retained_messages l) k \<or> (retained_at trie k = [] \<and>
        (\<exists>i \<in> set (timer_values (rt_retain_timer rt)) - set (timer_values (rt_retain_timer rt')).
           bt_get (rt_retain_topics rt) k = Some i)))"
    by (rule retain_expires_Ok [OF assms, of now]) blast
next
  let ?bad = "retained_at (cl_retained_messages l) name = [] \<and>
    node_at (in_root (cl_retained_messages l)) (iter_topic_path (topic_name name)) \<noteq> None"
  show "if ?bad then panics (handle_reset_retain_topic name c rt)
     else \<exists>trie rt'. handle_reset_retain_topic name c rt = Ok (set_cluster c (l\<lparr>cl_retained_messages := trie\<rparr>), rt') \<and>
       retain_inv trie rt' \<and>
       (\<forall>k. retained_at trie k = (if k = name then [] else retained_at (cl_retained_messages l) k))"
  proof (cases ?bad)
    case True
    then show ?thesis using reset_retain_panics [OF assms, of name] by simp
  next
    case False
    then have "retained_at (cl_retained_messages l) name \<noteq> [] \<or>
      node_at (in_root (cl_retained_messages l)) (iter_topic_path (topic_name name)) = None" by blast
    from reset_retain_Ok [OF assms this] obtain trie rt' where
      "handle_reset_retain_topic name c rt = Ok (set_cluster c (l\<lparr>cl_retained_messages := trie\<rparr>), rt')" "retain_inv trie rt'"
      "\<And>q. lookup (in_root trie) q =
        (if q = iter_topic_path (topic_name name) then [] else lookup (in_root (cl_retained_messages l)) q)" by blast
    with False show ?thesis by (simp only: if_False) (auto simp: topic_path_eq)
  qed
qed

theorem retained_store_witness:
  "\<exists>trie rt'. handle_set_retain_topic 0 retained1 cluster1 rt1 =
     Ok (set_cluster cluster1 (cluster_loop1\<lparr>cl_retained_messages := trie\<rparr>), rt') \<and> retained_at trie (pub_topic_name retained1) = [retained1]"
proof -
  have "cu_inner cluster1 = CMain cluster_loop1" "retain_inv (cl_retained_messages cluster_loop1) rt1"
    by (simp_all add: cluster1_def cluster_loop1_def rt1_def retain_inv_start)
  from conjunct1 [OF retained_store [OF this, of 0 retained1]] obtain trie rt' where
    "handle_set_retain_topic 0 retained1 cluster1 rt1 = Ok (set_cluster cluster1 (cluster_loop1\<lparr>cl_retained_messages := trie\<rparr>), rt')"
    "\<forall>k. retained_at trie k = (if k = pub_topic_name retained1 then [retained1] else retained_at (cl_retained_messages cluster_loop1) k)"
    by blast
  then show ?thesis by (intro exI [of _ trie] exI [of _ rt']) simp
qed

text \<open>
  C35. A configuration that \<open>Cluster::from_config\<close> accepts has at least one shard, and \<open>session_partition\<close> then
  names one of the shards of this node for every client and every hash function. So the arm of
  \<open>handle_add_connection\<close> for other nodes, which is not implemented, is not reached: the CONNECT packet is
  sent to that shard if it still receives, and to no other.
\<close>

theorem connection_to_shard:
  fixes h :: "bytes \<Rightarrow> 128 word"
  assumes "Cluster_from_config (cu_config c) = Ok c0" and "cu_inner c = CMain l" and "bt_wf (cl_active_shards l)"
    and "\<forall>s < cfg_num_shards (cu_config c). bt_get (cl_active_shards l) s \<noteq> None"
    and "shard_id = session_partition h (client_id (cpl_client_id (con_payload connect))) (cfg_num_shards (cu_config c))"
  shows "shard_id < cfg_num_shards (cu_config c) \<and>
    (\<exists>tx tx' shards. cluster_add_connection h connect True resp c = Ok (set_cluster c (l\<lparr>cl_active_shards := shards\<rparr>)) \<and>
      bt_get (cl_active_shards l) shard_id = Some tx \<and>
      bt_get shards = (bt_get (cl_active_shards l))(shard_id \<mapsto> tx') \<and>
      tx_sent tx' = tx_sent tx @ (if tx_receives tx then [connect] else []))"
proof -
  have n: "cfg_num_shards (cu_config c) \<noteq> 0" by (rule from_config_Ok [OF assms(1)])
  have less: "shard_id < cfg_num_shards (cu_config c)" unfolding assms(5) by (rule session_partition_less [OF n])
  show ?thesis
  proof (rule add_connection_Ok [OF assms(2) n assms(3) assms(4) [rule_format], where h = h and connect = connect and resp = resp])
    fix tx shards
    assume "bt_get (cl_active_shards l) (session_partition h (client_id (cpl_client_id (con_payload connect))) (cfg_num_shards (cu_config c))) = Some tx"
      and "cluster_add_connection h connect True resp c = Ok (set_cluster c (l\<lparr>cl_active_shards := shards\<rparr>))"
      and "bt_get shards = (bt_get (cl_active_shards l))(session_partition h (client_id (cpl_client_id (con_payload connect)))
        (cfg_num_shards (cu_config c)) \<mapsto> fst (Tx_request tx connect resp))"
    then show ?thesis using less Tx_request_sent [of tx connect resp] unfolding assms(5) [symmetric]
      by (intro conjI exI [of _ tx] exI [of _ "fst (Tx_request tx connect resp)"] exI [of _ shards])
  qed
qed

theorem connection_to_shard_witness:
  "\<exists>shards. cluster_add_connection (\<lambda>_. 7) (Connect_default (ascii ''c'')) True (Some (Ok ())) cluster1 =
     Ok (set_cluster cluster1 (cluster_loop1\<lparr>cl_active_shards := shards\<rparr>))"
proof -
  have n: "cfg_num_shards (cu_config cluster1) = 1" by (simp add: cluster1_def config1_def Config_default_def)
  have a: "Cluster_from_config (cu_config cluster1) = Ok (cluster1\<lparr>cu_inner := CInit\<rparr>)"
    by (simp add: Cluster_from_config_def is_power_of_2_def n)
       (simp add: cluster1_def config1_def Config_default_def)
  have b: "cu_inner cluster1 = CMain cluster_loop1" "bt_wf (cl_active_shards cluster_loop1)"
    by (simp_all add: cluster1_def cluster_loop1_def)
  have c: "\<forall>s < cfg_num_shards (cu_config cluster1). bt_get (cl_active_shards cluster_loop1) s \<noteq> None"
  proof (intro allI impI)
    fix s
    assume "s < cfg_num_shards (cu_config cluster1)"
    then have "unat s = 0" unfolding n word_less_nat_alt by simp
    then have "s = 0" by (simp add: unat_eq_0)
    then show "bt_get (cl_active_shards cluster_loop1) s \<noteq> None" by (simp add: cluster_loop1_def bt_get_def)
  qed
  from connection_to_shard [OF a b c refl, of "\<lambda>_. 7" "Connect_default (ascii ''c'')" "Some (Ok ())"] show ?thesis
    by (elim conjE exE) (rule exI)
qed


text \<open>
  C37. The handshake succeeds on a stream that takes the CONNECT packet in one write and has the encoding of a
  CONNACK to read, at least five bytes of it at first and all the rest at the second read: exactly the
  CONNECT packet has been sent, the CONNACK is returned in its normal form, and the reader and the writer
  are ready for the next packet.
\<close>

theorem client_handshake:
  assumes "mx = unat (Connect_max_packet_size con (ct_max_packet_size c))"
    and "sent mx (Packet.Connect con) cb" and "sent mx (Packet.ConnAck ack) ab"
    and "tcp_write sock (tcp_calls sock) (as_ref cb) = WriteOk (length (as_ref cb))" and "tcp_input sock = as_ref ab"
    and "tcp_fault sock (Suc (tcp_calls sock)) = None" and "5 \<le> tcp_chunk sock (Suc (tcp_calls sock))"
    and "tcp_fault sock (Suc (Suc (tcp_calls sock))) = None"
    and "length (as_ref ab) \<le> tcp_chunk sock (Suc (Suc (tcp_calls sock)))"
  shows "\<exists>sock'. ClientIO_handshake c con sock blocking =
      Some (Inr ((if blocking then Blocking else NoBlock) sock' (RInit [] mx) (WFin (as_ref cb) mx), ConnAck_normalize ack)) \<and>
    tcp_sent sock' = tcp_sent sock @ as_ref cb \<and> tcp_input sock' = []"
  unfolding assms(1) by (rule handshake_Ok) (use assms in simp_all)

theorem client_handshake_witness:
  "\<exists>sock'. ClientIO_handshake client_a (to_connect True client_a) conn_a True =
     Some (Inr (Blocking sock' (RInit [] 256) (WFin connect_a 256), ConnAck_normalize ConnAck_default))"
proof -
  have mx: "256 = unat (Connect_max_packet_size (to_connect True client_a) (ct_max_packet_size client_a))" by code_simp
  have "tcp_write conn_a (tcp_calls conn_a) (as_ref (Large connect_a)) = WriteOk (length (as_ref (Large connect_a)))"
    "tcp_input conn_a = as_ref (Large [0x20, 3, 0, 0, 0])"
    "tcp_fault conn_a (Suc (tcp_calls conn_a)) = None" "5 \<le> tcp_chunk conn_a (Suc (tcp_calls conn_a))"
    "tcp_fault conn_a (Suc (Suc (tcp_calls conn_a))) = None"
    "length (as_ref (Large [0x20, 3, 0, 0, 0])) \<le> tcp_chunk conn_a (Suc (Suc (tcp_calls conn_a)))"
    by (simp_all add: conn_a_def conn1_def)
  from client_handshake [OF mx connect_a_sent connack_a_sent this, of True] show ?thesis by auto
qed



section \<open>The threads at both ends of a connection\<close>



definition socket_f :: Socket where
  "socket_f = socket1\<lparr>so_wt := (so_wt socket1)\<lparr>wt_miot_rx := (wt_miot_rx (so_wt socket1))\<lparr>
     pr_rx := (pr_rx (wt_miot_rx (so_wt socket1)))\<lparr>ch_queue := [Packet.PingResp], ch_tx := False\<rparr>\<rparr>\<rparr>\<rparr>"

lemma Disconnect_new_encodes:
  "Disconnect_encode (Disconnect_new code None) = Ok (Large [0xE0, 2, DisconnReasonCode_as_u8 code, 0])"
proof -
  have "finish_packet (FixedHeader_new PacketType.Disconnect) [c, 0] = Ok (Large [0xE0, 2, c, 0])" for c :: u8
    by code_simp
  moreover have "enc_opt_props [c] DisconnProperties_encode None = Ok [c, 0]" for c :: u8 by code_simp
  moreover have "extend_slice [] (u8_encode c) = Ok [c]" for c :: u8 by code_simp
  ultimately show ?thesis by (simp add: Disconnect_encode_def)
qed



text \<open>
  C40. Closing a connection. When the session has dropped its end of the queue and the connection takes all it
  is given, the flusher writes what was pending and all packets that were queued, in order, and ends; it
  panics only when the code of the error is none of DISCONNECT. But as long as the session keeps its end
  and nothing is queued, the loop turns for ever: the timeout counts only for a connection that blocks.
\<close>

theorem flush_connection:
  "(eager (so_conn s) \<and> winv (wt_pw (so_wt s)) \<and> \<not> ch_tx (pr_rx (wt_miot_rx (so_wt s))) \<and>
    (\<forall>p\<in>set (queued s). \<not> panics (Packet_encode p)) \<longrightarrow>
    (\<exists>s' stats. flush_conn_loop config (time_now s + unat (cfg_sock_mqtt_flush_timeout config) * 1000000000) s SockStats_default =
         Some (Ok (s', stats)) \<and> queued s' = [] \<and> tcp_sent (so_conn s') = outgoing s (queued s) \<and>
       Flusher_handle_flush_connection config s e True =
         (case (case e of Some x \<Rightarrow> DisconnReasonCode_try_from (ReasonCode_as_u8 (Error_code x))
                | None \<Rightarrow> Ok DisconnReasonCode.NormalDisconnect) of
            Inl _ \<Rightarrow> Some panic
          | Inr _ \<Rightarrow> Some (Ok stats)))) \<and>
   (quiet s \<longrightarrow> Flusher_handle_flush_connection config s e True = None)"
proof (intro conjI impI, elim conjE)
  let ?t = "time_now s + unat (cfg_sock_mqtt_flush_timeout config) * 1000000000"
  assume h: "eager (so_conn s)" "winv (wt_pw (so_wt s))" "\<not> ch_tx (pr_rx (wt_miot_rx (so_wt s)))"
    "\<forall>p\<in>set (queued s). \<not> panics (Packet_encode p)"
  from flush_conn_eager [OF this, of config ?t SockStats_default] obtain s' stats
    where l: "flush_conn_loop config ?t s SockStats_default = Some (Ok (s', stats))" "eager (so_conn s')"
      "queued s' = []" "tcp_sent (so_conn s') = outgoing s (queued s)" by blast
  have "send_disconnect (\<lambda>i. tcp_write (so_conn s') (tcp_calls (so_conn s') + i)) now code t mx = Some (Ok ())" for now code t mx
    using l(2) by (simp add: send_disconnect_eq [OF Disconnect_new_encodes] send_disconnect_eager eager_def)
  with l show "\<exists>s' stats. flush_conn_loop config ?t s SockStats_default = Some (Ok (s', stats)) \<and>
      queued s' = [] \<and> tcp_sent (so_conn s') = outgoing s (queued s) \<and>
      Flusher_handle_flush_connection config s e True =
        (case (case e of Some x \<Rightarrow> DisconnReasonCode_try_from (ReasonCode_as_u8 (Error_code x))
               | None \<Rightarrow> Ok DisconnReasonCode.NormalDisconnect) of
           Inl _ \<Rightarrow> Some panic
         | Inr _ \<Rightarrow> Some (Ok stats))"
    by (simp add: Flusher_handle_flush_connection_def Let_def split: sum.split)
next
  assume "quiet s"
  then show "Flusher_handle_flush_connection config s e True = None"
    by (simp add: Flusher_handle_flush_connection_def flush_conn_spins)
qed

theorem flush_connection_witness:
  "(\<exists>stats. Flusher_handle_flush_connection config1 socket_f None True = Some (Ok stats)) \<and>
   outgoing socket_f (queued socket_f) = [0xD0, 0] \<and>
   Flusher_handle_flush_connection config1 socket1 None True = None"
proof -
  have "queued socket_f = [Packet.PingResp]" by code_simp
  moreover have "Packet_encode Packet.PingResp = Ok (Small ([0xD0, 0] @ replicate 30 0) 2)" by code_simp
  moreover have "eager (so_conn socket_f)" "wt_pw (so_wt socket_f) = WInit [] 64" "\<not> ch_tx (pr_rx (wt_miot_rx (so_wt socket_f)))"
    by (simp_all add: eager_def socket_f_def socket1_def new_socket_def conn1_def MQTTWrite_new_def)
  moreover have "outgoing socket_f [Packet.PingResp] = [0xD0, 0]" by code_simp
  moreover have "quiet socket1" by code_simp
  ultimately show ?thesis using flush_connection [of socket_f config1 None] flush_connection [of socket1 config1 None]
    by auto
qed

end
